(* ===== verification/Prelude.thy ===== *)
theory Prelude
  imports Complex_Main "HOL-Library.Word"
begin

unbundle bit_operations_syntax

text \<open>
  The prelude of the development: the names of the machine types the Go sources use, the
  errors the erasure-coding library returns, and the generic facts on lists, sums and words
  that several components share. A Go function that returns \<open>(T, error)\<close> is a function
  into \<open>rs_error + T\<close>; a panic of the source (a run-time panic such as an index out of
  range, or an explicit \<open>panic(...)\<close>) is the value \<open>Inl (GoPanic s)\<close>, and a loop of the
  source that would not end is the value \<open>Inl GoNoReturn\<close>.
\<close>

type_synonym byte = "8 word"
type_synonym bytes = "byte list"

datatype rs_error =
    errInvalidRowSize
  | errInvalidColSize
  | errColSizeMismatch
  | errMulSize nat nat
  | errMatrixSize
  | errSingular
  | errNotSquare
  | errAlreadySet
  | ErrInvShardNum
  | ErrMaxShardNum
  | ErrTooFewShards
  | ErrInvalidInput
  | ErrShardNoData
  | ErrShardSize
  | ErrShortData
  | ErrReconstructRequired
  | ErrReconstructMismatch
  | errInternal
  | errMatrixRows
  | errMatrixCols
  | StreamReadError rs_error nat
  | StreamWriteError rs_error nat
  | IoError string
  | GoPanic string
  | GoNoReturn

type_synonym 'a result = "rs_error + 'a"

named_theorems gf_simps \<open>the field laws of the byte arithmetic\<close>
named_theorems mat_simps \<open>shapes of matrices and their entries\<close>
named_theorems store_simps \<open>reads after writes on the metadata stores\<close>

section \<open>Results\<close>

definition bind_res :: "('e + 'a) \<Rightarrow> ('a \<Rightarrow> 'e + 'b) \<Rightarrow> 'e + 'b" where
  "bind_res r f = (case r of Inl e \<Rightarrow> Inl e | Inr a \<Rightarrow> f a)"

lemma bind_res_simps [simp]:
  "bind_res (Inl e) f = Inl e"
  "bind_res (Inr a) f = f a"
  by (simp_all add: bind_res_def)

lemma bind_res_Inr:
  "bind_res r f = Inr b \<longleftrightarrow> (\<exists>a. r = Inr a \<and> f a = Inr b)"
  by (cases r) simp_all

lemma bind_res_split:
  "P (bind_res r f) \<longleftrightarrow> (\<forall>e. r = Inl e \<longrightarrow> P (Inl e)) \<and> (\<forall>a. r = Inr a \<longrightarrow> P (f a))"
  by (cases r) simp_all

section \<open>Lists\<close>

lemma list_all_zip_tl_nth:
  assumes "list_all (\<lambda>(a, b). R a b) (zip xs (tl xs))" and "Suc i < length xs"
  shows "R (xs ! i) (xs ! Suc i)"
proof -
  have "(xs ! i, tl xs ! i) \<in> set (zip xs (tl xs))"
    using assms(2) by (force simp: set_zip)
  then have "R (xs ! i) (tl xs ! i)"
    using assms(1) by (auto simp: list_all_iff)
  then show ?thesis
    using assms(2) by (simp add: nth_tl)
qed

lemma map_eq_nthD: "map f xs = map g ys \<Longrightarrow> i < length xs \<Longrightarrow> f (xs ! i) = g (ys ! i)"
  by (metis length_map nth_map)

lemma map2_map_upt:
  "length xs = n \<Longrightarrow> length ys = n \<Longrightarrow> map2 f xs ys = map (\<lambda>i. f (xs ! i) (ys ! i)) [0..<n]"
  by (simp add: list_eq_iff_nth_eq)

lemma map_nth_upt: "map (\<lambda>i. f (xs ! i)) [0..<length xs] = map f xs"
  by (rule nth_equalityI) simp_all

lemma length_concat_const: "(\<And>x. x \<in> set xs \<Longrightarrow> length x = n) \<Longrightarrow> length (concat xs) = length xs * n"
  by (induction xs) auto

text \<open>A Go slice expression \<open>xs[lo:hi]\<close>, and the effect on \<open>xs\<close> of writing through it.\<close>

definition slice :: "nat \<Rightarrow> nat \<Rightarrow> 'a list \<Rightarrow> 'a list" where
  "slice lo hi xs = take (hi - lo) (drop lo xs)"

definition put_slice :: "nat \<Rightarrow> nat \<Rightarrow> 'a list \<Rightarrow> 'a list \<Rightarrow> 'a list" where
  "put_slice lo hi ys xs = take lo xs @ ys @ drop hi xs"

lemma length_slice [simp]: "hi \<le> length xs \<Longrightarrow> length (slice lo hi xs) = hi - lo"
  by (simp add: slice_def)

lemma nth_slice: "i < hi - lo \<Longrightarrow> hi \<le> length xs \<Longrightarrow> slice lo hi xs ! i = xs ! (lo + i)"
  by (simp add: slice_def)

lemma length_put_slice [simp]:
  "lo \<le> hi \<Longrightarrow> hi \<le> length xs \<Longrightarrow> length ys = hi - lo \<Longrightarrow> length (put_slice lo hi ys xs) = length xs"
  by (simp add: put_slice_def)

lemma nth_put_slice:
  "lo \<le> hi \<Longrightarrow> hi \<le> length xs \<Longrightarrow> length ys = hi - lo \<Longrightarrow> k < length xs \<Longrightarrow>
     put_slice lo hi ys xs ! k = (if lo \<le> k \<and> k < hi then ys ! (k - lo) else xs ! k)"
  by (auto simp: put_slice_def nth_append min_def)

text \<open>All interleavings of several sequences of steps, each sequence in its own order.\<close>

primrec interleavings :: "'a list list \<Rightarrow> 'a list set" where
  "interleavings [] = {[]}"
| "interleavings (xs # xss) = (\<Union>ys \<in> interleavings xss. shuffles xs ys)"

lemma concat_interleavings: "concat xss \<in> interleavings xss"
proof (induction xss)
  case (Cons xs xss)
  have "xs @ ys \<in> shuffles xs ys" for ys :: "'a list"
    by (induction xs) (auto intro: Cons_in_shuffles_leftI)
  with Cons show ?case by auto
qed simp

lemma interleavings_set: "ys \<in> interleavings xss \<Longrightarrow> set ys = (\<Union>xs \<in> set xss. set xs)"
  by (induction xss arbitrary: ys) (auto simp: set_shuffles)

text \<open>When only one of the sequences has elements with \<open>P\<close>, every interleaving runs them in the
  order of that sequence.\<close>

lemma filter_interleavings:
  assumes "ys \<in> interleavings xss" "j < length xss"
    and "\<And>i. i < length xss \<Longrightarrow> i \<noteq> j \<Longrightarrow> filter P (xss ! i) = []"
  shows "filter P ys = filter P (xss ! j)"
  using assms
proof (induction xss arbitrary: ys j)
  case (Cons xs xss)
  then obtain zs where zs: "zs \<in> interleavings xss" "ys \<in> shuffles xs zs" by auto
  then have f: "filter P ys \<in> shuffles (filter P xs) (filter P zs)"
    using filter_shuffles [of P xs zs] by blast
  show ?case
  proof (cases j)
    case 0
    have "filter P x = []" if "x \<in> set xss" for x
      using that Cons.prems(3) 0 by (force simp: in_set_conv_nth)
    then have "filter P zs = []"
      using interleavings_set [OF zs(1)] by (auto simp: filter_empty_conv)
    with f 0 show ?thesis by simp
  next
    case (Suc j')
    then have "filter P zs = filter P (xss ! j')"
      using Cons.IH [OF zs(1), of j'] Cons.prems(2,3) by force
    moreover have "filter P xs = []"
      using Cons.prems(3) [of 0] Suc by simp
    ultimately show ?thesis
      using f Suc by simp
  qed
qed simp

section \<open>Words\<close>

lemma xor_swap_left: "(a::'a::len word) XOR (b XOR c) = b XOR (a XOR c)"
  by (simp add: xor.left_commute)

lemma xor_self_cancel [simp]: "(a::'a::len word) XOR (a XOR b) = b"
  by (metis xor.assoc xor_self_eq xor.left_neutral)

lemma xor_eq_0_iff [simp]: "(a::'a::len word) XOR b = 0 \<longleftrightarrow> a = b"
  by (metis xor_self_cancel xor.right_neutral xor_self_eq)

lemma unat_byte_less [simp]: "unat (a::byte) < 256"
  using unsigned_less [of a] by simp

lemma of_nat_byte_inject:
  "m < 256 \<Longrightarrow> n < 256 \<Longrightarrow> (of_nat m :: byte) = of_nat n \<longleftrightarrow> m = n"
  by (simp add: word_of_nat_eq_iff take_bit_nat_eq_self)

section \<open>Polynomials\<close>

text \<open>A polynomial with leading coefficient different from 0 has no more roots than its degree.
  The field may be finite, so this counts roots by synthetic division.\<close>

lemma poly_root_count:
  fixes c :: "nat \<Rightarrow> 'a::idom"
  shows "c n \<noteq> 0 \<Longrightarrow> finite {z. (\<Sum>i\<le>n. c i * z ^ i) = 0} \<and> card {z. (\<Sum>i\<le>n. c i * z ^ i) = 0} \<le> n"
proof (induction n arbitrary: c)
  case 0
  then show ?case by simp
next
  case (Suc n)
  show ?case
  proof (cases "\<exists>a. (\<Sum>i\<le>Suc n. c i * a ^ i) = 0")
    case False
    then show ?thesis by (simp del: sum.atMost_Suc)
  next
    case True
    then obtain a where a: "(\<Sum>i\<le>Suc n. c i * a ^ i) = 0" ..
    define b where "b j = (\<Sum>i = Suc j..Suc n. c i * a ^ (i - j - 1))" for j
    have "(\<Sum>i\<le>Suc n. c i * z ^ i) = (z - a) * (\<Sum>i\<le>n. b i * z ^ i)" for z
      using polyfun_diff [of "Suc n" c z a] a by (simp add: b_def lessThan_Suc_atMost del: sum.atMost_Suc)
    then have "{z. (\<Sum>i\<le>Suc n. c i * z ^ i) = 0} \<subseteq> insert a {z. (\<Sum>i\<le>n. b i * z ^ i) = 0}"
      by (auto simp del: sum.atMost_Suc)
    moreover have "b n \<noteq> 0"
      using Suc.prems by (simp add: b_def)
    then have "finite {z. (\<Sum>i\<le>n. b i * z ^ i) = 0} \<and> card {z. (\<Sum>i\<le>n. b i * z ^ i) = 0} \<le> n"
      by (rule Suc.IH)
    then have "finite (insert a {z. (\<Sum>i\<le>n. b i * z ^ i) = 0})"
      and "card (insert a {z. (\<Sum>i\<le>n. b i * z ^ i) = 0}) \<le> Suc n"
      by (auto simp: card_insert_if)
    ultimately show ?thesis
      by (meson card_mono finite_subset le_trans)
  qed
qed

lemma poly_root_bound:
  fixes c :: "nat \<Rightarrow> 'a::idom"
  assumes "c k \<noteq> 0" "k \<le> n"
  shows "finite {z. (\<Sum>i\<le>n. c i * z ^ i) = 0} \<and> card {z. (\<Sum>i\<le>n. c i * z ^ i) = 0} \<le> n"
proof -
  define d where "d = Max {i. i \<le> n \<and> c i \<noteq> 0}"
  have fin: "finite {i. i \<le> n \<and> c i \<noteq> 0}" by simp
  have "d \<in> {i. i \<le> n \<and> c i \<noteq> 0}"
    unfolding d_def using assms by (intro Max_in) auto
  then have d: "d \<le> n" "c d \<noteq> 0" by simp_all
  have "c i = 0" if "d < i" "i \<le> n" for i
  proof (rule ccontr)
    assume "c i \<noteq> 0"
    with that(2) have "i \<le> d"
      unfolding d_def by (intro Max_ge [OF fin]) simp
    with that(1) show False by simp
  qed
  then have "(\<Sum>i\<le>n. c i * z ^ i) = (\<Sum>i\<le>d. c i * z ^ i)" for z
    using d by (intro sum.mono_neutral_right) auto
  then show ?thesis
    using poly_root_count [of c d] d by auto
qed

end
