(* ===== verification/Galois.thy ===== *)
theory Galois
  imports Prelude
begin

unbundle bit_operations_syntax

text \<open>
  The 8-bit Galois field of \<open>reedsolomon/galois.go\<close>: its tables, its operations, and the
  nibble tables that \<open>gentables.go\<close> prints. The logarithm, exponential and inverse tables
  are the literals of the source. The 256 by 256 table \<open>mulTable\<close> and the nibble tables
  \<open>mulTableLow\<close> and \<open>mulTableHigh\<close> are given by the generator that printed them
  (\<open>generateMulTableSplit\<close>, \<open>generateMulTableHalf\<close> of \<open>gentables.go\<close>).
  The lemmas show that the tables are those of the field of polynomials over the two-element
  field modulo the generating polynomial, that the operations satisfy the field laws, and
  that the nibble tables compute the same product; the type \<open>gf256\<close> makes the bytes with
  these operations an instance of the class of fields.
\<close>

section \<open>Tables\<close>

definition fieldSize :: nat where
  "fieldSize = 256"

definition generatingPolynomial :: byte where
  "generatingPolynomial = 29"

definition logTable :: bytes where
  "logTable = [
   0, 0, 1, 25, 2, 50, 26, 198, 3, 223, 51, 238, 27, 104, 199, 75,
   4, 100, 224, 14, 52, 141, 239, 129, 28, 193, 105, 248, 200, 8, 76, 113,
   5, 138, 101, 47, 225, 36, 15, 33, 53, 147, 142, 218, 240, 18, 130, 69,
   29, 181, 194, 125, 106, 39, 249, 185, 201, 154, 9, 120, 77, 228, 114, 166,
   6, 191, 139, 98, 102, 221, 48, 253, 226, 152, 37, 179, 16, 145, 34, 136,
   54, 208, 148, 206, 143, 150, 219, 189, 241, 210, 19, 92, 131, 56, 70, 64,
   30, 66, 182, 163, 195, 72, 126, 110, 107, 58, 40, 84, 250, 133, 186, 61,
   202, 94, 155, 159, 10, 21, 121, 43, 78, 212, 229, 172, 115, 243, 167, 87,
   7, 112, 192, 247, 140, 128, 99, 13, 103, 74, 222, 237, 49, 197, 254, 24,
   227, 165, 153, 119, 38, 184, 180, 124, 17, 68, 146, 217, 35, 32, 137, 46,
   55, 63, 209, 91, 149, 188, 207, 205, 144, 135, 151, 178, 220, 252, 190, 97,
   242, 86, 211, 171, 20, 42, 93, 158, 132, 60, 57, 83, 71, 109, 65, 162,
   31, 45, 67, 216, 183, 123, 164, 118, 196, 23, 73, 236, 127, 12, 111, 246,
   108, 161, 59, 82, 41, 157, 85, 170, 251, 96, 134, 177, 187, 204, 62, 90,
   203, 89, 95, 176, 156, 169, 160, 81, 11, 245, 22, 235, 122, 117, 44, 215,
   79, 174, 213, 233, 230, 231, 173, 232, 116, 214, 244, 234, 168, 80, 88, 175]"

definition expTable :: bytes where
  "expTable = [
   1, 2, 4, 8, 16, 32, 64, 128, 29, 58, 116, 232, 205, 135, 19, 38,
   76, 152, 45, 90, 180, 117, 234, 201, 143, 3, 6, 12, 24, 48, 96, 192,
   157, 39, 78, 156, 37, 74, 148, 53, 106, 212, 181, 119, 238, 193, 159, 35,
   70, 140, 5, 10, 20, 40, 80, 160, 93, 186, 105, 210, 185, 111, 222, 161,
   95, 190, 97, 194, 153, 47, 94, 188, 101, 202, 137, 15, 30, 60, 120, 240,
   253, 231, 211, 187, 107, 214, 177, 127, 254, 225, 223, 163, 91, 182, 113, 226,
   217, 175, 67, 134, 17, 34, 68, 136, 13, 26, 52, 104, 208, 189, 103, 206,
   129, 31, 62, 124, 248, 237, 199, 147, 59, 118, 236, 197, 151, 51, 102, 204,
   133, 23, 46, 92, 184, 109, 218, 169, 79, 158, 33, 66, 132, 21, 42, 84,
   168, 77, 154, 41, 82, 164, 85, 170, 73, 146, 57, 114, 228, 213, 183, 115,
   230, 209, 191, 99, 198, 145, 63, 126, 252, 229, 215, 179, 123, 246, 241, 255,
   227, 219, 171, 75, 150, 49, 98, 196, 149, 55, 110, 220, 165, 87, 174, 65,
   130, 25, 50, 100, 200, 141, 7, 14, 28, 56, 112, 224, 221, 167, 83, 166,
   81, 162, 89, 178, 121, 242, 249, 239, 195, 155, 43, 86, 172, 69, 138, 9,
   18, 36, 72, 144, 61, 122, 244, 245, 247, 243, 251, 235, 203, 139, 11, 22,
   44, 88, 176, 125, 250, 233, 207, 131, 27, 54, 108, 216, 173, 71, 142, 1]"

definition invTable :: bytes where
  "invTable = [
   0, 1, 142, 244, 71, 167, 122, 186, 173, 157, 221, 152, 61, 170, 93, 150,
   216, 114, 192, 88, 224, 62, 76, 102, 144, 222, 85, 128, 160, 131, 75, 42,
   108, 237, 57, 81, 96, 86, 44, 138, 112, 208, 31, 74, 38, 139, 51, 110,
   72, 137, 111, 46, 164, 195, 64, 94, 80, 34, 207, 169, 171, 12, 21, 225,
   54, 95, 248, 213, 146, 78, 166, 4, 48, 136, 43, 30, 22, 103, 69, 147,
   56, 35, 104, 140, 129, 26, 37, 97, 19, 193, 203, 99, 151, 14, 55, 65,
   36, 87, 202, 91, 185, 196, 23, 77, 82, 141, 239, 179, 32, 236, 47, 50,
   40, 209, 17, 217, 233, 251, 218, 121, 219, 119, 6, 187, 132, 205, 254, 252,
   27, 84, 161, 29, 124, 204, 228, 176, 73, 49, 39, 45, 83, 105, 2, 245,
   24, 223, 68, 79, 155, 188, 15, 92, 11, 220, 189, 148, 172, 9, 199, 162,
   28, 130, 159, 198, 52, 194, 70, 5, 206, 59, 13, 60, 156, 8, 190, 183,
   135, 229, 238, 107, 235, 242, 191, 175, 197, 100, 7, 123, 149, 154, 174, 182,
   18, 89, 165, 53, 101, 184, 163, 158, 210, 247, 98, 90, 133, 125, 168, 58,
   41, 113, 200, 246, 249, 67, 215, 214, 16, 115, 118, 120, 153, 10, 25, 145,
   20, 63, 230, 240, 134, 177, 226, 241, 250, 116, 243, 180, 109, 33, 178, 106,
   227, 231, 181, 234, 3, 143, 211, 201, 66, 212, 232, 117, 127, 255, 126, 253]"

section \<open>The table generator\<close>

text \<open>The generator keeps its own copy of the logarithm table, whose first entry is \<open>-1\<close>;
  no entry read below is that one.\<close>

definition gen_logTable :: "nat \<Rightarrow> nat" where
  "gen_logTable a = unat (logTable ! a)"

definition generateExpTable :: bytes where
  "generateExpTable =
     fold (\<lambda>i result. let log = gen_logTable i
              in (result[log := of_nat i])[log + fieldSize - 1 := of_nat i])
       [1..<fieldSize] (replicate (fieldSize * 2 - 2) 0)"

definition generateMulTableSplit :: "bytes \<Rightarrow> bytes list" where
  "generateMulTableSplit exps =
     map (\<lambda>a. map (\<lambda>b. if a = 0 \<or> b = 0 then 0
                        else exps ! (gen_logTable a + gen_logTable b)) [0..<256]) [0..<256]"

text \<open>One row of both tables: the inner loop of \<open>generateMulTableHalf\<close>.\<close>

definition mulTableHalf_row :: "bytes \<Rightarrow> nat \<Rightarrow> bytes \<times> bytes" where
  "mulTableHalf_row exps a =
     (let prod = (\<lambda>b. if \<not> (a = 0 \<or> b = 0) then exps ! (gen_logTable a + gen_logTable b) else 0)
      in fold (\<lambda>b (low, high).
            (if b mod 16 = b then low[b := prod b] else low,
             if b div 16 * 16 = b then high[b div 16 := prod b] else high))
          [0..<256] (replicate 16 0, replicate 16 0))"

definition generateMulTableHalf :: "bytes \<Rightarrow> bytes list \<times> bytes list" where
  "generateMulTableHalf exps =
     (map (\<lambda>a. fst (mulTableHalf_row exps a)) [0..<256],
      map (\<lambda>a. snd (mulTableHalf_row exps a)) [0..<256])"

definition mulTable :: "bytes list" where
  "mulTable = generateMulTableSplit generateExpTable"

definition mulTableLow :: "bytes list" where
  "mulTableLow = fst (generateMulTableHalf generateExpTable)"

definition mulTableHigh :: "bytes list" where
  "mulTableHigh = snd (generateMulTableHalf generateExpTable)"

section \<open>Operations\<close>

definition galAdd :: "byte \<Rightarrow> byte \<Rightarrow> byte" where
  "galAdd a b = a XOR b"

definition galMultiply :: "byte \<Rightarrow> byte \<Rightarrow> byte" where
  "galMultiply a b = mulTable ! unat a ! unat b"

definition galDivide :: "byte \<Rightarrow> byte \<Rightarrow> byte result" where
  "galDivide a b =
     (if a = 0 then Inr 0
      else if b = 0 then Inl (GoPanic ''Argument 'divisor' is 0'')
      else let logA = uint (logTable ! unat a);
               logB = uint (logTable ! unat b);
               logResult = logA - logB;
               logResult = (if logResult < 0 then logResult + 255 else logResult)
           in Inr (expTable ! unat (word_of_int logResult :: byte)))"

definition galOneOver :: "byte \<Rightarrow> byte result" where
  "galOneOver a =
     (if a = 0 then Inl (GoPanic ''Argument 'divisor' is 0'')
      else Inr (expTable ! unat (logTable ! unat a XOR 255)))"

text \<open>The loop \<open>for logResult >= 255 { logResult -= 255 }\<close> of \<open>galExp\<close>.\<close>

function galExp_reduce :: "int \<Rightarrow> int" where
  "galExp_reduce logResult =
     (if logResult \<ge> 255 then galExp_reduce (logResult - 255) else logResult)"
  by pat_completeness auto
termination
  by (relation "measure nat") auto

definition galExp :: "byte \<Rightarrow> int \<Rightarrow> byte" where
  "galExp a n =
     (if n = 0 then 1
      else if a = 0 then 0
      else expTable ! unat (word_of_int (galExp_reduce (uint (logTable ! unat a) * n)) :: byte))"

declare galExp_reduce.simps [simp del]

section \<open>The tables are those of the field\<close>

text \<open>Multiplication by the polynomial \<open>x\<close> modulo the generating polynomial, the reference
  the tables are checked against.\<close>

definition xtime :: "byte \<Rightarrow> byte" where
  "xtime a = push_bit 1 a XOR (if bit a 7 then generatingPolynomial else 0)"

lemma xtime_xor: "xtime (a XOR b) = xtime a XOR xtime b"
  by (auto simp: xtime_def bit_xor_iff push_bit_xor ac_simps)

lemma xtime_0 [simp]: "xtime 0 = 0"
  by (simp add: xtime_def)

lemma length_tables [simp]:
  "length logTable = 256" "length expTable = 256" "length invTable = 256"
  by (simp_all add: logTable_def expTable_def invTable_def)

lemma exp_table_step_check: "list_all (\<lambda>(a, b). b = xtime a) (zip expTable (tl expTable))"
  by (simp add: expTable_def xtime_def generatingPolynomial_def bit_numeral_rec)

lemma exp_of_log_check: "map (\<lambda>l. expTable ! unat l) (tl logTable) = map of_nat [1..<256]"
  by code_simp

lemma log_of_exp_check: "map (\<lambda>a. unat (logTable ! unat a)) (butlast expTable) = [0..<255]"
  by code_simp


definition glog :: "byte \<Rightarrow> nat" where
  "glog a = unat (logTable ! unat a)"

definition gexp :: "nat \<Rightarrow> byte" where
  "gexp i = expTable ! (i mod 255)"

lemma expTable_0: "expTable ! 0 = 1" and expTable_255: "expTable ! 255 = 1"
  by (simp_all add: expTable_def)

lemma glog_1 [simp]: "glog 1 = 0" and glog_0 [simp]: "glog 0 = 0"
  by (simp_all add: glog_def logTable_def)

lemma expTable_step: "i < 255 \<Longrightarrow> expTable ! Suc i = xtime (expTable ! i)"
  using list_all_zip_tl_nth [OF exp_table_step_check] by simp

lemma expTable_gexp: "i < 256 \<Longrightarrow> expTable ! i = gexp i"
  using expTable_0 expTable_255 by (cases "i = 255") (auto simp: gexp_def)

lemma gexp_0 [simp]: "gexp 0 = 1"
  by (simp add: gexp_def expTable_0)

lemma gexp_mod [simp]: "gexp (i mod 255) = gexp i"
  by (simp add: gexp_def)

lemma gexp_Suc: "gexp (Suc i) = xtime (gexp i)"
proof -
  have "gexp (Suc (i mod 255)) = xtime (gexp (i mod 255))"
    using expTable_step [of "i mod 255"] expTable_gexp [of "Suc (i mod 255)"]
      expTable_gexp [of "i mod 255"] by (simp add: less_Suc_eq)
  then show ?thesis
    by (metis gexp_mod mod_Suc_eq)
qed

lemma gexp_add: "gexp (i + j) = (xtime ^^ i) (gexp j)"
  by (induction i) (simp_all add: gexp_Suc)

lemma gexp_glog: "a \<noteq> 0 \<Longrightarrow> gexp (glog a) = a"
proof -
  assume "a \<noteq> 0"
  then obtain k where k: "unat a = Suc k"
    by (metis not0_implies_Suc unat_eq_zero)
  then have "k < 255"
    using unat_byte_less [of a] by simp
  then have "expTable ! unat (tl logTable ! k) = of_nat (Suc k)"
    using map_eq_nthD [OF exp_of_log_check, of k] by simp
  moreover have "tl logTable ! k = logTable ! Suc k"
    using \<open>k < 255\<close> by (simp add: nth_tl)
  moreover have "of_nat (Suc k) = a"
    unfolding k [symmetric] by simp
  ultimately have "expTable ! glog a = a"
    using k by (simp add: glog_def)
  moreover have "glog a < 256"
    by (simp add: glog_def)
  ultimately show ?thesis
    by (simp add: expTable_gexp)
qed

lemma glog_gexp: "i < 255 \<Longrightarrow> glog (gexp i) = i"
proof -
  assume i: "i < 255"
  then have "map (\<lambda>a. unat (logTable ! unat a)) (butlast expTable) ! i = [0..<255] ! i"
    by (simp only: log_of_exp_check)
  with i show ?thesis
    by (simp add: glog_def gexp_def nth_butlast)
qed

lemma gexp_nonzero [simp]: "gexp i \<noteq> 0"
proof
  assume "gexp i = 0"
  then have "glog (gexp (i mod 255)) = 0"
    by simp
  then have "i mod 255 = 0"
    using glog_gexp [of "i mod 255"] by simp
  then have "gexp i = 1"
    by (metis gexp_0 gexp_mod)
  with \<open>gexp i = 0\<close> show False
    by simp
qed

lemma glog_less: "glog a < 255"
proof (cases "a = 0")
  case False
  have "glog a \<noteq> 255"
  proof
    assume l: "glog a = 255"
    with False have "a = 1"
      using gexp_glog [of a] by (simp add: gexp_def expTable_0)
    with l show False
      by simp
  qed
  moreover have "glog a < 256"
    by (simp add: glog_def)
  ultimately show ?thesis
    by simp
qed simp

lemma glog_inject: "a \<noteq> 0 \<Longrightarrow> b \<noteq> 0 \<Longrightarrow> glog a = glog b \<longleftrightarrow> a = b"
  by (metis gexp_glog)


section \<open>The generated product table\<close>

definition exp_filled :: "nat \<Rightarrow> bytes \<Rightarrow> bool" where
  "exp_filled n result \<longleftrightarrow> length result = 510 \<and>
     (\<forall>i\<in>{1..<n}. result ! gen_logTable i = of_nat i \<and> result ! (gen_logTable i + 255) = of_nat i)"

lemma gen_log_glog: "i < 256 \<Longrightarrow> gen_logTable i = glog (of_nat i)"
  by (simp add: gen_logTable_def glog_def unat_of_nat)

lemma gen_log_inject:
  assumes "i \<in> {1..<256}" "j \<in> {1..<256}"
  shows "gen_logTable i = gen_logTable j \<longleftrightarrow> i = j"
proof -
  have "of_nat i \<noteq> (0::byte)" "of_nat j \<noteq> (0::byte)"
    using assms of_nat_byte_inject [of i 0] of_nat_byte_inject [of j 0] by auto
  then show ?thesis
    using assms by (simp add: gen_log_glog glog_inject of_nat_byte_inject)
qed

lemma gen_log_less: "i < 256 \<Longrightarrow> gen_logTable i < 255"
  by (simp add: gen_log_glog glog_less)

lemma exp_filled_step:
  assumes "exp_filled n r" "1 \<le> n" "n < 256"
  shows "exp_filled (Suc n)
           ((r[gen_logTable n := of_nat n])[gen_logTable n + fieldSize - 1 := of_nat n])"
proof -
  let ?r = "(r[gen_logTable n := of_nat n])[gen_logTable n + 255 := of_nat n]"
  have len: "length r = 510" and l: "gen_logTable n < 255"
    using assms by (simp_all add: exp_filled_def gen_log_less)
  have "?r ! gen_logTable i = of_nat i \<and> ?r ! (gen_logTable i + 255) = of_nat i"
    if "i \<in> {1..<Suc n}" for i
  proof (cases "i = n")
    case True
    then show ?thesis using len l by (simp add: nth_list_update)
  next
    case False
    with that have i: "i \<in> {1..<n}" by auto
    then have "gen_logTable i \<noteq> gen_logTable n" "gen_logTable i < 255"
      using assms False gen_log_inject [of i n] gen_log_less [of i] by auto
    with i show ?thesis
      using assms(1) len l by (auto simp: exp_filled_def nth_list_update)
  qed
  then show ?thesis
    using len by (simp add: exp_filled_def fieldSize_def add.commute)
qed

lemma exp_filled_fold:
  "n \<le> 255 \<Longrightarrow> exp_filled (Suc n)
     (fold (\<lambda>i result. let log = gen_logTable i
              in (result[log := of_nat i])[log + fieldSize - 1 := of_nat i])
       [1..<Suc n] (replicate 510 0))"
proof (induction n)
  case 0
  then show ?case by (simp add: exp_filled_def)
next
  case (Suc n)
  then show ?case
    using exp_filled_step [of "Suc n"] by (simp add: Let_def)
qed

lemma generateExpTable_nth:
  assumes "k < 510"
  shows "generateExpTable ! k = gexp k"
proof -
  have fill: "exp_filled 256 generateExpTable"
    using exp_filled_fold [of 255] by (simp add: generateExpTable_def fieldSize_def del: upt_Suc)
  let ?a = "gexp k"
  have "unat ?a \<in> {1..<256}"
    by (simp add: Suc_le_eq unat_gt_0)
  with fill have "generateExpTable ! gen_logTable (unat ?a) = ?a"
    and "generateExpTable ! (gen_logTable (unat ?a) + 255) = ?a"
    by (auto simp: exp_filled_def)
  moreover have "gen_logTable (unat ?a) = k mod 255"
    using glog_gexp [of "k mod 255"] by (simp add: gen_log_glog)
  moreover have "k = k mod 255 \<or> k = k mod 255 + 255"
    using assms by (cases "k < 255") (auto simp: mod_if)
  ultimately show ?thesis
    by metis
qed

lemma galMultiply_eq [code]:
  "galMultiply a b = (if a = 0 \<or> b = 0 then 0 else gexp (glog a + glog b))"
proof -
  have "glog a + glog b < 510"
    using glog_less [of a] glog_less [of b] by simp
  then show ?thesis
    by (simp add: galMultiply_def mulTable_def generateMulTableSplit_def gen_log_glog
        generateExpTable_nth unat_eq_zero)
qed

section \<open>Field laws\<close>

lemma galMultiply_0 [simp]: "galMultiply 0 a = 0" "galMultiply a 0 = 0"
  by (simp_all add: galMultiply_eq)

lemma galMultiply_1 [simp]: "galMultiply 1 a = a" "galMultiply a 1 = a"
  by (simp_all add: galMultiply_eq gexp_glog)

lemma galMultiply_eq_0 [simp]: "galMultiply a b = 0 \<longleftrightarrow> a = 0 \<or> b = 0"
  by (simp add: galMultiply_eq)

lemma galMultiply_commute [gf_simps]: "galMultiply a b = galMultiply b a"
  by (simp add: galMultiply_eq add.commute)

lemma glog_galMultiply:
  "a \<noteq> 0 \<Longrightarrow> b \<noteq> 0 \<Longrightarrow> glog (galMultiply a b) = (glog a + glog b) mod 255"
  using glog_gexp [of "(glog a + glog b) mod 255"] by (simp add: galMultiply_eq)

lemma gexp_mod_add: "gexp (i mod 255 + j) = gexp (i + j)" "gexp (i + j mod 255) = gexp (i + j)"
  by (metis gexp_mod mod_add_left_eq, metis gexp_mod mod_add_right_eq)

lemma galMultiply_assoc [gf_simps]:
  "galMultiply (galMultiply a b) c = galMultiply a (galMultiply b c)"
proof (cases "a = 0 \<or> b = 0 \<or> c = 0")
  case False
  then have "galMultiply (galMultiply a b) c = gexp ((glog a + glog b) mod 255 + glog c)"
    by (subst galMultiply_eq) (simp add: glog_galMultiply)
  also have "\<dots> = gexp (glog a + (glog b + glog c) mod 255)"
    by (simp add: gexp_mod_add add.assoc)
  also have "\<dots> = galMultiply a (galMultiply b c)"
    using False by (simp add: galMultiply_eq [of a "galMultiply b c"] glog_galMultiply)
  finally show ?thesis .
qed auto

lemma galMultiply_left_commute [gf_simps]:
  "galMultiply a (galMultiply b c) = galMultiply b (galMultiply a c)"
  by (metis galMultiply_assoc galMultiply_commute)

text \<open>A product is a repeated multiplication by \<open>x\<close>, which is linear.\<close>

lemma xtime_funpow_xor: "(xtime ^^ n) (a XOR b) = (xtime ^^ n) a XOR (xtime ^^ n) b"
  by (induction n) (simp_all add: xtime_xor)

lemma galMultiply_xtime: "a \<noteq> 0 \<Longrightarrow> galMultiply a b = (xtime ^^ glog a) b"
proof (cases "b = 0")
  case True
  have "(xtime ^^ n) 0 = 0" for n
    by (induction n) simp_all
  with True show ?thesis by simp
next
  case False
  moreover assume "a \<noteq> 0"
  ultimately have "galMultiply a b = (xtime ^^ glog a) (gexp (glog b))"
    by (simp add: galMultiply_eq gexp_add)
  with False show ?thesis
    by (simp add: gexp_glog)
qed

lemma galMultiply_xor_right [gf_simps]:
  "galMultiply a (b XOR c) = galMultiply a b XOR galMultiply a c"
  by (cases "a = 0") (simp_all add: galMultiply_xtime xtime_funpow_xor)

lemma galMultiply_xor_left [gf_simps]:
  "galMultiply (a XOR b) c = galMultiply a c XOR galMultiply b c"
  by (metis galMultiply_commute galMultiply_xor_right)


section \<open>Inverse, quotient and power\<close>

lemma unat_xor_255: "unat ((l::byte) XOR 255) = 255 - unat l"
proof -
  have m: "(255::byte) = - 1"
    by simp
  have "l XOR 255 = 255 - l"
    unfolding m bit.xor_one_right not_eq_complement by (rule diff_conv_add_uminus [THEN trans]) simp
  moreover have "l \<le> 255"
    using unat_byte_less [of l] by (simp add: word_le_nat_alt less_Suc_eq_le [symmetric])
  ultimately show ?thesis
    by (simp add: unat_sub)
qed

lemma galOneOver_eq: "a \<noteq> 0 \<Longrightarrow> galOneOver a = Inr (gexp (255 - glog a))"
  by (simp add: galOneOver_def unat_xor_255 flip: glog_def) (simp add: expTable_gexp)

lemma galOneOver_inverse:
  assumes "a \<noteq> 0"
  obtains v where "galOneOver a = Inr v" "galMultiply a v = 1" "v \<noteq> 0"
proof -
  let ?v = "gexp (255 - glog a)"
  have "galMultiply a ?v = gexp (glog a + (255 - glog a) mod 255)"
    using assms glog_gexp [of "(255 - glog a) mod 255"] by (simp add: galMultiply_eq)
  also have "\<dots> = gexp 255"
    using glog_less [of a] by (simp add: gexp_mod_add)
  also have "\<dots> = 1"
    by (simp add: gexp_def expTable_0)
  finally show ?thesis
    using that [of ?v] assms by (simp add: galOneOver_eq)
qed

lemma uint_log: "uint (logTable ! unat a) = int (glog a)"
  by (simp add: glog_def)

lemma galDivide_mult:
  assumes "b \<noteq> 0"
  obtains q where "galDivide a b = Inr q" "galMultiply q b = a"
proof (cases "a = 0")
  case True
  then show ?thesis using that [of 0] by (simp add: galDivide_def)
next
  case False
  define k where "k = (if glog a < glog b then glog a + 255 - glog b else glog a - glog b)"
  have k: "k < 255" "(k + glog b) mod 255 = glog a"
    using glog_less [of a] glog_less [of b] by (auto simp: k_def mod_if)
  have "galDivide a b = Inr (expTable ! unat (word_of_int (int k) :: byte))"
    using False assms glog_less [of b]
    by (simp add: galDivide_def Let_def k_def uint_log of_nat_diff algebra_simps)
  also have "unat (word_of_int (int k) :: byte) = k"
    using k by (simp add: unat_of_nat)
  finally have "galDivide a b = Inr (gexp k)"
    using k by (simp add: expTable_gexp)
  moreover have "galMultiply (gexp k) b = gexp (glog a)"
    using assms k glog_gexp [of k] by (metis galMultiply_eq gexp_mod gexp_nonzero)
  ultimately show ?thesis
    using that False by (simp add: gexp_glog)
qed

lemma galExp_reduce_mod: "0 \<le> k \<Longrightarrow> galExp_reduce k = k mod 255"
proof (induction k rule: galExp_reduce.induct)
  case (1 k)
  show ?case
  proof (cases "k \<ge> 255")
    case True
    then have "galExp_reduce (k - 255) = (k - 255) mod 255"
      using 1 by simp
    also have "\<dots> = k mod 255"
      by (rule minus_mod_self2)
    finally show ?thesis
      using True by (simp add: galExp_reduce.simps [of k])
  next
    case False
    with 1 show ?thesis by (simp add: galExp_reduce.simps [of k])
  qed
qed

primrec galPow :: "byte \<Rightarrow> nat \<Rightarrow> byte" where
  "galPow a 0 = 1"
| "galPow a (Suc n) = galMultiply a (galPow a n)"

lemma galPow_gexp: "a \<noteq> 0 \<Longrightarrow> galPow a n = gexp (glog a * n)"
proof (induction n)
  case (Suc n)
  then have "galPow a (Suc n) = gexp (glog a + (glog a * n) mod 255)"
    using glog_gexp [of "(glog a * n) mod 255"] by (simp add: galMultiply_eq)
  then show ?case by (simp add: gexp_mod_add)
qed simp

lemma galExp_galPow: "galExp a (int n) = galPow a n"
proof (cases "a = 0 \<or> n = 0")
  case True
  then show ?thesis by (cases n) (auto simp: galExp_def)
next
  case False
  have "galExp_reduce (uint (logTable ! unat a) * int n) = int (glog a * n mod 255)"
    by (simp add: uint_log galExp_reduce_mod zmod_int)
  then have "galExp a (int n) = expTable ! (glog a * n mod 255)"
    using False by (simp add: galExp_def unat_of_nat del: of_nat_mod of_nat_mult)
  also have "\<dots> = gexp (glog a * n)"
    by (simp add: gexp_def)
  finally show ?thesis
    using False by (simp add: galPow_gexp)
qed

lemma invTable_check: "list_all (\<lambda>a. galMultiply (of_nat a) (invTable ! a) = 1) [1..<256]"
  by code_simp

lemma invTable_inverse: "a \<noteq> 0 \<Longrightarrow> galMultiply a (invTable ! unat a) = 1"
proof -
  assume "a \<noteq> 0"
  then have "unat a \<in> set [1..<256]"
    by (simp add: Suc_le_eq unat_gt_0)
  with invTable_check have "galMultiply (of_nat (unat a)) (invTable ! unat a) = 1"
    unfolding list_all_iff by blast
  then show ?thesis
    by simp
qed

lemma invTable_nonzero: "(a::byte) \<noteq> 0 \<Longrightarrow> invTable ! unat a \<noteq> 0"
  using invTable_inverse [of a] by fastforce


section \<open>The nibble tables\<close>

definition half_filled :: "(nat \<Rightarrow> byte) \<Rightarrow> nat \<Rightarrow> bytes \<times> bytes \<Rightarrow> bool" where
  "half_filled p n lh \<longleftrightarrow> length (fst lh) = 16 \<and> length (snd lh) = 16 \<and>
     (\<forall>b<16. b < n \<longrightarrow> fst lh ! b = p b) \<and> (\<forall>c<16. 16 * c < n \<longrightarrow> snd lh ! c = p (16 * c))"

lemma half_filled_fold:
  "n \<le> 256 \<Longrightarrow> half_filled p n
     (fold (\<lambda>b (low, high). (if b mod 16 = b then low[b := p b] else low,
                             if b div 16 * 16 = b then high[b div 16 := p b] else high))
       [0..<n] (replicate 16 0, replicate 16 0))"
proof (induction n)
  case 0
  then show ?case by (simp add: half_filled_def)
next
  case (Suc n)
  let ?f = "\<lambda>b (low, high). (if b mod 16 = b then low[b := p b] else low,
                if b div 16 * 16 = b then high[b div 16 := p b] else high)"
  obtain low high where lh: "fold ?f [0..<n] (replicate 16 0, replicate 16 0) = (low, high)"
    by fastforce
  have IH: "half_filled p n (low, high)"
    using Suc lh by simp
  have "n mod 16 = n \<longleftrightarrow> n < 16"
    by (metis mod_less mod_less_divisor zero_less_numeral)
  moreover have "n div 16 * 16 = n \<longleftrightarrow> (\<exists>c. n = 16 * c)"
    by (metis dvd_div_mult_self dvd_triv_left mult.commute)
  moreover have "n div 16 < 16"
    using Suc.prems by simp
  ultimately have "half_filled p (Suc n) (?f n (low, high))"
    using IH by (auto simp: half_filled_def nth_list_update less_Suc_eq)
  then show ?case
    using lh by simp
qed

lemma mulTable_halves:
  assumes "a < 256"
  shows "b < 16 \<Longrightarrow> mulTableLow ! a ! b = galMultiply (of_nat a) (of_nat b)"
    and "b < 16 \<Longrightarrow> mulTableHigh ! a ! b = galMultiply (of_nat a) (of_nat (16 * b))"
proof -
  let ?p = "\<lambda>b. if \<not> (a = 0 \<or> b = 0) then generateExpTable ! (gen_logTable a + gen_logTable b) else 0"
  have p: "?p b = galMultiply (of_nat a) (of_nat b)" if "b < 256" for b
  proof -
    have "glog (of_nat a) + glog (of_nat b) < 510"
      using glog_less [of "of_nat a"] glog_less [of "of_nat b"] by simp
    then show ?thesis
      using that assms of_nat_byte_inject [of _ 0]
      by (simp add: galMultiply_eq gen_log_glog generateExpTable_nth)
  qed
  have "half_filled ?p 256 (mulTableHalf_row generateExpTable a)"
    unfolding mulTableHalf_row_def Let_def by (rule half_filled_fold) simp
  then have "half_filled ?p 256 (mulTableLow ! a, mulTableHigh ! a)"
    using assms by (simp add: mulTableLow_def mulTableHigh_def generateMulTableHalf_def)
  then show "b < 16 \<Longrightarrow> mulTableLow ! a ! b = galMultiply (of_nat a) (of_nat b)"
    and "b < 16 \<Longrightarrow> mulTableHigh ! a ! b = galMultiply (of_nat a) (of_nat (16 * b))"
    using p [of b] p [of "16 * b"] by (simp_all add: half_filled_def)
qed

lemma byte_nibbles:
  "(b::byte) = of_nat (unat b mod 16) XOR of_nat (16 * (unat b div 16))"
proof -
  have "of_nat (unat b mod 16) = take_bit 4 b" "of_nat (16 * (unat b div 16)) = push_bit 4 (drop_bit 4 b)"
    by (simp_all add: unat_mod unat_div take_bit_eq_mod push_bit_eq_mult drop_bit_eq_div
        word_arith_nat_mod word_arith_nat_div)
  moreover have "take_bit 4 b XOR push_bit 4 (drop_bit 4 b) = b"
    by (rule bit_eqI) (auto simp: bit_simps)
  ultimately show ?thesis
    by simp
qed


section \<open>The reference product\<close>

text \<open>The product of two polynomials over the two-element field, bit by bit, reduced modulo
  the generating polynomial: what the tables are meant to hold.\<close>

primrec poly_product :: "nat \<Rightarrow> byte \<Rightarrow> byte \<Rightarrow> byte" where
  "poly_product 0 a b = 0"
| "poly_product (Suc i) a b = poly_product i a b XOR (if bit b i then (xtime ^^ i) a else 0)"

lemma gexp_small: "i < 8 \<Longrightarrow> gexp i = 2 ^ i"
proof -
  have "list_all (\<lambda>i. gexp i = 2 ^ i) [0..<8]"
    by code_simp
  then show "i < 8 \<Longrightarrow> gexp i = 2 ^ i"
    by (simp add: list_all_iff)
qed

lemma galMultiply_pow2: "i < 8 \<Longrightarrow> galMultiply a (2 ^ i) = (xtime ^^ i) a"
  using glog_gexp [of i] galMultiply_xtime [of "gexp i" a]
  by (simp add: gexp_small galMultiply_commute [of a])

lemma take_bit_Suc_xor: "take_bit (Suc i) (b::byte) = take_bit i b XOR (if bit b i then 2 ^ i else 0)"
  by (rule bit_eqI) (auto simp: bit_simps less_Suc_eq)

lemma poly_product_take_bit: "i \<le> 8 \<Longrightarrow> poly_product i a b = galMultiply a (take_bit i b)"
proof (induction i)
  case (Suc i)
  then show ?case
    by (auto simp: take_bit_Suc_xor galMultiply_xor_right galMultiply_pow2 simp del: take_bit_Suc)
qed simp

section \<open>The field type\<close>

typedef gf256 = "UNIV :: byte set" morphisms byte_of gf_of ..

setup_lifting type_definition_gf256

instantiation gf256 :: field
begin

lift_definition zero_gf256 :: gf256 is 0 .
lift_definition one_gf256 :: gf256 is 1 .
lift_definition plus_gf256 :: "gf256 \<Rightarrow> gf256 \<Rightarrow> gf256" is galAdd .
lift_definition minus_gf256 :: "gf256 \<Rightarrow> gf256 \<Rightarrow> gf256" is galAdd .
lift_definition uminus_gf256 :: "gf256 \<Rightarrow> gf256" is "\<lambda>a. a" .
lift_definition times_gf256 :: "gf256 \<Rightarrow> gf256 \<Rightarrow> gf256" is galMultiply .
lift_definition inverse_gf256 :: "gf256 \<Rightarrow> gf256"
  is "\<lambda>a. case galOneOver a of Inl _ \<Rightarrow> 0 | Inr v \<Rightarrow> v" .
definition divide_gf256 :: "gf256 \<Rightarrow> gf256 \<Rightarrow> gf256" where
  "divide_gf256 a b = a * inverse b"

instance
proof
  fix a b c :: gf256
  show "a + b + c = a + (b + c)" "a + b = b + a" "0 + a = a" "- a + a = 0" "a - b = a + - b"
    by (transfer; simp add: galAdd_def ac_simps)+
  show "a * b * c = a * (b * c)" "a * b = b * a" "1 * a = a"
    by (transfer; simp add: gf_simps)+
  show "(a + b) * c = a * c + b * c"
    by transfer (simp add: galAdd_def gf_simps)
  show "(0::gf256) \<noteq> 1"
    by transfer simp
  show "inverse 0 = (0::gf256)"
    by transfer (simp add: galOneOver_def)
  show "a div b = a * inverse b"
    by (rule divide_gf256_def)
  show "inverse a * a = 1" if "a \<noteq> 0"
    using that
    by transfer (metis galMultiply_commute galOneOver_inverse sum.case(2))
qed

end

lemma gf_of_0 [simp]: "gf_of 0 = 0" and gf_of_1 [simp]: "gf_of 1 = 1"
  by (simp_all add: zero_gf256_def one_gf256_def)

lemma gf_of_xor: "gf_of (a XOR b) = gf_of a + gf_of b"
  by (simp add: plus_gf256_def galAdd_def gf_of_inverse)

lemma gf_of_mult: "gf_of (galMultiply a b) = gf_of a * gf_of b"
  by (simp add: times_gf256_def gf_of_inverse)

lemma gf_of_inject [simp]: "gf_of a = gf_of b \<longleftrightarrow> a = b"
  by (metis UNIV_I gf_of_inverse)

lemma gf_of_eq_0 [simp]: "gf_of a = 0 \<longleftrightarrow> a = 0"
  by (metis gf_of_0 gf_of_inject)

lemma gf_of_galPow: "gf_of (galPow a n) = gf_of a ^ n"
  by (induction n) (simp_all add: gf_of_mult)

section \<open>Properties\<close>

text \<open>C22. The product that \<open>galMultiply\<close> reads out of the 256 by 256 table is the product of
  the two bytes as polynomials over the two-element field, reduced modulo the generating
  polynomial \<open>x^8 + x^4 + x^3 + x^2 + 1\<close>.\<close>

theorem galMultiply_is_poly_product: "galMultiply a b = poly_product 8 a b"
  by (simp add: poly_product_take_bit take_bit_length_eq [where 'a = 8, simplified])

text \<open>For a divisor different from 0 the table-driven inverse and quotient do not panic
  and undo the multiplication, and the Cauchy table holds the same inverses; for 0 both
  panic with the message of the source (a quotient of 0 by 0 excepted, which is 0).\<close>

theorem galois_division:
  assumes b: "b \<noteq> 0"
  shows "galOneOver 0 = Inl (GoPanic ''Argument 'divisor' is 0'') \<and>
    galDivide a 0 = (if a = 0 then Inr 0 else Inl (GoPanic ''Argument 'divisor' is 0'')) \<and>
    (\<exists>q. galDivide a b = Inr q \<and> galMultiply q b = a) \<and>
    (\<exists>v. galOneOver b = Inr v \<and> galDivide 1 b = Inr v \<and> galMultiply b v = 1 \<and> invTable ! unat b = v)"
proof (intro conjI)
  show "galOneOver 0 = Inl (GoPanic ''Argument 'divisor' is 0'')"
    and "galDivide a 0 = (if a = 0 then Inr 0 else Inl (GoPanic ''Argument 'divisor' is 0''))"
    by (simp_all add: galOneOver_def galDivide_def)
  show "\<exists>q. galDivide a b = Inr q \<and> galMultiply q b = a"
    using galDivide_mult [OF b, of a] by metis
  obtain v where v: "galOneOver b = Inr v" "galMultiply b v = 1" "v \<noteq> 0"
    using galOneOver_inverse [OF b] by metis
  have uniq: "w = v" if "galMultiply b w = 1" for w
    by (metis galMultiply_1(1) galMultiply_assoc galMultiply_commute that v(2))
  show "\<exists>v. galOneOver b = Inr v \<and> galDivide 1 b = Inr v \<and> galMultiply b v = 1 \<and> invTable ! unat b = v"
    using galDivide_mult [OF b, of 1] v uniq invTable_inverse [OF b]
    by (metis galMultiply_commute)
qed

theorem galois_division_witness:
  "(\<exists>q. galDivide 7 3 = Inr q \<and> galMultiply q 3 = 7) \<and>
   (\<exists>v. galOneOver 3 = Inr v \<and> galDivide 1 3 = Inr v \<and> galMultiply 3 v = 1 \<and> invTable ! unat (3::byte) = v)"
  using galois_division [of 3 7] by simp

text \<open>\<open>galExp a n\<close>, computed through the logarithm reduced by the subtraction loop, is the
  product of \<open>n\<close> factors \<open>a\<close> for every \<open>n\<close> the library uses (no exponent is negative).\<close>

theorem galExp_is_power: "galExp a (int n) = ((\<lambda>p. galMultiply a p) ^^ n) 1"
proof -
  have "galPow a n = ((\<lambda>p. galMultiply a p) ^^ n) 1"
    by (induction n) simp_all
  then show ?thesis
    by (simp add: galExp_galPow)
qed

text \<open>The two nibble tables that the shuffle-based kernels use give the same product as the
  full table: the product with a byte is the sum of the entries of its low and its high
  nibble.\<close>

theorem nibble_tables_multiply:
  "galMultiply a b =
     mulTableLow ! unat a ! (unat b mod 16) XOR mulTableHigh ! unat a ! (unat b div 16)"
proof -
  have "unat b div 16 < 16"
    using less_mult_imp_div_less [of "unat b" 16 16] by simp
  then have "mulTableLow ! unat a ! (unat b mod 16) XOR mulTableHigh ! unat a ! (unat b div 16) =
      galMultiply a (of_nat (unat b mod 16) XOR of_nat (16 * (unat b div 16)))"
    using mulTable_halves [of "unat a"] by (simp add: galMultiply_xor_right)
  also have "\<dots> = galMultiply a b"
    using byte_nibbles [of b] by simp
  finally show ?thesis by simp
qed

end
