(* ===== verification/Matrix.thy ===== *)
theory Matrix
  imports Galois
begin

unbundle bit_operations_syntax

text \<open>
  Matrix algebra over the field: \<open>reedsolomon/matrix.go\<close>. A matrix is a list of rows, as the
  \<open>[][]byte\<close> of the source. Methods that index the first row, or a row that may be too short,
  panic there in Go; the model returns \<open>index_panic\<close> exactly on those receivers.
  The lemmas treat a matrix as the linear map \<open>mat_vec\<close>. Gaussian elimination keeps the null
  space of the augmented matrix, which gives that the inverse it computes is a left and a
  right inverse, and that it reports a singular matrix only when some non-zero vector is
  mapped to zero.
\<close>

type_synonym matrix = "byte list list"

section \<open>Construction and shape\<close>

definition index_panic :: rs_error where
  "index_panic = GoPanic ''index out of range''"

definition newMatrix :: "int \<Rightarrow> int \<Rightarrow> matrix result" where
  "newMatrix rows cols =
     (if rows \<le> 0 then Inl errInvalidRowSize
      else if cols \<le> 0 then Inl errInvalidColSize
      else Inr (replicate (nat rows) (replicate (nat cols) 0)))"

text \<open>\<open>m, _ := newMatrix(...)\<close>: the error is dropped and the matrix is nil.\<close>

definition newMatrix_ignore :: "int \<Rightarrow> int \<Rightarrow> matrix" where
  "newMatrix_ignore rows cols = (case newMatrix rows cols of Inl _ \<Rightarrow> [] | Inr m \<Rightarrow> m)"

definition Check :: "matrix \<Rightarrow> rs_error option" where
  "Check m =
     (if length m = 0 then Some errInvalidRowSize
      else let cols = length (m ! 0)
           in if cols = 0 then Some errInvalidColSize
              else if \<exists>col \<in> set m. length col \<noteq> cols then Some errColSizeMismatch
              else None)"

definition newMatrixData :: "bytes list \<Rightarrow> matrix result" where
  "newMatrixData data = (case Check data of Some err \<Rightarrow> Inl err | None \<Rightarrow> Inr data)"

definition identityMatrix :: "int \<Rightarrow> matrix result" where
  "identityMatrix sz =
     bind_res (newMatrix sz sz)
       (\<lambda>m. Inr (fold (\<lambda>i m. m[i := (m ! i)[i := 1]]) [0..<length m] m))"

section \<open>Operations\<close>

definition Multiply :: "matrix \<Rightarrow> matrix \<Rightarrow> matrix result" where
  "Multiply m right =
     (if m = [] then Inl index_panic
      else if length (m ! 0) \<noteq> length right then Inl (errMulSize (length (m ! 0)) (length right))
      else if right = [] then Inl index_panic
      else let result = newMatrix_ignore (int (length m)) (int (length (right ! 0)))
           in if result \<noteq> [] \<and>
                 ((\<exists>row \<in> set m. length row < length (m ! 0)) \<or>
                  (\<exists>row \<in> set right. length row < length (right ! 0)))
              then Inl index_panic
              else Inr (map (\<lambda>r. map (\<lambda>c.
                     fold (\<lambda>i value. value XOR galMultiply (m ! r ! i) (right ! i ! c))
                       [0..<length (m ! 0)] 0)
                     [0..<length (result ! r)]) [0..<length result]))"

definition Augment :: "matrix \<Rightarrow> matrix \<Rightarrow> matrix result" where
  "Augment m right =
     (if length m \<noteq> length right then Inl errMatrixSize
      else if m = [] then Inl index_panic
      else let cols = length (m ! 0); rcols = length (right ! 0)
           in if (\<exists>row \<in> set m. cols + rcols < length row) \<or>
                 (\<exists>row \<in> set right. length row < rcols)
              then Inl index_panic
              else if cols + rcols = 0 then Inr []
              else Inr (map (\<lambda>r. take cols (m ! r @ replicate cols 0) @ take rcols (right ! r))
                     [0..<length m]))"

definition SameSize :: "matrix \<Rightarrow> matrix \<Rightarrow> rs_error option" where
  "SameSize m n =
     (if length m \<noteq> length n then Some errMatrixSize
      else if \<exists>i < length m. length (m ! i) \<noteq> length (n ! i) then Some errMatrixSize
      else None)"

definition SubMatrix :: "matrix \<Rightarrow> nat \<Rightarrow> nat \<Rightarrow> nat \<Rightarrow> nat \<Rightarrow> matrix result" where
  "SubMatrix m rmin cmin rmax cmax =
     bind_res (newMatrix (int rmax - int rmin) (int cmax - int cmin)) (\<lambda>_.
       if length m < rmax \<or> (\<exists>r \<in> {rmin..<rmax}. length (m ! r) < cmax) then Inl index_panic
       else Inr (map (\<lambda>r. map (\<lambda>c. m ! r ! c) [cmin..<cmax]) [rmin..<rmax]))"

definition SwapRows :: "matrix \<Rightarrow> int \<Rightarrow> int \<Rightarrow> matrix result" where
  "SwapRows m r1 r2 =
     (if r1 < 0 \<or> int (length m) \<le> r1 \<or> r2 < 0 \<or> int (length m) \<le> r2 then Inl errInvalidRowSize
      else Inr ((m[nat r2 := m ! nat r1])[nat r1 := m ! nat r2]))"

definition IsSquare :: "matrix \<Rightarrow> bool result" where
  "IsSquare m = (if m = [] then Inl index_panic else Inr (length m = length (m ! 0)))"

section \<open>Gaussian elimination\<close>

text \<open>The loop bodies of \<open>gaussianElimination\<close>, in the order of the source. Its receiver is the
  rectangular matrix that \<open>Augment\<close> returned, so a loop over the columns is a map over a row.\<close>

definition gauss_pivot :: "nat \<Rightarrow> nat \<Rightarrow> matrix \<Rightarrow> matrix result" where
  "gauss_pivot rows r m =
     (if m ! r ! r = 0
      then case find (\<lambda>rowBelow. m ! rowBelow ! r \<noteq> 0) [r + 1..<rows] of
             None \<Rightarrow> Inr m
           | Some rowBelow \<Rightarrow> SwapRows m (int r) (int rowBelow)
      else Inr m)"

definition gauss_scale :: "nat \<Rightarrow> matrix \<Rightarrow> matrix result" where
  "gauss_scale r m =
     (if m ! r ! r \<noteq> 1
      then bind_res (galOneOver (m ! r ! r))
             (\<lambda>scale. Inr (m[r := map (\<lambda>v. galMultiply v scale) (m ! r)]))
      else Inr m)"

text \<open>Subtract the multiple of row \<open>r\<close> that clears column \<open>r\<close> of each row listed.\<close>

definition gauss_add :: "byte \<Rightarrow> bytes \<Rightarrow> bytes \<Rightarrow> bytes" where
  "gauss_add scale src dst = map2 (\<lambda>d s. d XOR galMultiply scale s) dst src"

definition gauss_clear :: "nat \<Rightarrow> nat list \<Rightarrow> matrix \<Rightarrow> matrix" where
  "gauss_clear r ks m =
     fold (\<lambda>k m. if m ! k ! r \<noteq> 0 then m[k := gauss_add (m ! k ! r) (m ! r) (m ! k)] else m) ks m"

definition gauss_step :: "nat \<Rightarrow> nat \<Rightarrow> matrix \<Rightarrow> matrix result" where
  "gauss_step rows r m =
     bind_res (gauss_pivot rows r m) (\<lambda>m.
       if m ! r ! r = 0 then Inl errSingular
       else bind_res (gauss_scale r m) (\<lambda>m. Inr (gauss_clear r [r + 1..<rows] m)))"

primrec gauss_forward :: "nat \<Rightarrow> nat list \<Rightarrow> matrix \<Rightarrow> matrix result" where
  "gauss_forward rows [] m = Inr m"
| "gauss_forward rows (r # rs) m = bind_res (gauss_step rows r m) (gauss_forward rows rs)"

definition gaussianElimination :: "matrix \<Rightarrow> matrix result" where
  "gaussianElimination m =
     (if m = [] \<or> length (m ! 0) < length m \<or> (\<exists>row \<in> set m. length row \<noteq> length (m ! 0))
      then Inl index_panic
      else bind_res (gauss_forward (length m) [0..<length m] m)
             (\<lambda>m. Inr (fold (\<lambda>d m. gauss_clear d [0..<d] m) [0..<length m] m)))"

definition Invert :: "matrix \<Rightarrow> matrix result" where
  "Invert m =
     bind_res (IsSquare m) (\<lambda>square.
       if \<not> square then Inl errNotSquare
       else let sz = length m in
         bind_res (identityMatrix (int sz)) (\<lambda>work.
         bind_res (Augment m work) (\<lambda>work.
         bind_res (gaussianElimination work) (\<lambda>work.
           SubMatrix work 0 sz sz (sz * 2)))))"

definition vandermonde :: "int \<Rightarrow> int \<Rightarrow> matrix result" where
  "vandermonde rows cols =
     bind_res (newMatrix rows cols) (\<lambda>result.
       Inr (map (\<lambda>r. map (\<lambda>c. galExp (of_nat r) (int c)) [0..<length (result ! r)])
              [0..<length result]))"

section \<open>Matrices as linear maps\<close>

definition wf_mat :: "nat \<Rightarrow> nat \<Rightarrow> matrix \<Rightarrow> bool" where
  "wf_mat r c m \<longleftrightarrow> length m = r \<and> (\<forall>row \<in> set m. length row = c)"

fun dot :: "bytes \<Rightarrow> bytes \<Rightarrow> byte" where
  "dot (x # xs) (y # ys) = galMultiply x y XOR dot xs ys"
| "dot _ _ = 0"

definition mat_vec :: "matrix \<Rightarrow> bytes \<Rightarrow> bytes" where
  "mat_vec m x = map (\<lambda>row. dot row x) m"

definition unit_vec :: "nat \<Rightarrow> nat \<Rightarrow> bytes" where
  "unit_vec n i = (replicate n 0)[i := 1]"

definition id_mat :: "nat \<Rightarrow> matrix" where
  "id_mat n = map (unit_vec n) [0..<n]"

lemma wf_mat_nth [mat_simps]: "wf_mat r c m \<Longrightarrow> i < r \<Longrightarrow> length (m ! i) = c"
  by (auto simp: wf_mat_def)

lemma wf_mat_length [mat_simps]: "wf_mat r c m \<Longrightarrow> length m = r"
  by (simp add: wf_mat_def)

lemma wf_mat_iff_nth: "wf_mat r c m \<longleftrightarrow> length m = r \<and> (\<forall>i<r. length (m ! i) = c)"
  by (auto simp: wf_mat_def all_set_conv_all_nth)

lemma wf_mat_update: "wf_mat r c m \<Longrightarrow> length v = c \<Longrightarrow> wf_mat r c (m[i := v])"
  by (auto simp: wf_mat_def dest!: subsetD [OF set_update_subset_insert])

lemma length_mat_vec [simp]: "length (mat_vec m x) = length m"
  by (simp add: mat_vec_def)

lemma mat_vec_nth [simp]: "i < length m \<Longrightarrow> mat_vec m x ! i = dot (m ! i) x"
  by (simp add: mat_vec_def)

lemma dot_Nil2 [simp]: "dot xs [] = 0"
  by (cases xs) simp_all

lemma dot_zeros [simp]: "dot (replicate n 0) x = 0" "dot x (replicate n 0) = 0"
proof -
  show "dot (replicate n 0) x = 0"
    by (induction n arbitrary: x) (simp, case_tac x, simp_all)
  show "dot x (replicate n 0) = 0"
    by (induction n arbitrary: x) (simp, case_tac x, simp_all)
qed

lemma dot_commute: "dot xs ys = dot ys xs"
  by (induction xs ys rule: dot.induct) (auto simp: gf_simps)

lemma dot_append: "length xs = length ys \<Longrightarrow> dot (xs @ xs') (ys @ ys') = dot xs ys XOR dot xs' ys'"
  by (induction xs ys rule: list_induct2) (simp_all add: ac_simps)

lemma dot_add_left:
  "length xs = length ys \<Longrightarrow> dot (map2 (\<lambda>d s. d XOR galMultiply k s) xs ys) zs = dot xs zs XOR galMultiply k (dot ys zs)"
proof (induction xs ys arbitrary: zs rule: list_induct2)
  case (Cons x xs y ys)
  then show ?case
    by (cases zs) (simp_all add: gf_simps ac_simps)
qed simp

lemma dot_scale_left: "dot (map (\<lambda>v. galMultiply v k) xs) zs = galMultiply k (dot xs zs)"
proof (induction xs arbitrary: zs)
  case (Cons x xs)
  then show ?case by (cases zs) (simp_all add: gf_simps)
qed simp

lemma dot_xor_left:
  "length xs = length ys \<Longrightarrow> dot (map2 (XOR) xs ys) zs = dot xs zs XOR dot ys zs"
  using dot_add_left [of xs ys 1 zs] by simp

lemma dot_xor_right:
  "length xs = length ys \<Longrightarrow> dot zs (map2 (XOR) xs ys) = dot zs xs XOR dot zs ys"
  by (simp add: dot_commute [of zs] dot_xor_left)

lemma dot_unit: "i < n \<Longrightarrow> length x = n \<Longrightarrow> dot (unit_vec n i) x = x ! i"
proof (induction n arbitrary: i x)
  case (Suc n)
  then obtain y ys where x: "x = y # ys" by (cases x) auto
  show ?case
  proof (cases i)
    case 0
    then show ?thesis using x by (simp add: unit_vec_def)
  next
    case (Suc k)
    with Suc.IH [of k ys] Suc.prems x show ?thesis by (simp add: unit_vec_def)
  qed
qed simp

lemma dot_unit_right: "i < n \<Longrightarrow> length x = n \<Longrightarrow> dot x (unit_vec n i) = x ! i"
  by (simp add: dot_commute [of x] dot_unit)

lemma length_unit_vec [simp]: "length (unit_vec n i) = n"
  by (simp add: unit_vec_def)

lemma wf_id_mat [simp]: "wf_mat n n (id_mat n)"
  by (auto simp: wf_mat_def id_mat_def)

lemma mat_vec_id: "length x = n \<Longrightarrow> mat_vec (id_mat n) x = x"
  by (rule nth_equalityI) (simp_all add: id_mat_def dot_unit mat_vec_def)

lemma mat_eqI:
  assumes "wf_mat r c a" "wf_mat r c b" "\<And>x. length x = c \<Longrightarrow> mat_vec a x = mat_vec b x"
  shows "a = b"
proof (rule nth_equalityI)
  show "length a = length b" using assms by (simp add: mat_simps)
  fix i assume i: "i < length a"
  show "a ! i = b ! i"
  proof (rule nth_equalityI)
    show "length (a ! i) = length (b ! i)"
      using assms i by (simp add: wf_mat_iff_nth)
    fix j assume j: "j < length (a ! i)"
    have len: "length (a ! i) = c" "length (b ! i) = c" "i < length b"
      using assms i by (simp_all add: wf_mat_iff_nth)
    have "dot (a ! i) (unit_vec c j) = dot (b ! i) (unit_vec c j)"
      using assms(3) [of "unit_vec c j"] i len by (metis length_unit_vec mat_vec_nth)
    then show "a ! i ! j = b ! i ! j"
      using j len by (simp add: dot_unit_right)
  qed
qed

section \<open>The product of matrices composes the maps\<close>

lemma fold_xor_dot:
  assumes "k \<le> length xs" "k \<le> length ys"
  shows "fold (\<lambda>i v. v XOR galMultiply (xs ! i) (ys ! i)) [0..<k] 0 = dot (take k xs) (take k ys)"
  using assms
proof (induction k)
  case (Suc k)
  then show ?case
    by (simp add: take_Suc_conv_app_nth dot_append)
qed simp

definition vec_mat :: "nat \<Rightarrow> bytes \<Rightarrow> matrix \<Rightarrow> bytes" where
  "vec_mat c row m = map (\<lambda>j. dot row (map (\<lambda>r. r ! j) m)) [0..<c]"

lemma vec_mat_Cons:
  assumes "length b = c" "length row = length m"
  shows "vec_mat c (a # row) (b # m) = map2 (\<lambda>d s. d XOR galMultiply a s) (vec_mat c row m) b"
  using assms by (intro nth_equalityI) (simp_all add: vec_mat_def ac_simps)

lemma dot_vec_mat:
  "length row = length m \<Longrightarrow> \<forall>r \<in> set m. length r = c \<Longrightarrow> dot (vec_mat c row m) x = dot row (mat_vec m x)"
proof (induction row m rule: list_induct2)
  case Nil
  have "vec_mat c [] [] = replicate c 0"
    by (simp add: vec_mat_def map_replicate_const)
  then show ?case by (simp add: mat_vec_def)
next
  case (Cons a row b m)
  then have "dot (vec_mat c (a # row) (b # m)) x = dot (vec_mat c row m) x XOR galMultiply a (dot b x)"
    by (simp add: vec_mat_Cons dot_add_left) (subst dot_add_left, simp_all add: vec_mat_def)
  with Cons show ?case
    by (simp add: mat_vec_def ac_simps)
qed

lemma Multiply_wf:
  assumes "wf_mat r k a" "wf_mat k c b" "0 < r" "0 < k" "0 < c"
  shows "Multiply a b = Inr (map (\<lambda>row. vec_mat c row b) a)"
proof -
  have a: "length a = r" "a \<noteq> []" "a ! 0 \<in> set a" "\<forall>row\<in>set a. length row = k"
    and b: "length b = k" "b \<noteq> []" "b ! 0 \<in> set b" "\<forall>row\<in>set b. length row = c"
    using assms by (auto simp: wf_mat_def)
  have res: "newMatrix_ignore (int r) (int c) = replicate r (replicate c 0)"
    using assms by (simp add: newMatrix_ignore_def newMatrix_def)
  have entry: "fold (\<lambda>i v. v XOR galMultiply (a ! i' ! i) (b ! i ! j)) [0..<k] 0 =
      dot (a ! i') (map (\<lambda>r. r ! j) b)" if "i' < r" "j < c" for i' j
  proof -
    have "fold (\<lambda>i v. v XOR galMultiply (a ! i' ! i) (b ! i ! j)) [0..<k] 0 =
        fold (\<lambda>i v. v XOR galMultiply (a ! i' ! i) (map (\<lambda>r. r ! j) b ! i)) [0..<k] 0"
      using b by (intro fold_cong) auto
    also have "\<dots> = dot (a ! i') (map (\<lambda>r. r ! j) b)"
      using fold_xor_dot [of k "a ! i'" "map (\<lambda>r. r ! j) b"] that a b by simp
    finally show ?thesis .
  qed
  have "Multiply a b = Inr (map (\<lambda>i'. map (\<lambda>j.
      fold (\<lambda>i v. v XOR galMultiply (a ! i' ! i) (b ! i ! j)) [0..<k] 0) [0..<c]) [0..<r])"
    using a b assms res by (auto simp: Multiply_def Let_def)
  also have "\<dots> = Inr (map (\<lambda>row. vec_mat c row b) a)"
    using a entry by (auto intro!: nth_equalityI simp: vec_mat_def)
  finally show ?thesis .
qed

lemma Multiply_mat_vec:
  assumes "wf_mat r k a" "wf_mat k c b" "0 < r" "0 < k" "0 < c"
  obtains p where "Multiply a b = Inr p" "wf_mat r c p"
    "\<And>x. mat_vec p x = mat_vec a (mat_vec b x)"
proof
  show "Multiply a b = Inr (map (\<lambda>row. vec_mat c row b) a)"
    by (rule Multiply_wf [OF assms])
  show "wf_mat r c (map (\<lambda>row. vec_mat c row b) a)"
    using assms by (auto simp: wf_mat_def vec_mat_def)
  show "mat_vec (map (\<lambda>row. vec_mat c row b) a) x = mat_vec a (mat_vec b x)" for x
    using assms by (simp add: mat_vec_def [of "map _ _"] mat_vec_def [of a] wf_mat_def dot_vec_mat)
qed

section \<open>Row operations keep the null space\<close>

definition null_vec :: "matrix \<Rightarrow> bytes \<Rightarrow> bool" where
  "null_vec m x \<longleftrightarrow> (\<forall>i < length m. dot (m ! i) x = 0)"

lemma null_vec_mat_vec: "null_vec m x \<longleftrightarrow> mat_vec m x = replicate (length m) 0"
  by (auto simp: null_vec_def list_eq_iff_nth_eq)

lemma gauss_add_length [simp]: "length (gauss_add k src dst) = min (length dst) (length src)"
  by (simp add: gauss_add_def)

lemma gauss_add_nth:
  "i < length dst \<Longrightarrow> length src = length dst \<Longrightarrow> gauss_add k src dst ! i = dst ! i XOR galMultiply k (src ! i)"
  by (simp add: gauss_add_def)

lemma gauss_add_0: "length src = length dst \<Longrightarrow> gauss_add 0 src dst = dst"
  by (rule nth_equalityI) (simp_all add: gauss_add_nth)

lemma dot_gauss_add:
  "length src = length dst \<Longrightarrow> dot (gauss_add k src dst) x = dot dst x XOR galMultiply k (dot src x)"
  by (simp add: gauss_add_def dot_add_left)

text \<open>Each row is visited at most once and row \<open>r\<close> is not: the fold is a pointwise update.\<close>

lemma gauss_clear_nth:
  assumes "wf_mat n c m" "r < n" "distinct ks" "r \<notin> set ks" "set ks \<subseteq> {..<n}"
  shows "wf_mat n c (gauss_clear r ks m)"
    and "i < n \<Longrightarrow> gauss_clear r ks m ! i =
      (if i \<in> set ks then gauss_add (m ! i ! r) (m ! r) (m ! i) else m ! i)"
proof -
  have "wf_mat n c (gauss_clear r ks m) \<and> (\<forall>i < n. gauss_clear r ks m ! i =
      (if i \<in> set ks then gauss_add (m ! i ! r) (m ! r) (m ! i) else m ! i))"
    using assms(1,3-5)
  proof (induction ks arbitrary: m)
    case Nil
    then show ?case by (simp add: gauss_clear_def)
  next
    case (Cons k ks)
    define m' where "m' = (if m ! k ! r \<noteq> 0 then m[k := gauss_add (m ! k ! r) (m ! r) (m ! k)] else m)"
    have len: "length (m ! i) = c" if "i < n" for i
      using Cons.prems(1) that by (simp add: mat_simps)
    have wf: "wf_mat n c m'"
      using Cons.prems assms(2) len by (auto simp: m'_def intro: wf_mat_update)
    have upd: "m' ! i = (if i = k then gauss_add (m ! k ! r) (m ! r) (m ! k) else m ! i)" if "i < n" for i
      using Cons.prems assms(2) len that by (auto simp: m'_def mat_simps gauss_add_0 nth_list_update)
    have "wf_mat n c (gauss_clear r ks m')" and
      IH: "\<forall>i<n. gauss_clear r ks m' ! i =
        (if i \<in> set ks then gauss_add (m' ! i ! r) (m' ! r) (m' ! i) else m' ! i)"
      using Cons.IH [OF wf] Cons.prems by auto
    moreover have "gauss_clear r (k # ks) m = gauss_clear r ks m'"
      by (simp add: gauss_clear_def m'_def)
    moreover have "m' ! r = m ! r"
      using Cons.prems(3) assms(2) upd [of r] by auto
    ultimately show ?case
      using Cons.prems upd by auto
  qed
  then show "wf_mat n c (gauss_clear r ks m)"
    and "i < n \<Longrightarrow> gauss_clear r ks m ! i =
      (if i \<in> set ks then gauss_add (m ! i ! r) (m ! r) (m ! i) else m ! i)"
    by auto
qed

lemma null_vec_gauss_clear:
  assumes "wf_mat n c m" "r < n" "distinct ks" "r \<notin> set ks" "set ks \<subseteq> {..<n}"
  shows "null_vec (gauss_clear r ks m) x \<longleftrightarrow> null_vec m x"
proof -
  note nth = gauss_clear_nth [OF assms]
  have len: "length (gauss_clear r ks m) = n" "length m = n"
    using nth(1) assms(1) by (simp_all add: mat_simps)
  have d: "dot (gauss_clear r ks m ! i) x =
      (if i \<in> set ks then dot (m ! i) x XOR galMultiply (m ! i ! r) (dot (m ! r) x) else dot (m ! i) x)"
    if "i < n" for i
    using that assms nth(2) [OF that] by (auto simp: dot_gauss_add mat_simps)
  have r: "dot (gauss_clear r ks m ! r) x = dot (m ! r) x"
    using d [OF assms(2)] assms(4) by simp
  show ?thesis
    unfolding null_vec_def len
  proof
    assume L: "\<forall>i<n. dot (gauss_clear r ks m ! i) x = 0"
    then have "dot (m ! r) x = 0" using r assms(2) by simp
    with L d show "\<forall>i<n. dot (m ! i) x = 0" by (metis galMultiply_0(2) xor.right_neutral)
  next
    assume "\<forall>i<n. dot (m ! i) x = 0"
    with d assms(2) show "\<forall>i<n. dot (gauss_clear r ks m ! i) x = 0" by simp
  qed
qed

section \<open>The forward phase\<close>

definition upper_unit :: "nat \<Rightarrow> nat \<Rightarrow> matrix \<Rightarrow> bool" where
  "upper_unit r n m \<longleftrightarrow> (\<forall>i < r. m ! i ! i = 1 \<and> (\<forall>k < n. i < k \<longrightarrow> m ! k ! i = 0))"

definition same_null :: "matrix \<Rightarrow> matrix \<Rightarrow> bool" where
  "same_null a b \<longleftrightarrow> (\<forall>x. null_vec a x \<longleftrightarrow> null_vec b x)"

lemma same_null_refl [simp]: "same_null a a"
  by (simp add: same_null_def)

lemma same_null_trans: "same_null a b \<Longrightarrow> same_null b c \<Longrightarrow> same_null a c"
  by (simp add: same_null_def)

lemma null_vec_swap:
  assumes "i < length m" "j < length m"
  shows "null_vec ((m[j := m ! i])[i := m ! j]) x \<longleftrightarrow> null_vec m x"
proof -
  have "set ((m[j := m ! i])[i := m ! j]) = set m"
    using assms by (simp add: set_swap)
  moreover have "null_vec a x \<longleftrightarrow> (\<forall>row \<in> set a. dot row x = 0)" for a
    by (auto simp: null_vec_def all_set_conv_all_nth)
  ultimately show ?thesis by simp
qed

lemma gauss_pivot_spec:
  assumes "wf_mat n c m" "r < n" "upper_unit r n m"
  obtains m' where "gauss_pivot n r m = Inr m'" "wf_mat n c m'" "upper_unit r n m'" "same_null m m'"
    "m' ! r ! r = 0 \<Longrightarrow> \<forall>k < n. r \<le> k \<longrightarrow> m' ! k ! r = 0"
proof (cases "m ! r ! r = 0")
  case False
  then show ?thesis
    using that [of m] assms by (simp add: gauss_pivot_def)
next
  case zero: True
  show ?thesis
  proof (cases "find (\<lambda>k. m ! k ! r \<noteq> 0) [r + 1..<n]")
    case None
    then have "\<forall>k<n. r \<le> k \<longrightarrow> m ! k ! r = 0"
      using zero by (auto simp: find_None_iff le_less)
    with None zero show ?thesis
      using that [of m] assms by (simp add: gauss_pivot_def)
  next
    case (Some k)
    then have k: "r < k" "k < n" "m ! k ! r \<noteq> 0"
      by (auto simp: find_Some_iff)
    let ?m = "(m[k := m ! r])[r := m ! k]"
    have len: "length m = n" using assms(1) by (simp add: mat_simps)
    have "gauss_pivot n r m = Inr ?m"
      using zero Some k assms(2) len by (simp add: gauss_pivot_def SwapRows_def)
    moreover have "wf_mat n c ?m"
      using assms k by (intro wf_mat_update) (simp_all add: mat_simps)
    moreover have "upper_unit r n ?m"
      using assms k len by (auto simp: upper_unit_def nth_list_update)
    moreover have "same_null m ?m"
      using null_vec_swap [of r m k] assms(2) k len by (simp add: same_null_def)
    moreover have "?m ! r ! r \<noteq> 0"
      using k assms(2) len by simp
    ultimately show ?thesis
      using that by blast
  qed
qed

lemma gauss_scale_spec:
  assumes "wf_mat n c m" "r < n" "n \<le> c" "upper_unit r n m" "m ! r ! r \<noteq> 0"
  obtains m' where "gauss_scale r m = Inr m'" "wf_mat n c m'" "upper_unit r n m'" "same_null m m'"
    "m' ! r ! r = 1"
proof (cases "m ! r ! r = 1")
  case True
  then show ?thesis using that [of m] assms by (simp add: gauss_scale_def)
next
  case False
  obtain v where v: "galOneOver (m ! r ! r) = Inr v" "galMultiply (m ! r ! r) v = 1" "v \<noteq> 0"
    using galOneOver_inverse [OF assms(5)] by metis
  let ?m = "m[r := map (\<lambda>w. galMultiply w v) (m ! r)]"
  have len: "length m = n" "length (m ! r) = c"
    using assms by (simp_all add: mat_simps)
  have "gauss_scale r m = Inr ?m"
    using False v by (simp add: gauss_scale_def)
  moreover have "wf_mat n c ?m"
    using assms len by (intro wf_mat_update) simp_all
  moreover have "upper_unit r n ?m"
    using assms len by (auto simp: upper_unit_def nth_list_update)
  moreover have "same_null m ?m"
    using v(3) len assms(2)
    by (auto simp: same_null_def null_vec_def nth_list_update dot_scale_left)
  moreover have "?m ! r ! r = 1"
    using v assms len by simp
  ultimately show ?thesis
    using that by blast
qed

lemma gauss_clear_below_spec:
  assumes "wf_mat n c m" "r < n" "n \<le> c" "upper_unit r n m" "m ! r ! r = 1"
  shows "wf_mat n c (gauss_clear r [r + 1..<n] m)"
    and "upper_unit (Suc r) n (gauss_clear r [r + 1..<n] m)"
    and "same_null m (gauss_clear r [r + 1..<n] m)"
proof -
  have side: "distinct [r + 1..<n]" "r \<notin> set [r + 1..<n]" "set [r + 1..<n] \<subseteq> {..<n}"
    by auto
  note nth = gauss_clear_nth [OF assms(1,2) side]
  show "wf_mat n c (gauss_clear r [r + 1..<n] m)" by (rule nth(1))
  show "same_null m (gauss_clear r [r + 1..<n] m)"
    using null_vec_gauss_clear [OF assms(1,2) side] by (simp add: same_null_def)
  have "gauss_clear r [r + 1..<n] m ! k ! i =
      (if r < k then m ! k ! i XOR galMultiply (m ! k ! r) (m ! r ! i) else m ! k ! i)"
    if "k < n" "i < n" for k i
    using nth(2) [OF that(1)] that assms by (auto simp: gauss_add_nth mat_simps)
  with assms show "upper_unit (Suc r) n (gauss_clear r [r + 1..<n] m)"
    by (auto simp: upper_unit_def less_Suc_eq)
qed

text \<open>A matrix whose first rows are triangular and whose next column has no pivot.\<close>

definition no_pivot :: "nat \<Rightarrow> nat \<Rightarrow> matrix \<Rightarrow> bool" where
  "no_pivot r n m \<longleftrightarrow> upper_unit r n m \<and> (\<forall>k < n. r \<le> k \<longrightarrow> m ! k ! r = 0)"

lemma gauss_step_spec:
  assumes "wf_mat n c m" "r < n" "n \<le> c" "upper_unit r n m"
  shows "(\<exists>m'. gauss_step n r m = Inr m' \<and> wf_mat n c m' \<and> upper_unit (Suc r) n m' \<and> same_null m m') \<or>
         (\<exists>m'. gauss_step n r m = Inl errSingular \<and> wf_mat n c m' \<and> no_pivot r n m' \<and> same_null m m')"
proof -
  obtain m1 where m1: "gauss_pivot n r m = Inr m1" "wf_mat n c m1" "upper_unit r n m1" "same_null m m1"
    "m1 ! r ! r = 0 \<Longrightarrow> \<forall>k < n. r \<le> k \<longrightarrow> m1 ! k ! r = 0"
    using gauss_pivot_spec [OF assms(1,2,4)] by metis
  show ?thesis
  proof (cases "m1 ! r ! r = 0")
    case True
    with m1 show ?thesis
      by (auto simp: gauss_step_def no_pivot_def)
  next
    case False
    obtain m2 where m2: "gauss_scale r m1 = Inr m2" "wf_mat n c m2" "upper_unit r n m2"
      "same_null m1 m2" "m2 ! r ! r = 1"
      using gauss_scale_spec [OF m1(2) assms(2,3) m1(3) False] by metis
    note m3 = gauss_clear_below_spec [OF m2(2) assms(2,3) m2(3,5)]
    have "gauss_step n r m = Inr (gauss_clear r [r + 1..<n] m2)"
      using m1(1) False m2(1) by (simp add: gauss_step_def)
    with m3 show ?thesis
      using same_null_trans m1(4) m2(4) by blast
  qed
qed

lemma gauss_forward_spec:
  assumes "wf_mat n c m" "n \<le> c" "r \<le> n" "upper_unit r n m"
  shows "(\<exists>m'. gauss_forward n [r..<n] m = Inr m' \<and> wf_mat n c m' \<and> upper_unit n n m' \<and> same_null m m') \<or>
         (\<exists>m' s. gauss_forward n [r..<n] m = Inl errSingular \<and> s < n \<and> wf_mat n c m' \<and>
            no_pivot s n m' \<and> same_null m m')"
  using assms
proof (induction "n - r" arbitrary: r m)
  case 0
  then show ?case by auto
next
  case (Suc d)
  then have r: "r < n" "[r..<n] = r # [Suc r..<n]"
    by (auto simp: upt_rec)
  from gauss_step_spec [OF Suc.prems(1) r(1) Suc.prems(2,4)] show ?case
  proof (elim disjE exE conjE)
    fix m' assume m': "gauss_step n r m = Inr m'" "wf_mat n c m'" "upper_unit (Suc r) n m'" "same_null m m'"
    with Suc.hyps(1) [of "Suc r" m'] Suc.hyps(2) Suc.prems(2) r show ?case
      by (simp add: same_null_def)
  next
    fix m' assume "gauss_step n r m = Inl errSingular" "wf_mat n c m'" "no_pivot r n m'" "same_null m m'"
    with r show ?case by auto
  qed
qed

lemma dot_update_right:
  "t < length x \<Longrightarrow> length row = length x \<Longrightarrow>
     dot row (x[t := x ! t XOR v]) = dot row x XOR galMultiply (row ! t) v"
proof (induction row x arbitrary: t rule: dot.induct)
  case (1 r rs y ys)
  then show ?case by (cases t) (simp_all add: gf_simps ac_simps)
qed simp_all

text \<open>Back substitution: where no pivot is found, a non-zero vector is mapped to zero.\<close>

lemma no_pivot_null_vec:
  assumes "wf_mat n c m" "r < n" "n \<le> c" "no_pivot r n m"
  obtains x where "length x = c" "x ! r = 1" "\<forall>j < c. r < j \<longrightarrow> x ! j = 0" "null_vec m x"
proof -
  have len: "length m = n" "\<And>i. i < n \<Longrightarrow> length (m ! i) = c"
    using assms(1) by (simp_all add: mat_simps)
  have "\<exists>x. length x = c \<and> x ! r = 1 \<and> (\<forall>j < c. r < j \<longrightarrow> x ! j = 0) \<and>
      (\<forall>i < n. r - d \<le> i \<longrightarrow> dot (m ! i) x = 0)" for d
  proof (induction d)
    case 0
    have "dot (m ! i) (unit_vec c r) = 0" if "i < n" "r \<le> i" for i
      using that assms len by (simp add: dot_unit_right no_pivot_def)
    then show ?case
      using assms by (intro exI [of _ "unit_vec c r"]) (auto simp: unit_vec_def nth_list_update)
  next
    case (Suc d)
    then obtain x where x: "length x = c" "x ! r = 1" "\<forall>j < c. r < j \<longrightarrow> x ! j = 0"
      "\<forall>i < n. r - d \<le> i \<longrightarrow> dot (m ! i) x = 0" by blast
    show ?case
    proof (cases "r \<le> d")
      case True
      then show ?thesis using x by auto
    next
      case False
      define t where "t = r - Suc d"
      have t: "t < r" "t < n" "t < c" using False assms by (auto simp: t_def)
      let ?x = "x[t := x ! t XOR dot (m ! t) x]"
      have "dot (m ! i) ?x = 0" if "i < n" "t \<le> i" for i
      proof (cases "i = t")
        case True
        then show ?thesis
          using t x(1) len assms(4) by (simp add: dot_update_right no_pivot_def upper_unit_def)
      next
        case False
        with that have "r - d \<le> i" "t < i" by (auto simp: t_def)
        then have "dot (m ! i) x = 0" "m ! i ! t = 0"
          using x(4) that assms(4) t by (auto simp: no_pivot_def upper_unit_def)
        then show ?thesis
          using t x(1) len that by (simp add: dot_update_right)
      qed
      then show ?thesis
        using x t by (intro exI [of _ ?x]) (auto simp: t_def nth_list_update)
    qed
  qed
  from this [of r] show ?thesis
    using that len by (auto simp: null_vec_def)
qed

section \<open>The backward phase and the inverse\<close>

definition cleared_above :: "nat \<Rightarrow> nat \<Rightarrow> matrix \<Rightarrow> bool" where
  "cleared_above d n m \<longleftrightarrow> upper_unit n n m \<and> (\<forall>i < d. \<forall>k < i. m ! k ! i = 0)"

lemma gauss_clear_above_spec:
  assumes "wf_mat n c m" "d < n" "n \<le> c" "cleared_above d n m"
  shows "wf_mat n c (gauss_clear d [0..<d] m) \<and> cleared_above (Suc d) n (gauss_clear d [0..<d] m) \<and>
    same_null m (gauss_clear d [0..<d] m)"
proof -
  have side: "distinct [0..<d]" "d \<notin> set [0..<d]" "set [0..<d] \<subseteq> {..<n}"
    using assms(2) by auto
  note nth = gauss_clear_nth [OF assms(1,2) side]
  have "gauss_clear d [0..<d] m ! k ! i =
      (if k < d then m ! k ! i XOR galMultiply (m ! k ! d) (m ! d ! i) else m ! k ! i)"
    if "k < n" "i < n" for k i
    using nth(2) [OF that(1)] that assms by (auto simp: gauss_add_nth mat_simps)
  with assms have "cleared_above (Suc d) n (gauss_clear d [0..<d] m)"
    by (auto simp: cleared_above_def upper_unit_def less_Suc_eq)
  with nth(1) null_vec_gauss_clear [OF assms(1,2) side] show ?thesis
    by (simp add: same_null_def)
qed

lemma gauss_backward_spec:
  assumes "wf_mat n c m" "n \<le> c" "upper_unit n n m" "d \<le> n"
  shows "wf_mat n c (fold (\<lambda>d m. gauss_clear d [0..<d] m) [0..<d] m) \<and>
    cleared_above d n (fold (\<lambda>d m. gauss_clear d [0..<d] m) [0..<d] m) \<and>
    same_null m (fold (\<lambda>d m. gauss_clear d [0..<d] m) [0..<d] m)"
  using assms(4)
proof (induction d)
  case 0
  then show ?case using assms by (simp add: cleared_above_def)
next
  case (Suc d)
  let ?m = "fold (\<lambda>d m. gauss_clear d [0..<d] m) [0..<d] m"
  have IH: "wf_mat n c ?m" "cleared_above d n ?m" "same_null m ?m" using Suc by simp_all
  have "d < n" using Suc by simp
  with gauss_clear_above_spec [OF IH(1) _ assms(2) IH(2)] IH(3) show ?case
    by (auto simp: same_null_def)
qed

lemma gaussianElimination_spec:
  assumes "wf_mat n c m" "0 < n" "n \<le> c"
  shows "(\<exists>m'. gaussianElimination m = Inr m' \<and> wf_mat n c m' \<and> cleared_above n n m' \<and> same_null m m') \<or>
         (\<exists>x r. gaussianElimination m = Inl errSingular \<and> r < n \<and> length x = c \<and> x ! r = 1 \<and>
            (\<forall>j < c. r < j \<longrightarrow> x ! j = 0) \<and> null_vec m x)"
proof -
  have len: "length m = n" "m \<noteq> []" "length (m ! 0) = c"
    and row: "\<And>row. row \<in> set m \<Longrightarrow> length row = c"
    using assms by (auto simp: wf_mat_def)
  have ge: "gaussianElimination m = bind_res (gauss_forward n [0..<n] m)
      (\<lambda>m. Inr (fold (\<lambda>d m. gauss_clear d [0..<d] m) [0..<length m] m))"
    using len row assms(3) by (auto simp: gaussianElimination_def)
  have "upper_unit 0 n m" by (simp add: upper_unit_def)
  from gauss_forward_spec [OF assms(1,3) le0 this] show ?thesis
  proof (elim disjE exE conjE)
    fix m' assume m': "gauss_forward n [0..<n] m = Inr m'" "wf_mat n c m'" "upper_unit n n m'" "same_null m m'"
    then show ?thesis
      using ge gauss_backward_spec [OF m'(2) assms(3) m'(3) order_refl]
      by (simp add: mat_simps same_null_def)
  next
    fix m' r assume m': "gauss_forward n [0..<n] m = Inl errSingular" "r < n" "wf_mat n c m'"
      "no_pivot r n m'" "same_null m m'"
    obtain x where "length x = c" "x ! r = 1" "\<forall>j < c. r < j \<longrightarrow> x ! j = 0" "null_vec m' x"
      using no_pivot_null_vec [OF m'(3,2) assms(3) m'(4)] by metis
    then show ?thesis
      using m' ge by (auto simp: same_null_def)
  qed
qed

lemma identityMatrix_fold:
  "k \<le> n \<Longrightarrow> fold (\<lambda>i m. m[i := (m ! i)[i := 1]]) [0..<k] (replicate n (replicate n 0)) =
     map (unit_vec n) [0..<k] @ replicate (n - k) (replicate n 0)"
proof (induction k)
  case (Suc k)
  then have "replicate (n - k) (replicate n (0::byte)) = replicate n 0 # replicate (n - Suc k) (replicate n 0)"
    by (metis Suc_diff_Suc Suc_le_lessD replicate_Suc)
  with Suc show ?case
    by (simp add: list_update_append nth_append unit_vec_def)
qed simp

lemma identityMatrix_id: "0 < n \<Longrightarrow> identityMatrix (int n) = Inr (id_mat n)"
  using identityMatrix_fold [of n n] by (simp add: identityMatrix_def newMatrix_def id_mat_def)

lemma Augment_id:
  assumes "wf_mat n n m" "0 < n"
  shows "Augment m (id_mat n) = Inr (map (\<lambda>r. m ! r @ unit_vec n r) [0..<n])"
proof -
  have "length m = n" "m \<noteq> []" "\<And>row. row \<in> set m \<Longrightarrow> length row = n" "length (m ! 0) = n"
    using assms by (auto simp: wf_mat_def)
  moreover have "length (id_mat n) = n" "id_mat n ! 0 = unit_vec n 0"
    "\<And>row. row \<in> set (id_mat n) \<Longrightarrow> length row = n"
    using assms by (auto simp: id_mat_def)
  moreover from calculation have
    "map (\<lambda>r. take n (m ! r @ replicate n 0) @ take n (id_mat n ! r)) [0..<n] =
     map (\<lambda>r. m ! r @ unit_vec n r) [0..<n]"
    using assms(1) by (intro map_cong) (simp_all add: id_mat_def mat_simps)
  ultimately show ?thesis
    using assms(2) by (simp add: Augment_def Let_def linorder_not_less)
qed

lemma augmented_null:
  assumes "wf_mat n n m" "length x = n" "length y = n"
  shows "null_vec (map (\<lambda>r. m ! r @ unit_vec n r) [0..<n]) (x @ y) \<longleftrightarrow> mat_vec m x = y"
  using assms by (auto simp: null_vec_def dot_append dot_unit mat_simps list_eq_iff_nth_eq)

lemma cleared_above_null:
  assumes "wf_mat n (2 * n) m" "cleared_above n n m" "length x = n" "length y = n"
  shows "null_vec m (x @ y) \<longleftrightarrow> mat_vec (map (drop n) m) y = x"
proof -
  have "m ! i = unit_vec n i @ drop n (m ! i)" if "i < n" for i
  proof -
    have "m ! i ! j = unit_vec n i ! j" if "j < n" for j
      using \<open>i < n\<close> that assms(2)
      by (cases i j rule: linorder_cases)
        (simp_all add: unit_vec_def cleared_above_def upper_unit_def)
    then have "take n (m ! i) = unit_vec n i"
      using that assms(1) by (intro nth_equalityI) (simp_all add: mat_simps)
    then show ?thesis by (metis append_take_drop_id)
  qed
  then have eq: "dot (m ! i) (x @ y) = dot (unit_vec n i @ drop n (m ! i)) (x @ y)" if "i < n" for i
    using that by simp
  have d: "dot (m ! i) (x @ y) = x ! i XOR dot (drop n (m ! i)) y" if "i < n" for i
    unfolding eq [OF that] using that assms(3) by (simp add: dot_append dot_unit)
  have len: "length m = n"
    using assms(1) by (simp add: mat_simps)
  have "mat_vec (map (drop n) m) y = x \<longleftrightarrow> (\<forall>i < n. x ! i = dot (drop n (m ! i)) y)"
    using len assms(3) by (simp add: list_eq_iff_nth_eq eq_commute)
  then show ?thesis
    using d len by (simp add: null_vec_def)
qed

lemma SubMatrix_right:
  assumes "wf_mat n (2 * n) m" "0 < n"
  shows "SubMatrix m 0 n n (n * 2) = Inr (map (drop n) m)"
proof -
  have "map (\<lambda>c. m ! r ! c) [n..<n * 2] = drop n (m ! r)" if "r < n" for r
    using that assms by (intro nth_equalityI) (simp_all add: mat_simps)
  then have "map (\<lambda>r. map (\<lambda>c. m ! r ! c) [n..<n * 2]) [0..<n] = map (drop n) m"
    using assms by (intro nth_equalityI) (simp_all add: mat_simps)
  then show ?thesis
    using assms by (simp add: SubMatrix_def newMatrix_def mat_simps mult.commute)
qed

text \<open>The whole of \<open>Invert\<close>: it fails only on a matrix with a non-zero null vector, and its
  result is the inverse on both sides.\<close>

lemma Invert_spec:
  assumes "wf_mat n n m" "0 < n"
  shows "(\<exists>v. Invert m = Inr v \<and> wf_mat n n v \<and>
            (\<forall>x y. length x = n \<longrightarrow> length y = n \<longrightarrow> (mat_vec m x = y \<longleftrightarrow> mat_vec v y = x))) \<or>
         (\<exists>x. Invert m = Inl errSingular \<and> length x = n \<and> x \<noteq> replicate n 0 \<and> mat_vec m x = replicate n 0)"
proof -
  let ?a = "map (\<lambda>r. m ! r @ unit_vec n r) [0..<n]"
  have wf: "wf_mat n (2 * n) ?a"
    using assms by (auto simp: wf_mat_def)
  have "m \<noteq> []" "length (m ! 0) = n"
    using assms by (auto simp: wf_mat_def)
  then have inv: "Invert m = bind_res (gaussianElimination ?a) (\<lambda>w. SubMatrix w 0 n n (n * 2))"
    using assms by (simp add: Invert_def IsSquare_def Let_def identityMatrix_id Augment_id mat_simps)
  have "n \<le> 2 * n" by simp
  from gaussianElimination_spec [OF wf assms(2) this] show ?thesis
  proof (elim disjE exE conjE)
    fix w assume w: "gaussianElimination ?a = Inr w" "wf_mat n (2 * n) w" "cleared_above n n w" "same_null ?a w"
    have "Invert m = Inr (map (drop n) w)"
      using inv w SubMatrix_right [OF w(2) assms(2)] by simp
    moreover have "wf_mat n n (map (drop n) w)"
      using w(2) by (simp add: wf_mat_def)
    moreover have "mat_vec m x = y \<longleftrightarrow> mat_vec (map (drop n) w) y = x" if "length x = n" "length y = n" for x y
      using augmented_null [OF assms(1) that] cleared_above_null [OF w(2,3) that] w(4)
      by (simp add: same_null_def)
    ultimately show ?thesis by blast
  next
    fix x r assume x: "gaussianElimination ?a = Inl errSingular" "r < n" "length x = 2 * n" "x ! r = 1"
      "\<forall>j < 2 * n. r < j \<longrightarrow> x ! j = 0" "null_vec ?a x"
    have "drop n x = replicate n 0"
      using x by (intro nth_equalityI) auto
    then have split: "x = take n x @ replicate n 0"
      by (metis append_take_drop_id)
    then have "mat_vec m (take n x) = replicate n 0"
      using augmented_null [OF assms(1), of "take n x" "replicate n 0"] x by simp
    moreover have "take n x \<noteq> replicate n 0"
      using x(2,4) by (metis nth_replicate nth_take zero_neq_one)
    ultimately show ?thesis
      using inv x by (intro disjI2 exI [of _ "take n x"]) simp
  qed
qed

lemma Invert_cases [consumes 2, case_names inverse singular]:
  assumes "wf_mat n n m" "0 < n"
  obtains (inverse) v where "Invert m = Inr v" "wf_mat n n v"
      "\<And>x. length x = n \<Longrightarrow> mat_vec v (mat_vec m x) = x"
      "\<And>x. length x = n \<Longrightarrow> mat_vec m (mat_vec v x) = x"
    | (singular) x where "Invert m = Inl errSingular" "length x = n" "x \<noteq> replicate n 0"
      "mat_vec m x = replicate n 0"
proof -
  consider v where "Invert m = Inr v" "wf_mat n n v"
      "\<forall>x y. length x = n \<longrightarrow> length y = n \<longrightarrow> (mat_vec m x = y \<longleftrightarrow> mat_vec v y = x)"
    | x where "Invert m = Inl errSingular" "length x = n" "x \<noteq> replicate n 0" "mat_vec m x = replicate n 0"
    using Invert_spec [OF assms] by blast
  then show ?thesis
  proof cases
    case (1 v)
    then have "length (mat_vec m x) = n" "length (mat_vec v x) = n" for x
      using assms by (simp_all add: mat_simps)
    with 1 show ?thesis
      using inverse by metis
  next
    case 2
    then show ?thesis using singular by blast
  qed
qed

section \<open>Vandermonde matrices\<close>

definition vand_row :: "nat \<Rightarrow> nat \<Rightarrow> bytes" where
  "vand_row k i = map (galPow (of_nat i)) [0..<k]"

lemma length_vand_row [simp]: "length (vand_row k i) = k"
  by (simp add: vand_row_def)

lemma vandermonde_eq:
  "0 < r \<Longrightarrow> 0 < k \<Longrightarrow> vandermonde (int r) (int k) = Inr (map (vand_row k) [0..<r])"
  by (simp add: vandermonde_def newMatrix_def vand_row_def galExp_galPow)

lemma gf_of_dot:
  "length xs = length ys \<Longrightarrow> gf_of (dot xs ys) = (\<Sum>i < length xs. gf_of (xs ! i) * gf_of (ys ! i))"
proof (induction xs ys rule: list_induct2)
  case (Cons x xs y ys)
  then show ?case
    by (simp add: gf_of_xor gf_of_mult sum.lessThan_Suc_shift del: sum.lessThan_Suc)
qed simp

lemma gf_of_dot_vand_row:
  assumes "length x = Suc k"
  shows "gf_of (dot (vand_row (Suc k) i) x) = (\<Sum>j\<le>k. gf_of (x ! j) * gf_of (of_nat i) ^ j)"
proof -
  have "gf_of (dot (vand_row (Suc k) i) x) =
      (\<Sum>j < Suc k. gf_of (galPow (of_nat i) j) * gf_of (x ! j))"
    using assms by (subst gf_of_dot) (simp_all add: vand_row_def del: upt_Suc sum.lessThan_Suc)
  then show ?thesis
    by (simp add: gf_of_galPow lessThan_Suc_atMost mult.commute del: sum.lessThan_Suc)
qed

text \<open>A polynomial of degree below \<open>k\<close> with \<open>k\<close> roots is zero.\<close>

lemma vand_rows_independent:
  assumes "distinct is" "length is = k" "\<forall>i \<in> set is. i < 256" "length x = k"
    and "\<forall>i \<in> set is. dot (vand_row k i) x = 0"
  shows "x = replicate k 0"
proof (rule ccontr)
  assume "x \<noteq> replicate k 0"
  then obtain j where j: "j < k" "x ! j \<noteq> 0"
    using assms(4) by (metis length_replicate nth_equalityI nth_replicate)
  then obtain d where k: "k = Suc d" by (cases k) auto
  let ?roots = "{z. (\<Sum>j\<le>d. gf_of (x ! j) * z ^ j) = 0}"
  have bound: "finite ?roots \<and> card ?roots \<le> d"
    using poly_root_bound [of "\<lambda>j. gf_of (x ! j)" j d] j k by simp
  have inj: "inj_on (\<lambda>i. gf_of (of_nat i)) (set is)"
    using assms(3) by (intro inj_onI) (simp add: of_nat_byte_inject)
  have "(\<lambda>i. gf_of (of_nat i)) ` set is \<subseteq> ?roots"
  proof (rule image_subsetI)
    fix i assume "i \<in> set is"
    then have "dot (vand_row (Suc d) i) x = 0" using assms(5) k by simp
    then show "gf_of (of_nat i) \<in> ?roots"
      using gf_of_dot_vand_row [of x d i] assms(4) k by simp
  qed
  then have "card ((\<lambda>i. gf_of (of_nat i)) ` set is) \<le> card ?roots"
    by (rule card_mono [OF conjunct1 [OF bound]])
  then have "card (set is) \<le> d"
    using bound by (simp add: card_image [OF inj])
  then show False
    using assms(1,2) k by (simp add: distinct_card)
qed

lemma vand_rows_invertible:
  assumes "distinct is" "length is = k" "\<forall>i \<in> set is. i < 256" "0 < k"
  obtains v where "Invert (map (vand_row k) is) = Inr v" "wf_mat k k v"
    "\<And>x. length x = k \<Longrightarrow> mat_vec v (mat_vec (map (vand_row k) is) x) = x"
    "\<And>x. length x = k \<Longrightarrow> mat_vec (map (vand_row k) is) (mat_vec v x) = x"
proof -
  have wf: "wf_mat k k (map (vand_row k) is)"
    using assms(2) by (auto simp: wf_mat_def)
  from wf assms(4) show ?thesis
  proof (cases rule: Invert_cases)
    case (inverse v)
    then show ?thesis using that by blast
  next
    case (singular x)
    have "\<forall>i \<in> set is. dot (vand_row k i) x = 0"
    proof
      fix i assume "i \<in> set is"
      then obtain j where "j < length is" "is ! j = i" by (metis in_set_conv_nth)
      then show "dot (vand_row k i) x = 0"
        using singular(4) assms(2) mat_vec_nth [of j "map (vand_row k) is" x] by simp
    qed
    then show ?thesis
      using vand_rows_independent [OF assms(1-3) singular(2)] singular(3) by simp
  qed
qed

section \<open>Properties\<close>

text \<open>When \<open>Invert\<close> returns a matrix, it is the inverse of its receiver on both sides:
  multiplying in either order gives the identity matrix that \<open>identityMatrix\<close> builds.\<close>

theorem Invert_is_inverse:
  assumes "wf_mat n n m" "0 < n" "Invert m = Inr v"
  shows "Multiply v m = identityMatrix (int n) \<and> Multiply m v = identityMatrix (int n)"
using assms(1,2)
proof (cases rule: Invert_cases)
  case (inverse v')
  then have v: "wf_mat n n v" "\<And>x. length x = n \<Longrightarrow> mat_vec v (mat_vec m x) = x"
    "\<And>x. length x = n \<Longrightarrow> mat_vec m (mat_vec v x) = x"
    using assms(3) by auto
  obtain p where p: "Multiply v m = Inr p" "wf_mat n n p" "\<And>x. mat_vec p x = mat_vec v (mat_vec m x)"
    using Multiply_mat_vec [OF v(1) assms(1) assms(2) assms(2) assms(2)] by metis
  obtain q where q: "Multiply m v = Inr q" "wf_mat n n q" "\<And>x. mat_vec q x = mat_vec m (mat_vec v x)"
    using Multiply_mat_vec [OF assms(1) v(1) assms(2) assms(2) assms(2)] by metis
  have "p = id_mat n" "q = id_mat n"
    using p q v by (auto intro!: mat_eqI [of n n] simp: mat_vec_id)
  then show ?thesis
    using p(1) q(1) identityMatrix_id [OF assms(2)] by simp
next
  case (singular x)
  then show ?thesis using assms(3) by simp
qed

theorem Invert_is_inverse_witness:
  "Multiply [[0, 1], [1, 3]] [[3, 1], [1, 0]] = identityMatrix 2 \<and>
   Multiply [[3, 1], [1, 0]] [[0, 1], [1, 3]] = identityMatrix 2"
proof -
  have "Invert [[3, 1], [1, 0]] = Inr [[0, 1], [1, 3]]"
    by code_simp
  then show ?thesis
    using Invert_is_inverse [of 2 "[[3, 1], [1, 0]]" "[[0, 1], [1, 3]]"] by (simp add: wf_mat_def)
qed

text \<open>C23. On a square matrix \<open>Invert\<close> has exactly two outcomes: a matrix whose product with the given one, on either side, is
  the identity matrix, or \<open>errSingular\<close>; and it is \<open>errSingular\<close> exactly when the matrix maps some non-zero vector to zero.\<close>

theorem Invert_singular_iff:
  assumes "wf_mat n n m" "0 < n"
  shows "(Invert m = Inl errSingular \<longleftrightarrow>
            (\<exists>x. length x = n \<and> x \<noteq> replicate n 0 \<and> mat_vec m x = replicate n 0)) \<and>
         (Invert m \<noteq> Inl errSingular \<longrightarrow> (\<exists>v. Invert m = Inr v \<and> wf_mat n n v
            \<and> Multiply v m = identityMatrix (int n) \<and> Multiply m v = identityMatrix (int n)))"
using assms
proof (cases rule: Invert_cases)
  case (inverse v)
  note products = Invert_is_inverse [OF assms inverse(1)]
  have "x = replicate n 0" if "length x = n" "mat_vec m x = replicate n 0" for x
    using inverse(3) [OF that(1)] that(2) inverse(2)
    by (simp add: list_eq_iff_nth_eq mat_simps)
  then show ?thesis
    using inverse products by auto
next
  case (singular x)
  then show ?thesis by auto
qed

theorem Invert_singular_iff_witness:
  "(\<exists>x. length x = 2 \<and> x \<noteq> replicate 2 0 \<and> mat_vec [[1, 2], [2, 4]] x = replicate 2 0) \<and>
   (\<exists>v. Invert [[3, 1], [1, 0]] = Inr v \<and> Multiply v [[3, 1], [1, 0]] = identityMatrix 2)"
proof -
  have "Invert [[1, 2], [2, 4]] = Inl errSingular" "Invert [[3, 1], [1, 0]] = Inr [[0, 1], [1, 3]]"
    by code_simp+
  then show ?thesis
    using Invert_singular_iff [of 2 "[[1, 2], [2, 4]]"] Invert_singular_iff [of 2 "[[3, 1], [1, 0]]"] by (simp add: wf_mat_def)
qed

text \<open>The Vandermonde matrix has the property its comment promises: every choice of distinct
  rows that forms a square matrix can be inverted, for all shapes the library accepts (at
  most 256 rows).\<close>

theorem vandermonde_square_invertible:
  assumes "0 < cols" "rows \<le> 256" "vandermonde (int rows) (int cols) = Inr vm"
    and "distinct is" "length is = cols" "\<forall>i \<in> set is. i < rows"
  shows "\<exists>v. Invert (map ((!) vm) is) = Inr v"
proof -
  have "0 < rows" using assms by (cases "is") auto
  then have "map ((!) vm) is = map (vand_row cols) is"
    using assms vandermonde_eq [of rows cols] by auto
  then show ?thesis
    using vand_rows_invertible [OF assms(4,5) _ assms(1)] assms(2,6)
    by (metis (full_types) less_le_trans)
qed

theorem vandermonde_square_invertible_witness:
  "\<exists>v. Invert (map ((!) [[1, 0], [1, 1], [1, 2]]) [2, 0]) = Inr v"
proof -
  have "vandermonde (int 3) (int 2) = Inr [[1, 0], [1, 1], [1, 2]]"
    by code_simp
  then show ?thesis
    using vandermonde_square_invertible [of 2 3 "[[1, 0], [1, 1], [1, 2]]" "[2, 0]"] by simp
qed

end
