(* ===== verification/Coding.thy ===== *)
theory Coding
  imports Matrix
begin

unbundle bit_operations_syntax

text \<open>
  The coding loops: the byte kernels of \<open>reedsolomon/galois_noasm.go\<close> and \<open>galois.go\<close>, and the
  loops of \<open>codeSomeShards\<close> and \<open>codeSomeShardsP\<close> (\<open>reedsolomon.go\<close>) over shards, rounds of
  \<open>perRound\<close> bytes and goroutines, in the build without assembler (\<open>codeGen = false\<close>, so that
  \<open>hasCodeGen\<close> and \<open>canGFNI\<close> answer false).
  A kernel call on one output slice is a step; a goroutine is the list of its steps. The
  lemmas show that the loops, in every interleaving of the goroutines, compute the product of
  the matrix rows with the columns of the input shards.
\<close>

section \<open>Byte kernels\<close>

text \<open>\<open>binary.LittleEndian.Uint64\<close> and \<open>PutUint64\<close>.\<close>

definition getUint64 :: "bytes \<Rightarrow> 64 word" where
  "getUint64 b = fold (\<lambda>i v. v OR push_bit (8 * i) (ucast (b ! i))) [0..<8] 0"

definition putUint64 :: "64 word \<Rightarrow> bytes" where
  "putUint64 v = map (\<lambda>i. ucast (drop_bit (8 * i) v)) [0..<8]"

definition xorUint64 :: "bytes \<Rightarrow> bytes \<Rightarrow> bytes" where
  "xorUint64 out inS = putUint64 (getUint64 out XOR getUint64 inS)"

text \<open>\<open>sliceXorGo\<close> on slices of equal length, as every caller passes them; the result is the new
  content of \<open>out\<close>.\<close>

fun sliceXorGo :: "bytes \<Rightarrow> bytes \<Rightarrow> bytes" where
  "sliceXorGo inp out =
     (if 32 \<le> length out
      then xorUint64 (slice 0 8 out) (slice 0 8 inp) @ xorUint64 (slice 8 16 out) (slice 8 16 inp) @
           xorUint64 (slice 16 24 out) (slice 16 24 inp) @ xorUint64 (slice 24 32 out) (slice 24 32 inp) @
           sliceXorGo (drop 32 inp) (drop 32 out)
      else map2 (\<lambda>o' input. o' XOR input) out inp @ drop (length inp) out)"

declare sliceXorGo.simps [simp del]

definition sliceXor :: "bytes \<Rightarrow> bytes \<Rightarrow> bytes" where
  "sliceXor inp out = sliceXorGo inp out"

definition galMulSlice :: "byte \<Rightarrow> bytes \<Rightarrow> bytes \<Rightarrow> bytes" where
  "galMulSlice c inp out =
     (if c = 1 then inp @ drop (length inp) out
      else let mt = mulTable ! unat c
           in map (\<lambda>input. mt ! unat input) inp @ drop (length inp) out)"

definition galMulSliceXor :: "byte \<Rightarrow> bytes \<Rightarrow> bytes \<Rightarrow> bytes" where
  "galMulSliceXor c inp out =
     (if c = 1 then sliceXor inp out
      else let mt = mulTable ! unat c
           in map2 (\<lambda>o' input. o' XOR mt ! unat input) out inp @ drop (length inp) out)"

section \<open>Steps, rounds and goroutines\<close>

datatype code_step = CodeStep (cs_c: nat) (cs_row: nat) (cs_lo: nat) (cs_hi: nat)

text \<open>One kernel call: input \<open>c\<close> goes into output \<open>iRow\<close> on the bytes from \<open>lo\<close> to \<open>hi\<close>.\<close>

definition exec_step :: "matrix \<Rightarrow> bytes list \<Rightarrow> code_step \<Rightarrow> bytes list \<Rightarrow> bytes list" where
  "exec_step matrixRows inputs s outputs =
     (let c = cs_c s; iRow = cs_row s; lo = cs_lo s; hi = cs_hi s;
          inp = slice lo hi (inputs ! c); out = outputs ! iRow
      in outputs[iRow := put_slice lo hi
           (if c = 0 then galMulSlice (matrixRows ! iRow ! c) inp (slice lo hi out)
            else galMulSliceXor (matrixRows ! iRow ! c) inp (slice lo hi out)) out])"

text \<open>The body of a round: for every input, for every output.\<close>

definition round_steps :: "nat \<Rightarrow> nat \<Rightarrow> nat \<times> nat \<Rightarrow> code_step list" where
  "round_steps inputs outputs r =
     concat (map (\<lambda>c. map (\<lambda>iRow. CodeStep c iRow (fst r) (snd r)) [0..<outputs]) [0..<inputs])"

text \<open>The rounds of the loop \<open>for lstart < stop\<close>; with \<open>perRound = 0\<close> the loop of the source does
  not end (\<open>codeSomeShards\<close> below says so), and the list is empty.\<close>

function rounds :: "nat \<Rightarrow> nat \<Rightarrow> nat \<Rightarrow> (nat \<times> nat) list" where
  "rounds perRound stop lstart =
     (if perRound = 0 \<or> stop \<le> lstart then []
      else let lstop = min (lstart + perRound) stop
           in (lstart, lstop) # rounds perRound stop lstop)"
  by pat_completeness auto
termination
  by (relation "measure (\<lambda>(perRound, stop, lstart). stop - lstart)") (auto simp: min_def)

declare rounds.simps [simp del]

definition exec_steps :: "nat \<Rightarrow> nat \<Rightarrow> nat \<Rightarrow> nat \<times> nat \<Rightarrow> code_step list" where
  "exec_steps perRound inputs outputs job =
     concat (map (round_steps inputs outputs) (rounds perRound (snd job) (fst job)))"

text \<open>The jobs of the goroutines: \<open>do\<close> bytes each, the last one what is left. Again the list is
  empty for \<open>do = 0\<close>, where the loop does not end.\<close>

function split_jobs :: "nat \<Rightarrow> nat \<Rightarrow> nat \<Rightarrow> (nat \<times> nat) list" where
  "split_jobs do' byteCount start =
     (if do' = 0 \<or> byteCount \<le> start then []
      else let d = (if byteCount < start + do' then byteCount - start else do')
           in (start, start + d) # split_jobs d byteCount (start + d))"
  by pat_completeness auto
termination
  by (relation "measure (\<lambda>(do', byteCount, start). byteCount - start)") (auto split: if_splits)

declare split_jobs.simps [simp del]

text \<open>What a kernel call takes must exist: the slices \<open>inputs[c][lo:hi]\<close> and \<open>outputs[iRow][lo:hi]\<close> and the entry
  \<open>matrixRows[iRow][c]\<close>; Go panics otherwise. (A slice expression may reach up to the capacity; here the capacity of a
  buffer is its length.) A run of kernel calls stops at the first panic.\<close>

definition in_range :: "matrix \<Rightarrow> bytes list \<Rightarrow> bytes list \<Rightarrow> code_step \<Rightarrow> bool" where
  "in_range matrixRows inputs outputs s \<longleftrightarrow>
     cs_c s < length inputs \<and> cs_row s < length outputs \<and> cs_row s < length matrixRows \<and> cs_c s < length (matrixRows ! cs_row s) \<and>
     cs_lo s \<le> cs_hi s \<and> cs_hi s \<le> length (inputs ! cs_c s) \<and> cs_hi s \<le> length (outputs ! cs_row s)"

fun run_steps :: "matrix \<Rightarrow> bytes list \<Rightarrow> code_step list \<Rightarrow> bytes list \<Rightarrow> bytes list result" where
  "run_steps matrixRows inputs [] outputs = Inr outputs"
| "run_steps matrixRows inputs (s # steps) outputs =
     (if in_range matrixRows inputs outputs s
      then run_steps matrixRows inputs steps (exec_step matrixRows inputs s outputs)
      else Inl index_panic)"

text \<open>The loop over the rounds of one job, \<open>exec(start, stop)\<close>. With \<open>perRound = 0\<close> it repeats an empty round for ever, with a
  negative \<open>perRound\<close> the first slice ends before it starts.\<close>

definition exec_job :: "int \<Rightarrow> matrix \<Rightarrow> bytes list \<Rightarrow> nat \<times> nat \<Rightarrow> bytes list \<Rightarrow> bytes list result" where
  "exec_job perRound matrixRows inputs job outputs =
     (if snd job \<le> fst job then Inr outputs
      else if perRound < 0 then Inl (if inputs = [] then GoNoReturn else index_panic)
      else if perRound = 0
      then (case run_steps matrixRows inputs (round_steps (length inputs) (length outputs) (fst job, fst job)) outputs of
              Inl e \<Rightarrow> Inl e
            | Inr _ \<Rightarrow> Inl GoNoReturn)
      else run_steps matrixRows inputs (exec_steps (nat perRound) (length inputs) (length outputs) job) outputs)"

fun run_jobs :: "int \<Rightarrow> matrix \<Rightarrow> bytes list \<Rightarrow> (nat \<times> nat) list \<Rightarrow> bytes list \<Rightarrow> bytes list result" where
  "run_jobs perRound matrixRows inputs [] outputs = Inr outputs"
| "run_jobs perRound matrixRows inputs (job # jobs) outputs =
     (case exec_job perRound matrixRows inputs job outputs of
        Inl e \<Rightarrow> Inl e
      | Inr outputs \<Rightarrow> run_jobs perRound matrixRows inputs jobs outputs)"

definition code_jobs :: "int \<Rightarrow> int \<Rightarrow> nat \<Rightarrow> (nat \<times> nat) list" where
  "code_jobs maxGoroutines minSplitSize byteCount =
     (if maxGoroutines \<le> 1 then [(0, byteCount)]
      else let do' = int byteCount div maxGoroutines;
               do' = (if do' < minSplitSize then minSplitSize else do');
               do' = (do' + 63) div 64 * 64
           in split_jobs (nat do') byteCount 0)"

text \<open>\<open>codeSomeShardsP\<close>: the goroutines one after the other. Theorem \<open>codeSomeShardsP_schedule\<close>
  shows that every other schedule gives the same outputs.\<close>

definition codeSomeShardsP ::
    "int \<Rightarrow> int \<Rightarrow> int \<Rightarrow> matrix \<Rightarrow> bytes list \<Rightarrow> bytes list \<Rightarrow> nat \<Rightarrow> bytes list result" where
  "codeSomeShardsP maxGoroutines minSplitSize perRound matrixRows inputs outputs byteCount =
     (if maxGoroutines = 0 then Inl (GoPanic ''integer divide by zero'')
      else if 0 < byteCount \<and> code_jobs maxGoroutines minSplitSize byteCount = [] then Inl GoNoReturn
      else run_jobs perRound matrixRows inputs (code_jobs maxGoroutines minSplitSize byteCount) outputs)"

definition codeSomeShards ::
    "int \<Rightarrow> int \<Rightarrow> int \<Rightarrow> matrix \<Rightarrow> bytes list \<Rightarrow> bytes list \<Rightarrow> nat \<Rightarrow> bytes list result" where
  "codeSomeShards maxGoroutines minSplitSize perRound matrixRows inputs outputs byteCount =
     (if length outputs = 0 then Inr outputs
      else if minSplitSize < int byteCount
      then codeSomeShardsP maxGoroutines minSplitSize perRound matrixRows inputs outputs byteCount
      else if inputs = [] then Inl index_panic
      else exec_job perRound matrixRows inputs (0, length (inputs ! 0)) outputs)"

section \<open>The kernels compute in the field\<close>

lemma bit_getUint64:
  assumes "length b = 8"
  shows "bit (getUint64 b) n \<longleftrightarrow> n < 64 \<and> bit (b ! (n div 8)) (n mod 8)"
proof -
  have step: "bit (push_bit (8 * i) (ucast (x::byte)) :: 64 word) n \<longleftrightarrow> n < 64 \<and> n div 8 = i \<and> bit x (n mod 8)"
    for i x
  proof (cases "n div 8 = i")
    case True
    then have "8 * i \<le> n" "n - 8 * i = n mod 8" by (auto simp: minus_div_mult_eq_mod [symmetric])
    with True show ?thesis by (auto simp: bit_simps)
  next
    case False
    then have "n < 8 * i \<or> 8 \<le> n - 8 * i" by (auto simp: not_less)
    then show ?thesis
      using False by (auto simp: bit_simps dest: bit_imp_le_length)
  qed
  have "bit (fold (\<lambda>i v. v OR push_bit (8 * i) (ucast (b ! i))) is v :: 64 word) n \<longleftrightarrow>
      bit v n \<or> (n < 64 \<and> n div 8 \<in> set is \<and> bit (b ! (n div 8)) (n mod 8))" for "is" v
    by (induction "is" arbitrary: v) (auto simp: bit_or_iff step)
  then show ?thesis
    by (auto simp: getUint64_def less_mult_imp_div_less)
qed

lemma length_putUint64 [simp]: "length (putUint64 v) = 8"
  by (simp add: putUint64_def)

lemma xorUint64_map2:
  assumes "length a = 8" "length b = 8"
  shows "xorUint64 a b = map2 (XOR) a b"
proof (rule nth_equalityI)
  fix i assume "i < length (xorUint64 a b)"
  then have i: "i < 8" by (simp add: xorUint64_def)
  show "xorUint64 a b ! i = map2 (XOR) a b ! i"
  proof (rule bit_word_eqI)
    fix n assume "n < LENGTH(8)"
    then have n: "n < 8" by simp
    have "(8 * i + n) div 8 = i" "(8 * i + n) mod 8 = n" "8 * i + n < 64" using i n by simp_all
    then show "bit (xorUint64 a b ! i) n = bit (map2 (XOR) a b ! i) n"
      using i n assms
      by (simp add: xorUint64_def putUint64_def bit_ucast_iff bit_drop_bit_eq bit_xor_iff bit_getUint64)
  qed
qed (simp add: xorUint64_def assms)

lemma map2_split:
  "length xs = length ys \<Longrightarrow> map2 f xs ys = map2 f (take k xs) (take k ys) @ map2 f (drop k xs) (drop k ys)"
  by (simp add: list_eq_iff_nth_eq nth_append min_def)

lemma sliceXorGo_map2: "length inp = length out \<Longrightarrow> sliceXorGo inp out = map2 (XOR) out inp"
proof (induction inp out rule: sliceXorGo.induct)
  case (1 inp out)
  show ?case
  proof (cases "32 \<le> length out")
    case True
    have "map2 (XOR) out inp =
        map2 (XOR) (slice 0 8 out) (slice 0 8 inp) @ map2 (XOR) (slice 8 16 out) (slice 8 16 inp) @
        map2 (XOR) (slice 16 24 out) (slice 16 24 inp) @ map2 (XOR) (slice 24 32 out) (slice 24 32 inp) @
        map2 (XOR) (drop 32 out) (drop 32 inp)"
      using map2_split [of out inp "(XOR)" 8] map2_split [of "drop 8 out" "drop 8 inp" "(XOR)" 8]
        map2_split [of "drop 16 out" "drop 16 inp" "(XOR)" 8] map2_split [of "drop 24 out" "drop 24 inp" "(XOR)" 8] 1(2)
      by (simp add: slice_def)
    then show ?thesis
      using 1 True by (subst sliceXorGo.simps) (simp add: xorUint64_map2)
  next
    case False
    then show ?thesis using 1(2) by (subst sliceXorGo.simps) simp
  qed
qed

lemma galMulSlice_map: "length inp = length out \<Longrightarrow> galMulSlice c inp out = map (galMultiply c) inp"
  by (simp add: galMulSlice_def galMultiply_def [symmetric] Let_def map_idI)

lemma galMulSliceXor_map2:
  "length inp = length out \<Longrightarrow> galMulSliceXor c inp out = map2 (\<lambda>o' i. o' XOR galMultiply c i) out inp"
  by (simp add: galMulSliceXor_def sliceXor_def sliceXorGo_map2 galMultiply_def [symmetric] Let_def)

section \<open>What a list of steps computes\<close>

text \<open>The reference: every output byte is the inner product of its matrix row with the bytes of
  the inputs at the same offset.\<close>

definition column :: "bytes list \<Rightarrow> nat \<Rightarrow> bytes" where
  "column inputs k = map (\<lambda>inp. inp ! k) inputs"

definition code_ref :: "matrix \<Rightarrow> bytes list \<Rightarrow> nat \<Rightarrow> bytes list" where
  "code_ref rows inputs n = map (\<lambda>row. map (\<lambda>k. dot row (column inputs k)) [0..<n]) rows"

definition covers :: "nat \<Rightarrow> nat \<Rightarrow> code_step \<Rightarrow> bool" where
  "covers row k s \<longleftrightarrow> cs_row s = row \<and> cs_lo s \<le> k \<and> k < cs_hi s"

definition byte_step :: "bytes \<Rightarrow> bytes list \<Rightarrow> nat \<Rightarrow> code_step \<Rightarrow> byte \<Rightarrow> byte" where
  "byte_step row inputs k s v =
     (if cs_c s = 0 then galMultiply (row ! cs_c s) (inputs ! cs_c s ! k)
      else v XOR galMultiply (row ! cs_c s) (inputs ! cs_c s ! k))"

definition step_ok :: "nat \<Rightarrow> nat \<Rightarrow> nat \<Rightarrow> code_step \<Rightarrow> bool" where
  "step_ok n inputs outputs s \<longleftrightarrow>
     cs_c s < inputs \<and> cs_row s < outputs \<and> cs_lo s \<le> cs_hi s \<and> cs_hi s \<le> n"

definition lens_eq :: "nat \<Rightarrow> bytes list \<Rightarrow> bool" where
  "lens_eq n xs \<longleftrightarrow> (\<forall>x \<in> set xs. length x = n)"

lemma lens_eq_nth: "lens_eq n xs \<Longrightarrow> i < length xs \<Longrightarrow> length (xs ! i) = n"
  by (simp add: lens_eq_def)

lemma length_exec_step [simp]: "length (exec_step rows inputs s outputs) = length outputs"
  by (simp add: exec_step_def Let_def)

lemma exec_step_nth:
  assumes "step_ok n (length inputs) (length outputs) s" "lens_eq n inputs" "lens_eq n outputs"
    and "row < length outputs"
  shows "length (exec_step rows inputs s outputs ! row) = n"
    and "k < n \<Longrightarrow> exec_step rows inputs s outputs ! row ! k =
      (if covers row k s then byte_step (rows ! row) inputs k s (outputs ! row ! k) else outputs ! row ! k)"
proof -
  have len: "length (outputs ! cs_row s) = n" "length (inputs ! cs_c s) = n" "length (outputs ! row) = n"
    using assms by (auto simp: step_ok_def lens_eq_nth)
  show "length (exec_step rows inputs s outputs ! row) = n"
    using assms(1,4) len
    by (auto simp: exec_step_def Let_def step_ok_def nth_list_update galMulSlice_map galMulSliceXor_map2)
  assume "k < n"
  then show "exec_step rows inputs s outputs ! row ! k =
      (if covers row k s then byte_step (rows ! row) inputs k s (outputs ! row ! k) else outputs ! row ! k)"
    using assms(1,4) len
    by (auto simp: exec_step_def Let_def step_ok_def covers_def byte_step_def nth_list_update nth_put_slice
        nth_slice galMulSlice_map galMulSliceXor_map2)
qed

lemma lens_eq_exec_step:
  assumes "step_ok n (length inputs) (length outputs) s" "lens_eq n inputs" "lens_eq n outputs"
  shows "lens_eq n (exec_step rows inputs s outputs)"
  using exec_step_nth(1) [OF assms] by (auto simp: lens_eq_def in_set_conv_nth)

text \<open>A byte of an output sees only the steps that cover it.\<close>

lemma fold_exec_step_nth:
  assumes "list_all (step_ok n (length inputs) (length outputs)) steps" "lens_eq n inputs" "lens_eq n outputs"
    and "row < length outputs"
  shows "length (fold (exec_step rows inputs) steps outputs) = length outputs"
    and "lens_eq n (fold (exec_step rows inputs) steps outputs)"
    and "k < n \<Longrightarrow> fold (exec_step rows inputs) steps outputs ! row ! k =
      fold (byte_step (rows ! row) inputs k) (filter (covers row k) steps) (outputs ! row ! k)"
proof -
  have "length (fold (exec_step rows inputs) steps outputs) = length outputs \<and>
    lens_eq n (fold (exec_step rows inputs) steps outputs) \<and>
    (k < n \<longrightarrow> fold (exec_step rows inputs) steps outputs ! row ! k =
      fold (byte_step (rows ! row) inputs k) (filter (covers row k) steps) (outputs ! row ! k))"
    using assms
  proof (induction steps arbitrary: outputs)
    case (Cons s steps)
    then have s: "step_ok n (length inputs) (length outputs) s" by simp
    show ?case
      using Cons.IH [of "exec_step rows inputs s outputs"] Cons.prems
        lens_eq_exec_step [OF s Cons.prems(2,3)] exec_step_nth(2) [OF s Cons.prems(2,3,4)]
      by simp
  qed simp
  then show "length (fold (exec_step rows inputs) steps outputs) = length outputs"
    and "lens_eq n (fold (exec_step rows inputs) steps outputs)"
    and "k < n \<Longrightarrow> fold (exec_step rows inputs) steps outputs ! row ! k =
      fold (byte_step (rows ! row) inputs k) (filter (covers row k) steps) (outputs ! row ! k)"
    by auto
qed

section \<open>Rounds and jobs cover every byte once\<close>

lemma round_steps_ok:
  "lo \<le> hi \<Longrightarrow> hi \<le> n \<Longrightarrow> list_all (step_ok n nin nout) (round_steps nin nout (lo, hi))"
  by (auto simp: round_steps_def list_all_iff step_ok_def)

lemma filter_round_steps:
  assumes "row < nout"
  shows "filter (covers row k) (round_steps nin nout (lo, hi)) =
    (if lo \<le> k \<and> k < hi then map (\<lambda>c. CodeStep c row lo hi) [0..<nin] else [])"
proof -
  have "filter (covers row k) (map (\<lambda>iRow. CodeStep c iRow lo hi) [0..<nout]) =
      (if lo \<le> k \<and> k < hi then [CodeStep c row lo hi] else [])" for c
    using assms by (induction nout) (auto simp: covers_def less_Suc_eq filter_empty_conv)
  then have "filter (covers row k) (round_steps nin nout (lo, hi)) =
      concat (map (\<lambda>c. if lo \<le> k \<and> k < hi then [CodeStep c row lo hi] else []) [0..<nin])"
    by (simp add: round_steps_def filter_concat comp_def)
  then show ?thesis by (auto simp: concat_map_singleton)
qed

lemma rounds_ok:
  "lstart \<le> stop \<Longrightarrow> (lo, hi) \<in> set (rounds perRound stop lstart) \<Longrightarrow> lstart \<le> lo \<and> lo \<le> hi \<and> hi \<le> stop"
proof (induction perRound stop lstart rule: rounds.induct)
  case (1 perRound stop lstart)
  show ?case
    using 1(2,3) 1(1) [OF _ refl] by (subst (asm) rounds.simps) (auto simp: Let_def split: if_splits)
qed

lemma filter_exec_steps:
  assumes "row < nout" "0 < perRound"
  shows "(\<not> (start \<le> k \<and> k < stop) \<longrightarrow>
     filter (covers row k) (exec_steps perRound nin nout (start, stop)) = [])
   \<and> (start \<le> k \<and> k < stop \<longrightarrow>
     (\<exists>lo hi. filter (covers row k) (exec_steps perRound nin nout (start, stop)) =
        map (\<lambda>c. CodeStep c row lo hi) [0..<nin]))"
  using assms
proof (induction perRound stop start rule: rounds.induct)
  case (1 perRound stop lstart)
  show ?case
  proof (cases "stop \<le> lstart")
    case True
    then show ?thesis by (simp add: exec_steps_def rounds.simps)
  next
    case False
    let ?lstop = "min (lstart + perRound) stop"
    have "exec_steps perRound nin nout (lstart, stop) =
        round_steps nin nout (lstart, ?lstop) @ exec_steps perRound nin nout (?lstop, stop)"
      using False 1(3) by (simp add: exec_steps_def rounds.simps [of perRound stop lstart] Let_def)
    then show ?thesis
      using 1(1) [OF _ refl 1(2,3)] False 1(3) filter_round_steps [OF 1(2), of k nin lstart ?lstop]
      by (cases "k < ?lstop") auto
  qed
qed

lemma exec_steps_ok:
  assumes "start \<le> stop" "stop \<le> n"
  shows "list_all (step_ok n nin nout) (exec_steps perRound nin nout (start, stop))"
proof -
  have "list_all (step_ok n nin nout) (round_steps nin nout r)"
    if "r \<in> set (rounds perRound stop start)" for r
    using that rounds_ok [OF assms(1), of "fst r" "snd r" perRound] assms(2)
      round_steps_ok [of "fst r" "snd r" n nin nout] by simp
  then show ?thesis
    unfolding exec_steps_def list_all_iff by fastforce
qed

text \<open>The jobs of the goroutines are consecutive ranges from 0 to the byte count.\<close>

definition jobs_cover :: "(nat \<times> nat) list \<Rightarrow> nat \<Rightarrow> bool" where
  "jobs_cover jobs n \<longleftrightarrow> (\<forall>(start, stop) \<in> set jobs. start \<le> stop \<and> stop \<le> n) \<and>
     (\<forall>k < n. \<exists>!j. j < length jobs \<and> fst (jobs ! j) \<le> k \<and> k < snd (jobs ! j))"

lemma split_jobs_bounds:
  "start \<le> n \<Longrightarrow> (a, b) \<in> set (split_jobs d n start) \<Longrightarrow> start \<le> a \<and> a \<le> b \<and> b \<le> n"
proof (induction d n start rule: split_jobs.induct)
  case (1 d n start)
  show ?case
    using 1(2,3) 1(1) [OF _ refl] by (subst (asm) split_jobs.simps) (auto simp: Let_def split: if_splits)
qed

lemma ex1_nth_Cons:
  "P x \<Longrightarrow> (\<And>i. i < length xs \<Longrightarrow> \<not> P (xs ! i)) \<Longrightarrow> \<exists>!j. j < length (x # xs) \<and> P ((x # xs) ! j)"
  "\<not> P x \<Longrightarrow> \<exists>!j. j < length xs \<and> P (xs ! j) \<Longrightarrow> \<exists>!j. j < length (x # xs) \<and> P ((x # xs) ! j)"
  subgoal by (rule ex1I [of _ 0]) (simp, metis gr0_conv_Suc length_Cons nth_Cons_Suc not_gr_zero Suc_less_eq)
  subgoal by (metis length_Cons Suc_less_eq nth_Cons_Suc nth_Cons_0 not0_implies_Suc)
  done

lemma split_jobs_unique:
  "0 < d \<Longrightarrow> start \<le> k \<Longrightarrow> k < n \<Longrightarrow>
     \<exists>!j. j < length (split_jobs d n start) \<and> fst (split_jobs d n start ! j) \<le> k \<and> k < snd (split_jobs d n start ! j)"
proof (induction d n start rule: split_jobs.induct)
  case (1 d n start)
  define e where "e = (if n < start + d then n - start else d)"
  have eq: "split_jobs d n start = (start, start + e) # split_jobs e n (start + e)"
    using "1.prems" by (subst split_jobs.simps) (simp add: Let_def e_def)
  have le: "start + e \<le> n" "0 < e" using "1.prems" by (auto simp: e_def)
  note Cons = ex1_nth_Cons [where P = "\<lambda>r. fst r \<le> k \<and> k < snd r" and x = "(start, start + e)"
      and xs = "split_jobs e n (start + e)"]
  show ?case
  proof (cases "k < start + e")
    case True
    have "\<not> fst r \<le> k" if "r \<in> set (split_jobs e n (start + e))" for r
      using split_jobs_bounds [OF le(1), of "fst r" "snd r" e] that True by simp
    then show ?thesis
      unfolding eq using True "1.prems" by (intro Cons(1)) simp_all
  next
    case False
    then have "\<exists>!j. j < length (split_jobs e n (start + e)) \<and>
        fst (split_jobs e n (start + e) ! j) \<le> k \<and> k < snd (split_jobs e n (start + e) ! j)"
      using "1.IH" [OF _ e_def] "1.prems" le by simp
    then show ?thesis
      unfolding eq using False by (intro Cons(2)) simp_all
  qed
qed

lemma code_jobs_cover:
  assumes "1 < gor \<Longrightarrow> 0 < minSplit"
  shows "jobs_cover (code_jobs gor minSplit n) n"
proof (cases "gor \<le> 1")
  case True
  then show ?thesis by (auto simp: code_jobs_def jobs_cover_def)
next
  case False
  define d where "d = nat (((if int n div gor < minSplit then minSplit else int n div gor) + 63) div 64 * 64)"
  have jobs: "code_jobs gor minSplit n = split_jobs d n 0"
    using False by (simp add: code_jobs_def d_def Let_def)
  have "0 < d"
    using False assms by (auto simp: d_def)
  then show ?thesis
    unfolding jobs jobs_cover_def using split_jobs_bounds [of 0 n _ _ d] split_jobs_unique [of d 0 _ n] by auto
qed

text \<open>Every interleaving of the goroutines of a family of jobs that covers each byte once
  computes the reference product.\<close>

lemma fold_byte_steps:
  assumes "0 < length inputs" "length inputs \<le> length row"
  shows "fold (byte_step row inputs k) (map (\<lambda>c. CodeStep c r lo hi) [0..<length inputs]) v =
    dot (take (length inputs) row) (column inputs k)"
proof -
  have "fold (byte_step row inputs k) (map (\<lambda>c. CodeStep c r lo hi) [0..<Suc n]) v =
      dot (take (Suc n) row) (take (Suc n) (column inputs k))" if "n < length inputs" for n
    using that assms
  proof (induction n)
    case 0
    then show ?case by (cases row; cases inputs) (auto simp: byte_step_def column_def)
  next
    case (Suc n)
    have "take (Suc (Suc n)) row = take (Suc n) row @ [row ! Suc n]"
      "take (Suc (Suc n)) (column inputs k) = take (Suc n) (column inputs k) @ [column inputs k ! Suc n]"
      using Suc.prems by (auto simp: take_Suc_conv_app_nth column_def)
    then show ?case
      using Suc by (simp add: dot_append byte_step_def column_def)
  qed
  from this [of "length inputs - 1"] assms show ?thesis
    by (simp add: column_def del: upt_Suc)
qed

lemma interleaved_byte:
  assumes sched: "sched \<in> interleavings (map (exec_steps perRound (length inputs) (length outputs)) jobs)"
    and ok: "list_all (step_ok n (length inputs) (length outputs)) sched"
    and jobs: "jobs_cover jobs n" and lens: "lens_eq n inputs" "lens_eq n outputs"
    and i: "i < length outputs" "length (rows ! i) = length inputs" and k: "k < n"
    and pos: "0 < perRound" "inputs \<noteq> []"
  shows "fold (exec_step rows inputs) sched outputs ! i ! k = dot (rows ! i) (column inputs k)"
proof -
  obtain j where j: "j < length jobs" "fst (jobs ! j) \<le> k" "k < snd (jobs ! j)"
    and uniq: "\<And>j'. j' < length jobs \<Longrightarrow> fst (jobs ! j') \<le> k \<and> k < snd (jobs ! j') \<Longrightarrow> j' = j"
    using jobs k unfolding jobs_cover_def by blast
  note steps = filter_exec_steps [OF i(1) pos(1), of "fst (jobs ! j')" k "snd (jobs ! j')" "length inputs" for j']
  obtain lo hi where "filter (covers i k) (exec_steps perRound (length inputs) (length outputs) (jobs ! j)) =
      map (\<lambda>c. CodeStep c i lo hi) [0..<length inputs]"
    using steps [of j] j by auto
  moreover have "filter (covers i k) sched =
      filter (covers i k) (map (exec_steps perRound (length inputs) (length outputs)) jobs ! j)"
  proof (rule filter_interleavings [OF sched])
    fix j' assume "j' < length (map (exec_steps perRound (length inputs) (length outputs)) jobs)" "j' \<noteq> j"
    then show "filter (covers i k) (map (exec_steps perRound (length inputs) (length outputs)) jobs ! j') = []"
      using steps [of j'] uniq [of j'] by auto
  qed (use j in simp)
  ultimately show ?thesis
    using fold_exec_step_nth(3) [OF ok lens i(1) k, of rows]
      fold_byte_steps [of inputs "rows ! i" k i lo hi] pos(2) i j k
    by simp
qed

lemma scheduled_steps_ok:
  assumes "sched \<in> interleavings (map (exec_steps perRound nin nout) jobs)" "jobs_cover jobs n"
  shows "list_all (step_ok n nin nout) sched"
  using interleavings_set [OF assms(1)] assms(2) exec_steps_ok [of _ _ n nin nout perRound]
  unfolding jobs_cover_def list_all_iff by fastforce

lemma interleaved_jobs:
  assumes sched: "sched \<in> interleavings (map (exec_steps perRound (length inputs) (length outputs)) jobs)"
    and jobs: "jobs_cover jobs n" and lens: "lens_eq n inputs" "lens_eq n outputs"
    and rows: "wf_mat (length outputs) (length inputs) (take (length outputs) rows)"
    and pos: "0 < perRound" "inputs \<noteq> []"
  shows "fold (exec_step rows inputs) sched outputs = code_ref (take (length outputs) rows) inputs n"
proof (cases "outputs = []")
  note ok = scheduled_steps_ok [OF sched jobs]
  {
    case True
    then have "sched = []"
      using ok by (cases sched) (auto simp: step_ok_def)
    with True show ?thesis by (simp add: code_ref_def)
  next
    case False
    note fold = fold_exec_step_nth(1,2) [OF ok lens, of 0 rows]
    have le: "length outputs \<le> length rows" using rows by (simp add: wf_mat_def min_def split: if_splits)
    have row: "length (rows ! i) = length inputs" if "i < length outputs" for i
      using wf_mat_nth [OF rows that] that by simp
    show ?thesis
    proof (rule nth_equalityI)
      fix i assume "i < length (fold (exec_step rows inputs) sched outputs)"
      then have i: "i < length outputs" using fold False by simp
      have "length (fold (exec_step rows inputs) sched outputs ! i) = n"
        using lens_eq_nth [OF fold(2)] fold(1) i False by simp
      then show "fold (exec_step rows inputs) sched outputs ! i = code_ref (take (length outputs) rows) inputs n ! i"
        using interleaved_byte [where rows = rows, OF sched ok jobs lens i row [OF i] _ pos] i le
        by (simp add: list_eq_iff_nth_eq code_ref_def)
    qed (use fold False le in \<open>simp add: code_ref_def\<close>)
  }
qed

section \<open>The coding loops compute the product\<close>

text \<open>The tuning parameters under which the loops end and the goroutines share the work.\<close>

definition tuned :: "int \<Rightarrow> int \<Rightarrow> int \<Rightarrow> bool" where
  "tuned maxGoroutines minSplitSize perRound \<longleftrightarrow> 1 \<le> maxGoroutines \<and> 0 < minSplitSize \<and> 0 < perRound"

definition code_args :: "matrix \<Rightarrow> bytes list \<Rightarrow> bytes list \<Rightarrow> nat \<Rightarrow> bool" where
  "code_args rows inputs outputs n \<longleftrightarrow> inputs \<noteq> [] \<and> lens_eq n inputs \<and> lens_eq n outputs \<and>
     wf_mat (length outputs) (length inputs) (take (length outputs) rows)"

text \<open>Steps within the buffers run without a panic, and all of them run.\<close>

lemma run_steps_ok:
  assumes "list_all (step_ok n (length inputs) (length outputs)) steps" "lens_eq n inputs" "lens_eq n outputs"
    and "wf_mat (length outputs) (length inputs) (take (length outputs) rows)"
  shows "run_steps rows inputs steps outputs = Inr (fold (exec_step rows inputs) steps outputs)"
  using assms
proof (induction steps arbitrary: outputs)
  case (Cons s steps)
  then have s: "step_ok n (length inputs) (length outputs) s" by simp
  have "length outputs \<le> length rows" using Cons.prems(4) by (simp add: wf_mat_def min_def split: if_splits)
  moreover have "length (rows ! cs_row s) = length inputs"
    using wf_mat_nth [OF Cons.prems(4), of "cs_row s"] s by (simp add: step_ok_def)
  ultimately have "in_range rows inputs outputs s"
    using s lens_eq_nth [OF Cons.prems(2)] lens_eq_nth [OF Cons.prems(3)] by (simp add: in_range_def step_ok_def)
  then show ?case
    using Cons.IH [of "exec_step rows inputs s outputs"] Cons.prems lens_eq_exec_step [OF s Cons.prems(2,3)] by simp
qed simp

lemma exec_job_ok:
  assumes "0 < perRound" "code_args rows inputs outputs n" "fst job \<le> snd job" "snd job \<le> n"
  shows "exec_job perRound rows inputs job outputs =
    Inr (fold (exec_step rows inputs) (exec_steps (nat perRound) (length inputs) (length outputs) job) outputs)"
proof (cases "fst job < snd job")
  case True
  then show ?thesis
    using assms run_steps_ok [OF exec_steps_ok [OF assms(3,4)]] by (simp add: exec_job_def code_args_def)
next
  case False
  then have "exec_steps (nat perRound) (length inputs) (length outputs) job = []" by (simp add: exec_steps_def rounds.simps)
  then show ?thesis using False by (simp add: exec_job_def)
qed

lemma code_args_steps:
  assumes "list_all (step_ok n (length inputs) (length outputs)) steps" "code_args rows inputs outputs n"
  shows "code_args rows inputs (fold (exec_step rows inputs) steps outputs) n" "length (fold (exec_step rows inputs) steps outputs) = length outputs"
proof -
  show len: "length (fold (exec_step rows inputs) steps outputs) = length outputs" for outputs
    by (induction steps arbitrary: outputs) simp_all
  have "lens_eq n (fold (exec_step rows inputs) steps outputs)"
    using assms(1) assms(2) unfolding code_args_def
    by (induction steps arbitrary: outputs) (simp_all add: lens_eq_exec_step)
  then show "code_args rows inputs (fold (exec_step rows inputs) steps outputs) n" using assms(2) by (simp add: code_args_def len)
qed

lemma run_jobs_ok:
  assumes "0 < perRound" "code_args rows inputs outputs n" "\<forall>(start, stop) \<in> set jobs. start \<le> stop \<and> stop \<le> n"
  shows "run_jobs perRound rows inputs jobs outputs =
    Inr (fold (exec_step rows inputs) (concat (map (exec_steps (nat perRound) (length inputs) (length outputs)) jobs)) outputs)"
  using assms(2,3)
proof (induction jobs arbitrary: outputs)
  case (Cons job jobs)
  have job: "fst job \<le> snd job" "snd job \<le> n" using Cons.prems(2) by (auto simp: case_prod_beta)
  note steps = exec_steps_ok [OF job, of "length inputs" "length outputs" "nat perRound", unfolded prod.collapse]
  show ?case
    using Cons.IH [OF code_args_steps(1) [OF steps Cons.prems(1)]] Cons.prems(2) exec_job_ok [OF assms(1) Cons.prems(1) job]
      code_args_steps(2) [OF steps Cons.prems(1)]
    by simp
qed simp

lemma schedule_code_ref:
  assumes "tuned gor minSplit perRound" "code_args rows inputs outputs n"
    and "sched \<in> interleavings (map (exec_steps (nat perRound) (length inputs) (length outputs)) (code_jobs gor minSplit n))"
  shows "fold (exec_step rows inputs) sched outputs = code_ref (take (length outputs) rows) inputs n"
  using assms by (intro interleaved_jobs [OF assms(3) code_jobs_cover]) (auto simp: tuned_def code_args_def)

lemma code_jobs_nonempty:
  assumes "tuned gor minSplit perRound" "0 < n"
  shows "code_jobs gor minSplit n \<noteq> []"
  using code_jobs_cover [of gor minSplit n] assms by (force simp: tuned_def jobs_cover_def)

lemma codeSomeShardsP_ref:
  assumes "tuned gor minSplit perRound" "code_args rows inputs outputs n"
  shows "codeSomeShardsP gor minSplit perRound rows inputs outputs n =
    Inr (code_ref (take (length outputs) rows) inputs n)"
proof -
  have "\<not> (0 < n \<and> code_jobs gor minSplit n = [])" "gor \<noteq> 0" "0 < perRound" "1 < gor \<Longrightarrow> 0 < minSplit"
    using assms(1) code_jobs_nonempty [OF assms(1)] by (auto simp: tuned_def)
  then show ?thesis
    using schedule_code_ref [OF assms concat_interleavings] run_jobs_ok [OF _ assms(2)] code_jobs_cover [of gor minSplit n]
    unfolding codeSomeShardsP_def jobs_cover_def by auto
qed

lemma codeSomeShards_ref:
  assumes tuned: "tuned gor minSplit perRound" and args: "code_args rows inputs outputs n"
  shows "codeSomeShards gor minSplit perRound rows inputs outputs n =
    Inr (code_ref (take (length outputs) rows) inputs n)"
proof -
  have n: "length (inputs ! 0) = n" "inputs \<noteq> []"
    using args by (auto simp: code_args_def lens_eq_def)
  have cover: "jobs_cover [(0, n)] n" by (auto simp: jobs_cover_def)
  have serial: "exec_steps (nat perRound) (length inputs) (length outputs) (0, n) \<in>
      interleavings (map (exec_steps (nat perRound) (length inputs) (length outputs)) [(0, n)])"
    using concat_interleavings [of "[exec_steps (nat perRound) (length inputs) (length outputs) (0, n)]"] by simp
  have "fold (exec_step rows inputs)
      (exec_steps (nat perRound) (length inputs) (length outputs) (0, n)) outputs =
      code_ref (take (length outputs) rows) inputs n"
    using args tuned by (intro interleaved_jobs [OF serial cover]) (auto simp: code_args_def tuned_def)
  then show ?thesis
    using codeSomeShardsP_ref [OF assms] exec_job_ok [OF _ args, of perRound "(0, n)"] n tuned
    by (auto simp: codeSomeShards_def tuned_def code_ref_def)
qed

lemma length_code_ref [simp]: "length (code_ref rows inputs n) = length rows"
  by (simp add: code_ref_def)

lemma lens_eq_code_ref [simp]: "lens_eq n (code_ref rows inputs n)"
  by (simp add: lens_eq_def code_ref_def)

section \<open>Properties\<close>

text \<open>C15. The coding loops, serial or split over goroutines, with whatever round and job sizes the
  options give, write to every output the product of its matrix row with the input columns;
  what the output buffers held before does not matter, and no kernel call takes a slice out of range:
  \<open>run_steps\<close> panics at such a call.\<close>

theorem codeSomeShards_correct:
  assumes "tuned gor minSplit perRound"
    and "inputs \<noteq> []" "\<forall>inp \<in> set inputs. length inp = n" "\<forall>out \<in> set outputs. length out = n"
    and "length rows = length outputs" "\<forall>row \<in> set rows. length row = length inputs"
  shows "codeSomeShards gor minSplit perRound rows inputs outputs n =
    Inr (map (\<lambda>row. map (\<lambda>k. dot row (map (\<lambda>inp. inp ! k) inputs)) [0..<n]) rows)"
  using codeSomeShards_ref [OF assms(1), of rows inputs outputs n] assms
  by (simp add: code_args_def lens_eq_def wf_mat_def code_ref_def column_def)

theorem codeSomeShards_correct_witness:
  "codeSomeShards 2 1 3 [[1, 2], [3, 1]] [[7, 8, 9, 1, 2], [1, 2, 3, 4, 5]] [[9, 9, 9, 9, 9], [0, 0, 0, 0, 0]] 5 =
     Inr [[5, 12, 15, 9, 8], [8, 26, 24, 7, 3]]"
proof -
  have "map (\<lambda>row. map (\<lambda>k. dot row (map (\<lambda>inp. inp ! k) [[7, 8, 9, 1, 2], [1, 2, 3, 4, 5]])) [0..<5])
      [[1, 2], [3, 1]] = [[5, 12, 15, 9, 8], [8, 26, 24, 7, 3]]"
    by code_simp
  then show ?thesis
    using codeSomeShards_correct [of 2 1 3 "[[7, 8, 9, 1, 2], [1, 2, 3, 4, 5]]" 5
        "[[9, 9, 9, 9, 9], [0, 0, 0, 0, 0]]" "[[1, 2], [3, 1]]"]
    by (simp add: tuned_def)
qed

text \<open>C18. The goroutines of \<open>codeSomeShardsP\<close> do not race: under every interleaving of their
  kernel calls no call panics and the outputs are those of the sequential run.\<close>

theorem codeSomeShardsP_schedule:
  assumes "tuned gor minSplit perRound"
    and "inputs \<noteq> []" "\<forall>inp \<in> set inputs. length inp = n" "\<forall>out \<in> set outputs. length out = n"
    and "length rows = length outputs" "\<forall>row \<in> set rows. length row = length inputs"
    and "sched \<in> interleavings (map (exec_steps (nat perRound) (length inputs) (length outputs)) (code_jobs gor minSplit n))"
  shows "codeSomeShardsP gor minSplit perRound rows inputs outputs n = Inr (fold (exec_step rows inputs) sched outputs)
     \<and> run_steps rows inputs sched outputs = Inr (fold (exec_step rows inputs) sched outputs)"
proof -
  have args: "code_args rows inputs outputs n"
    using assms(2-6) by (simp add: code_args_def lens_eq_def wf_mat_def)
  have "jobs_cover (code_jobs gor minSplit n) n" using assms(1) by (intro code_jobs_cover) (simp add: tuned_def)
  note ok = scheduled_steps_ok [OF assms(7) this]
  have "run_steps rows inputs sched outputs = Inr (fold (exec_step rows inputs) sched outputs)"
    using args run_steps_ok [OF ok] by (simp add: code_args_def)
  then show ?thesis
    using codeSomeShardsP_ref [OF assms(1) args] schedule_code_ref [OF assms(1) args assms(7)] by simp
qed

theorem codeSomeShardsP_schedule_witness:
  "codeSomeShardsP 2 64 64 [[2]] [replicate 65 3] [replicate 65 0] 65 =
     run_steps [[2]] [replicate 65 3] [CodeStep 0 0 64 65, CodeStep 0 0 0 64] [replicate 65 0]"
proof -
  have "code_jobs 2 64 65 = [(0, 64), (64, 65)]"
    "map (exec_steps 64 1 1) [(0, 64), (64, 65)] = [[CodeStep 0 0 0 64], [CodeStep 0 0 64 65]]"
    by code_simp+
  moreover have "[CodeStep 0 0 64 65, CodeStep 0 0 0 64] \<in> interleavings [[CodeStep 0 0 0 64], [CodeStep 0 0 64 65]]"
    by (simp add: Cons_in_shuffles_rightI)
  ultimately show ?thesis
    using codeSomeShardsP_schedule [of 2 64 64 "[replicate 65 3]" 65 "[replicate 65 0]" "[[2]]"
        "[CodeStep 0 0 64 65, CodeStep 0 0 0 64]"]
    by (simp add: tuned_def)
qed

end
