(* ===== verification/Inversion_Tree.thy ===== *)
theory Inversion_Tree
  imports Matrix
begin

text \<open>
  The cache of inverted matrices: \<open>reedsolomon/inversion_tree.go\<close>. A node holds a matrix (nil
  is \<open>None\<close>) and its children; the key of a matrix is the list of the indices of the missing
  rows, one tree level per index, each child list starting at the index after its parent's.
  The reader-writer lock of the source is not modelled: an operation is one step. A nil
  \<open>*inversionTree\<close> (cache disabled) is \<open>None\<close>.
  The locale \<open>inversion_cache\<close> states what the reconstruction needs of a cache, a finite map
  that keeps the soundness of its entries; the tree is an interpretation of it.
\<close>

datatype inversionNode =
  InversionNode (node_matrix: "matrix option") (node_children: "inversionNode option list")

definition newInversionTree :: "nat \<Rightarrow> nat \<Rightarrow> inversionNode" where
  "newInversionTree dataShards parityShards =
     InversionNode (case identityMatrix (int dataShards) of Inl _ \<Rightarrow> None | Inr m \<Rightarrow> Some m)
       (replicate (dataShards + parityShards) None)"

fun getInvertedMatrix :: "inversionNode \<Rightarrow> nat list \<Rightarrow> nat \<Rightarrow> matrix option result" where
  "getInvertedMatrix n [] parent = Inl index_panic"
| "getInvertedMatrix n (firstIndex # rest) parent =
     (if firstIndex < parent \<or> length (node_children n) \<le> firstIndex - parent then Inl index_panic
      else case node_children n ! (firstIndex - parent) of
          None \<Rightarrow> Inr None
        | Some node \<Rightarrow> if rest \<noteq> [] then getInvertedMatrix node rest (firstIndex + 1)
                       else Inr (node_matrix node))"

text \<open>The child the insertion descends to, created with its list of children if it is nil;
  \<open>make\<close> with a negative length panics.\<close>

definition insert_child :: "nat \<Rightarrow> nat \<Rightarrow> inversionNode option \<Rightarrow> inversionNode result" where
  "insert_child shards firstIndex child =
     (case child of
        None \<Rightarrow> if shards < firstIndex then Inl (GoPanic ''makeslice: len out of range'')
                else Inr (InversionNode None (replicate (shards - firstIndex) None))
      | Some node \<Rightarrow> Inr node)"

fun insertInvertedMatrix :: "inversionNode \<Rightarrow> nat list \<Rightarrow> matrix \<Rightarrow> nat \<Rightarrow> nat \<Rightarrow> inversionNode result" where
  "insertInvertedMatrix n [] m shards parent = Inl index_panic"
| "insertInvertedMatrix n (firstIndex # rest) m shards parent =
     (if firstIndex < parent \<or> length (node_children n) \<le> firstIndex - parent then Inl index_panic
      else bind_res (insert_child shards firstIndex (node_children n ! (firstIndex - parent))) (\<lambda>node.
        bind_res
          (if rest \<noteq> [] then insertInvertedMatrix node rest m shards (firstIndex + 1)
           else Inr (InversionNode (Some m) (node_children node)))
          (\<lambda>node. Inr (InversionNode (node_matrix n)
             ((node_children n)[firstIndex - parent := Some node])))))"

definition GetInvertedMatrix :: "inversionNode option \<Rightarrow> nat list \<Rightarrow> matrix option result" where
  "GetInvertedMatrix t invalidIndices =
     (case t of
        None \<Rightarrow> Inr None
      | Some rt \<Rightarrow>
          if length invalidIndices = 0 then Inr (node_matrix rt)
          else getInvertedMatrix rt invalidIndices 0)"

definition InsertInvertedMatrix ::
    "inversionNode option \<Rightarrow> nat list \<Rightarrow> matrix \<Rightarrow> nat \<Rightarrow> inversionNode option result" where
  "InsertInvertedMatrix t invalidIndices m shards =
     (case t of
        None \<Rightarrow> Inr None
      | Some rt \<Rightarrow>
          if length invalidIndices = 0 then Inl errAlreadySet
          else bind_res (IsSquare m) (\<lambda>square.
            if \<not> square then Inl errNotSquare
            else bind_res (insertInvertedMatrix rt invalidIndices m shards 0) (\<lambda>rt. Inr (Some rt))))"

section \<open>The interface\<close>

locale inversion_cache =
  fixes valid_key :: "nat list \<Rightarrow> bool"
    and invar :: "'t \<Rightarrow> bool"
    and get :: "'t \<Rightarrow> nat list \<Rightarrow> matrix option"
    and ins :: "'t \<Rightarrow> nat list \<Rightarrow> matrix \<Rightarrow> 't"
  assumes get_ins: "invar t \<Longrightarrow> valid_key k \<Longrightarrow> valid_key k' \<Longrightarrow>
      get (ins t k m) k' = (if k' = k then Some m else get t k')"
    and invar_ins: "invar t \<Longrightarrow> valid_key k \<Longrightarrow> invar (ins t k m)"
begin

definition sound :: "(nat list \<Rightarrow> matrix \<Rightarrow> bool) \<Rightarrow> 't \<Rightarrow> bool" where
  "sound P t \<longleftrightarrow> invar t \<and> (\<forall>k m. valid_key k \<longrightarrow> get t k = Some m \<longrightarrow> P k m)"

lemma sound_get: "sound P t \<Longrightarrow> valid_key k \<Longrightarrow> get t k = Some m \<Longrightarrow> P k m"
  by (simp add: sound_def)

lemma sound_ins: "sound P t \<Longrightarrow> valid_key k \<Longrightarrow> P k m \<Longrightarrow> sound P (ins t k m)"
  by (simp add: sound_def get_ins invar_ins)

lemma get_fold_ins:
  assumes "invar t" "valid_key k" "\<forall>(k', m') \<in> set kms. valid_key k'"
  shows "get (fold (\<lambda>(k', m') t. ins t k' m') kms t) k =
     (case map_of (rev kms) k of Some m \<Rightarrow> Some m | None \<Rightarrow> get t k)"
  using assms
proof (induction kms arbitrary: t)
  case (Cons km kms)
  then show ?case
    by (cases km) (auto simp: get_ins invar_ins map_add_def split: option.splits)
qed simp

end

section \<open>The tree is a cache\<close>

text \<open>Keys are strictly increasing lists of row indices; a node at depth \<open>parent\<close> has room for
  all indices from \<open>parent\<close> on.\<close>

definition tree_key :: "nat \<Rightarrow> nat \<Rightarrow> nat list \<Rightarrow> bool" where
  "tree_key shards parent is \<longleftrightarrow> is \<noteq> [] \<and> sorted_wrt (<) is \<and> (\<forall>i \<in> set is. parent \<le> i \<and> i < shards)"

inductive tree_wf :: "nat \<Rightarrow> nat \<Rightarrow> inversionNode \<Rightarrow> bool" for shards where
  tree_wfI: "shards - parent \<le> length (node_children n) \<Longrightarrow>
    (\<And>k c. k < length (node_children n) \<Longrightarrow> node_children n ! k = Some c \<Longrightarrow> tree_wf shards (Suc (parent + k)) c) \<Longrightarrow>
    tree_wf shards parent n"

inductive_cases tree_wfE: "tree_wf shards parent n"

definition tree_get :: "inversionNode \<Rightarrow> nat list \<Rightarrow> nat \<Rightarrow> matrix option" where
  "tree_get n is parent = (case getInvertedMatrix n is parent of Inr r \<Rightarrow> r | Inl _ \<Rightarrow> None)"

definition tree_ins :: "nat \<Rightarrow> inversionNode \<Rightarrow> nat list \<Rightarrow> matrix \<Rightarrow> nat \<Rightarrow> inversionNode" where
  "tree_ins shards n is m parent =
     (case insertInvertedMatrix n is m shards parent of Inr n' \<Rightarrow> n' | Inl _ \<Rightarrow> n)"

lemma tree_key_Cons:
  "tree_key shards parent (i # is) \<longleftrightarrow>
     parent \<le> i \<and> i < shards \<and> (is = [] \<or> tree_key shards (i + 1) is)"
  by (auto simp: tree_key_def)

lemma tree_wf_fresh [simp]: "shards - parent \<le> k \<Longrightarrow> tree_wf shards parent (InversionNode m (replicate k None))"
  by (rule tree_wfI) simp_all

lemma tree_wf_child:
  assumes n: "tree_wf shards parent n" and i: "parent \<le> i" "i < shards"
  shows "i - parent < length (node_children n)"
    and "node_children n ! (i - parent) = Some c \<Longrightarrow> tree_wf shards (i + 1) c"
proof -
  from n show len: "i - parent < length (node_children n)"
    by (rule tree_wfE) (use i in simp)
  assume c: "node_children n ! (i - parent) = Some c"
  from n have "tree_wf shards (Suc (parent + (i - parent))) c"
    by (rule tree_wfE) (use len c in blast)
  then show "tree_wf shards (i + 1) c"
    using i by simp
qed

lemma tree_wf_update:
  assumes n: "tree_wf shards parent n" and i: "parent \<le> i" and c: "tree_wf shards (i + 1) c"
  shows "tree_wf shards parent (InversionNode m ((node_children n)[i - parent := Some c]))"
  using n
proof (rule tree_wfE)
  assume len: "shards - parent \<le> length (node_children n)"
    and ch: "\<And>k c. k < length (node_children n) \<Longrightarrow> node_children n ! k = Some c \<Longrightarrow> tree_wf shards (Suc (parent + k)) c"
  show ?thesis
  proof (rule tree_wfI)
    fix k d
    assume "k < length (node_children (InversionNode m ((node_children n)[i - parent := Some c])))"
      and "node_children (InversionNode m ((node_children n)[i - parent := Some c])) ! k = Some d"
    then show "tree_wf shards (Suc (parent + k)) d"
      using ch [of k d] c i by (cases "k = i - parent") simp_all
  qed (use len in simp)
qed

text \<open>The two recursions never panic on a key, and they implement lookup and update.\<close>

lemma getInvertedMatrix_ok:
  "tree_wf shards parent n \<Longrightarrow> tree_key shards parent is \<Longrightarrow> getInvertedMatrix n is parent = Inr (tree_get n is parent)"
proof (induction n "is" parent rule: getInvertedMatrix.induct)
  case (2 n i rest parent)
  note child = tree_wf_child [OF "2.prems"(1), of i]
  from "2.prems"(2) have i: "parent \<le> i" "i < shards" "rest = [] \<or> tree_key shards (i + 1) rest"
    by (simp_all add: tree_key_Cons)
  with child "2.IH" show ?case
    by (auto simp: tree_get_def split: option.splits)
qed (simp add: tree_key_def)

lemma set_node_matrix:
  "tree_wf shards parent n \<Longrightarrow> tree_wf shards parent (InversionNode m (node_children n))"
  "tree_key shards parent k \<Longrightarrow> tree_get (InversionNode m (node_children n)) k parent = tree_get n k parent"
  subgoal by (erule tree_wfE) (rule tree_wfI; simp)
  subgoal by (cases k) (simp_all add: tree_get_def tree_key_def)
  done

lemma tree_get_Cons:
  assumes "tree_wf shards parent n" "tree_key shards parent (i # rest)"
  shows "tree_get n (i # rest) parent =
    (case node_children n ! (i - parent) of
       None \<Rightarrow> None
     | Some c \<Rightarrow> if rest = [] then node_matrix c else tree_get c rest (i + 1))"
proof -
  have i: "parent \<le> i" "i < shards" using assms(2) by (simp_all add: tree_key_Cons)
  show ?thesis
    using tree_wf_child(1) [OF assms(1) i] i by (auto simp: tree_get_def split: option.splits)
qed

text \<open>Replacing a child changes the lookups that go through it and no other.\<close>

lemma tree_get_update:
  assumes n: "tree_wf shards parent n" and i: "parent \<le> i" "i < shards" and c: "tree_wf shards (i + 1) c"
    and k: "tree_key shards parent (j # ks)"
  shows "tree_get (InversionNode mm ((node_children n)[i - parent := Some c])) (j # ks) parent =
    (if j = i then if ks = [] then node_matrix c else tree_get c ks (i + 1)
     else tree_get n (j # ks) parent)"
proof -
  have j: "parent \<le> j" "j < shards" using k by (simp_all add: tree_key_Cons)
  have "j - parent \<noteq> i - parent" if "j \<noteq> i" using that i j by arith
  then show ?thesis
    unfolding tree_get_Cons [OF tree_wf_update [OF n i(1) c] k] tree_get_Cons [OF n k]
    using tree_wf_child(1) [OF n i] by (auto simp: nth_list_update)
qed

lemma tree_get_fresh:
  assumes "tree_key shards parent ks"
  shows "tree_get (InversionNode None (replicate l None)) ks parent = None"
  using assms by (cases ks) (auto simp: tree_get_def tree_key_Cons)

lemma insert_child_ok:
  assumes n: "tree_wf shards parent n" and i: "parent \<le> i" "i < shards"
  shows "\<exists>node. insert_child shards i (node_children n ! (i - parent)) = Inr node \<and>
    tree_wf shards (i + 1) node \<and>
    (\<forall>k. tree_key shards parent (i # k) \<longrightarrow>
      tree_get n (i # k) parent = (if k = [] then node_matrix node else tree_get node k (i + 1)))"
proof (cases "node_children n ! (i - parent)")
  case None
  have "tree_get n (i # k) parent = None" if "tree_key shards parent (i # k)" for k
    by (simp add: tree_get_Cons [OF n that] None)
  moreover have "tree_key shards (i + 1) k" if "tree_key shards parent (i # k)" "k \<noteq> []" for k
    using that by (simp add: tree_key_Cons)
  ultimately show ?thesis
    using i None tree_get_fresh [of shards "i + 1"] by (auto simp: insert_child_def)
next
  case (Some c)
  then show ?thesis
    using tree_wf_child(2) [OF n i] tree_get_Cons [OF n] by (simp add: insert_child_def)
qed

lemma insertInvertedMatrix_ok:
  "tree_wf shards parent n \<Longrightarrow> tree_key shards parent is \<Longrightarrow>
     \<exists>n'. insertInvertedMatrix n is m shards parent = Inr n' \<and> tree_wf shards parent n' \<and>
       node_matrix n' = node_matrix n \<and>
       (\<forall>k. tree_key shards parent k \<longrightarrow> tree_get n' k parent = (if k = is then Some m else tree_get n k parent))"
proof (induction "is" arbitrary: n parent)
  case (Cons i rest)
  from Cons.prems(2) have i: "parent \<le> i" "i < shards" "rest = [] \<or> tree_key shards (i + 1) rest"
    by (simp_all add: tree_key_Cons)
  note child = tree_wf_child [OF Cons.prems(1) i(1,2)]
  obtain node where node: "insert_child shards i (node_children n ! (i - parent)) = Inr node"
    and wfn: "tree_wf shards (i + 1) node"
    and old: "\<And>k. tree_key shards parent (i # k) \<Longrightarrow>
      tree_get n (i # k) parent = (if k = [] then node_matrix node else tree_get node k (i + 1))"
    using insert_child_ok [OF Cons.prems(1) i(1,2)] by blast
  obtain c where c: "(if rest \<noteq> [] then insertInvertedMatrix node rest m shards (i + 1)
         else Inr (InversionNode (Some m) (node_children node))) = Inr c"
    and wfc: "tree_wf shards (i + 1) c"
    and new: "\<And>k. k = [] \<or> tree_key shards (i + 1) k \<Longrightarrow>
      (if k = [] then node_matrix c else tree_get c k (i + 1)) =
      (if k = rest then Some m else if k = [] then node_matrix node else tree_get node k (i + 1))"
  proof (cases "rest = []")
    case True
    show ?thesis
      by (rule that [of "InversionNode (Some m) (node_children node)"])
        (use True wfn in \<open>auto intro: set_node_matrix simp del: One_nat_def\<close>)
  next
    case False
    then have "tree_key shards (i + 1) rest" using i(3) by simp
    then obtain c where "insertInvertedMatrix node rest m shards (i + 1) = Inr c"
      "tree_wf shards (i + 1) c" "node_matrix c = node_matrix node"
      "\<forall>k. tree_key shards (i + 1) k \<longrightarrow>
         tree_get c k (i + 1) = (if k = rest then Some m else tree_get node k (i + 1))"
      using Cons.IH [OF wfn] by blast
    with False show ?thesis by (intro that [of c]) auto
  qed
  have upd: "tree_get (InversionNode (node_matrix n) ((node_children n)[i - parent := Some c])) k parent =
      (if k = i # rest then Some m else tree_get n k parent)" if k: "tree_key shards parent k" for k
  proof (cases k)
    case (Cons j ks)
    show ?thesis
      using new [of ks] old [of ks] k
      unfolding Cons tree_get_update [OF Cons.prems(1) i(1,2) wfc k [unfolded Cons]]
      by (auto simp: tree_key_Cons)
  qed (use k in \<open>simp add: tree_key_def\<close>)
  show ?case
    using node c child(1) i(1) tree_wf_update [OF Cons.prems(1) i(1) wfc] upd by auto
qed (simp add: tree_key_def)

lemma tree_ins_ok:
  assumes "tree_wf shards 0 n" "tree_key shards 0 is"
  shows "insertInvertedMatrix n is m shards 0 = Inr (tree_ins shards n is m 0)"
    and "tree_wf shards 0 (tree_ins shards n is m 0)"
    and "node_matrix (tree_ins shards n is m 0) = node_matrix n"
    and "tree_key shards 0 k \<Longrightarrow>
      tree_get (tree_ins shards n is m 0) k 0 = (if k = is then Some m else tree_get n k 0)"
  using insertInvertedMatrix_ok [OF assms, of m] by (auto simp: tree_ins_def)

interpretation tree: inversion_cache "tree_key shards 0" "tree_wf shards 0"
  "\<lambda>t k. tree_get t k 0" "\<lambda>t k m. tree_ins shards t k m 0" for shards
  by unfold_locales (simp_all add: tree_ins_ok)

lemma newInversionTree_wf: "tree_wf (d + p) 0 (newInversionTree d p)"
  by (simp add: newInversionTree_def)

lemma newInversionTree_empty: "tree_key shards 0 k \<Longrightarrow> tree_get (newInversionTree d p) k 0 = None"
  by (cases k) (auto simp: newInversionTree_def tree_get_def tree_key_Cons)

lemma GetInvertedMatrix_tree:
  assumes "tree_wf shards 0 t" "tree_key shards 0 k"
  shows "GetInvertedMatrix (Some t) k = Inr (tree_get t k 0)"
  using getInvertedMatrix_ok [OF assms] assms(2) by (simp add: GetInvertedMatrix_def tree_key_def)

lemma InsertInvertedMatrix_tree:
  assumes "tree_wf shards 0 t" "tree_key shards 0 k" "IsSquare m = Inr True"
  shows "InsertInvertedMatrix (Some t) k m shards = Inr (Some (tree_ins shards t k m 0))"
  using tree_ins_ok(1) [OF assms(1,2)] assms(2,3) by (simp add: InsertInvertedMatrix_def tree_key_def)

section \<open>Histories of the cache\<close>

text \<open>A history is a sequence of calls of \<open>InsertInvertedMatrix\<close> on one tree.\<close>

primrec insert_seq :: "inversionNode option \<Rightarrow> (nat list \<times> matrix) list \<Rightarrow> nat \<Rightarrow> inversionNode option result" where
  "insert_seq t [] shards = Inr t"
| "insert_seq t (km # kms) shards =
     bind_res (InsertInvertedMatrix t (fst km) (snd km) shards) (\<lambda>t. insert_seq t kms shards)"

lemma insert_seq_fold:
  assumes "tree_wf shards 0 t" "list_all (\<lambda>(k, m). tree_key shards 0 k \<and> IsSquare m = Inr True) kms"
  shows "insert_seq (Some t) kms shards = Inr (Some (fold (\<lambda>(k, m) t. tree_ins shards t k m 0) kms t)) \<and>
    tree_wf shards 0 (fold (\<lambda>(k, m) t. tree_ins shards t k m 0) kms t) \<and>
    node_matrix (fold (\<lambda>(k, m) t. tree_ins shards t k m 0) kms t) = node_matrix t"
  using assms
proof (induction kms arbitrary: t)
  case (Cons km kms)
  then show ?case
    by (cases km) (simp add: InsertInvertedMatrix_tree tree_ins_ok)
qed simp

text \<open>C24. The inversion tree implements a finite map. After any sequence of insertions of square
  matrices under increasing index lists into a new tree, no insertion panics or fails, and a
  lookup returns the matrix last inserted under exactly that list, or nil if there was none;
  the empty list still finds the identity of the root.\<close>

theorem inversion_tree_is_map:
  assumes "list_all (\<lambda>(k, m). tree_key (d + p) 0 k \<and> IsSquare m = Inr True) kms"
  shows "\<exists>t. insert_seq (Some (newInversionTree d p)) kms (d + p) = Inr (Some t) \<and>
     (\<forall>k. tree_key (d + p) 0 k \<longrightarrow> GetInvertedMatrix (Some t) k = Inr (map_of (rev kms) k)) \<and>
     GetInvertedMatrix (Some t) [] = Inr (node_matrix (newInversionTree d p))"
proof -
  let ?t = "fold (\<lambda>(k, m) t. tree_ins (d + p) t k m 0) kms (newInversionTree d p)"
  note seq = insert_seq_fold [OF newInversionTree_wf assms]
  have keys: "\<forall>(k, m) \<in> set kms. tree_key (d + p) 0 k"
    using assms by (auto simp: list_all_iff)
  have "GetInvertedMatrix (Some ?t) k = Inr (map_of (rev kms) k)" if k: "tree_key (d + p) 0 k" for k
    using seq k GetInvertedMatrix_tree [of "d + p" ?t k] tree.get_fold_ins [OF newInversionTree_wf k keys]
    by (simp add: newInversionTree_empty split: option.splits)
  then show ?thesis
    using seq by (auto simp: GetInvertedMatrix_def)
qed

theorem inversion_tree_is_map_witness:
  "\<exists>t. insert_seq (Some (newInversionTree 2 2)) [([1, 2], [[2]]), ([1], [[3]])] 4 = Inr (Some t) \<and>
     GetInvertedMatrix (Some t) [1, 2] = Inr (Some [[2]]) \<and>
     GetInvertedMatrix (Some t) [1] = Inr (Some [[3]]) \<and>
     GetInvertedMatrix (Some t) [0] = Inr None \<and>
     GetInvertedMatrix (Some t) [] = Inr (Some [[1, 0], [0, 1]])"
proof -
  have "list_all (\<lambda>(k, m). tree_key (2 + 2) 0 k \<and> IsSquare m = Inr True) [([1, 2], [[2]]), ([1], [[3]])]"
    by (simp add: tree_key_def IsSquare_def)
  from inversion_tree_is_map [OF this] obtain t where
    t: "insert_seq (Some (newInversionTree 2 2)) [([1, 2], [[2]]), ([1], [[3]])] (2 + 2) = Inr (Some t)"
    and get: "\<forall>k. tree_key (2 + 2) 0 k \<longrightarrow>
        GetInvertedMatrix (Some t) k = Inr (map_of (rev [([1, 2], [[2]]), ([1], [[3]])]) k)"
    and root_id: "GetInvertedMatrix (Some t) [] = Inr (node_matrix (newInversionTree 2 2))"
    by blast
  have "node_matrix (newInversionTree 2 2) = Some [[1, 0], [0, 1]]"
    by code_simp
  with t get root_id show ?thesis
    by (intro exI [of _ t]) (simp add: tree_key_def)
qed

end
