(* ===== verification/Options.thy ===== *)
theory Options
  imports Prelude
begin

text \<open>
  The options of an encoder: \<open>reedsolomon/options.go\<close>. An \<open>Option\<close> of the source is a function
  that updates the record of options; each \<open>With...\<close> function returns one. What the package
  asks of the processor (the third-party package \<open>cpuid\<close>) and of the Go runtime is the record
  \<open>cpu\<close>, an argument of the definitions that read it.
\<close>

datatype leopardMode = leopardAsNeeded | leopardGF16 | leopardAlways

record options =
  maxGoroutines :: int
  minSplitSize :: int
  o_shardSize :: int
  perRound :: int
  useAvxGNFI :: bool
  useAvx512GFNI :: bool
  useAVX512 :: bool
  useAVX2 :: bool
  useSSSE3 :: bool
  useSSE2 :: bool
  useNEON :: bool
  useSVE :: bool
  vectorLength :: int
  useJerasureMatrix :: bool
  usePAR1Matrix :: bool
  useCauchy :: bool
  fastOneParity :: bool
  inversionCache :: bool
  forcedInversionCache :: bool
  customMatrix :: "bytes list option"
  withLeopard :: leopardMode
  concReads :: bool
  concWrites :: bool
  streamBS :: int

record cpu =
  Supports :: "string list \<Rightarrow> bool"
  L1D :: int
  L2 :: int
  ThreadsPerCore :: int
  PhysicalCores :: int
  GOMAXPROCS :: int

text \<open>The default options after the \<open>init\<close> functions of \<open>options.go\<close> and \<open>galois_noasm.go\<close> ran.\<close>

definition defaultOptions :: "cpu \<Rightarrow> options" where
  "defaultOptions c =
     \<lparr> maxGoroutines = (if GOMAXPROCS c \<le> 1 then 1 else 384), minSplitSize = -1, o_shardSize = 0, perRound = 0,
       useAvxGNFI = Supports c [''AVX'', ''GFNI''],
       useAvx512GFNI = Supports c [''AVX512F'', ''GFNI'', ''AVX512DQ''],
       useAVX512 = False,
       useAVX2 = Supports c [''AVX2''],
       useSSSE3 = Supports c [''SSSE3''],
       useSSE2 = Supports c [''SSE2''],
       useNEON = Supports c [''ASIMD''],
       useSVE = Supports c [''SVE''],
       vectorLength = 32,
       useJerasureMatrix = False, usePAR1Matrix = False, useCauchy = False, fastOneParity = False,
       inversionCache = True, forcedInversionCache = False, customMatrix = None, withLeopard = leopardAsNeeded,
       concReads = False, concWrites = False, streamBS = 0 \<rparr>"

type_synonym Option = "options \<Rightarrow> options"

definition WithMaxGoroutines :: "int \<Rightarrow> Option" where
  "WithMaxGoroutines n opt = (if 0 < n then opt\<lparr>maxGoroutines := n\<rparr> else opt)"

definition WithAutoGoroutines :: "int \<Rightarrow> Option" where
  "WithAutoGoroutines sz opt = opt\<lparr>o_shardSize := sz\<rparr>"

definition WithMinSplitSize :: "int \<Rightarrow> Option" where
  "WithMinSplitSize n opt = (if 0 < n then opt\<lparr>minSplitSize := n\<rparr> else opt)"

definition WithConcurrentStreams :: "bool \<Rightarrow> Option" where
  "WithConcurrentStreams enabled opt = opt\<lparr>concReads := enabled, concWrites := enabled\<rparr>"

definition WithConcurrentStreamReads :: "bool \<Rightarrow> Option" where
  "WithConcurrentStreamReads enabled opt = opt\<lparr>concReads := enabled\<rparr>"

definition WithConcurrentStreamWrites :: "bool \<Rightarrow> Option" where
  "WithConcurrentStreamWrites enabled opt = opt\<lparr>concWrites := enabled\<rparr>"

definition WithInversionCache :: "bool \<Rightarrow> Option" where
  "WithInversionCache enabled opt = opt\<lparr>inversionCache := enabled, forcedInversionCache := True\<rparr>"

definition WithStreamBlockSize :: "int \<Rightarrow> Option" where
  "WithStreamBlockSize n opt = opt\<lparr>streamBS := n\<rparr>"

definition WithSSSE3 :: "bool \<Rightarrow> Option" where
  "WithSSSE3 enabled opt = opt\<lparr>useSSSE3 := enabled\<rparr>"

definition WithAVX2 :: "bool \<Rightarrow> Option" where
  "WithAVX2 enabled opt =
     (let opt = opt\<lparr>useAVX2 := enabled\<rparr>
      in if useAvxGNFI opt then opt\<lparr>useAvxGNFI := enabled\<rparr> else opt)"

definition WithSSE2 :: "bool \<Rightarrow> Option" where
  "WithSSE2 enabled opt = opt\<lparr>useSSE2 := enabled\<rparr>"

definition WithAVX512 :: "bool \<Rightarrow> Option" where
  "WithAVX512 enabled opt = opt\<lparr>useAVX512 := enabled, useAvx512GFNI := enabled\<rparr>"

definition WithGFNI :: "bool \<Rightarrow> Option" where
  "WithGFNI enabled opt = opt\<lparr>useAvx512GFNI := enabled\<rparr>"

definition WithAVXGFNI :: "bool \<Rightarrow> Option" where
  "WithAVXGFNI enabled opt = opt\<lparr>useAvxGNFI := enabled\<rparr>"

definition WithJerasureMatrix :: Option where
  "WithJerasureMatrix opt = opt\<lparr>useJerasureMatrix := True, usePAR1Matrix := False, useCauchy := False\<rparr>"

definition WithPAR1Matrix :: Option where
  "WithPAR1Matrix opt = opt\<lparr>useJerasureMatrix := False, usePAR1Matrix := True, useCauchy := False\<rparr>"

definition WithCauchyMatrix :: Option where
  "WithCauchyMatrix opt = opt\<lparr>useJerasureMatrix := False, usePAR1Matrix := False, useCauchy := True\<rparr>"

definition WithFastOneParityMatrix :: Option where
  "WithFastOneParityMatrix opt = opt\<lparr>fastOneParity := True\<rparr>"

definition WithCustomMatrix :: "bytes list option \<Rightarrow> Option" where
  "WithCustomMatrix cm opt = opt\<lparr>customMatrix := cm\<rparr>"

definition WithLeopardGF16 :: "bool \<Rightarrow> Option" where
  "WithLeopardGF16 enabled opt = opt\<lparr>withLeopard := (if enabled then leopardGF16 else leopardAsNeeded)\<rparr>"

definition WithLeopardGF :: "bool \<Rightarrow> Option" where
  "WithLeopardGF enabled opt = opt\<lparr>withLeopard := (if enabled then leopardAlways else leopardAsNeeded)\<rparr>"

definition cpuOptions :: "options \<Rightarrow> string" where
  "cpuOptions opt =
     (let res = (if useSSE2 opt then [''SSE2''] else []) @ (if useAVX2 opt then [''AVX2''] else []) @
            (if useSSSE3 opt then [''SSSE3''] else []) @ (if useAVX512 opt then [''AVX512''] else []) @
            (if useAvx512GFNI opt then [''AVX512+GFNI''] else []) @ (if useAvxGNFI opt then [''AVX+GFNI''] else []) @
            (if useSVE opt then [''ARM+SVE''] else if useNEON opt then [''ARM+NEON''] else [])
      in if res = [] then ''pure Go'' else concat (hd res # map (\<lambda>s. '','' @ s) (tl res)))"

text \<open>The loop at the head of \<open>New\<close>: the options in the order given.\<close>

definition apply_options :: "cpu \<Rightarrow> Option list \<Rightarrow> options" where
  "apply_options c opts = fold (\<lambda>opt o'. opt o') opts (defaultOptions c)"

section \<open>What every choice of options keeps\<close>

lemmas With_defs =
  WithMaxGoroutines_def WithAutoGoroutines_def WithMinSplitSize_def WithConcurrentStreams_def
  WithConcurrentStreamReads_def WithConcurrentStreamWrites_def WithInversionCache_def WithStreamBlockSize_def
  WithSSSE3_def WithAVX2_def WithSSE2_def WithAVX512_def WithGFNI_def WithAVXGFNI_def WithJerasureMatrix_def
  WithPAR1Matrix_def WithCauchyMatrix_def WithFastOneParityMatrix_def WithCustomMatrix_def WithLeopardGF16_def
  WithLeopardGF_def

text \<open>The options a client can pass: the type \<open>options\<close> is not exported, so an \<open>Option\<close> comes from
  one of the functions above.\<close>

inductive_set package_options :: "Option set" where
  "WithMaxGoroutines n \<in> package_options"
| "WithAutoGoroutines n \<in> package_options"
| "WithMinSplitSize n \<in> package_options"
| "WithConcurrentStreams b \<in> package_options"
| "WithConcurrentStreamReads b \<in> package_options"
| "WithConcurrentStreamWrites b \<in> package_options"
| "WithInversionCache b \<in> package_options"
| "WithStreamBlockSize n \<in> package_options"
| "WithSSSE3 b \<in> package_options"
| "WithAVX2 b \<in> package_options"
| "WithSSE2 b \<in> package_options"
| "WithAVX512 b \<in> package_options"
| "WithGFNI b \<in> package_options"
| "WithAVXGFNI b \<in> package_options"
| "WithJerasureMatrix \<in> package_options"
| "WithPAR1Matrix \<in> package_options"
| "WithCauchyMatrix \<in> package_options"
| "WithFastOneParityMatrix \<in> package_options"
| "WithCustomMatrix cm \<in> package_options"
| "WithLeopardGF16 b \<in> package_options"
| "WithLeopardGF b \<in> package_options"

text \<open>At least one goroutine, a split size that is unset or positive, and at most one kind of
  coding matrix.\<close>

definition options_wf :: "options \<Rightarrow> bool" where
  "options_wf opt \<longleftrightarrow> 1 \<le> maxGoroutines opt \<and> (minSplitSize opt = -1 \<or> 0 < minSplitSize opt) \<and>
     \<not> (useJerasureMatrix opt \<and> usePAR1Matrix opt) \<and> \<not> (useJerasureMatrix opt \<and> useCauchy opt) \<and>
     \<not> (usePAR1Matrix opt \<and> useCauchy opt)"

lemma defaultOptions_wf: "options_wf (defaultOptions c)"
  by (simp add: options_wf_def defaultOptions_def)

lemma package_option_wf: "f \<in> package_options \<Longrightarrow> options_wf opt \<Longrightarrow> options_wf (f opt)"
  by (induction rule: package_options.induct) (auto simp: With_defs options_wf_def Let_def)

lemma apply_options_wf: "set opts \<subseteq> package_options \<Longrightarrow> options_wf (apply_options c opts)"
proof -
  have "options_wf o' \<Longrightarrow> set opts \<subseteq> package_options \<Longrightarrow> options_wf (fold (\<lambda>opt o'. opt o') opts o')" for o'
    by (induction opts arbitrary: o') (auto intro: package_option_wf)
  then show "set opts \<subseteq> package_options \<Longrightarrow> options_wf (apply_options c opts)"
    unfolding apply_options_def using defaultOptions_wf by blast
qed

end
