(* ===== verification/Reed_Solomon.thy ===== *)
theory Reed_Solomon
  imports Coding Inversion_Tree Options
begin

unbundle bit_operations_syntax

text \<open>
  The encoder: \<open>reedsolomon/reedsolomon.go\<close>. The construction of the coding matrices, \<open>New\<close> with
  its tuning of the loops, and the operations on slices of shards. A shard is a list of bytes;
  where the source distinguishes nil from an empty slice the shard is an option. The spare
  capacity of a shard, which \<open>reconstruct\<close> reuses as a buffer, is the argument \<open>spare\<close>.
  The operations that change the receiver (the inversion cache) return it updated.
\<close>

section \<open>Coding matrices\<close>

definition buildMatrix :: "int \<Rightarrow> int \<Rightarrow> matrix result" where
  "buildMatrix dataShards totalShards =
     bind_res (vandermonde totalShards dataShards) (\<lambda>vm.
       bind_res (SubMatrix vm 0 0 (nat dataShards) (nat dataShards)) (\<lambda>top.
         bind_res (Invert top) (\<lambda>topInv. Multiply vm topInv)))"

text \<open>The Jerasure construction works on single entries \<open>vm[r][c]\<close>.\<close>

definition set_entry :: "nat \<Rightarrow> nat \<Rightarrow> byte \<Rightarrow> matrix \<Rightarrow> matrix" where
  "set_entry r c v vm = vm[r := (vm ! r)[c := v]]"

definition jerasure_scale_column :: "nat list \<Rightarrow> nat \<Rightarrow> byte \<Rightarrow> matrix \<Rightarrow> matrix" where
  "jerasure_scale_column rs c tmp vm = fold (\<lambda>j vm. set_entry j c (galMultiply (vm ! j ! c) tmp) vm) rs vm"

definition jerasure_add_column :: "nat \<Rightarrow> nat \<Rightarrow> nat \<Rightarrow> byte \<Rightarrow> matrix \<Rightarrow> matrix" where
  "jerasure_add_column totalShards i j tmp vm =
     fold (\<lambda>r vm. set_entry r j (galAdd (vm ! r ! j) (galMultiply tmp (vm ! r ! i))) vm) [0..<totalShards] vm"

definition jerasure_scale :: "nat \<Rightarrow> nat \<Rightarrow> matrix \<Rightarrow> matrix result" where
  "jerasure_scale totalShards i vm =
     (if vm ! i ! i \<noteq> 1
      then bind_res (galOneOver (vm ! i ! i)) (\<lambda>tmp. Inr (jerasure_scale_column [0..<totalShards] i tmp vm))
      else Inr vm)"

definition jerasure_clear :: "nat \<Rightarrow> nat \<Rightarrow> nat list \<Rightarrow> matrix \<Rightarrow> matrix" where
  "jerasure_clear totalShards i js vm =
     fold (\<lambda>j vm. let tmp = vm ! i ! j
       in if j \<noteq> i \<and> tmp \<noteq> 0 then jerasure_add_column totalShards i j tmp vm else vm) js vm"

definition jerasure_step :: "nat \<Rightarrow> nat \<Rightarrow> nat \<Rightarrow> matrix \<Rightarrow> matrix result" where
  "jerasure_step dataShards totalShards i vm =
     (case find (\<lambda>r. vm ! r ! i \<noteq> 0) [i..<totalShards] of
        None \<Rightarrow> Inl index_panic
      | Some r \<Rightarrow>
          bind_res (jerasure_scale totalShards i (if r \<noteq> i then (vm[r := vm ! i])[i := vm ! r] else vm))
            (\<lambda>vm. Inr (jerasure_clear totalShards i [0..<dataShards] vm)))"

primrec jerasure_steps :: "nat \<Rightarrow> nat \<Rightarrow> nat list \<Rightarrow> matrix \<Rightarrow> matrix result" where
  "jerasure_steps dataShards totalShards [] vm = Inr vm"
| "jerasure_steps dataShards totalShards (i # is) vm =
     bind_res (jerasure_step dataShards totalShards i vm) (jerasure_steps dataShards totalShards is)"

primrec jerasure_ones_row :: "nat \<Rightarrow> nat \<Rightarrow> nat list \<Rightarrow> matrix \<Rightarrow> matrix result" where
  "jerasure_ones_row dataShards totalShards [] vm = Inr vm"
| "jerasure_ones_row dataShards totalShards (j # js) vm =
     bind_res
       (let tmp = vm ! dataShards ! j
        in if tmp \<noteq> 1
           then bind_res (galOneOver tmp) (\<lambda>tmp. Inr (jerasure_scale_column [dataShards..<totalShards] j tmp vm))
           else Inr vm)
       (jerasure_ones_row dataShards totalShards js)"

primrec jerasure_ones_col :: "nat \<Rightarrow> nat list \<Rightarrow> matrix \<Rightarrow> matrix result" where
  "jerasure_ones_col dataShards [] vm = Inr vm"
| "jerasure_ones_col dataShards (i # is) vm =
     bind_res
       (let tmp = vm ! i ! 0
        in if tmp \<noteq> 1
           then bind_res (galOneOver tmp) (\<lambda>tmp.
                  Inr (fold (\<lambda>j vm. set_entry i j (galMultiply (vm ! i ! j) tmp) vm) [0..<dataShards] vm))
           else Inr vm)
       (jerasure_ones_col dataShards is)"

definition buildMatrixJerasure :: "int \<Rightarrow> int \<Rightarrow> matrix result" where
  "buildMatrixJerasure dataShards totalShards =
     bind_res (vandermonde totalShards dataShards) (\<lambda>vm.
       let d = nat dataShards; t = nat totalShards;
           vm = set_entry 0 0 1 vm;
           vm = fold (\<lambda>i vm. set_entry 0 i 0 vm) [1..<d] vm;
           vm = fold (\<lambda>i vm. set_entry (t - 1) i 0 vm) [0..<d - 1] vm;
           vm = set_entry (t - 1) (d - 1) 1 vm
       in bind_res (jerasure_steps d t [0..<d] vm) (\<lambda>vm.
            if t \<le> d then Inl index_panic
            else bind_res (jerasure_ones_row d t [0..<d] vm) (\<lambda>vm.
              jerasure_ones_col d [d + 1..<t] vm)))"

text \<open>The other constructions: the identity on top, and one formula for the entries below.\<close>

definition matrix_with_top :: "int \<Rightarrow> int \<Rightarrow> (nat \<Rightarrow> nat \<Rightarrow> byte) \<Rightarrow> matrix result" where
  "matrix_with_top dataShards totalShards entry =
     bind_res (newMatrix totalShards dataShards) (\<lambda>result.
       Inr (map (\<lambda>r.
         if r < nat dataShards then (result ! r)[r := 1]
         else map (\<lambda>c. entry r c) [0..<length (result ! r)]) [0..<length result]))"

definition buildMatrixPAR1 :: "int \<Rightarrow> int \<Rightarrow> matrix result" where
  "buildMatrixPAR1 dataShards totalShards =
     matrix_with_top dataShards totalShards (\<lambda>r c. galExp (of_nat (c + 1)) (int r - dataShards))"

definition buildMatrixCauchy :: "int \<Rightarrow> int \<Rightarrow> matrix result" where
  "buildMatrixCauchy dataShards totalShards =
     matrix_with_top dataShards totalShards (\<lambda>r c. invTable ! unat (of_nat (r XOR c) :: byte))"

definition buildXorMatrix :: "int \<Rightarrow> int \<Rightarrow> matrix result" where
  "buildXorMatrix dataShards totalShards =
     (if dataShards + 1 \<noteq> totalShards then Inl errInternal
      else matrix_with_top dataShards totalShards (\<lambda>r c. 1))"

text \<open>The custom matrix: the rows are copied one after the other, the check of each row first.\<close>

fun custom_fill :: "nat \<Rightarrow> nat \<Rightarrow> nat \<Rightarrow> bytes list \<Rightarrow> matrix result" where
  "custom_fill dataShards parityShards k [] = Inr []"
| "custom_fill dataShards parityShards k (row # rows) =
     (if length row < dataShards then Inl errMatrixCols
      else if parityShards \<le> k then Inl index_panic
      else bind_res (custom_fill dataShards parityShards (k + 1) rows) (\<lambda>rest. Inr (take dataShards row # rest)))"

definition buildCustomMatrix :: "nat \<Rightarrow> nat \<Rightarrow> bytes list \<Rightarrow> matrix result" where
  "buildCustomMatrix dataShards parityShards cm =
     (if length cm < parityShards then Inl errMatrixRows
      else bind_res (custom_fill dataShards parityShards 0 cm) (\<lambda>rows.
        Inr (map (\<lambda>i. (replicate dataShards 0)[i := 1]) [0..<dataShards] @ rows)))"

definition select_matrix :: "options \<Rightarrow> int \<Rightarrow> int \<Rightarrow> matrix result" where
  "select_matrix opt dataShards parityShards =
     (let totalShards = dataShards + parityShards
      in case customMatrix opt of
           Some cm \<Rightarrow> buildCustomMatrix (nat dataShards) (nat parityShards) cm
         | None \<Rightarrow>
             if fastOneParity opt \<and> parityShards = 1 then buildXorMatrix dataShards totalShards
             else if useCauchy opt then buildMatrixCauchy dataShards totalShards
             else if usePAR1Matrix opt then buildMatrixPAR1 dataShards totalShards
             else if useJerasureMatrix opt then buildMatrixJerasure dataShards totalShards
             else buildMatrix dataShards totalShards)"

section \<open>New\<close>

record reedSolomon =
  dataShards :: nat
  parityShards :: nat
  totalShards :: nat
  rs_m :: matrix
  rs_tree :: "inversionNode option"
  rs_parity :: matrix
  rs_o :: options

text \<open>The implementations behind the \<open>Encoder\<close> interface. Of the two leopard encoders only the
  constructor's guards are modelled.\<close>

datatype Encoder = RS reedSolomon | LeopardFF16 int int options | LeopardFF8 int int options

definition newFF16 :: "int \<Rightarrow> int \<Rightarrow> options \<Rightarrow> Encoder result" where
  "newFF16 d p opt =
     (if d \<le> 0 \<or> p \<le> 0 then Inl ErrInvShardNum
      else if 65536 < d + p then Inl ErrMaxShardNum
      else Inr (LeopardFF16 d p opt))"

definition newFF8 :: "int \<Rightarrow> int \<Rightarrow> options \<Rightarrow> Encoder result" where
  "newFF8 d p opt =
     (if d \<le> 0 \<or> p \<le> 0 then Inl ErrInvShardNum
      else if 65536 < d + p then Inl ErrMaxShardNum
      else Inr (LeopardFF8 d p opt))"

text \<open>Go's integer division truncates; it agrees with \<open>div\<close> on the non-negative operands here
  (a negative cache size has been replaced before it is divided).\<close>

definition tune_perRound :: "cpu \<Rightarrow> int \<Rightarrow> options \<Rightarrow> options" where
  "tune_perRound c p opt =
     (let pr = L2 c;
          pr = (if pr < 128 * 1024 then 128 * 1024 else pr);
          pr = (if 1 < ThreadsPerCore c \<and> PhysicalCores c < maxGoroutines opt then pr div ThreadsPerCore c else pr);
          pr = pr div (p + 1);
          pr = (pr + 63) div 64 * 64;
          pr = (if pr < 1024 then 1024 else pr)
      in opt\<lparr>perRound := pr\<rparr>)"

definition tune_minSplitSize :: "cpu \<Rightarrow> int \<Rightarrow> options \<Rightarrow> options" where
  "tune_minSplitSize c p opt =
     (if minSplitSize opt \<le> 0
      then let cacheSize = (if L1D c \<le> 0 then 32 * 1024 else L1D c);
               ms = cacheSize div (p + 1);
               ms = (if ms < 1024 then 1024 else ms)
           in opt\<lparr>minSplitSize := ms\<rparr>
      else opt)"

definition tune_goroutines :: "cpu \<Rightarrow> options \<Rightarrow> options" where
  "tune_goroutines c opt =
     (if 0 < o_shardSize opt
      then let p = GOMAXPROCS c
           in if p = 1 \<or> o_shardSize opt \<le> minSplitSize opt * 2 then opt\<lparr>maxGoroutines := 1\<rparr>
              else let g = o_shardSize opt div perRound opt;
                       over = g < p * 2 \<and> minSplitSize opt * 2 < perRound opt;
                       g = (if over then p * 2 else g);
                       opt = (if over then opt\<lparr>perRound := perRound opt div 2\<rparr> else opt);
                       g = g + (p - 1);
                       g = g - g mod p
                   in opt\<lparr>maxGoroutines := g\<rparr>
      else opt)"

definition tune :: "cpu \<Rightarrow> int \<Rightarrow> options \<Rightarrow> options" where
  "tune c p opt = tune_goroutines c (tune_minSplitSize c p (tune_perRound c p opt))"

definition New :: "cpu \<Rightarrow> int \<Rightarrow> int \<Rightarrow> Option list \<Rightarrow> Encoder result" where
  "New c d p opts =
     (let opt = apply_options c opts; totShards = d + p
      in if withLeopard opt = leopardGF16 \<and> 0 < p \<or> 256 < totShards then newFF16 d p opt
         else if withLeopard opt = leopardAlways \<and> 0 < p then newFF8 d p opt
         else if 256 < totShards then Inl ErrMaxShardNum
         else if d \<le> 0 \<or> p < 0 then Inl ErrInvShardNum
         else let r = \<lparr> dataShards = nat d, parityShards = nat p, totalShards = nat (d + p),
                        rs_m = [], rs_tree = None, rs_parity = [], rs_o = opt \<rparr>
              in if p = 0 then Inr (RS r)
                 else bind_res (select_matrix opt d p) (\<lambda>mat.
                   Inr (RS (r\<lparr> rs_m := mat,
                     rs_o := tune c p opt,
                     rs_tree := (if inversionCache (tune c p opt) then Some (newInversionTree (nat d) (nat p)) else None),
                     rs_parity := map (\<lambda>i. mat ! (nat d + i)) [0..<nat p] \<rparr>))))"

section \<open>Operations on shards\<close>

primrec shardSize :: "bytes list \<Rightarrow> nat" where
  "shardSize [] = 0"
| "shardSize (shard # shards) = (if length shard \<noteq> 0 then length shard else shardSize shards)"

definition checkShards :: "bytes list \<Rightarrow> bool \<Rightarrow> rs_error option" where
  "checkShards shards nilok =
     (let sz = shardSize shards
      in if sz = 0 then Some ErrShardNoData
         else if \<exists>shard \<in> set shards. length shard \<noteq> sz \<and> (length shard \<noteq> 0 \<or> \<not> nilok)
         then Some ErrShardSize
         else None)"

definition AllocAligned :: "nat \<Rightarrow> nat \<Rightarrow> bytes list" where
  "AllocAligned shards each = replicate shards (replicate each 0)"

text \<open>\<open>r.codeSomeShards\<close>: the loops of theory \<open>Coding\<close> with the options of the receiver.\<close>

definition rs_code :: "reedSolomon \<Rightarrow> matrix \<Rightarrow> bytes list \<Rightarrow> bytes list \<Rightarrow> nat \<Rightarrow> bytes list result" where
  "rs_code r = codeSomeShards (maxGoroutines (rs_o r)) (minSplitSize (rs_o r)) (perRound (rs_o r))"

definition Encode :: "reedSolomon \<Rightarrow> bytes list \<Rightarrow> bytes list result" where
  "Encode r shards =
     (if length shards \<noteq> totalShards r then Inl ErrTooFewShards
      else case checkShards shards False of
          Some err \<Rightarrow> Inl err
        | None \<Rightarrow>
            let output = drop (dataShards r) shards
            in bind_res (rs_code r (rs_parity r) (take (dataShards r) shards) (take (parityShards r) output)
                   (length (shards ! 0)))
                 (\<lambda>out. Inr (take (dataShards r) shards @ out @ drop (parityShards r) output)))"

definition EncodeIdx :: "reedSolomon \<Rightarrow> bytes \<Rightarrow> int \<Rightarrow> bytes list \<Rightarrow> bytes list result" where
  "EncodeIdx r dataShard idx parity =
     (if length parity \<noteq> parityShards r then Inl ErrTooFewShards
      else if length parity = 0 then Inr parity
      else if idx < 0 \<or> int (dataShards r) \<le> idx then Inl ErrInvShardNum
      else case checkShards parity False of
          Some err \<Rightarrow> Inl err
        | None \<Rightarrow>
            if length (parity ! 0) \<noteq> length dataShard then Inl ErrShardSize
            else if perRound (rs_o r) \<le> 0 \<and> dataShard \<noteq> [] then Inl GoNoReturn
            else Inr (fold (\<lambda>(start, stop) parity.
                   map (\<lambda>iRow. put_slice start stop
                       (galMulSliceXor (rs_parity r ! iRow ! nat idx) (slice start stop dataShard)
                         (slice start stop (parity ! iRow))) (parity ! iRow)) [0..<parityShards r])
                 (rounds (nat (perRound (rs_o r))) (length dataShard) 0) parity))"

definition checkSomeShards :: "reedSolomon \<Rightarrow> matrix \<Rightarrow> bytes list \<Rightarrow> bytes list \<Rightarrow> nat \<Rightarrow> bool result" where
  "checkSomeShards r matrixRows inputs toCheck byteCount =
     (if length toCheck = 0 then Inr True
      else bind_res (rs_code r matrixRows inputs (AllocAligned (length toCheck) byteCount) byteCount)
        (\<lambda>outputs. Inr (outputs = toCheck)))"

definition Verify :: "reedSolomon \<Rightarrow> bytes list \<Rightarrow> bool result" where
  "Verify r shards =
     (if length shards \<noteq> totalShards r then Inl ErrTooFewShards
      else case checkShards shards False of
          Some err \<Rightarrow> Inl err
        | None \<Rightarrow>
            let toCheck = drop (dataShards r) shards
            in checkSomeShards r (rs_parity r) (take (dataShards r) shards) (take (parityShards r) toCheck)
                 (length (shards ! 0)))"

section \<open>Reconstruction\<close>

text \<open>The scan that collects valid rows until there are enough, and the invalid rows it passes.\<close>

fun scan_rows :: "(nat \<Rightarrow> bool) \<Rightarrow> nat \<Rightarrow> nat list \<Rightarrow> nat list \<times> nat list" where
  "scan_rows present need [] = ([], [])"
| "scan_rows present need (matrixRow # rows) =
     (if need = 0 then ([], [])
      else if present matrixRow
      then (let (valid, invalid) = scan_rows present (need - 1) rows in (matrixRow # valid, invalid))
      else (let (valid, invalid) = scan_rows present need rows in (valid, matrixRow # invalid)))"

text \<open>The decode matrix: from the cache, or computed and put there.\<close>

definition sub_matrix :: "reedSolomon \<Rightarrow> nat list \<Rightarrow> matrix" where
  "sub_matrix r validIndices = map (\<lambda>i. take (dataShards r) (rs_m r ! i)) validIndices"

definition decode_matrix :: "reedSolomon \<Rightarrow> nat list \<Rightarrow> nat list \<Rightarrow> (reedSolomon \<times> matrix) result" where
  "decode_matrix r validIndices invalidIndices =
     bind_res (GetInvertedMatrix (rs_tree r) invalidIndices) (\<lambda>cached.
       case cached of
         Some dm \<Rightarrow> Inr (r, dm)
       | None \<Rightarrow>
           bind_res (Invert (sub_matrix r validIndices)) (\<lambda>dm.
             bind_res (InsertInvertedMatrix (rs_tree r) invalidIndices dm (totalShards r)) (\<lambda>tree.
               Inr (r\<lparr>rs_tree := tree\<rparr>, dm))))"

text \<open>The buffer for a missing shard: its spare capacity if that is enough (its content is what the
  memory held), else new zeroed memory.\<close>

definition shard_buffer :: "(nat \<Rightarrow> bytes) \<Rightarrow> nat \<Rightarrow> nat \<Rightarrow> bytes" where
  "shard_buffer spare iShard n =
     (if n \<le> length (spare iShard) then take n (spare iShard) else hd (AllocAligned 1 n))"

definition wanted :: "bool list option \<Rightarrow> nat \<Rightarrow> bool" where
  "wanted required i = (case required of None \<Rightarrow> True | Some req \<Rightarrow> req ! i)"

definition missing_wanted :: "bytes list \<Rightarrow> bool list option \<Rightarrow> nat list \<Rightarrow> nat list" where
  "missing_wanted shards required is = filter (\<lambda>i. length (shards ! i) = 0 \<and> wanted required i) is"

definition store_shards :: "nat list \<Rightarrow> bytes list \<Rightarrow> bytes list \<Rightarrow> bytes list" where
  "store_shards is outs shards = fold (\<lambda>(i, out) shards. shards[i := out]) (zip is outs) shards"

text \<open>The two coding passes: the missing data shards from the shards at hand, then the missing parity
  shards from the data shards.\<close>

definition recode_shards ::
    "reedSolomon \<Rightarrow> (nat \<Rightarrow> bytes) \<Rightarrow> bytes list \<Rightarrow> bool \<Rightarrow> bool list option \<Rightarrow> nat \<Rightarrow> bytes list \<Rightarrow> matrix \<Rightarrow> bytes list result" where
  "recode_shards r spare shards dataOnly required n subShards dm =
     (let d = dataShards r; mis = missing_wanted shards required [0..<d]
      in bind_res (rs_code r (map (\<lambda>i. dm ! i) mis) subShards (map (\<lambda>i. shard_buffer spare i n) mis) n) (\<lambda>outs.
           let shards = store_shards mis outs shards
           in if dataOnly then Inr shards
              else let mis = missing_wanted shards required [d..<totalShards r]
                   in bind_res (rs_code r (map (\<lambda>i. rs_parity r ! (i - d)) mis) (take d shards)
                          (map (\<lambda>i. shard_buffer spare i n) mis) n)
                        (\<lambda>outs. Inr (store_shards mis outs shards))))"

definition reconstruct ::
    "reedSolomon \<Rightarrow> (nat \<Rightarrow> bytes) \<Rightarrow> bytes list \<Rightarrow> bool \<Rightarrow> bool list option \<Rightarrow> (reedSolomon \<times> bytes list) result" where
  "reconstruct r spare shards dataOnly required =
     (let d = dataShards r; t = totalShards r in
      if length shards \<noteq> t \<or> ((case required of None \<Rightarrow> False | Some req \<Rightarrow> length req < d)) then Inl ErrTooFewShards
      else case checkShards shards True of
        Some err \<Rightarrow> Inl err
      | None \<Rightarrow>
         let n = shardSize shards;
             present = (\<lambda>i. length (shards ! i) \<noteq> 0);
             numberPresent = length (filter present [0..<t]);
             dataPresent = length (filter present [0..<d])
         in if (case required of None \<Rightarrow> False | Some req \<Rightarrow> \<exists>i < t. \<not> present i \<and> length req \<le> i)
            then Inl index_panic
            else if numberPresent = t \<or> dataOnly \<and> dataPresent = d \<or>
               (required \<noteq> None \<and> missing_wanted shards required [0..<t] = [])
            then Inr (r, shards)
            else if numberPresent < d then Inl ErrTooFewShards
            else
              let (validIndices, invalidIndices) = scan_rows present d [0..<t];
                  subShards = map (\<lambda>i. shards ! i) validIndices
              in bind_res (decode_matrix r validIndices invalidIndices) (\<lambda>(r, dm).
                   bind_res (recode_shards r spare shards dataOnly required n subShards dm) (\<lambda>shards. Inr (r, shards))))"

definition Reconstruct where
  "Reconstruct r spare shards = reconstruct r spare shards False None"

definition ReconstructData where
  "ReconstructData r spare shards = reconstruct r spare shards True None"

definition ReconstructSome where
  "ReconstructSome r spare shards required =
     (if (case required of None \<Rightarrow> 0 | Some req \<Rightarrow> length req) = totalShards r
      then reconstruct r spare shards False required
      else reconstruct r spare shards True required)"

section \<open>Split, Join and Update\<close>

text \<open>The loop that copies the data beyond the full shards into the padding.\<close>

fun copy_into :: "bytes list \<Rightarrow> bytes \<Rightarrow> bytes list" where
  "copy_into [] copyFrom = []"
| "copy_into (pad # padding) copyFrom =
     (if copyFrom = [] then pad # padding
      else let n = min (length pad) (length copyFrom)
           in (take n copyFrom @ drop n pad) # copy_into padding (drop n copyFrom))"

text \<open>The loop that cuts the data into shards: at most \<open>slots\<close> of them.\<close>

primrec cut_shards :: "nat \<Rightarrow> nat \<Rightarrow> bytes \<Rightarrow> bytes list" where
  "cut_shards perShard 0 data = []"
| "cut_shards perShard (Suc slots) data =
     (if perShard \<le> length data then take perShard data # cut_shards perShard slots (drop perShard data) else [])"

text \<open>\<open>Split\<close> of a slice with the given capacity; the bytes between length and capacity are cleared
  before they are used, so their old content does not appear. The shards are views of the
  data; the model has their content.\<close>

definition split_padding :: "nat \<Rightarrow> nat \<Rightarrow> nat \<Rightarrow> bytes \<Rightarrow> bytes list" where
  "split_padding totShards perShard dataLen data =
     (if length data < totShards * perShard
      then let fullShards = length data div perShard;
               padding = AllocAligned (totShards - fullShards) perShard
           in if perShard * fullShards < dataLen
              then copy_into padding (slice (perShard * fullShards) dataLen data)
              else padding
      else [])"

definition Split :: "reedSolomon \<Rightarrow> bytes \<Rightarrow> nat \<Rightarrow> bytes list result" where
  "Split r data capacity =
     (if length data = 0 then Inl ErrShortData
      else if totalShards r = 1 then Inr [data]
      else let dataLen = length data;
               perShard = (length data + dataShards r - 1) div dataShards r;
               needTotal = totalShards r * perShard;
               data = (if dataLen < capacity
                       then data @ replicate ((if needTotal < capacity then needTotal else capacity) - dataLen) 0
                       else data);
               padding = split_padding (totalShards r) perShard dataLen data;
               dst = cut_shards perShard (totalShards r) data
           in if length padding < totalShards r - length dst then Inl index_panic
              else Inr (dst @ take (totalShards r - length dst) padding))"

text \<open>\<open>Join\<close> writes to an \<open>io.Writer\<close>, a parameter: \<open>write w b\<close> returns the writer after the call, the
  number of bytes it says it wrote, and its error.\<close>

fun join_size :: "bytes option list \<Rightarrow> int \<Rightarrow> int \<Rightarrow> int result" where
  "join_size [] outSize sz = Inr sz"
| "join_size (None # shards) outSize sz = Inl ErrReconstructRequired"
| "join_size (Some shard # shards) outSize sz =
     (let sz = sz + int (length shard) in if outSize \<le> sz then Inr sz else join_size shards outSize sz)"

fun join_write ::
    "('w \<Rightarrow> bytes \<Rightarrow> 'w \<times> nat \<times> rs_error option) \<Rightarrow> 'w \<Rightarrow> bytes option list \<Rightarrow> int \<Rightarrow> 'w \<times> rs_error option" where
  "join_write wr w [] todo = (w, None)"
| "join_write wr w (shard # shards) todo =
     (let sh = (case shard of None \<Rightarrow> [] | Some b \<Rightarrow> b)
      in if todo < int (length sh)
         then if todo < 0 then (w, Some index_panic)
              else (case wr w (take (nat todo) sh) of (w, _, err) \<Rightarrow> (w, err))
         else case wr w sh of
             (w, n, Some err) \<Rightarrow> (w, Some err)
           | (w, n, None) \<Rightarrow> join_write wr w shards (todo - int n))"

definition Join ::
    "reedSolomon \<Rightarrow> ('w \<Rightarrow> bytes \<Rightarrow> 'w \<times> nat \<times> rs_error option) \<Rightarrow> 'w \<Rightarrow> bytes option list \<Rightarrow> int \<Rightarrow> 'w \<times> rs_error option" where
  "Join r wr w shards outSize =
     (if length shards < dataShards r then (w, Some ErrTooFewShards)
      else let shards = take (dataShards r) shards
           in case join_size shards outSize 0 of
                Inl err \<Rightarrow> (w, Some err)
              | Inr sz \<Rightarrow> if sz < outSize then (w, Some ErrShortData) else join_write wr w shards outSize)"

text \<open>\<open>Update\<close>: the data shards receive the difference to the new data (the source says so), and
  the parity shards the product of the difference.\<close>

definition update_range ::
    "reedSolomon \<Rightarrow> matrix \<Rightarrow> bytes option list \<Rightarrow> nat \<times> nat \<Rightarrow> bytes list \<times> bytes list \<Rightarrow> bytes list \<times> bytes list" where
  "update_range r matrixRows newinputs rng st =
     fold (\<lambda>c (oldinputs, outputs).
       case newinputs ! c of
         None \<Rightarrow> (oldinputs, outputs)
       | Some inp \<Rightarrow>
           let (start, stop) = rng;
               oldin = put_slice start stop
                 (sliceXor (slice start stop inp) (slice start stop (oldinputs ! c))) (oldinputs ! c)
           in (oldinputs[c := oldin],
               map (\<lambda>iRow. put_slice start stop
                   (galMulSliceXor (matrixRows ! iRow ! c) (slice start stop oldin) (slice start stop (outputs ! iRow)))
                   (outputs ! iRow)) [0..<length outputs]))
       [0..<dataShards r] st"

definition update_parallel :: "options \<Rightarrow> nat \<Rightarrow> bool" where
  "update_parallel opt byteCount \<longleftrightarrow> 1 < maxGoroutines opt \<and> minSplitSize opt < int byteCount"

definition update_jobs :: "options \<Rightarrow> nat \<Rightarrow> (nat \<times> nat) list" where
  "update_jobs opt byteCount =
     (if update_parallel opt byteCount
      then let do' = int byteCount div maxGoroutines opt;
               do' = (if do' < minSplitSize opt then minSplitSize opt else do')
           in split_jobs (nat do') byteCount 0
      else [(0, byteCount)])"

text \<open>The slice expressions of the loops panic when a new shard is shorter or longer than the old one
  (in the serial loop, where \<open>sliceXorGo\<close> takes whole slices, only from 32 bytes on if it is
  shorter).\<close>

definition update_panics :: "reedSolomon \<Rightarrow> bytes list \<Rightarrow> bytes option list \<Rightarrow> nat \<Rightarrow> bool" where
  "update_panics r oldinputs newinputs byteCount \<longleftrightarrow>
     (\<exists>c < dataShards r. case newinputs ! c of None \<Rightarrow> False | Some inp \<Rightarrow>
        if update_parallel (rs_o r) byteCount then length inp < byteCount \<or> length (oldinputs ! c) < byteCount
        else length (oldinputs ! c) < length inp \<or> length inp div 32 < length (oldinputs ! c) div 32)"

definition updateParityShards ::
    "reedSolomon \<Rightarrow> matrix \<Rightarrow> bytes list \<Rightarrow> bytes option list \<Rightarrow> bytes list \<Rightarrow> nat \<Rightarrow> (bytes list \<times> bytes list) result" where
  "updateParityShards r matrixRows oldinputs newinputs outputs byteCount =
     (if length outputs = 0 then Inr (oldinputs, outputs)
      else if update_panics r oldinputs newinputs byteCount then Inl index_panic
      else if 0 < byteCount \<and> update_jobs (rs_o r) byteCount = [] then Inl GoNoReturn
      else Inr (fold (update_range r matrixRows newinputs) (update_jobs (rs_o r) byteCount) (oldinputs, outputs)))"

definition shard_bytes :: "bytes option \<Rightarrow> bytes" where
  "shard_bytes s = (case s of None \<Rightarrow> [] | Some b \<Rightarrow> b)"

definition Update :: "reedSolomon \<Rightarrow> bytes option list \<Rightarrow> bytes option list \<Rightarrow> bytes option list result" where
  "Update r shards newDatashards =
     (if length shards \<noteq> totalShards r then Inl ErrTooFewShards
      else if length newDatashards \<noteq> dataShards r then Inl ErrTooFewShards
      else case checkShards (map shard_bytes shards) True of Some err \<Rightarrow> Inl err | None \<Rightarrow>
      (case checkShards (map shard_bytes newDatashards) True of Some err \<Rightarrow> Inl err | None \<Rightarrow>
       if \<exists>i < length newDatashards. newDatashards ! i \<noteq> None \<and> shards ! i = None then Inl ErrInvalidInput
       else if \<exists>p \<in> set (drop (dataShards r) shards). p = None then Inl ErrInvalidInput
       else bind_res
         (updateParityShards r (rs_parity r) (map shard_bytes (take (dataShards r) shards)) newDatashards
            (map shard_bytes (drop (dataShards r) shards)) (shardSize (map shard_bytes shards)))
         (\<lambda>(olds, outs). Inr (map2 (\<lambda>s b. case s of None \<Rightarrow> None | Some _ \<Rightarrow> Some b) shards (olds @ outs)))))"

end
