(* ===== verification/Splitting.thy ===== *)
theory Splitting
  imports Reed_Solomon
begin

text \<open>
  \<open>Split\<close> and \<open>Join\<close>: cutting data into equal shards, with the spare capacity of the slice and the
  padding handled as the source does, is cutting the zero-padded data; joining the data shards
  writes the data back.
\<close>

section \<open>Chunks\<close>

definition chunks :: "nat \<Rightarrow> nat \<Rightarrow> 'a list \<Rightarrow> 'a list list" where
  "chunks per k xs = map (\<lambda>i. take per (drop (i * per) xs)) [0..<k]"

lemma chunks_0 [simp]: "chunks per 0 xs = []"
  by (simp add: chunks_def)

lemma length_chunks [simp]: "length (chunks per k xs) = k"
  by (simp add: chunks_def)

lemma chunks_Suc: "chunks per (Suc k) xs = take per xs # chunks per k (drop per xs)"
  by (simp add: chunks_def upt_conv_Cons map_Suc_upt [symmetric] add.commute del: upt_Suc map_Suc_upt)

lemma chunks_add: "chunks per (a + b) xs = chunks per a xs @ chunks per b (drop (a * per) xs)"
  by (induction a arbitrary: xs) (simp_all add: chunks_Suc add.commute)

lemma chunks_take: "a * per \<le> n \<Longrightarrow> chunks per a (take n xs) = chunks per a xs"
proof (induction a arbitrary: n xs)
  case (Suc a)
  then have "a * per \<le> n - per" "min per n = per" by auto
  with Suc.IH [of "n - per" "drop per xs"] show ?case
    by (simp add: chunks_Suc drop_take)
qed simp

lemma concat_chunks: "concat (chunks per k xs) = take (k * per) xs"
  by (induction k arbitrary: xs) (simp_all add: chunks_Suc take_add)

lemma chunks_lengths: "k * per \<le> length xs \<Longrightarrow> x \<in> set (chunks per k xs) \<Longrightarrow> length x = per"
proof (induction k arbitrary: xs)
  case (Suc k)
  then show ?case using Suc.IH [of "drop per xs"] by (auto simp: chunks_Suc)
qed simp

lemma cut_shards_chunks:
  "0 < per \<Longrightarrow> cut_shards per slots xs = chunks per (min slots (length xs div per)) xs"
proof (induction slots arbitrary: xs)
  case (Suc slots)
  show ?case
  proof (cases "per \<le> length xs")
    case True
    have "length xs div per = Suc ((length xs - per) div per)"
      using True Suc.prems by (simp add: le_div_geq)
    then show ?thesis
      using True Suc by (simp add: chunks_Suc)
  qed (use Suc in simp)
qed simp

lemma copy_into_chunks:
  "length xs \<le> k * per \<Longrightarrow> 0 < per \<Longrightarrow>
     copy_into (replicate k (replicate per 0)) xs = chunks per k (xs @ replicate (k * per - length xs) 0)"
proof (induction k arbitrary: xs)
  case (Suc k)
  show ?case
  proof (cases "xs = []")
    case True
    have "replicate k (replicate per 0) = chunks per k (replicate (k * per) (0::byte))"
    proof (induction k)
      case (Suc k)
      then show ?case by (simp add: chunks_Suc)
    qed simp
    with True show ?thesis by (simp add: chunks_Suc)
  next
    case False
    have "copy_into (replicate k (replicate per 0)) (drop (min per (length xs)) xs) =
        chunks per k (drop per xs @ replicate (k * per - (length xs - per)) 0)"
      using Suc.IH [of "drop (min per (length xs)) xs"] Suc.prems by (cases "per \<le> length xs") (simp_all add: min_def)
    with False Suc.prems show ?thesis
      by (cases "per \<le> length xs") (auto simp: chunks_Suc min_def add.commute)
  qed
qed simp

section \<open>Split\<close>

definition padded :: "nat \<Rightarrow> bytes \<Rightarrow> bytes" where
  "padded n data = data @ replicate (n - length data) 0"

lemma div_up_bound: "0 < d \<Longrightarrow> n \<le> (n + d - 1) div d * (d::nat)"
proof -
  assume "0 < d"
  then have "(n + d - 1) mod d \<le> d - 1" by (simp add: less_Suc_eq_le [symmetric])
  then show ?thesis
    using div_mult_mod_eq [of "n + d - 1" d] \<open>0 < d\<close> by linarith
qed

lemma div_up_pos: "0 < d \<Longrightarrow> 0 < n \<Longrightarrow> 0 < (n + d - 1) div (d::nat)"
  by (simp add: div_greater_zero_iff)

lemma split_padding_chunks:
  assumes "0 < per" "length data \<le> L" "L \<le> t * per"
  shows "split_padding t per (length data) (take L (padded (t * per) data)) =
    chunks per (t - L div per) (drop (L div per * per) (padded (t * per) data))"
proof -
  let ?n = "length data" and ?D = "padded (t * per) data"
  define full where "full = L div per"
  have D: "length (take L ?D) = L" using assms by (simp add: padded_def)
  have full: "full \<le> t" "full * per \<le> L"
    using div_le_mono [OF assms(3), of per] assms(1) by (simp_all add: full_def)
  show ?thesis
  proof (cases "L < t * per")
    case False
    then have "L = t * per" using assms(3) by simp
    then show ?thesis using assms(1) D by (simp add: split_padding_def)
  next
    case True
    have tail: "slice (per * full) ?n (take L ?D) = drop (full * per) data"
      using assms(2) by (simp add: slice_def padded_def drop_take take_drop mult.commute)
    have "split_padding t per ?n (take L ?D) =
        copy_into (replicate (t - full) (replicate per 0)) (drop (full * per) data)"
      unfolding split_padding_def D Let_def full_def [symmetric] tail
      using True by (cases "t - full") (auto simp: AllocAligned_def mult.commute)
    also have "\<dots> = chunks per (t - full) (drop (full * per) data @ replicate ((t - full) * per - (?n - full * per)) 0)"
      using assms full by (subst copy_into_chunks) (auto simp: diff_mult_distrib)
    also have "drop (full * per) data @ replicate ((t - full) * per - (?n - full * per)) 0 = drop (full * per) ?D"
      using assms full by (auto simp: padded_def diff_mult_distrib)
    finally show ?thesis unfolding full_def .
  qed
qed

lemma Split_chunks:
  assumes "0 < length data" "0 < dataShards r" "dataShards r \<le> totalShards r" "1 < totalShards r"
  defines "per \<equiv> (length data + dataShards r - 1) div dataShards r"
  shows "Split r data capacity = Inr (chunks per (totalShards r) (padded (totalShards r * per) data))"
proof -
  let ?t = "totalShards r" and ?n = "length data" and ?D = "padded (totalShards r * per) data"
  have per: "0 < per" "?n \<le> dataShards r * per"
    using div_up_pos [OF assms(2,1)] div_up_bound [OF assms(2), of ?n] by (simp_all add: per_def mult.commute)
  then have need: "?n \<le> ?t * per"
    using assms(3) by (meson le_trans mult_le_mono1)
  define L where "L = (if ?n < capacity then min (?t * per) capacity else ?n)"
  have L: "?n \<le> L" "L \<le> ?t * per" using need by (auto simp: L_def)
  have D: "length (take L ?D) = L" using need L by (simp add: padded_def)
  have data': "(if ?n < capacity then data @ replicate ((if ?t * per < capacity then ?t * per else capacity) - ?n) 0 else data) =
      take L ?D"
    using need by (auto simp: L_def padded_def min_def)
  have full: "L div per \<le> ?t" using div_le_mono [OF L(2), of per] per(1) by simp
  have dst: "cut_shards per ?t (take L ?D) = chunks per (L div per) ?D"
    using per(1) full by (simp add: cut_shards_chunks D chunks_take min_absorb2 del: length_take)
  have "chunks per (L div per) ?D @ chunks per (?t - L div per) (drop (L div per * per) ?D) = chunks per ?t ?D"
    using chunks_add [of per "L div per" "?t - L div per" ?D] full by simp
  then show ?thesis
    unfolding Split_def Let_def per_def [symmetric] data'
    using assms(1,4) by (simp add: dst split_padding_chunks [OF per(1) L])
qed

lemma Split_spec:
  assumes "0 < length data" "0 < dataShards r" "dataShards r \<le> totalShards r" "1 < totalShards r"
  obtains shards n where "Split r data capacity = Inr shards" "length shards = totalShards r" "0 < n"
    "\<forall>x \<in> set shards. length x = n" "take (length data) (concat (take (dataShards r) shards)) = data"
    "length data \<le> dataShards r * n"
proof -
  define n where "n = (length data + dataShards r - 1) div dataShards r"
  have n: "0 < n" "length data \<le> dataShards r * n"
    using div_up_pos [OF assms(2,1)] div_up_bound [OF assms(2), of "length data"] by (simp_all add: n_def mult.commute)
  then have need: "length data \<le> totalShards r * n"
    using assms(3) by (meson le_trans mult_le_mono1)
  let ?D = "padded (totalShards r * n) data"
  have D: "length ?D = totalShards r * n" using need by (simp add: padded_def)
  have "take (dataShards r) (chunks n (totalShards r) ?D) = chunks n (dataShards r) ?D"
    using chunks_add [of n "dataShards r" "totalShards r - dataShards r" ?D] assms(3) by simp
  then have "concat (take (dataShards r) (chunks n (totalShards r) ?D)) = take (dataShards r * n) ?D"
    by (simp add: concat_chunks)
  then have "take (length data) (concat (take (dataShards r) (chunks n (totalShards r) ?D))) = data"
    using n(2) by (simp add: padded_def)
  moreover have "\<forall>x \<in> set (chunks n (totalShards r) ?D). length x = n"
    using chunks_lengths [of "totalShards r" n ?D] D by simp
  ultimately show ?thesis
    using n Split_chunks [OF assms, folded n_def] by (intro that [of "chunks n (totalShards r) ?D" n]) simp_all
qed

section \<open>Join\<close>

text \<open>A writer that keeps what it is given: the contract of \<open>io.Writer\<close> for a call without error, all
  bytes written and their number returned.\<close>

locale io_writer =
  fixes wr :: "'w \<Rightarrow> bytes \<Rightarrow> 'w \<times> nat \<times> rs_error option"
    and written :: "'w \<Rightarrow> bytes"
  assumes wr_all: "wr w b = (w', n, err) \<Longrightarrow> err = None \<and> n = length b \<and> written w' = written w @ b"
begin

lemma join_write_ok:
  "0 \<le> todo \<Longrightarrow> \<exists>w'. join_write wr w (map Some shards) todo = (w', None) \<and>
     written w' = written w @ take (nat todo) (concat shards)"
proof (induction shards arbitrary: w todo)
  case (Cons sh shards)
  show ?case
  proof (cases "todo < int (length sh)")
    case True
    obtain w' n err where "wr w (take (nat todo) sh) = (w', n, err)" by (metis prod_cases3)
    with wr_all [OF this] True Cons.prems show ?thesis by simp
  next
    case False
    obtain w' n err where wr: "wr w sh = (w', n, err)" by (metis prod_cases3)
    note * = wr_all [OF wr]
    obtain w'' where "join_write wr w' (map Some shards) (todo - int (length sh)) = (w'', None)"
        "written w'' = written w' @ take (nat (todo - int (length sh))) (concat shards)"
      using Cons.IH [of "todo - int (length sh)" w'] False by auto
    then show ?thesis using * wr False by (simp add: nat_diff_distrib)
  qed
qed simp

lemma join_size_ok:
  "\<exists>sz. join_size (map Some shards) outSize acc = Inr sz \<and> (outSize \<le> sz \<longleftrightarrow> outSize \<le> acc + int (length (concat shards)))"
proof (induction shards arbitrary: acc)
  case (Cons sh shards)
  then show ?case
    using Cons.IH [of "acc + int (length sh)"]
    by (cases "outSize \<le> acc + int (length sh)") (simp_all add: add.assoc)
qed simp

lemma Join_ok:
  assumes "dataShards r \<le> length shards" "n \<le> length (concat (take (dataShards r) shards))"
  shows "\<exists>w'. Join r wr w (map Some shards) (int n) = (w', None) \<and>
    written w' = written w @ take n (concat (take (dataShards r) shards))"
proof -
  obtain sz where "join_size (map Some (take (dataShards r) shards)) (int n) 0 = Inr sz" "int n \<le> sz"
    using join_size_ok [of "take (dataShards r) shards" "int n" 0] assms(2) by auto
  then show ?thesis
    using join_write_ok [of "int n" w "take (dataShards r) shards"] assms(1)
    by (simp add: Join_def Let_def take_map)
qed

lemma Join_short:
  assumes "dataShards r \<le> length shards" "length (concat (take (dataShards r) shards)) < n"
  shows "Join r wr w (map Some shards) (int n) = (w, Some ErrShortData)"
proof -
  obtain sz where "join_size (map Some (take (dataShards r) shards)) (int n) 0 = Inr sz" "\<not> int n \<le> sz"
    using join_size_ok [of "take (dataShards r) shards" "int n" 0] assms(2) by auto
  then show ?thesis
    using assms(1) by (simp add: Join_def Let_def take_map)
qed

end

text \<open>The in-memory writer of the library, \<open>bytes.Buffer\<close>: it appends and never fails.\<close>

definition buffer_write :: "bytes \<Rightarrow> bytes \<Rightarrow> bytes \<times> nat \<times> rs_error option" where
  "buffer_write w b = (w @ b, length b, None)"

interpretation buffer: io_writer buffer_write "\<lambda>w. w"
  by unfold_locales (simp add: buffer_write_def)

end
