(* ===== verification/Encoders.thy ===== *)
theory Encoders
  imports Reed_Solomon
begin

text \<open>
  What \<open>New\<close> guarantees of an encoder: the shape of the coding matrix, whose top is the identity
  for every kind of matrix, the tuning under which the coding loops end, and, for the default
  matrix, that any choice of as many rows as there are data shards is invertible.
\<close>

section \<open>Matrices with the identity on top\<close>

definition coding_matrix :: "nat \<Rightarrow> nat \<Rightarrow> matrix \<Rightarrow> bool" where
  "coding_matrix d t m \<longleftrightarrow> d \<le> t \<and> wf_mat t d m \<and> take d m = id_mat d"

lemma coding_matrix_top: "coding_matrix d t m \<Longrightarrow> i < d \<Longrightarrow> m ! i = unit_vec d i"
  using nth_take [of i d m] by (simp add: coding_matrix_def id_mat_def)

lemma coding_matrixI:
  assumes "d \<le> t" "wf_mat t d m" "\<And>i. i < d \<Longrightarrow> m ! i = unit_vec d i"
  shows "coding_matrix d t m"
  using assms by (auto simp: coding_matrix_def wf_mat_def id_mat_def intro!: nth_equalityI)

lemma map_nth_take: "n \<le> length xs \<Longrightarrow> map ((!) xs) [0..<n] = take n xs"
  by (rule nth_equalityI) simp_all

lemma matrix_with_top_ok:
  assumes "0 < d" "d \<le> t"
  shows "\<exists>m. matrix_with_top (int d) (int t) f = Inr m \<and> coding_matrix d t m \<and>
    (\<forall>r c. d \<le> r \<longrightarrow> r < t \<longrightarrow> c < d \<longrightarrow> m ! r ! c = f r c)"
  using assms
  by (auto simp: matrix_with_top_def newMatrix_def unit_vec_def wf_mat_def intro!: coding_matrixI)

lemma custom_fill_ok:
  "custom_fill d p k rows = Inr m \<Longrightarrow> length m = length rows \<and> (k \<le> p \<longrightarrow> k + length rows \<le> p) \<and> (\<forall>row \<in> set m. length row = d)"
  by (induction d p k rows arbitrary: m rule: custom_fill.induct)
    (auto simp: bind_res_Inr split: if_splits)

lemma buildCustomMatrix_ok:
  assumes "0 < d" "buildCustomMatrix d p cm = Inr m"
  shows "coding_matrix d (d + p) m"
proof -
  obtain rows where rows: "p \<le> length cm" "custom_fill d p 0 cm = Inr rows"
    "m = map (\<lambda>i. (replicate d 0)[i := 1]) [0..<d] @ rows"
    using assms(2) by (auto simp: buildCustomMatrix_def bind_res_Inr split: if_splits)
  with custom_fill_ok [OF rows(2)] show ?thesis
    by (auto intro!: coding_matrixI simp: wf_mat_def nth_append unit_vec_def)
qed

section \<open>The default matrix\<close>

lemma SubMatrix_top:
  assumes "wf_mat t d m" "0 < d" "d \<le> t"
  shows "SubMatrix m 0 0 d d = Inr (take d m)"
proof -
  have "map (\<lambda>c. m ! r ! c) [0..<d] = m ! r" if "r < d" for r
    using that assms by (intro nth_equalityI) (simp_all add: mat_simps)
  then have "map (\<lambda>r. map (\<lambda>c. m ! r ! c) [0..<d]) [0..<d] = take d m"
    using assms by (intro nth_equalityI) (simp_all add: mat_simps)
  then show ?thesis
    using assms by (auto simp: SubMatrix_def newMatrix_def mat_simps)
qed

lemma mat_vec_rows: "mat_vec (map ((!) m) is) x = map (\<lambda>i. dot (m ! i) x) is"
  by (simp add: mat_vec_def)

lemma mat_vec_take: "mat_vec (take d m) x = take d (mat_vec m x)"
  by (simp add: mat_vec_def take_map)

lemma mat_vec_wf_rows:
  assumes "\<And>x. mat_vec m x = mat_vec a (mat_vec b x)" "\<forall>i \<in> set is. i < length m" "length m = length a"
  shows "mat_vec (map ((!) m) is) x = mat_vec (map ((!) a) is) (mat_vec b x)"
  using assms(2,3) mat_vec_nth [of _ m x] mat_vec_nth [of _ a "mat_vec b x"]
  by (auto simp: mat_vec_rows assms(1))

lemma buildMatrix_ok:
  assumes "0 < d" "d \<le> t" "t \<le> 256"
  obtains m where "buildMatrix (int d) (int t) = Inr m" "coding_matrix d t m"
    "\<And>is. distinct is \<Longrightarrow> length is = d \<Longrightarrow> \<forall>i \<in> set is. i < t \<Longrightarrow> \<exists>v. Invert (map ((!) m) is) = Inr v"
proof -
  let ?vm = "map (vand_row d) [0..<t]"
  have vm: "vandermonde (int t) (int d) = Inr ?vm" "wf_mat t d ?vm"
    using assms vandermonde_eq [of t d] by (auto simp: wf_mat_def)
  have sel: "map ((!) ?vm) is = map (vand_row d) is" if "\<forall>i \<in> set is. i < t" for "is"
    using that by simp
  have top: "take d ?vm = map (vand_row d) [0..<d]"
    using assms by (simp add: take_map)
  obtain ti where ti: "Invert (take d ?vm) = Inr ti" "wf_mat d d ti"
      "\<And>x. length x = d \<Longrightarrow> mat_vec ti (mat_vec (take d ?vm) x) = x"
      "\<And>x. length x = d \<Longrightarrow> mat_vec (take d ?vm) (mat_vec ti x) = x"
    using vand_rows_invertible [of "[0..<d]" d] assms unfolding top by auto
  obtain m where m: "Multiply ?vm ti = Inr m" "wf_mat t d m" "\<And>x. mat_vec m x = mat_vec ?vm (mat_vec ti x)"
    using Multiply_mat_vec [OF vm(2) ti(2)] assms by (metis order_less_le_trans)
  show ?thesis
  proof (rule that)
    show "buildMatrix (int d) (int t) = Inr m"
      using vm SubMatrix_top [OF vm(2) assms(1,2)] ti(1) m(1) by (simp add: buildMatrix_def)
    have "wf_mat d d (take d m)"
      using m(2) assms(2) by (auto simp: wf_mat_def dest: in_set_takeD)
    then have "take d m = id_mat d"
      using m(3) ti(4) by (intro mat_eqI [of d d]) (simp_all add: mat_vec_id mat_vec_take)
    then show "coding_matrix d t m"
      using m(2) assms(2) by (simp add: coding_matrix_def)
  next
    fix "is" assume "is": "distinct is" "length is = d" "\<forall>i \<in> set is. i < t"
    have wf: "wf_mat d d (map ((!) m) is)"
      using "is" m(2) by (auto simp: wf_mat_def)
    have lift: "mat_vec (map ((!) m) is) x = mat_vec (map (vand_row d) is) (mat_vec ti x)" for x
      using mat_vec_wf_rows [OF m(3), of "is"] sel "is" m(2) by (simp add: mat_simps)
    obtain w where w: "\<And>x. length x = d \<Longrightarrow> mat_vec w (mat_vec (map (vand_row d) is) x) = x" "wf_mat d d w"
      using vand_rows_invertible [of "is" d] "is" assms by force
    from wf assms(1) show "\<exists>v. Invert (map ((!) m) is) = Inr v"
    proof (cases rule: Invert_cases)
      case (singular x)
      have "mat_vec ti x = mat_vec w (replicate d 0)"
        using w(1) [of "mat_vec ti x"] singular(4) lift ti(2) by (simp add: mat_simps)
      also have "\<dots> = replicate d 0"
        using w(2) by (simp add: mat_vec_def wf_mat_def map_replicate_const)
      finally have "x = replicate d 0"
        using ti(4) [of x] singular(2) assms(2)
        by (simp add: mat_vec_def map_replicate_const min_absorb1 min_absorb2)
      with singular show ?thesis by simp
    qed blast
  qed
qed

section \<open>The Jerasure matrix\<close>

text \<open>Column operations on all rows, seen row by row. They keep every row that is zero in the
  column they read.\<close>

lemma fold_set_entry_rows:
  assumes "distinct rs" "\<forall>j \<in> set rs. j < length vm"
  shows "length (fold (\<lambda>j vm. set_entry j c (f (vm ! j)) vm) rs vm) = length vm \<and>
    (\<forall>i < length vm. fold (\<lambda>j vm. set_entry j c (f (vm ! j)) vm) rs vm ! i =
       (if i \<in> set rs then (vm ! i)[c := f (vm ! i)] else vm ! i))"
  using assms
proof (induction rs arbitrary: vm)
  case (Cons r rs)
  then show ?case
    using Cons.IH [of "set_entry r c (f (vm ! r)) vm"] by (auto simp: set_entry_def nth_list_update)
qed simp

lemma jerasure_scale_column_nth:
  assumes "distinct rs" "\<forall>j \<in> set rs. j < length vm"
  shows "length (jerasure_scale_column rs c tmp vm) = length vm"
    and "i < length vm \<Longrightarrow> jerasure_scale_column rs c tmp vm ! i =
      (if i \<in> set rs then (vm ! i)[c := galMultiply (vm ! i ! c) tmp] else vm ! i)"
  using fold_set_entry_rows [OF assms, of c "\<lambda>row. galMultiply (row ! c) tmp"]
  by (simp_all add: jerasure_scale_column_def)

lemma jerasure_add_column_nth:
  assumes "length vm = t"
  shows "length (jerasure_add_column t i j tmp vm) = t"
    and "k < t \<Longrightarrow> jerasure_add_column t i j tmp vm ! k =
      (vm ! k)[j := galAdd (vm ! k ! j) (galMultiply tmp (vm ! k ! i))]"
  using fold_set_entry_rows [of "[0..<t]" vm j "\<lambda>row. galAdd (row ! j) (galMultiply tmp (row ! i))"] assms
  by (simp_all add: jerasure_add_column_def)

text \<open>Clearing row \<open>i\<close>: the pass over the columns makes row \<open>i\<close> a unit vector and does not touch a
  row with a zero in column \<open>i\<close>.\<close>

lemma jerasure_clear_spec:
  assumes "wf_mat t d vm" "i < t" "i < d" "vm ! i ! i = 1" "distinct js" "\<forall>j \<in> set js. j < d"
  shows "wf_mat t d (jerasure_clear t i js vm) \<and>
    (\<forall>k < t. vm ! k ! i = 0 \<longrightarrow> jerasure_clear t i js vm ! k = vm ! k) \<and>
    (\<forall>j < d. jerasure_clear t i js vm ! i ! j = (if j \<in> set js \<and> j \<noteq> i then 0 else vm ! i ! j))"
  using assms
proof (induction js arbitrary: vm)
  case Nil
  then show ?case by (simp add: jerasure_clear_def)
next
  case (Cons j js)
  define vm' where "vm' = (if j \<noteq> i \<and> vm ! i ! j \<noteq> 0 then jerasure_add_column t i j (vm ! i ! j) vm else vm)"
  have len: "length vm = t" using Cons.prems(1) by (simp add: mat_simps)
  have nth: "vm' ! k = (if j \<noteq> i \<and> vm ! i ! j \<noteq> 0
      then (vm ! k)[j := galAdd (vm ! k ! j) (galMultiply (vm ! i ! j) (vm ! k ! i))] else vm ! k)"
    if "k < t" for k
    using jerasure_add_column_nth(2) [OF len that] by (simp add: vm'_def)
  have wf: "wf_mat t d vm'"
    using Cons.prems(1) nth jerasure_add_column_nth(1) [OF len] by (auto simp: wf_mat_iff_nth vm'_def)
  have clear: "jerasure_clear t i (j # js) vm = jerasure_clear t i js vm'"
    by (simp add: jerasure_clear_def vm'_def Let_def)
  have row: "vm' ! i ! l = (if l = j \<and> j \<noteq> i then 0 else vm ! i ! l)" if "l < d" for l
    using nth [OF Cons.prems(2)] that Cons.prems wf_mat_nth [OF Cons.prems(1,2)]
    by (auto simp: nth_list_update galAdd_def)
  have keep: "vm' ! k = vm ! k" if "k < t" "vm ! k ! i = 0" for k
    using nth [OF that(1)] that(2) by (simp add: galAdd_def)
  show ?case
    using Cons.IH [OF wf] Cons.prems row keep unfolding clear by auto
qed

lemma jerasure_clear_unit:
  assumes "wf_mat t d vm" "i < t" "i < d" "vm ! i ! i = 1"
  shows "wf_mat t d (jerasure_clear t i [0..<d] vm)" "jerasure_clear t i [0..<d] vm ! i = unit_vec d i"
    "k < t \<Longrightarrow> vm ! k ! i = 0 \<Longrightarrow> jerasure_clear t i [0..<d] vm ! k = vm ! k"
proof -
  note spec = jerasure_clear_spec [OF assms, of "[0..<d]"]
  from spec show wf: "wf_mat t d (jerasure_clear t i [0..<d] vm)"
    and "k < t \<Longrightarrow> vm ! k ! i = 0 \<Longrightarrow> jerasure_clear t i [0..<d] vm ! k = vm ! k"
    by simp_all
  show "jerasure_clear t i [0..<d] vm ! i = unit_vec d i"
    using spec wf_mat_nth [OF wf assms(2)] assms(3,4)
    by (auto intro!: nth_equalityI simp: unit_vec_def nth_list_update)
qed

definition unit_rows :: "nat \<Rightarrow> nat \<Rightarrow> matrix \<Rightarrow> bool" where
  "unit_rows d i vm \<longleftrightarrow> (\<forall>k < i. vm ! k = unit_vec d k)"

lemma unit_vec_nth: "i < n \<Longrightarrow> j < n \<Longrightarrow> unit_vec n j ! i = (if i = j then 1 else 0)"
  by (simp add: unit_vec_def nth_list_update)

lemma galOneOver_mult: "galOneOver a = Inr v \<Longrightarrow> galMultiply a v = 1"
proof -
  assume v: "galOneOver a = Inr v"
  then have "a \<noteq> 0" by (auto simp: galOneOver_def)
  with v show ?thesis by (auto elim: galOneOver_inverse)
qed

lemma jerasure_scale_unit:
  assumes wf: "wf_mat t d vm" and i: "i < d" "d \<le> t" and unit: "unit_rows d i vm"
    and scale: "jerasure_scale t i vm = Inr w"
  shows "wf_mat t d w \<and> w ! i ! i = 1 \<and> unit_rows d i w"
proof (cases "vm ! i ! i = 1")
  case False
  then obtain tmp where tmp: "galOneOver (vm ! i ! i) = Inr tmp" "w = jerasure_scale_column [0..<t] i tmp vm"
    using scale by (auto simp: jerasure_scale_def bind_res_Inr)
  have len: "length vm = t" using wf by (simp add: mat_simps)
  have nth: "w ! k = (vm ! k)[i := galMultiply (vm ! k ! i) tmp]" if "k < t" for k
    using jerasure_scale_column_nth(2) [of "[0..<t]" vm k i tmp] that len tmp(2) by simp
  have "w ! k = vm ! k" if "k < i" for k
  proof -
    have "vm ! k ! i = 0" using unit that i by (simp add: unit_rows_def unit_vec_nth)
    then show ?thesis using nth [of k] that i by (metis galMultiply_0(1) less_le_trans less_trans list_update_id)
  qed
  moreover have "length w = t"
    using jerasure_scale_column_nth(1) [of "[0..<t]" vm i tmp] len tmp(2) by simp
  ultimately show ?thesis
    using wf nth tmp(1) i unit by (auto simp: wf_mat_iff_nth galOneOver_mult unit_rows_def)
qed (use assms in \<open>simp add: jerasure_scale_def\<close>)

lemma jerasure_step_unit:
  assumes wf: "wf_mat t d vm" and i: "i < d" "d \<le> t" and unit: "unit_rows d i vm"
    and step: "jerasure_step d t i vm = Inr vm'"
  shows "wf_mat t d vm' \<and> unit_rows d (Suc i) vm'"
proof -
  obtain r where r: "find (\<lambda>r. vm ! r ! i \<noteq> 0) [i..<t] = Some r"
    using step by (cases "find (\<lambda>r. vm ! r ! i \<noteq> 0) [i..<t]") (auto simp: jerasure_step_def)
  then have r': "i \<le> r" "r < t"
    by (auto simp: find_Some_iff)
  define sw where "sw = (if r \<noteq> i then (vm[r := vm ! i])[i := vm ! r] else vm)"
  have sw: "wf_mat t d sw" "unit_rows d i sw"
    using wf unit r' i by (auto simp: sw_def unit_rows_def wf_mat_iff_nth nth_list_update)
  obtain w where w: "jerasure_scale t i sw = Inr w" "vm' = jerasure_clear t i [0..<d] w"
    using step r by (auto simp: jerasure_step_def sw_def bind_res_Inr)
  from jerasure_scale_unit [OF sw(1) i sw(2) w(1)] show ?thesis
    using jerasure_clear_unit [of t d w i] i w(2)
    by (auto simp: unit_rows_def less_Suc_eq unit_vec_nth)
qed

lemma jerasure_steps_unit:
  "jerasure_steps d t [i..<d] vm = Inr vm' \<Longrightarrow> wf_mat t d vm \<Longrightarrow> unit_rows d i vm \<Longrightarrow> i \<le> d \<Longrightarrow> d \<le> t \<Longrightarrow>
     coding_matrix d t vm'"
proof (induction "d - i" arbitrary: i vm)
  case 0
  then show ?case by (auto intro!: coding_matrixI simp: unit_rows_def)
next
  case (Suc k)
  then have "[i..<d] = i # [Suc i..<d]" "i < d" by (simp_all add: upt_conv_Cons)
  then show ?case
    using Suc.prems Suc.hyps(1) [of "Suc i"] Suc.hyps(2) jerasure_step_unit [of t d vm i]
    by (auto simp: bind_res_Inr)
qed

text \<open>The two normalisations change only rows below the identity.\<close>

lemma coding_matrix_below:
  assumes "coding_matrix d t vm" "length vm' = t" "\<And>i. i < d \<Longrightarrow> vm' ! i = vm ! i"
    "\<And>i. i < t \<Longrightarrow> length (vm' ! i) = length (vm ! i)"
  shows "coding_matrix d t vm'"
  using assms coding_matrix_top [OF assms(1)]
  by (intro coding_matrixI) (auto simp: coding_matrix_def wf_mat_iff_nth)

lemma jerasure_ones_row_ok:
  "jerasure_ones_row d t js vm = Inr vm' \<Longrightarrow> coding_matrix d t vm \<Longrightarrow> coding_matrix d t vm'"
proof (induction js arbitrary: vm)
  case (Cons j js)
  have len: "length vm = t" using Cons.prems(2) by (simp add: coding_matrix_def wf_mat_def)
  have "coding_matrix d t (jerasure_scale_column [d..<t] j tmp vm)" for tmp
    using jerasure_scale_column_nth [of "[d..<t]" vm] len Cons.prems(2)
    by (intro coding_matrix_below [OF Cons.prems(2)]) (auto simp: coding_matrix_def)
  with Cons show ?case
    by (auto simp: bind_res_Inr Let_def split: if_splits)
qed simp

lemma fold_set_entry_row:
  "i < length vm \<Longrightarrow> length (fold (\<lambda>j vm. set_entry i j (f vm j) vm) js vm) = length vm \<and>
     (\<forall>k. k \<noteq> i \<longrightarrow> fold (\<lambda>j vm. set_entry i j (f vm j) vm) js vm ! k = vm ! k) \<and>
     length (fold (\<lambda>j vm. set_entry i j (f vm j) vm) js vm ! i) = length (vm ! i)"
proof (induction js arbitrary: vm)
  case (Cons j js)
  then show ?case
    using Cons.IH [of "set_entry i j (f vm j) vm"] by (simp add: set_entry_def)
qed simp

lemma jerasure_ones_col_ok:
  "jerasure_ones_col d is vm = Inr vm' \<Longrightarrow> coding_matrix d t vm \<Longrightarrow> \<forall>i \<in> set is. d \<le> i \<and> i < t \<Longrightarrow>
     coding_matrix d t vm'"
proof (induction "is" arbitrary: vm)
  case (Cons i "is")
  have i: "i < length vm" "d \<le> i" using Cons.prems(2,3) by (simp_all add: coding_matrix_def wf_mat_def)
  have "coding_matrix d t (fold (\<lambda>j vm. set_entry i j (galMultiply (vm ! i ! j) tmp) vm) [0..<d] vm)" for tmp
  proof -
    let ?w = "fold (\<lambda>j vm. set_entry i j (galMultiply (vm ! i ! j) tmp) vm) [0..<d] vm"
    note row = fold_set_entry_row [OF i(1), of "\<lambda>vm j. galMultiply (vm ! i ! j) tmp" "[0..<d]"]
    show ?thesis
    proof (rule coding_matrix_below [OF Cons.prems(2)])
      show "length ?w = t"
        using row Cons.prems(2) by (simp add: coding_matrix_def wf_mat_def)
      show "?w ! k = vm ! k" if "k < d" for k
      proof -
        from that i(2) have "k \<noteq> i" by simp
        with row show ?thesis by simp
      qed
      show "length (?w ! k) = length (vm ! k)" for k
        using row by (cases "k = i") simp_all
    qed
  qed
  moreover obtain w where "jerasure_ones_col d is w = Inr vm'"
      "w = vm \<or> (\<exists>tmp. w = fold (\<lambda>j vm. set_entry i j (galMultiply (vm ! i ! j) tmp) vm) [0..<d] vm)"
    using Cons.prems(1) by (auto simp: bind_res_Inr Let_def split: if_splits)
  ultimately show ?case
    using Cons.IH [of w] Cons.prems(2,3) by auto
qed simp

lemma buildMatrixJerasure_ok:
  assumes "0 < d" "d < t" "buildMatrixJerasure (int d) (int t) = Inr m"
  shows "coding_matrix d t m"
proof -
  let ?set = "\<lambda>r v is vm. fold (\<lambda>i vm. set_entry r i v vm) is vm"
  let ?vm = "map (vand_row d) [0..<t]"
  define vm where "vm = set_entry (t - 1) (d - 1) 1 (?set (t - 1) 0 [0..<d - 1] (?set 0 0 [1..<d] (set_entry 0 0 1 ?vm)))"
  have keep: "wf_mat t d w \<Longrightarrow> wf_mat t d (?set r v is w)" "wf_mat t d w \<Longrightarrow> wf_mat t d (set_entry r i v w)"
    if "r < t" for r v i "is" w
    using that fold_set_entry_row [of r w "\<lambda>_ _. v" "is"]
    by (auto simp: wf_mat_iff_nth set_entry_def nth_list_update)
  have "wf_mat t d ?vm" by (auto simp: wf_mat_def)
  then have wf: "wf_mat t d vm"
    unfolding vm_def using assms by (intro keep) auto
  obtain w x where "jerasure_steps d t [0..<d] vm = Inr w" "jerasure_ones_row d t [0..<d] w = Inr x"
      "jerasure_ones_col d [d + 1..<t] x = Inr m"
    using assms vandermonde_eq [of t d] by (auto simp: buildMatrixJerasure_def vm_def Let_def bind_res_Inr)
  then show ?thesis
    using jerasure_steps_unit [of d t 0 vm w] jerasure_ones_row_ok [of d t _ w x]
      jerasure_ones_col_ok [of d _ x m t] wf assms(2)
    by (auto simp: unit_rows_def)
qed

section \<open>Tuning\<close>

lemma tune_tuned:
  assumes "options_wf opt" "1 \<le> GOMAXPROCS c" "0 \<le> p"
  shows "tuned (maxGoroutines (tune c p opt)) (minSplitSize (tune c p opt)) (perRound (tune c p opt))"
proof -
  define opt' where "opt' = tune_minSplitSize c p (tune_perRound c p opt)"
  have pr: "1024 \<le> perRound opt'" and ms: "0 < minSplitSize opt'" and gor: "1 \<le> maxGoroutines opt'"
    using assms(1) by (auto simp: opt'_def tune_minSplitSize_def tune_perRound_def options_wf_def Let_def)
  let ?p = "GOMAXPROCS c"
  have round: "1 \<le> g + (?p - 1) - (g + (?p - 1)) mod ?p" if "1 \<le> g" for g
    using pos_mod_bound [of ?p "g + (?p - 1)"] that assms(2) by linarith
  have "1 \<le> o_shardSize opt' div perRound opt'"
    if "minSplitSize opt' * 2 < o_shardSize opt'"
      "\<not> (o_shardSize opt' div perRound opt' < ?p * 2 \<and> minSplitSize opt' * 2 < perRound opt')"
  proof (rule ccontr)
    assume "\<not> ?thesis"
    moreover have "0 \<le> o_shardSize opt' div perRound opt'"
      using pr ms that(1) by (simp add: pos_imp_zdiv_nonneg_iff)
    ultimately have z: "o_shardSize opt' div perRound opt' = 0" by simp
    then have "o_shardSize opt' < perRound opt'"
      using pr ms that(1) by (simp add: zdiv_eq_0_iff)
    with that z assms(2) show False by simp
  qed
  with round [of "?p * 2"] round [of "o_shardSize opt' div perRound opt'"] pr ms gor assms(2) show ?thesis
    unfolding tune_def opt'_def [symmetric] tuned_def tune_goroutines_def
    by (auto simp: Let_def simp del: minus_mod_eq_mult_div)
qed

section \<open>Well-formed encoders\<close>

text \<open>The rows that a list of invalid indices leaves for decoding, and what a cached matrix has to
  be: an inverse of those rows.\<close>

definition valid_of :: "nat \<Rightarrow> nat \<Rightarrow> nat list \<Rightarrow> nat list" where
  "valid_of d t invalid = take d (filter (\<lambda>i. i \<notin> set invalid) [0..<t])"

definition decodes :: "nat \<Rightarrow> matrix \<Rightarrow> nat list \<Rightarrow> matrix \<Rightarrow> bool" where
  "decodes d m valid dm \<longleftrightarrow> wf_mat d d dm \<and>
     (\<forall>x. length x = d \<longrightarrow> mat_vec dm (mat_vec (map ((!) m) valid) x) = x)"

definition tree_ok :: "nat \<Rightarrow> nat \<Rightarrow> matrix \<Rightarrow> inversionNode option \<Rightarrow> bool" where
  "tree_ok d t m tree \<longleftrightarrow> (case tree of None \<Rightarrow> True | Some n \<Rightarrow>
     node_matrix n = Some (id_mat d) \<and> tree.sound t (\<lambda>invalid. decodes d m (valid_of d t invalid)) n)"

definition rs_wf :: "reedSolomon \<Rightarrow> bool" where
  "rs_wf r \<longleftrightarrow> 0 < dataShards r \<and> 0 < parityShards r \<and> totalShards r = dataShards r + parityShards r \<and>
     coding_matrix (dataShards r) (totalShards r) (rs_m r) \<and> rs_parity r = drop (dataShards r) (rs_m r) \<and>
     tuned (maxGoroutines (rs_o r)) (minSplitSize (rs_o r)) (perRound (rs_o r)) \<and>
     tree_ok (dataShards r) (totalShards r) (rs_m r) (rs_tree r)"

lemma newInversionTree_ok: "0 < d \<Longrightarrow> tree_ok d (d + p) m (Some (newInversionTree d p))"
  using newInversionTree_wf [of d p] newInversionTree_empty [of "d + p" _ d p]
  by (auto simp: tree_ok_def tree.sound_def newInversionTree_def identityMatrix_id)

lemma select_matrix_ok:
  assumes "0 < d" "0 < p" "d + p \<le> 256" "select_matrix opt (int d) (int p) = Inr m"
  shows "coding_matrix d (d + p) m"
proof -
  have eq: "int d + int p = int (d + p)" by simp
  have top: "coding_matrix d (d + p) m'" if "matrix_with_top (int d) (int d + int p) f = Inr m'" for f m'
    using matrix_with_top_ok [of d "d + p" f] that assms(1) unfolding eq by auto
  have default: "coding_matrix d (d + p) m'" if "buildMatrix (int d) (int d + int p) = Inr m'" for m'
    using buildMatrix_ok [of d "d + p"] that assms(1-3) unfolding eq by (metis add_diff_cancel_left' le_add1 sum.inject(2))
  have jerasure: "coding_matrix d (d + p) m'" if "buildMatrixJerasure (int d) (int d + int p) = Inr m'" for m'
    using buildMatrixJerasure_ok [of d "d + p"] that assms(1,2) unfolding eq by auto
  show ?thesis
    using assms(4) buildCustomMatrix_ok [OF assms(1)] top default jerasure
    unfolding select_matrix_def buildXorMatrix_def buildMatrixCauchy_def buildMatrixPAR1_def
    by (auto simp: Let_def split: option.splits if_splits)
qed

lemma New_wf:
  assumes "New c (int d) (int p) opts = Inr (RS r)" "0 < p" "set opts \<subseteq> package_options" "1 \<le> GOMAXPROCS c"
  shows "rs_wf r \<and> dataShards r = d \<and> parityShards r = p \<and> d + p \<le> 256 \<and>
    select_matrix (apply_options c opts) (int d) (int p) = Inr (rs_m r)"
proof -
  let ?opt = "apply_options c opts"
  have small: "d + p \<le> 256" and d: "0 < d"
    using assms(1,2)
    by (auto simp: New_def Let_def newFF16_def newFF8_def split: if_splits)
  obtain mat where mat: "select_matrix ?opt (int d) (int p) = Inr mat"
    and r: "r = \<lparr> dataShards = d, parityShards = p, totalShards = d + p, rs_m = mat,
      rs_tree = (if inversionCache (tune c (int p) ?opt) then Some (newInversionTree d p) else None),
      rs_parity = map (\<lambda>i. mat ! (d + i)) [0..<p], rs_o = tune c (int p) ?opt \<rparr>"
    using assms(1,2) by (auto simp: New_def Let_def newFF16_def newFF8_def bind_res_Inr nat_add_distrib split: if_splits)
  have cm: "coding_matrix d (d + p) mat"
    by (rule select_matrix_ok [OF d assms(2) small mat])
  then have "map (\<lambda>i. mat ! (d + i)) [0..<p] = drop d mat"
    by (intro nth_equalityI) (simp_all add: coding_matrix_def wf_mat_def)
  then show ?thesis
    using r cm mat small d assms(2) newInversionTree_ok [OF d] tune_tuned [OF apply_options_wf [OF assms(3)] assms(4)]
    by (auto simp: rs_wf_def tree_ok_def)
qed

section \<open>Properties\<close>

text \<open>C25. What \<open>New\<close> builds, for every list of options and every kind of coding matrix: the matrix has
  the identity on top (so the data shards are stored unchanged), the parity rows are the rest
  of it, the cache is empty but for its root, and the tuning leaves at least one goroutine, a
  positive split size and a positive round size, on any processor.\<close>

theorem New_well_formed:
  assumes "New c (int d) (int p) opts = Inr (RS r)" "0 < p" "set opts \<subseteq> package_options" "1 \<le> GOMAXPROCS c"
  shows "rs_wf r \<and> dataShards r = d \<and> parityShards r = p \<and> take d (rs_m r) = id_mat d \<and>
    rs_parity r = drop d (rs_m r) \<and> 1 \<le> maxGoroutines (rs_o r) \<and> 0 < minSplitSize (rs_o r) \<and> 0 < perRound (rs_o r)"
  using New_wf [OF assms] by (auto simp: rs_wf_def coding_matrix_def tuned_def)

text \<open>A processor with nothing detected: one thread per core, no cache sizes.\<close>

definition plain_cpu :: "int \<Rightarrow> cpu" where
  "plain_cpu n = \<lparr> Supports = (\<lambda>_. False), L1D = 0, L2 = 0, ThreadsPerCore = 1, PhysicalCores = n, GOMAXPROCS = n \<rparr>"

theorem New_well_formed_witness:
  "\<exists>r. New (plain_cpu 4) 2 2 [WithJerasureMatrix, WithAutoGoroutines 100000] = Inr (RS r) \<and> rs_wf r \<and>
     take 2 (rs_m r) = id_mat 2"
proof -
  have "case New (plain_cpu 4) 2 2 [WithJerasureMatrix, WithAutoGoroutines 100000] of Inr (RS r) \<Rightarrow> True | _ \<Rightarrow> False"
    by code_simp
  then obtain r where r: "New (plain_cpu 4) 2 2 [WithJerasureMatrix, WithAutoGoroutines 100000] = Inr (RS r)"
    by (auto split: sum.splits Encoder.splits)
  then show ?thesis
    using New_well_formed [of "plain_cpu 4" 2 2 "[WithJerasureMatrix, WithAutoGoroutines 100000]" r]
    by (auto simp: plain_cpu_def intro: package_options.intros)
qed

text \<open>C26. The default coding matrix: it is built for every admissible number of shards, has the
  identity on top, and any choice of distinct rows, as many as there are data shards, is
  invertible, so any such choice of shards determines the data.\<close>

theorem buildMatrix_any_rows:
  assumes "0 < d" "d \<le> t" "t \<le> 256"
  shows "\<exists>m. buildMatrix (int d) (int t) = Inr m \<and> take d m = id_mat d \<and>
    (\<forall>is. distinct is \<and> length is = d \<and> (\<forall>i \<in> set is. i < t) \<longrightarrow> (\<exists>v. Invert (map ((!) m) is) = Inr v))"
proof -
  obtain m where "buildMatrix (int d) (int t) = Inr m" "coding_matrix d t m"
    "\<And>is. distinct is \<Longrightarrow> length is = d \<Longrightarrow> \<forall>i \<in> set is. i < t \<Longrightarrow> \<exists>v. Invert (map ((!) m) is) = Inr v"
    using buildMatrix_ok [OF assms] by blast
  then show ?thesis by (intro exI [of _ m]) (simp add: coding_matrix_def)
qed

theorem buildMatrix_any_rows_witness:
  "\<exists>m. buildMatrix 3 5 = Inr m \<and> take 3 m = id_mat 3 \<and> (\<exists>v. Invert (map ((!) m) [4, 0, 3]) = Inr v)"
proof -
  obtain m where "buildMatrix (int 3) (int 5) = Inr m" "take 3 m = id_mat 3"
    and inv: "\<forall>is. distinct is \<and> length is = 3 \<and> (\<forall>i \<in> set is. i < 5) \<longrightarrow> (\<exists>v. Invert (map ((!) m) is) = Inr v)"
    using buildMatrix_any_rows [of 3 5] by auto
  moreover have "\<exists>v. Invert (map ((!) m) [4, 0, 3]) = Inr v"
    using inv [rule_format, of "[4, 0, 3]"] by simp
  ultimately show ?thesis by auto
qed

text \<open>\<open>New\<close> rejects impossible shard counts: no data shard or a negative number of parity shards
  is \<open>ErrInvShardNum\<close> whatever the options, and more than 65536 shards is \<open>ErrMaxShardNum\<close>.\<close>

theorem New_rejects:
  "(d \<le> 0 \<or> p < 0 \<longrightarrow> New c d p opts = Inl ErrInvShardNum) \<and>
   (0 < d \<and> 0 < p \<and> 65536 < d + p \<longrightarrow> New c d p opts = Inl ErrMaxShardNum)"
  by (auto simp: New_def newFF16_def newFF8_def Let_def)

theorem New_rejects_witness:
  "New (plain_cpu 1) 0 3 [WithLeopardGF True] = Inl ErrInvShardNum \<and>
   New (plain_cpu 1) 70000 3 [] = Inl ErrMaxShardNum"
  using New_rejects [of 0 3 "plain_cpu 1" "[WithLeopardGF True]"] New_rejects [of 70000 3 "plain_cpu 1" "[]"] by simp

text \<open>C27. A custom matrix must have at least as many rows as there are parity shards, says its
  documentation; with more rows of the right width the constructor indexes past the matrix it
  allocated and panics.\<close>

theorem custom_matrix_long_panics:
  assumes "p < length cm" "\<forall>row \<in> set cm. d \<le> length row"
  shows "buildCustomMatrix d p cm = Inl index_panic"
proof -
  have "k \<le> p \<Longrightarrow> p < k + length cm \<Longrightarrow> custom_fill d p k cm = Inl index_panic" for k
    using assms(2)
  proof (induction cm arbitrary: k)
    case (Cons row cm)
    then show ?case
      using Cons.IH [of "k + 1"] by (cases "k = p") auto
  qed simp
  from this [of 0] assms(1) show ?thesis by (simp add: buildCustomMatrix_def)
qed

theorem custom_matrix_long_panics_witness:
  "buildCustomMatrix 2 1 [[1, 1], [1, 2]] = Inl index_panic \<and>
   New (plain_cpu 1) 2 1 [WithCustomMatrix (Some [[1, 1], [1, 2]])] = Inl index_panic"
proof
  show panic: "buildCustomMatrix 2 1 [[1, 1], [1, 2]] = Inl index_panic"
    by (rule custom_matrix_long_panics) simp_all
  have "customMatrix (apply_options (plain_cpu 1) [WithCustomMatrix (Some [[1, 1], [1, 2]])]) = Some [[1, 1], [1, 2]]"
    "withLeopard (apply_options (plain_cpu 1) [WithCustomMatrix (Some [[1, 1], [1, 2]])]) = leopardAsNeeded"
    by (simp_all add: apply_options_def defaultOptions_def WithCustomMatrix_def)
  with panic show "New (plain_cpu 1) 2 1 [WithCustomMatrix (Some [[1, 1], [1, 2]])] = Inl index_panic"
    by (simp add: New_def select_matrix_def Let_def)
qed

end
