(* ===== verification/Codewords.thy ===== *)
theory Codewords
  imports Encoders
begin

text \<open>
  The correctness of the encoder: \<open>Encode\<close> produces codewords and leaves the data alone, \<open>Verify\<close>
  accepts exactly the codewords, and reconstruction gives back the codeword from any set of
  shards that is large enough, or reports a singular matrix, whatever matrix kind, cache
  history and buffers are in play.
\<close>

section \<open>Codewords\<close>

definition codeword :: "reedSolomon \<Rightarrow> nat \<Rightarrow> bytes list \<Rightarrow> bool" where
  "codeword r n shards \<longleftrightarrow> 0 < n \<and> lens_eq n shards \<and>
     shards = code_ref (rs_m r) (take (dataShards r) shards) n"

lemma shardSize_lens: "lens_eq n shards \<Longrightarrow> shards \<noteq> [] \<Longrightarrow> shardSize shards = n"
proof (induction shards)
  case (Cons s shards)
  then show ?case by (cases "shards = []") (auto simp: lens_eq_def)
qed simp

lemma checkShards_lens:
  "lens_eq n shards \<Longrightarrow> shards \<noteq> [] \<Longrightarrow> 0 < n \<Longrightarrow> checkShards shards nilok = None"
  using shardSize_lens [of n shards] by (auto simp: checkShards_def lens_eq_def)

lemma sizes_nilok:
  assumes "\<forall>x \<in> set xs. x = [] \<or> length x = n" "\<exists>x \<in> set xs. x \<noteq> []" "0 < n"
  shows "shardSize xs = n" "checkShards xs True = None"
proof -
  show "shardSize xs = n"
    using assms(1,2) by (induction xs) auto
  then show "checkShards xs True = None"
    using assms by (auto simp: checkShards_def)
qed

lemma lens_eq_take: "lens_eq n xs \<Longrightarrow> lens_eq n (take k xs)"
  by (auto simp: lens_eq_def dest: in_set_takeD)

lemma lens_eq_drop: "lens_eq n xs \<Longrightarrow> lens_eq n (drop k xs)"
  by (auto simp: lens_eq_def dest: in_set_dropD)

lemma lens_eq_append [simp]: "lens_eq n (xs @ ys) \<longleftrightarrow> lens_eq n xs \<and> lens_eq n ys"
  by (auto simp: lens_eq_def)

lemma length_column [simp]: "length (column inputs k) = length inputs"
  by (simp add: column_def)

lemma code_ref_append: "code_ref (a @ b) inputs n = code_ref a inputs n @ code_ref b inputs n"
  by (simp add: code_ref_def)

lemma code_ref_nth: "i < length rows \<Longrightarrow> code_ref rows inputs n ! i = map (\<lambda>k. dot (rows ! i) (column inputs k)) [0..<n]"
  by (simp add: code_ref_def)

lemma code_ref_id:
  assumes "length inputs = d" "lens_eq n inputs"
  shows "code_ref (id_mat d) inputs n = inputs"
proof (rule nth_equalityI)
  fix i assume "i < length (code_ref (id_mat d) inputs n)"
  then have i: "i < d" by (simp add: id_mat_def)
  then have "length (inputs ! i) = n" using assms by (simp add: lens_eq_nth)
  then show "code_ref (id_mat d) inputs n ! i = inputs ! i"
    using i assms by (intro nth_equalityI) (simp_all add: code_ref_def id_mat_def dot_unit column_def)
qed (use assms in \<open>simp add: id_mat_def\<close>)

lemma rs_m_split:
  assumes "rs_wf r"
  shows "rs_m r = id_mat (dataShards r) @ rs_parity r"
    and "wf_mat (parityShards r) (dataShards r) (rs_parity r)"
  using assms append_take_drop_id [of "dataShards r" "rs_m r"]
  by (auto simp: rs_wf_def coding_matrix_def wf_mat_def dest: in_set_dropD)

lemma codeword_iff_parity:
  assumes "rs_wf r" "length shards = totalShards r" "lens_eq n shards" "0 < n"
  shows "codeword r n shards \<longleftrightarrow>
    drop (dataShards r) shards = code_ref (rs_parity r) (take (dataShards r) shards) n"
proof -
  have "code_ref (id_mat (dataShards r)) (take (dataShards r) shards) n = take (dataShards r) shards"
    using assms by (intro code_ref_id lens_eq_take) (simp_all add: rs_wf_def)
  then have "code_ref (rs_m r) (take (dataShards r) shards) n =
      take (dataShards r) shards @ code_ref (rs_parity r) (take (dataShards r) shards) n"
    using rs_m_split(1) [OF assms(1)] by (simp add: code_ref_append)
  then show ?thesis
    using assms(3,4) append_take_drop_id [of "dataShards r" shards]
    by (metis append_eq_append_conv codeword_def)
qed

lemma codeword_lens:
  assumes "rs_wf r" "codeword r n c"
  shows "length c = totalShards r" "lens_eq n c" "0 < n"
proof -
  have "length c = length (rs_m r)"
    using assms(2) by (metis codeword_def length_code_ref)
  then show "length c = totalShards r"
    using assms(1) by (simp add: rs_wf_def coding_matrix_def wf_mat_def)
qed (use assms(2) in \<open>simp_all add: codeword_def\<close>)

lemma codeword_nonempty: "rs_wf r \<Longrightarrow> codeword r n c \<Longrightarrow> i < totalShards r \<Longrightarrow> c ! i \<noteq> []"
  using codeword_lens [of r n c] lens_eq_nth [of n c i] by auto

lemma rs_code_ref:
  assumes "rs_wf r" "inputs \<noteq> []" "lens_eq n inputs" "lens_eq n outputs"
    and "wf_mat (length outputs) (length inputs) rows"
  shows "rs_code r rows inputs outputs n = Inr (code_ref rows inputs n)"
  using codeSomeShards_ref [of "maxGoroutines (rs_o r)" "minSplitSize (rs_o r)" "perRound (rs_o r)" rows inputs outputs n]
    assms by (simp add: rs_code_def rs_wf_def code_args_def wf_mat_def)

section \<open>Encode and Verify\<close>

lemma Encode_codeword:
  assumes r: "rs_wf r" and len: "length shards = totalShards r" "lens_eq n shards" "0 < n"
  shows "\<exists>c. Encode r shards = Inr c \<and> codeword r n c \<and> take (dataShards r) c = take (dataShards r) shards"
proof -
  let ?d = "dataShards r" and ?p = "parityShards r"
  have t: "totalShards r = ?d + ?p" "0 < ?d" using r by (simp_all add: rs_wf_def)
  have ne: "shards \<noteq> []" "take ?d shards \<noteq> []" using len t by auto
  have n: "length (shards ! 0) = n" using lens_eq_nth [OF len(2), of 0] ne by simp
  have take_p: "take ?p (drop ?d shards) = drop ?d shards" "drop ?p (drop ?d shards) = []"
    using len t by simp_all
  have "rs_code r (rs_parity r) (take ?d shards) (drop ?d shards) n =
      Inr (code_ref (rs_parity r) (take ?d shards) n)"
    using rs_m_split(2) [OF r] len t ne
    by (intro rs_code_ref [OF r]) (simp_all add: lens_eq_take lens_eq_drop)
  then have enc: "Encode r shards = Inr (take ?d shards @ code_ref (rs_parity r) (take ?d shards) n)"
    using len t ne checkShards_lens [OF len(2) ne(1) len(3)] take_p n by (simp add: Encode_def Let_def)
  have "length (rs_parity r) = ?p"
    using rs_m_split(2) [OF r] by (simp add: mat_simps)
  then show ?thesis
    using enc codeword_iff_parity [OF r, of "take ?d shards @ code_ref (rs_parity r) (take ?d shards) n" n] len t
    by (simp add: lens_eq_take)
qed

lemma Verify_codeword:
  assumes r: "rs_wf r" and len: "length shards = totalShards r" "lens_eq n shards" "0 < n"
  shows "Verify r shards = Inr (codeword r n shards)"
proof -
  let ?d = "dataShards r" and ?p = "parityShards r"
  have t: "totalShards r = ?d + ?p" "0 < ?d" "0 < ?p" using r by (simp_all add: rs_wf_def)
  have ne: "shards \<noteq> []" "take ?d shards \<noteq> []" using len t by auto
  have n: "length (shards ! 0) = n" using lens_eq_nth [OF len(2), of 0] ne by simp
  have "rs_code r (rs_parity r) (take ?d shards) (AllocAligned ?p n) n =
      Inr (code_ref (rs_parity r) (take ?d shards) n)"
    using rs_m_split(2) [OF r] len t ne
    by (intro rs_code_ref [OF r]) (simp_all add: lens_eq_take AllocAligned_def, simp add: lens_eq_def)
  then show ?thesis
    using codeword_iff_parity [OF r len] checkShards_lens [OF len(2) ne(1) len(3)] len t n
    by (auto simp: Verify_def checkSomeShards_def)
qed

section \<open>The rows a reconstruction uses\<close>

lemma filter_length_eq_upt: "length (filter P [0..<n]) = n \<longleftrightarrow> (\<forall>i < n. P i)"
  using length_filter_less [of _ "[0..<n]" P] filter_True [of "[0..<n]" P] by (cases "\<forall>i < n. P i") force+

lemma scan_rows_spec:
  assumes "sorted_wrt (<) rows" "scan_rows present need rows = (valid, invalid)"
  shows "valid = take need (filter present rows) \<and> sorted_wrt (<) invalid \<and> set invalid \<subseteq> set rows \<and>
    (need \<le> length (filter present rows) \<longrightarrow> take need (filter (\<lambda>i. i \<notin> set invalid) rows) = valid)"
  using assms
proof (induction present need rows arbitrary: valid invalid rule: scan_rows.induct)
  case (2 present need row rows)
  have sorted: "sorted_wrt (<) rows" "\<forall>i \<in> set rows. row < i" using "2.prems"(1) by simp_all
  consider "need = 0" | "need \<noteq> 0" "present row" | "need \<noteq> 0" "\<not> present row" by blast
  then show ?case
  proof cases
    case 2
    obtain v iv where rec: "scan_rows present (need - 1) rows = (v, iv)" by (metis surj_pair)
    note IH = "2.IH"(1) [OF 2 sorted(1) rec]
    have "row \<notin> set iv" using IH sorted(2) by auto
    with IH 2 "2.prems"(2) rec show ?thesis by (cases need) auto
  next
    case 3
    obtain v iv where rec: "scan_rows present need rows = (v, iv)" by (metis surj_pair)
    note IH = "2.IH"(2) [OF 3 sorted(1) rec]
    have "filter (\<lambda>i. i \<noteq> row \<and> i \<notin> set iv) rows = filter (\<lambda>i. i \<notin> set iv) rows"
      using sorted(2) by (intro filter_cong) auto
    moreover have "\<forall>i \<in> set iv. row < i" using IH sorted(2) by auto
    ultimately show ?thesis using IH 3 "2.prems"(2) rec by auto
  qed (use 2 in simp)
qed simp

lemma valid_of_Nil: "d \<le> t \<Longrightarrow> valid_of d t [] = [0..<d]"
  by (simp add: valid_of_def)

lemma scan_rows_key:
  assumes "scan_rows present d [0..<t] = (valid, invalid)" "d \<le> length (filter present [0..<t])"
  shows "valid = take d (filter present [0..<t])" "length valid = d" "distinct valid"
    "\<forall>i \<in> set valid. i < t \<and> present i" "valid = valid_of d t invalid"
    "invalid = [] \<or> tree_key t 0 invalid"
proof -
  note spec = scan_rows_spec [OF sorted_wrt_upt assms(1)]
  from spec show v: "valid = take d (filter present [0..<t])" by simp
  then show "length valid = d" using assms(2) by simp
  show "distinct valid" unfolding v by (simp add: distinct_take)
  show "\<forall>i \<in> set valid. i < t \<and> present i"
    unfolding v by (auto dest: in_set_takeD)
  show "valid = valid_of d t invalid"
    using spec assms(2) by (simp add: valid_of_def)
  show "invalid = [] \<or> tree_key t 0 invalid"
    using spec by (auto simp: tree_key_def)
qed

text \<open>The decode matrix, from the cache or fresh, inverts the rows used; failing that, the matrix is
  singular. Either way the encoder stays well-formed.\<close>

lemma sub_matrix_rows:
  assumes "rs_wf r" "\<forall>i \<in> set valid. i < totalShards r"
  shows "sub_matrix r valid = map ((!) (rs_m r)) valid"
    and "wf_mat (length valid) (dataShards r) (map ((!) (rs_m r)) valid)"
  using assms by (auto simp: sub_matrix_def rs_wf_def coding_matrix_def wf_mat_def)

lemma decodes_id:
  assumes "coding_matrix d t m"
  shows "decodes d m [0..<d] (id_mat d)"
  using assms map_nth_take [of d m] by (auto simp: decodes_def coding_matrix_def mat_vec_id mat_simps)

lemma rs_wf_set_tree:
  "rs_wf r \<Longrightarrow> tree_ok (dataShards r) (totalShards r) (rs_m r) tree \<Longrightarrow> rs_wf (r\<lparr>rs_tree := tree\<rparr>)"
  by (auto simp: rs_wf_def)

lemma rs_wf_tree:
  assumes "rs_wf r" "rs_tree r = Some n"
  shows "node_matrix n = Some (id_mat (dataShards r))"
    "tree.sound (totalShards r) (\<lambda>invalid. decodes (dataShards r) (rs_m r) (valid_of (dataShards r) (totalShards r) invalid)) n"
    "tree_wf (totalShards r) 0 n"
  using assms unfolding rs_wf_def tree_ok_def tree.sound_def by auto

lemma rs_wf_matrix:
  assumes "rs_wf r"
  shows "coding_matrix (dataShards r) (totalShards r) (rs_m r)" "dataShards r \<le> totalShards r"
  using assms unfolding rs_wf_def by auto

lemma decode_matrix_ok:
  assumes r: "rs_wf r" and v: "valid = valid_of (dataShards r) (totalShards r) invalid"
    "length valid = dataShards r" "\<forall>i \<in> set valid. i < totalShards r"
    and key: "invalid = [] \<or> tree_key (totalShards r) 0 invalid"
  shows "(\<exists>tree dm. decode_matrix r valid invalid = Inr (r\<lparr>rs_tree := tree\<rparr>, dm) \<and>
      rs_wf (r\<lparr>rs_tree := tree\<rparr>) \<and> decodes (dataShards r) (rs_m r) valid dm) \<or>
    (decode_matrix r valid invalid = Inl errSingular \<and> Invert (map ((!) (rs_m r)) valid) = Inl errSingular)"
proof (cases "GetInvertedMatrix (rs_tree r) invalid = Inr None")
  case False
  then obtain n where n: "rs_tree r = Some n" by (cases "rs_tree r") (auto simp: GetInvertedMatrix_def)
  note tr = rs_wf_tree [OF r n]
  obtain dm where dm: "GetInvertedMatrix (rs_tree r) invalid = Inr (Some dm)"
      "decodes (dataShards r) (rs_m r) valid dm"
  proof (cases "invalid = []")
    case True
    then have "valid = [0..<dataShards r]" using v rs_wf_matrix [OF r] by (simp add: valid_of_Nil)
    then show ?thesis
      using that [of "id_mat (dataShards r)"] n True tr(1) decodes_id [OF rs_wf_matrix(1) [OF r]]
      by (simp add: GetInvertedMatrix_def)
  next
    case ne: False
    with key have k: "tree_key (totalShards r) 0 invalid" by simp
    obtain dm where "tree_get n invalid 0 = Some dm"
      using False n GetInvertedMatrix_tree [OF tr(3) k] by (cases "tree_get n invalid 0") auto
    then show ?thesis
      using that [of dm] n GetInvertedMatrix_tree [OF tr(3) k] tree.sound_get [OF tr(2) k] v(1) by simp
  qed
  then have "decode_matrix r valid invalid = Inr (r\<lparr>rs_tree := rs_tree r\<rparr>, dm)"
    by (simp add: decode_matrix_def)
  then show ?thesis
    using dm(2) r by (intro disjI1 exI [of _ "rs_tree r"] exI [of _ dm]) simp
next
  case True
  have d: "0 < dataShards r" using r by (simp add: rs_wf_def)
  note sub = sub_matrix_rows [OF r v(3), unfolded v(2)]
  from sub(2) d show ?thesis
  proof (cases rule: Invert_cases)
    case (inverse dm)
    have dec: "decodes (dataShards r) (rs_m r) valid dm"
      using inverse by (simp add: decodes_def)
    have sq: "IsSquare dm = Inr True"
      using inverse(2) d by (auto simp: IsSquare_def wf_mat_def)
    show ?thesis
    proof (cases "rs_tree r")
      case None
      then have "rs_wf (r\<lparr>rs_tree := None\<rparr>)" using rs_wf_set_tree [OF r] by (simp add: tree_ok_def)
      with None show ?thesis
        using True inverse(1) dec sub(1)
        by (intro disjI1 exI [of _ None] exI [of _ dm])
          (simp add: decode_matrix_def InsertInvertedMatrix_def)
    next
      case (Some n)
      note tr = rs_wf_tree [OF r Some]
      have k: "tree_key (totalShards r) 0 invalid"
        using True key Some tr by (auto simp: GetInvertedMatrix_def)
      have "tree_ok (dataShards r) (totalShards r) (rs_m r) (Some (tree_ins (totalShards r) n invalid dm 0))"
        using tr(1) tree.sound_ins [OF tr(2) k] dec v(1) tree_ins_ok(3) [OF tr(3) k] by (simp add: tree_ok_def)
      then show ?thesis
        using True inverse(1) dec rs_wf_set_tree [OF r] sub(1) InsertInvertedMatrix_tree [OF tr(3) k sq] Some
        by (auto simp: decode_matrix_def)
    qed
  next
    case (singular x)
    then show ?thesis using True sub(1) by (simp add: decode_matrix_def)
  qed
qed

section \<open>Reconstruction gives back the codeword\<close>

text \<open>Some shards of a codeword are lost: they are empty, the others are intact.\<close>

definition erased :: "bytes list \<Rightarrow> bytes list \<Rightarrow> bool" where
  "erased c s \<longleftrightarrow> length s = length c \<and> (\<forall>i < length c. s ! i = [] \<or> s ! i = c ! i)"

definition present_count :: "bytes list \<Rightarrow> nat" where
  "present_count s = length (filter (\<lambda>i. s ! i \<noteq> []) [0..<length s])"

lemma erased_sizes:
  assumes "erased c s" "lens_eq n c" "0 < n" "0 < present_count s"
  shows "shardSize s = n" "checkShards s True = None"
proof -
  have each: "\<forall>x \<in> set s. x = [] \<or> length x = n"
  proof
    fix x assume "x \<in> set s"
    then obtain i where "i < length s" "x = s ! i" by (auto simp: in_set_conv_nth)
    then show "x = [] \<or> length x = n"
      using assms(1) lens_eq_nth [OF assms(2), of i] by (auto simp: erased_def)
  qed
  obtain i where "i < length s" "s ! i \<noteq> []"
    using assms(4) by (auto simp: present_count_def filter_empty_conv)
  then have "\<exists>x \<in> set s. x \<noteq> []" using nth_mem by blast
  with each assms(3) show "shardSize s = n" "checkShards s True = None"
    by (simp_all add: sizes_nilok)
qed

lemma store_shards_nth:
  "length (store_shards is outs s) = length s"
  "i < length s \<Longrightarrow> store_shards is (map f is) s ! i = (if i \<in> set is then f i else s ! i)"
proof -
  show "length (store_shards is outs s) = length s"
    unfolding store_shards_def
    by (rule fold_invariant [where P = "\<lambda>x. length x = length s" and Q = "\<lambda>_. True"]) auto
  show "i < length s \<Longrightarrow> store_shards is (map f is) s ! i = (if i \<in> set is then f i else s ! i)"
    unfolding store_shards_def
    by (induction "is" arbitrary: s) (auto simp: nth_list_update)
qed

lemma codeword_byte:
  assumes "rs_wf r" "codeword r n c" "i < totalShards r" "k < n"
  shows "c ! i ! k = dot (rs_m r ! i) (column (take (dataShards r) c) k)"
proof -
  have "c = code_ref (rs_m r) (take (dataShards r) c) n"
    using assms(2) by (simp add: codeword_def)
  then have "c ! i ! k = code_ref (rs_m r) (take (dataShards r) c) n ! i ! k" by simp
  moreover have "i < length (rs_m r)"
    using rs_wf_matrix(1) [OF assms(1)] assms(3) by (simp add: coding_matrix_def wf_mat_def)
  ultimately show ?thesis using assms(4) by (simp add: code_ref_nth)
qed

lemma decoded_rows:
  assumes r: "rs_wf r" and c: "codeword r n c" and dec: "decodes (dataShards r) (rs_m r) valid dm"
    and valid: "\<forall>i \<in> set valid. i < totalShards r" and "is": "\<forall>i \<in> set is. i < dataShards r"
  shows "code_ref (map ((!) dm) is) (map ((!) c) valid) n = map ((!) c) is"
proof (rule nth_equalityI)
  fix j assume "j < length (code_ref (map ((!) dm) is) (map ((!) c) valid) n)"
  then have j: "j < length is" by simp
  then have i: "is ! j < dataShards r" using "is" by simp
  note len = codeword_lens [OF r c]
  have "dot (dm ! (is ! j)) (column (map ((!) c) valid) k) = c ! (is ! j) ! k" if k: "k < n" for k
  proof -
    have "column (map ((!) c) valid) k = mat_vec (map ((!) (rs_m r)) valid) (column (take (dataShards r) c) k)"
      using valid codeword_byte [OF r c _ k] by (simp add: column_def [of "map _ _"] mat_vec_rows)
    moreover have "length (take (dataShards r) c) = dataShards r"
      using len rs_wf_matrix(2) [OF r] by simp
    ultimately have "mat_vec dm (column (map ((!) c) valid) k) = column (take (dataShards r) c) k"
      using dec by (simp add: decodes_def)
    moreover have "is ! j < length dm"
      using dec i by (auto simp: decodes_def mat_simps)
    ultimately have "dot (dm ! (is ! j)) (column (map ((!) c) valid) k) = column (take (dataShards r) c) k ! (is ! j)"
      by (metis mat_vec_nth)
    then show ?thesis
      using i len rs_wf_matrix(2) [OF r] by (simp add: column_def)
  qed
  moreover have "length (c ! (is ! j)) = n"
    using len i rs_wf_matrix(2) [OF r] by (simp add: lens_eq_nth)
  ultimately show "code_ref (map ((!) dm) is) (map ((!) c) valid) n ! j = map ((!) c) is ! j"
    using j by (intro nth_equalityI) (simp_all add: code_ref_nth)
qed simp

lemma parity_rows:
  assumes r: "rs_wf r" and c: "codeword r n c"
    and "is": "\<forall>i \<in> set is. dataShards r \<le> i \<and> i < totalShards r"
  shows "code_ref (map (\<lambda>i. rs_parity r ! (i - dataShards r)) is) (take (dataShards r) c) n = map ((!) c) is"
proof (rule nth_equalityI)
  fix j assume "j < length (code_ref (map (\<lambda>i. rs_parity r ! (i - dataShards r)) is) (take (dataShards r) c) n)"
  then have j: "j < length is" by simp
  then have i: "dataShards r \<le> is ! j" "is ! j < totalShards r" using "is" by simp_all
  have "rs_parity r ! (is ! j - dataShards r) = rs_m r ! (is ! j)"
    using r i rs_wf_matrix(1) [OF r] by (auto simp: rs_wf_def coding_matrix_def wf_mat_def)
  moreover have "length (c ! (is ! j)) = n"
    using codeword_lens [OF r c] i by (simp add: lens_eq_nth)
  ultimately show "code_ref (map (\<lambda>i. rs_parity r ! (i - dataShards r)) is) (take (dataShards r) c) n ! j = map ((!) c) is ! j"
    using j codeword_byte [OF r c i(2)] by (intro nth_equalityI) (simp_all add: code_ref_nth)
qed simp

lemma length_shard_buffer [simp]: "length (shard_buffer spare i n) = n"
  by (simp add: shard_buffer_def AllocAligned_def)

lemma lens_eq_buffers [simp]: "lens_eq n (map (\<lambda>i. shard_buffer spare i n) is)"
  by (simp add: lens_eq_def)

text \<open>The two coding passes of \<open>reconstruct\<close> on an erased codeword.\<close>

lemma data_pass:
  assumes r: "rs_wf r" and c: "codeword r n c" and dec: "decodes (dataShards r) (rs_m r) valid dm"
    and valid: "length valid = dataShards r" "\<forall>i \<in> set valid. i < totalShards r \<and> s ! i = c ! i"
    and "is": "\<forall>i \<in> set is. i < dataShards r"
  shows "rs_code r (map ((!) dm) is) (map ((!) s) valid) (map (\<lambda>i. shard_buffer spare i n) is) n = Inr (map ((!) c) is)"
proof -
  have eq: "map ((!) s) valid = map ((!) c) valid" using valid(2) by simp
  have d: "0 < dataShards r" using r by (simp add: rs_wf_def)
  have "lens_eq n (map ((!) c) valid)"
    using valid(2) codeword_lens [OF r c] by (auto simp: lens_eq_def)
  moreover have "wf_mat (length is) (dataShards r) (map ((!) dm) is)"
    using dec "is" unfolding decodes_def wf_mat_def by auto
  moreover have "map ((!) c) valid \<noteq> []" using valid(1) d by auto
  ultimately have "rs_code r (map ((!) dm) is) (map ((!) c) valid) (map (\<lambda>i. shard_buffer spare i n) is) n =
      Inr (code_ref (map ((!) dm) is) (map ((!) c) valid) n)"
    using valid(1) by (intro rs_code_ref [OF r]) simp_all
  also have "code_ref (map ((!) dm) is) (map ((!) c) valid) n = map ((!) c) is"
    using valid(2) "is" by (intro decoded_rows [OF r c dec]) simp_all
  finally show ?thesis unfolding eq .
qed

lemma parity_pass:
  assumes r: "rs_wf r" and c: "codeword r n c"
    and "is": "\<forall>i \<in> set is. dataShards r \<le> i \<and> i < totalShards r"
  shows "rs_code r (map (\<lambda>i. rs_parity r ! (i - dataShards r)) is) (take (dataShards r) c)
    (map (\<lambda>i. shard_buffer spare i n) is) n = Inr (map ((!) c) is)"
proof -
  have d: "0 < dataShards r" "dataShards r \<le> totalShards r" "totalShards r = dataShards r + parityShards r"
    using r by (auto simp: rs_wf_def)
  note len = codeword_lens [OF r c]
  have "rs_parity r ! (i - dataShards r) \<in> set (rs_parity r)" if "i \<in> set is" for i
    using that "is" rs_m_split(2) [OF r] d by (intro nth_mem) (auto simp: mat_simps)
  then have "wf_mat (length is) (dataShards r) (map (\<lambda>i. rs_parity r ! (i - dataShards r)) is)"
    using rs_m_split(2) [OF r] by (auto simp: wf_mat_def)
  then show ?thesis
    using parity_rows [OF r c "is"] len d
    by (subst rs_code_ref [OF r]) (auto simp: lens_eq_take)
qed

lemma recode_shards_ok:
  assumes r: "rs_wf r" and c: "codeword r n c" and s: "erased c s"
    and dec: "decodes (dataShards r) (rs_m r) valid dm"
    and valid: "length valid = dataShards r" "\<forall>i \<in> set valid. i < totalShards r \<and> s ! i \<noteq> []"
  shows "recode_shards r spare s dataOnly None n (map ((!) s) valid) dm =
    Inr (map (\<lambda>i. if dataOnly \<and> dataShards r \<le> i then s ! i else c ! i) [0..<totalShards r])"
proof -
  let ?d = "dataShards r" and ?t = "totalShards r"
  note len = codeword_lens [OF r c]
  have d: "?d \<le> ?t" by (rule rs_wf_matrix(2) [OF r])
  have ls: "length s = ?t" and each: "\<And>i. i < ?t \<Longrightarrow> s ! i \<noteq> [] \<Longrightarrow> s ! i = c ! i"
    using s len by (auto simp: erased_def)
  let ?mis = "missing_wanted s None [0..<?d]"
  have mis: "set ?mis = {i. i < ?d \<and> s ! i = []}" by (auto simp: missing_wanted_def wanted_def)
  let ?s1 = "store_shards ?mis (map ((!) c) ?mis) s"
  have s1: "length ?s1 = ?t" "\<And>i. i < ?t \<Longrightarrow> ?s1 ! i = (if i < ?d then c ! i else s ! i)"
    using ls d each by (auto simp: store_shards_nth mis)
  have pass1: "rs_code r (map ((!) dm) ?mis) (map ((!) s) valid) (map (\<lambda>i. shard_buffer spare i n) ?mis) n =
      Inr (map ((!) c) ?mis)"
    using valid each mis dec by (intro data_pass [OF r c]) simp_all
  have tk: "take ?d ?s1 = take ?d c" using s1 len d by (intro nth_equalityI) simp_all
  let ?mis2 = "missing_wanted ?s1 None [?d..<?t]"
  have mis2: "set ?mis2 = {i. ?d \<le> i \<and> i < ?t \<and> s ! i = []}"
    using s1 by (auto simp: missing_wanted_def wanted_def)
  have pass2: "rs_code r (map (\<lambda>i. rs_parity r ! (i - ?d)) ?mis2) (take ?d ?s1)
      (map (\<lambda>i. shard_buffer spare i n) ?mis2) n = Inr (map ((!) c) ?mis2)"
    using parity_pass [OF r c, of ?mis2 spare] mis2 tk by simp
  have "store_shards ?mis2 (map ((!) c) ?mis2) ?s1 = map ((!) c) [0..<?t]"
    using s1 each mis2 by (intro nth_equalityI) (auto simp: store_shards_nth)
  moreover have "?s1 = map (\<lambda>i. if ?d \<le> i then s ! i else c ! i) [0..<?t]"
    using s1 by (intro nth_equalityI) auto
  ultimately show ?thesis
    using pass1 pass2 by (simp add: recode_shards_def Let_def)
qed

text \<open>The outcome of a reconstruction: the codeword restored (its data, with \<open>dataOnly\<close>), or a
  singular choice of rows.\<close>

definition restored :: "bytes list \<Rightarrow> bytes list \<Rightarrow> nat \<Rightarrow> bool \<Rightarrow> bytes list" where
  "restored c s d dataOnly = map (\<lambda>i. if dataOnly \<and> d \<le> i then s ! i else c ! i) [0..<length c]"

definition rows_used :: "bytes list \<Rightarrow> nat \<Rightarrow> nat list" where
  "rows_used s d = take d (filter (\<lambda>i. s ! i \<noteq> []) [0..<length s])"

lemma reconstruct_cases:
  assumes r: "rs_wf r" and c: "codeword r n c" and s: "erased c s" "dataShards r \<le> present_count s"
  shows "(\<exists>tree. reconstruct r spare s dataOnly None = Inr (r\<lparr>rs_tree := tree\<rparr>, restored c s (dataShards r) dataOnly) \<and>
       rs_wf (r\<lparr>rs_tree := tree\<rparr>)) \<or>
    (reconstruct r spare s dataOnly None = Inl errSingular \<and>
     Invert (map ((!) (rs_m r)) (rows_used s (dataShards r))) = Inl errSingular)"
proof -
  let ?d = "dataShards r" and ?t = "totalShards r" and ?present = "\<lambda>i. s ! i \<noteq> []"
  note len = codeword_lens [OF r c]
  have d: "0 < ?d" "?d \<le> ?t" using r by (auto simp: rs_wf_def)
  have ls: "length s = ?t" and each: "\<And>i. i < ?t \<Longrightarrow> ?present i \<Longrightarrow> s ! i = c ! i"
    using s(1) len by (auto simp: erased_def)
  have sizes: "shardSize s = n" "checkShards s True = None"
    using erased_sizes [OF s(1) len(2,3)] s(2) d by auto
  have cnt: "?d \<le> length (filter ?present [0..<?t])"
    using s(2) ls by (simp add: present_count_def)
  show ?thesis
  proof (cases "length (filter ?present [0..<?t]) = ?t \<or> dataOnly \<and> length (filter ?present [0..<?d]) = ?d")
    case True
    then have "?present i" if "i < ?t" "\<not> (dataOnly \<and> ?d \<le> i)" for i
      using that d by (auto simp: filter_length_eq_upt)
    then have "s = restored c s ?d dataOnly"
      using each ls len by (intro nth_equalityI) (auto simp: restored_def)
    moreover have "reconstruct r spare s dataOnly None = Inr (r, s)"
      using True sizes ls by (auto simp: reconstruct_def Let_def)
    ultimately show ?thesis
      using r by (intro disjI1 exI [of _ "rs_tree r"]) simp
  next
    case False
    obtain valid invalid where scan: "scan_rows ?present ?d [0..<?t] = (valid, invalid)"
      by (metis surj_pair)
    note v = scan_rows_key [OF scan cnt]
    have rec: "reconstruct r spare s dataOnly None =
        bind_res (decode_matrix r valid invalid) (\<lambda>(r, dm).
          bind_res (recode_shards r spare s dataOnly None n (map ((!) s) valid) dm) (\<lambda>shards. Inr (r, shards)))"
      using False sizes ls cnt scan by (auto simp: reconstruct_def Let_def)
    have c': "codeword (r\<lparr>rs_tree := tree\<rparr>) n c" for tree using c by (simp add: codeword_def)
    from decode_matrix_ok [OF r v(5,2) _ v(6)] v(4)
    consider tree dm where "decode_matrix r valid invalid = Inr (r\<lparr>rs_tree := tree\<rparr>, dm)"
        "rs_wf (r\<lparr>rs_tree := tree\<rparr>)" "decodes ?d (rs_m r) valid dm"
      | "decode_matrix r valid invalid = Inl errSingular" "Invert (map ((!) (rs_m r)) valid) = Inl errSingular"
      by blast
    then show ?thesis
    proof cases
      case (1 tree dm)
      then show ?thesis
        using recode_shards_ok [OF 1(2) c' s(1)] v(2,4) len by (simp add: rec restored_def) blast
    qed (simp add: rec rows_used_def ls v(1))
  qed
qed

section \<open>Properties\<close>

text \<open>C28. \<open>Encode\<close> succeeds on shards of one size, leaves the data shards alone, and gives the same
  parity whatever the parity shards held; \<open>Verify\<close> answers whether encoding would change
  nothing, so it accepts the result of \<open>Encode\<close> and rejects any other parity.\<close>

theorem Encode_Verify:
  assumes "rs_wf r" "length shards = totalShards r" "0 < n" "\<forall>x \<in> set shards. length x = n"
  shows "\<exists>c. Encode r shards = Inr c \<and> take (dataShards r) c = take (dataShards r) shards \<and>
    Verify r c = Inr True \<and> Verify r shards = Inr (shards = c)"
proof -
  have lens: "lens_eq n shards" using assms(4) by (simp add: lens_eq_def)
  obtain c where c: "Encode r shards = Inr c" "codeword r n c" "take (dataShards r) c = take (dataShards r) shards"
    using Encode_codeword [OF assms(1,2) lens assms(3)] by blast
  have "shards = c \<longleftrightarrow> codeword r n shards"
    using c(2,3) by (metis codeword_def)
  then show ?thesis
    using c Verify_codeword [OF assms(1,2) lens assms(3)]
      Verify_codeword [OF assms(1) codeword_lens [OF assms(1) c(2)]] by simp
qed

text \<open>A small encoder for the witnesses: two data and two parity shards, default options.\<close>

lemma default_encoder:
  obtains r where "New (plain_cpu 4) 2 2 [] = Inr (RS r)" "rs_wf r" "dataShards r = 2" "parityShards r = 2"
    "totalShards r = 4" "buildMatrix 2 4 = Inr (rs_m r)"
proof -
  have "case New (plain_cpu 4) 2 2 [] of Inr (RS r) \<Rightarrow> True | _ \<Rightarrow> False"
    by code_simp
  then obtain r where r: "New (plain_cpu 4) 2 2 [] = Inr (RS r)"
    by (auto split: sum.splits Encoder.splits)
  have "rs_wf r \<and> dataShards r = 2 \<and> parityShards r = 2 \<and> 2 + 2 \<le> (256::nat) \<and>
      select_matrix (apply_options (plain_cpu 4) []) (int 2) (int 2) = Inr (rs_m r)"
    using r by (intro New_wf [of "plain_cpu 4" 2 2 "[]" r]) (simp_all add: plain_cpu_def)
  moreover from this have "totalShards r = 4" unfolding rs_wf_def by auto
  ultimately show ?thesis
    using r by (intro that [of r]) (simp_all add: select_matrix_def apply_options_def defaultOptions_def Let_def)
qed

theorem Encode_Verify_witness:
  "\<exists>r c. New (plain_cpu 4) 2 2 [] = Inr (RS r) \<and> Encode r [[1, 2], [3, 4], [0, 0], [9, 9]] = Inr c \<and>
     take 2 c = [[1, 2], [3, 4]] \<and> Verify r c = Inr True"
proof -
  obtain r where r: "New (plain_cpu 4) 2 2 [] = Inr (RS r)" "rs_wf r" "dataShards r = 2" "totalShards r = 4"
    using default_encoder by metis
  then show ?thesis
    using Encode_Verify [of r "[[1, 2], [3, 4], [0, 0], [9, 9]]" 2] by auto
qed

text \<open>C16. Reconstruction never invents data. From what is left of an encoded set of shards, with at
  least as many shards as there are data shards, \<open>Reconstruct\<close> gives back exactly the encoded
  shards, or it reports that the matrix of the rows it used is singular; this for every kind
  of matrix, whatever the inversion cache holds from earlier calls and whatever bytes are in
  the reused buffers. The encoder it leaves behind is as good as before.\<close>

theorem Reconstruct_sound:
  assumes "rs_wf r" "Encode r shards = Inr c" "length shards = totalShards r" "0 < n" "\<forall>x \<in> set shards. length x = n"
    and "erased c s" "dataShards r \<le> present_count s"
  shows "(\<exists>r'. Reconstruct r spare s = Inr (r', c) \<and> rs_wf r' \<and> rs_m r' = rs_m r) \<or>
    (Reconstruct r spare s = Inl errSingular \<and> Invert (map ((!) (rs_m r)) (rows_used s (dataShards r))) = Inl errSingular)"
proof -
  have "codeword r n c"
    using Encode_codeword [OF assms(1,3), of n] assms(2,4,5) by (auto simp: lens_eq_def)
  then show ?thesis
    using reconstruct_cases [OF assms(1) _ assms(6,7), of n spare False]
    by (auto simp: Reconstruct_def restored_def map_nth)
qed

theorem Reconstruct_sound_witness:
  "\<exists>r c. Encode r [[1, 2], [3, 4], [0, 0], [0, 0]] = Inr c \<and>
    ((\<exists>r'. Reconstruct r (\<lambda>_. [7, 7, 7]) [[], c ! 1, [], c ! 3] = Inr (r', c) \<and> rs_wf r' \<and> rs_m r' = rs_m r) \<or>
     Reconstruct r (\<lambda>_. [7, 7, 7]) [[], c ! 1, [], c ! 3] = Inl errSingular)"
proof -
  obtain r where r: "rs_wf r" "dataShards r = 2" "totalShards r = 4" using default_encoder by metis
  let ?s = "[[1, 2], [3, 4], [0, 0], [0, 0]] :: bytes list"
  obtain c where c: "Encode r ?s = Inr c" "codeword r 2 c"
    using Encode_codeword [OF r(1), of ?s 2] r by (auto simp: lens_eq_def)
  note len = codeword_lens [OF r(1) c(2)]
  have "erased c [[], c ! 1, [], c ! 3]" using len r by (auto simp: erased_def less_Suc_eq numeral_eq_Suc)
  moreover have "c ! 1 \<noteq> []" "c ! 3 \<noteq> []" using codeword_nonempty [OF r(1) c(2)] r(3) by simp_all
  then have "present_count [[], c ! 1, [], c ! 3] = 2" by (simp add: present_count_def upt_rec)
  ultimately show ?thesis
    using Reconstruct_sound [of r ?s c 2 "[[], c ! 1, [], c ! 3]" "\<lambda>_. [7, 7, 7]"] r c(1) by auto
qed

lemma default_rows_invertible:
  assumes "rs_wf r" "totalShards r \<le> 256" "buildMatrix (int (dataShards r)) (int (totalShards r)) = Inr (rs_m r)"
    and "length s = totalShards r" "dataShards r \<le> present_count s"
  shows "\<exists>v. Invert (map ((!) (rs_m r)) (rows_used s (dataShards r))) = Inr v"
proof -
  have d: "0 < dataShards r" "dataShards r \<le> totalShards r" using assms(1) by (auto simp: rs_wf_def)
  have "distinct (rows_used s (dataShards r))" "length (rows_used s (dataShards r)) = dataShards r"
    "\<forall>i \<in> set (rows_used s (dataShards r)). i < totalShards r"
    using assms(4,5) by (auto simp: rows_used_def present_count_def distinct_take dest: in_set_takeD)
  then show ?thesis
    using buildMatrix_ok [OF d assms(2)] assms(3) by (metis sum.inject(2))
qed

text \<open>C9. Erasure correction: with the default matrix any loss that leaves as many shards as there are
  data shards is repaired. \<open>Reconstruct\<close> returns the encoded shards and an encoder with the
  same guarantees, so a sequence of repairs works, with the cache filling up on the way.\<close>

theorem Reconstruct_repairs:
  assumes "rs_wf r" "totalShards r \<le> 256" "buildMatrix (int (dataShards r)) (int (totalShards r)) = Inr (rs_m r)"
    and "Encode r shards = Inr c" "length shards = totalShards r" "0 < n" "\<forall>x \<in> set shards. length x = n"
    and "erased c s" "dataShards r \<le> present_count s"
  shows "\<exists>r'. Reconstruct r spare s = Inr (r', c) \<and> rs_wf r' \<and> totalShards r' \<le> 256 \<and>
    buildMatrix (int (dataShards r')) (int (totalShards r')) = Inr (rs_m r')"
proof -
  have c: "codeword r n c"
    using Encode_codeword [OF assms(1,5), of n] assms(4,6,7) by (auto simp: lens_eq_def)
  have "length s = totalShards r"
    using assms(8) codeword_lens [OF assms(1) c] by (simp add: erased_def)
  then show ?thesis
    using reconstruct_cases [OF assms(1) c assms(8,9), of spare False]
      default_rows_invertible [OF assms(1,2,3) _ assms(9)] assms(2,3)
    by (auto simp: Reconstruct_def restored_def map_nth)
qed

theorem Reconstruct_repairs_witness:
  "\<exists>r c r'. New (plain_cpu 4) 2 2 [] = Inr (RS r) \<and> Encode r [[1, 2], [3, 4], [0, 0], [0, 0]] = Inr c \<and>
     Reconstruct r (\<lambda>_. []) [[], [], c ! 2, c ! 3] = Inr (r', c) \<and> take 2 c = [[1, 2], [3, 4]]"
proof -
  obtain r where r: "New (plain_cpu 4) 2 2 [] = Inr (RS r)" "rs_wf r" "dataShards r = 2" "totalShards r = 4"
    "buildMatrix 2 4 = Inr (rs_m r)" using default_encoder by metis
  let ?s = "[[1, 2], [3, 4], [0, 0], [0, 0]] :: bytes list"
  obtain c where c: "Encode r ?s = Inr c" "codeword r 2 c" "take 2 c = take 2 ?s"
    using Encode_codeword [OF r(2), of ?s 2] r by (auto simp: lens_eq_def)
  note len = codeword_lens [OF r(2) c(2)]
  have "erased c [[], [], c ! 2, c ! 3]" using len r by (auto simp: erased_def less_Suc_eq numeral_eq_Suc)
  moreover have "c ! 2 \<noteq> []" "c ! 3 \<noteq> []" using codeword_nonempty [OF r(2) c(2)] r(4) by simp_all
  then have "present_count [[], [], c ! 2, c ! 3] = 2" by (simp add: present_count_def upt_rec)
  ultimately have "\<exists>r'. Reconstruct r (\<lambda>_. []) [[], [], c ! 2, c ! 3] = Inr (r', c)"
    using Reconstruct_repairs [of r ?s c 2 "[[], [], c ! 2, c ! 3]" "\<lambda>_. []"] r c(1) by auto
  then show ?thesis using r(1) c by auto
qed

text \<open>With fewer shards than data shards a reconstruction is refused with \<open>ErrTooFewShards\<close>
  (\<open>ErrShardNoData\<close> if nothing at all is left), and the encoder does not change.\<close>

theorem Reconstruct_too_few:
  assumes "rs_wf r" "length s = totalShards r" "0 < n" "\<forall>x \<in> set s. x = [] \<or> length x = n"
    and "present_count s < dataShards r"
  shows "Reconstruct r spare s = Inl (if present_count s = 0 then ErrShardNoData else ErrTooFewShards)"
proof (cases "present_count s = 0")
  case True
  then have "\<forall>x \<in> set s. x = []"
    by (auto simp: present_count_def filter_empty_conv in_set_conv_nth)
  then have "shardSize s = 0" by (induction s) auto
  then show ?thesis using True assms(2) by (simp add: Reconstruct_def reconstruct_def checkShards_def)
next
  case False
  then obtain i where i: "i < length s" "s ! i \<noteq> []"
    by (auto simp: present_count_def filter_empty_conv)
  then have "\<exists>x \<in> set s. x \<noteq> []" using nth_mem by blast
  with assms(3,4) have "checkShards s True = None" by (simp add: sizes_nilok)
  moreover have "dataShards r \<le> totalShards r" using rs_wf_matrix(2) [OF assms(1)] .
  ultimately show ?thesis
    using False assms(2,5) by (simp add: Reconstruct_def reconstruct_def present_count_def Let_def)
qed

theorem Reconstruct_too_few_witness:
  "\<exists>r. rs_wf r \<and> Reconstruct r (\<lambda>_. []) [[], [5], [], []] = Inl ErrTooFewShards"
proof -
  obtain r where r: "rs_wf r" "dataShards r = 2" "totalShards r = 4" using default_encoder by metis
  have "present_count [[], [5], [], []] = 1" by (simp add: present_count_def upt_rec)
  then show ?thesis
    using Reconstruct_too_few [of r "[[], [5], [], []]" 1 "\<lambda>_. []"] r by auto
qed

text \<open>\<open>ReconstructSome\<close> allows a list of required shards as long as the number of data shards, and
  says that parity shards are then ignored. The count of missing required shards indexes that
  list with every missing shard, so a missing parity shard makes it panic.\<close>

theorem ReconstructSome_short_list_panics:
  assumes "rs_wf r" "length s = totalShards r" "0 < n" "\<forall>x \<in> set s. x = [] \<or> length x = n" "\<exists>x \<in> set s. x \<noteq> []"
    and "length required = dataShards r" "dataShards r \<le> i" "i < totalShards r" "s ! i = []"
  shows "ReconstructSome r spare s (Some required) = Inl index_panic"
proof -
  have "dataShards r < totalShards r" using assms(1) by (auto simp: rs_wf_def)
  then show ?thesis
    using sizes_nilok(2) [OF assms(4,5,3)] assms(2,6-9)
    by (auto simp: ReconstructSome_def reconstruct_def Let_def)
qed

theorem ReconstructSome_short_list_panics_witness:
  "\<exists>r. rs_wf r \<and> ReconstructSome r (\<lambda>_. []) [[], [5], [6], []] (Some [True, False]) = Inl index_panic"
proof -
  obtain r where r: "rs_wf r" "dataShards r = 2" "totalShards r = 4" using default_encoder by metis
  then show ?thesis
    using ReconstructSome_short_list_panics [of r "[[], [5], [6], []]" 1 "[True, False]" 3 "\<lambda>_. []"] by auto
qed

end
