(* ===== verification/Incremental.thy ===== *)
theory Incremental
  imports Codewords
begin

unbundle bit_operations_syntax

text \<open>
  Incremental coding: \<open>EncodeIdx\<close> adds the data shards to the parity one at a time, \<open>Update\<close>
  replaces some data shards. Both loops visit ranges of bytes; a byte is visited once.
\<close>

section \<open>Ranges that visit every byte once\<close>

text \<open>A fold over ranges, observed at one byte: \<open>obs\<close> is the byte, \<open>ctx\<close> what its new value depends on
  besides. Only the range that holds the byte changes them.\<close>

lemma fold_once:
  assumes once: "\<exists>!j. j < length rs \<and> Q (rs ! j)"
    and step: "\<And>r st. r \<in> set rs \<Longrightarrow> P st \<Longrightarrow> P (upd r st) \<and>
      (if Q r then obs (upd r st) = g (ctx st) (obs st) else obs (upd r st) = obs st \<and> ctx (upd r st) = ctx st)"
    and st: "P st"
  shows "P (fold upd rs st) \<and> obs (fold upd rs st) = g (ctx st) (obs st)"
proof -
  obtain j where j: "j < length rs" "Q (rs ! j)" and uniq: "\<And>i. i < length rs \<Longrightarrow> Q (rs ! i) \<Longrightarrow> i = j"
    using once by blast
  have skip: "P st \<Longrightarrow> P (fold upd xs st) \<and> obs (fold upd xs st) = obs st \<and> ctx (fold upd xs st) = ctx st"
    if "set xs \<subseteq> set rs" "\<forall>x \<in> set xs. \<not> Q x" for xs st
    using that
  proof (induction xs arbitrary: st)
    case (Cons x xs)
    then show ?case using step [of x st] by simp
  qed simp
  have "\<not> Q x" if x: "x \<in> set (take j rs)" for x
  proof -
    obtain i where "i < j" "i < length rs" "x = rs ! i" using x by (auto simp: in_set_conv_nth)
    then show ?thesis using uniq [of i] by auto
  qed
  moreover have "\<not> Q x" if x: "x \<in> set (drop (Suc j) rs)" for x
  proof -
    obtain i where "Suc j + i < length rs" "x = rs ! (Suc j + i)"
      using x j(1) by (auto simp: in_set_conv_nth less_diff_conv add.commute)
    then show ?thesis using uniq [of "Suc j + i"] by auto
  qed
  ultimately have none: "\<forall>x \<in> set (take j rs). \<not> Q x" "\<forall>x \<in> set (drop (Suc j) rs). \<not> Q x" by blast+
  have split: "fold upd rs st = fold upd (drop (Suc j) rs) (upd (rs ! j) (fold upd (take j rs) st))"
    by (subst id_take_nth_drop [OF j(1)]) simp
  have "P (upd (rs ! j) (fold upd (take j rs) st)) \<and>
      obs (upd (rs ! j) (fold upd (take j rs) st)) = g (ctx st) (obs st)"
    using skip [OF set_take_subset none(1) st] step [OF nth_mem [OF j(1)]] j(2) by simp
  then show ?thesis
    unfolding split using skip [OF set_drop_subset none(2)] by simp
qed

lemma rounds_cover:
  assumes "0 < pr"
  shows "jobs_cover (rounds pr n 0) n"
proof -
  have "\<exists>!j. j < length (rounds pr n lo) \<and> fst (rounds pr n lo ! j) \<le> k \<and> k < snd (rounds pr n lo ! j)"
    if "lo \<le> k" "k < n" for k lo
    using assms that
  proof (induction pr n lo rule: rounds.induct)
    case (1 pr n lo)
    define hi where "hi = min (lo + pr) n"
    have eq: "rounds pr n lo = (lo, hi) # rounds pr n hi"
      using "1.prems" by (subst rounds.simps) (simp add: Let_def hi_def)
    note Cons = ex1_nth_Cons [where P = "\<lambda>r. fst r \<le> k \<and> k < snd r" and x = "(lo, hi)"
        and xs = "rounds pr n hi"]
    show ?case
    proof (cases "k < hi")
      case True
      have "hi \<le> n" by (simp add: hi_def)
      have "\<not> fst r \<le> k" if "r \<in> set (rounds pr n hi)" for r
        using rounds_ok [OF \<open>hi \<le> n\<close>, of "fst r" "snd r" pr] that True by simp
      then show ?thesis
        unfolding eq using True "1.prems" by (intro Cons(1)) simp_all
    next
      case False
      then have "\<exists>!j. j < length (rounds pr n hi) \<and> fst (rounds pr n hi ! j) \<le> k \<and> k < snd (rounds pr n hi ! j)"
        using "1.IH" [OF _ hi_def] "1.prems" by simp
      then show ?thesis
        unfolding eq using False by (intro Cons(2)) simp_all
    qed
  qed
  then show ?thesis
    using rounds_ok [of 0 n _ _ pr] by (auto simp: jobs_cover_def)
qed

lemma jobs_cover_once:
  "jobs_cover rs n \<Longrightarrow> k < n \<Longrightarrow> \<exists>!j. j < length rs \<and> (fst (rs ! j) \<le> k \<and> k < snd (rs ! j))"
  by (simp add: jobs_cover_def)

section \<open>EncodeIdx\<close>

text \<open>The contribution of one data shard to the parity.\<close>

definition add_shard :: "matrix \<Rightarrow> nat \<Rightarrow> bytes \<Rightarrow> bytes list \<Rightarrow> bytes list" where
  "add_shard rows idx data parity =
     map2 (\<lambda>row p. map2 (\<lambda>a b. a XOR galMultiply (row ! idx) b) p data) rows parity"

definition idx_round :: "reedSolomon \<Rightarrow> bytes \<Rightarrow> nat \<Rightarrow> nat \<times> nat \<Rightarrow> bytes list \<Rightarrow> bytes list" where
  "idx_round r data idx = (\<lambda>(start, stop) parity.
     map (\<lambda>iRow. put_slice start stop
       (galMulSliceXor (rs_parity r ! iRow ! idx) (slice start stop data) (slice start stop (parity ! iRow)))
       (parity ! iRow)) [0..<parityShards r])"

lemma idx_round_byte:
  assumes "a \<le> b" "b \<le> n" "length data = n" "length parity = parityShards r" "lens_eq n parity"
    and "i < parityShards r" "k < n"
  shows "length (idx_round r data idx (a, b) parity) = parityShards r" "lens_eq n (idx_round r data idx (a, b) parity)"
    "idx_round r data idx (a, b) parity ! i ! k = (if a \<le> k \<and> k < b
       then parity ! i ! k XOR galMultiply (rs_parity r ! i ! idx) (data ! k) else parity ! i ! k)"
proof -
  have len: "length (parity ! j) = n" if "j < parityShards r" for j
    using assms(4,5) that by (simp add: lens_eq_nth)
  show "length (idx_round r data idx (a, b) parity) = parityShards r" by (simp add: idx_round_def)
  show "lens_eq n (idx_round r data idx (a, b) parity)"
    using assms(1-3) len by (auto simp: idx_round_def lens_eq_def galMulSliceXor_map2)
  show "idx_round r data idx (a, b) parity ! i ! k = (if a \<le> k \<and> k < b
       then parity ! i ! k XOR galMultiply (rs_parity r ! i ! idx) (data ! k) else parity ! i ! k)"
    using assms(1-3,6,7) len [OF assms(6)]
    by (auto simp: idx_round_def galMulSliceXor_map2 nth_put_slice nth_slice)
qed

lemma EncodeIdx_add_shard:
  assumes r: "rs_wf r" and idx: "idx < dataShards r" and data: "length data = n" "0 < n"
    and parity: "length parity = parityShards r" "lens_eq n parity"
  shows "EncodeIdx r data (int idx) parity = Inr (add_shard (rs_parity r) idx data parity)"
proof -
  have p: "0 < parityShards r" "0 < perRound (rs_o r)" using r by (auto simp: rs_wf_def tuned_def)
  let ?rs = "rounds (nat (perRound (rs_o r))) n 0"
  have cover: "jobs_cover ?rs n" using p(2) by (intro rounds_cover) simp
  then have bounds: "fst x \<le> snd x \<and> snd x \<le> n" if "x \<in> set ?rs" for x
    using that by (auto simp: jobs_cover_def)
  let ?res = "fold (idx_round r data idx) ?rs parity"
  have res: "(length ?res = parityShards r \<and> lens_eq n ?res) \<and>
      ?res ! i ! k = parity ! i ! k XOR galMultiply (rs_parity r ! i ! idx) (data ! k)"
    if "i < parityShards r" "k < n" for i k
  proof (rule fold_once [where obs = "\<lambda>p. p ! i ! k" and ctx = "\<lambda>_. ()", OF jobs_cover_once [OF cover that(2)]])
    fix x and st :: "bytes list" assume "x \<in> set ?rs" "length st = parityShards r \<and> lens_eq n st"
    then show "(length (idx_round r data idx x st) = parityShards r \<and> lens_eq n (idx_round r data idx x st)) \<and>
        (if fst x \<le> k \<and> k < snd x
         then idx_round r data idx x st ! i ! k = st ! i ! k XOR galMultiply (rs_parity r ! i ! idx) (data ! k)
         else idx_round r data idx x st ! i ! k = st ! i ! k \<and> () = ())"
      using idx_round_byte [of "fst x" "snd x" n data st r i k idx] bounds [of x] data that by simp
  qed (use parity in simp)
  have "?res = add_shard (rs_parity r) idx data parity"
  proof (rule nth_equalityI)
    show "length ?res = length (add_shard (rs_parity r) idx data parity)"
      using res [of 0 0] p(1) data(2) parity rs_m_split(2) [OF r] by (simp add: add_shard_def mat_simps)
    fix i assume "i < length ?res"
    then have i: "i < parityShards r" using res [of 0 0] p(1) data(2) by simp
    have lens: "length (parity ! i) = n" "length (?res ! i) = n"
      using i parity res [OF i data(2)] by (simp_all add: lens_eq_nth)
    then show "?res ! i = add_shard (rs_parity r) idx data parity ! i"
      using res [OF i] i parity(1) data(1) rs_m_split(2) [OF r]
      by (intro nth_equalityI) (simp_all add: add_shard_def mat_simps)
  qed
  moreover have "checkShards parity False = None"
    using parity(1) p(1) by (intro checkShards_lens [OF parity(2) _ data(2)]) auto
  moreover have "length (parity ! 0) = n" using parity p(1) by (simp add: lens_eq_nth)
  ultimately show ?thesis
    using parity(1) p idx data by (auto simp: EncodeIdx_def idx_round_def)
qed

text \<open>Adding all data shards, in their order, to zeroed parity.\<close>

primrec encode_all :: "reedSolomon \<Rightarrow> nat list \<Rightarrow> bytes list \<Rightarrow> bytes list \<Rightarrow> bytes list result" where
  "encode_all r [] data parity = Inr parity"
| "encode_all r (idx # idxs) data parity =
     bind_res (EncodeIdx r (data ! idx) (int idx) parity) (encode_all r idxs data)"

lemma encode_all_bytes:
  assumes r: "rs_wf r" and data: "length data = dataShards r" "lens_eq n data" "0 < n"
    and parity: "length parity = parityShards r" "lens_eq n parity" and "\<forall>idx \<in> set idxs. idx < dataShards r"
  shows "\<exists>res. encode_all r idxs data parity = Inr res \<and> length res = parityShards r \<and> lens_eq n res \<and>
    (\<forall>i < parityShards r. \<forall>k < n. res ! i ! k =
       fold (\<lambda>idx v. v XOR galMultiply (rs_parity r ! i ! idx) (data ! idx ! k)) idxs (parity ! i ! k))"
  using parity assms(7)
proof (induction idxs arbitrary: parity)
  case (Cons idx idxs)
  let ?p = "add_shard (rs_parity r) idx (data ! idx) parity"
  have idx: "idx < dataShards r" "length (data ! idx) = n"
    using Cons.prems(3) data by (simp_all add: lens_eq_nth)
  have len: "length (rs_parity r) = parityShards r" using rs_m_split(2) [OF r] by (simp add: mat_simps)
  have p: "length ?p = parityShards r" "lens_eq n ?p"
    "\<And>i k. i < parityShards r \<Longrightarrow> k < n \<Longrightarrow>
       ?p ! i ! k = parity ! i ! k XOR galMultiply (rs_parity r ! i ! idx) (data ! idx ! k)"
    using Cons.prems(1,2) len idx lens_eq_nth [OF Cons.prems(2)]
    by (auto simp: add_shard_def lens_eq_def set_zip)
  show ?case
    using Cons.IH [OF p(1,2)] Cons.prems(3) p(3)
      EncodeIdx_add_shard [OF r idx data(3) Cons.prems(1,2)]
    by auto
qed auto

section \<open>Properties\<close>

text \<open>Encoding one shard at a time is encoding: \<open>EncodeIdx\<close> on every data shard in turn, starting
  from zeroed parity, gives the parity that \<open>Encode\<close> computes in one go.\<close>

theorem EncodeIdx_is_Encode:
  assumes "rs_wf r" "length data = dataShards r" "0 < n" "\<forall>x \<in> set data. length x = n"
  shows "\<exists>parity. encode_all r [0..<dataShards r] data (replicate (parityShards r) (replicate n 0)) = Inr parity \<and>
    Encode r (data @ replicate (parityShards r) (replicate n 0)) = Inr (data @ parity)"
proof -
  let ?d = "dataShards r" and ?p = "parityShards r" and ?z = "replicate (parityShards r) (replicate n 0)"
  have lens: "lens_eq n data" "lens_eq n ?z" using assms(4) by (simp_all add: lens_eq_def)
  obtain res where res: "encode_all r [0..<?d] data ?z = Inr res" "length res = ?p" "lens_eq n res"
    "\<forall>i < ?p. \<forall>k < n. res ! i ! k =
       fold (\<lambda>idx v. v XOR galMultiply (rs_parity r ! i ! idx) (data ! idx ! k)) [0..<?d] (?z ! i ! k)"
    using encode_all_bytes [OF assms(1,2) lens(1) assms(3) _ lens(2), of "[0..<?d]"] by auto
  have row: "length (rs_parity r ! i) = ?d" if "i < ?p" for i
    using rs_m_split(2) [OF assms(1)] that by (simp add: mat_simps)
  have byte: "res ! i ! k = dot (rs_parity r ! i) (column data k)" if "i < ?p" "k < n" for i k
  proof -
    have "fold (\<lambda>idx v. v XOR galMultiply (rs_parity r ! i ! idx) (data ! idx ! k)) [0..<?d] 0 =
        fold (\<lambda>idx v. v XOR galMultiply (rs_parity r ! i ! idx) (column data k ! idx)) [0..<?d] 0"
      using assms(2) by (intro fold_cong) (auto simp: column_def)
    then show ?thesis
      using res(4) that fold_xor_dot [of ?d "rs_parity r ! i" "column data k"] row [OF that(1)] assms(2) by simp
  qed
  have "res = code_ref (rs_parity r) data n"
    using res(2,3) byte rs_m_split(2) [OF assms(1)]
    by (intro nth_equalityI) (auto simp: code_ref_def mat_simps lens_eq_nth intro!: nth_equalityI)
  moreover obtain c where "Encode r (data @ ?z) = Inr c" "codeword r n c" "take ?d c = data"
    using Encode_codeword [OF assms(1), of "data @ ?z" n] assms lens by (auto simp: rs_wf_def)
  moreover from this have "drop ?d c = code_ref (rs_parity r) data n"
    using codeword_iff_parity [OF assms(1) codeword_lens [OF assms(1)]] by metis
  ultimately show ?thesis
    using res(1) append_take_drop_id [of ?d c] by auto
qed

theorem EncodeIdx_is_Encode_witness:
  "\<exists>r parity. rs_wf r \<and> encode_all r [0, 1] [[1, 2], [3, 4]] [[0, 0], [0, 0]] = Inr parity \<and>
     Encode r [[1, 2], [3, 4], [0, 0], [0, 0]] = Inr ([[1, 2], [3, 4]] @ parity)"
proof -
  obtain r where r: "rs_wf r" "dataShards r = 2" "parityShards r = 2" using default_encoder by metis
  have two: "[0..<2] = [0, 1::nat]" "replicate 2 (replicate 2 (0::byte)) = [[0, 0], [0, 0]]"
    by (simp_all add: upt_rec numeral_2_eq_2)
  show ?thesis
    using EncodeIdx_is_Encode [of r "[[1, 2], [3, 4]]" 2] r two by auto
qed

end
