(* ===== verification/Updates.thy ===== *)
theory Updates
  imports Incremental
begin

unbundle bit_operations_syntax

text \<open>
  \<open>Update\<close>: replacing some data shards updates the parity to that of the new data. The old data
  shards are used as the buffer for the difference.
\<close>

definition delta :: "bytes option list \<Rightarrow> bytes list \<Rightarrow> nat \<Rightarrow> nat \<Rightarrow> byte" where
  "delta news olds c k = (case news ! c of None \<Rightarrow> 0 | Some inp \<Rightarrow> olds ! c ! k XOR inp ! k)"

definition update_one :: "matrix \<Rightarrow> bytes option list \<Rightarrow> nat \<Rightarrow> nat \<Rightarrow> nat \<Rightarrow> bytes list \<times> bytes list \<Rightarrow> bytes list \<times> bytes list" where
  "update_one rows news start stop c = (\<lambda>(olds, outs).
     case news ! c of
       None \<Rightarrow> (olds, outs)
     | Some inp \<Rightarrow>
         let oldin = put_slice start stop (sliceXor (slice start stop inp) (slice start stop (olds ! c))) (olds ! c)
         in (olds[c := oldin],
             map (\<lambda>iRow. put_slice start stop
                 (galMulSliceXor (rows ! iRow ! c) (slice start stop oldin) (slice start stop (outs ! iRow)))
                 (outs ! iRow)) [0..<length outs]))"

lemma update_range_fold:
  "update_range r rows news (start, stop) st = fold (update_one rows news start stop) [0..<dataShards r] st"
proof -
  have "(\<lambda>c (olds, outs). case news ! c of
         None \<Rightarrow> (olds, outs)
       | Some inp \<Rightarrow>
           let (start, stop) = (start, stop);
               oldin = put_slice start stop (sliceXor (slice start stop inp) (slice start stop (olds ! c))) (olds ! c)
           in (olds[c := oldin],
               map (\<lambda>iRow. put_slice start stop
                   (galMulSliceXor (rows ! iRow ! c) (slice start stop oldin) (slice start stop (outs ! iRow)))
                   (outs ! iRow)) [0..<length outs])) = update_one rows news start stop"
    by (simp add: update_one_def fun_eq_iff split: option.splits)
  then show ?thesis unfolding update_range_def by simp
qed

text \<open>The shapes the update keeps: the changed shards, old and new, and the outputs have one size.\<close>

definition upd_ok :: "nat \<Rightarrow> nat \<Rightarrow> bytes option list \<Rightarrow> bytes list \<times> bytes list \<Rightarrow> bool" where
  "upd_ok n d news st \<longleftrightarrow> length (fst st) = d \<and> lens_eq n (snd st) \<and>
     (\<forall>c < d. \<forall>inp. news ! c = Some inp \<longrightarrow> length inp = n \<and> length (fst st ! c) = n)"

lemma update_one_byte:
  assumes ok: "upd_ok n d news st" and c: "c < d" and ab: "a \<le> b" "b \<le> n" and i: "i < length (snd st)" and k: "k < n"
  shows "upd_ok n d news (update_one rows news a b c st)"
    "length (snd (update_one rows news a b c st)) = length (snd st)"
    "snd (update_one rows news a b c st) ! i ! k = (if a \<le> k \<and> k < b
       then snd st ! i ! k XOR galMultiply (rows ! i ! c) (delta news (fst st) c k) else snd st ! i ! k)"
    "j \<noteq> c \<Longrightarrow> fst (update_one rows news a b c st) ! j = fst st ! j"
    "\<not> (a \<le> k \<and> k < b) \<Longrightarrow> news ! c \<noteq> None \<Longrightarrow> fst (update_one rows news a b c st) ! c ! k = fst st ! c ! k"
    "news ! c = None \<Longrightarrow> fst (update_one rows news a b c st) = fst st"
proof -
  obtain olds outs where st: "st = (olds, outs)" by (cases st)
  have len: "length (outs ! l) = n" if "l < length outs" for l
    using ok that by (simp add: upd_ok_def st lens_eq_nth)
  have cl: "c < length olds" using ok c by (simp add: upd_ok_def st)
  have inp: "length inp = n" "length (olds ! c) = n" if "news ! c = Some inp" for inp
    using ok c that by (simp_all add: upd_ok_def st)
  show "upd_ok n d news (update_one rows news a b c st)"
    using ok ab inp len cl
    by (auto simp: st update_one_def upd_ok_def Let_def lens_eq_def nth_list_update galMulSliceXor_map2
        sliceXor_def sliceXorGo_map2 split: option.splits)
  show "length (snd (update_one rows news a b c st)) = length (snd st)"
    by (simp add: st update_one_def Let_def split: option.splits)
  show "snd (update_one rows news a b c st) ! i ! k = (if a \<le> k \<and> k < b
       then snd st ! i ! k XOR galMultiply (rows ! i ! c) (delta news (fst st) c k) else snd st ! i ! k)"
    using ab inp len [of i] i k
    by (auto simp: st update_one_def Let_def delta_def galMulSliceXor_map2 sliceXor_def sliceXorGo_map2
        nth_put_slice nth_slice split: option.splits)
  show "j \<noteq> c \<Longrightarrow> fst (update_one rows news a b c st) ! j = fst st ! j"
    by (simp add: st update_one_def Let_def split: option.splits)
  show "\<not> (a \<le> k \<and> k < b) \<Longrightarrow> news ! c \<noteq> None \<Longrightarrow> fst (update_one rows news a b c st) ! c ! k = fst st ! c ! k"
    using ab inp k cl
    by (auto simp: st update_one_def Let_def sliceXor_def sliceXorGo_map2 nth_put_slice)
  show "news ! c = None \<Longrightarrow> fst (update_one rows news a b c st) = fst st"
    by (simp add: st update_one_def)
qed

text \<open>One range: in the range every output byte takes up the differences, outside nothing changes.\<close>

definition xor_deltas :: "matrix \<Rightarrow> bytes option list \<Rightarrow> bytes list \<Rightarrow> nat \<Rightarrow> nat \<Rightarrow> nat list \<Rightarrow> byte \<Rightarrow> byte" where
  "xor_deltas rows news olds i k cs v = fold (\<lambda>c v. v XOR galMultiply (rows ! i ! c) (delta news olds c k)) cs v"

lemma delta_cong: "(news ! c \<noteq> None \<Longrightarrow> olds ! c ! k = olds' ! c ! k) \<Longrightarrow> delta news olds c k = delta news olds' c k"
  by (auto simp: delta_def split: option.splits)

lemma update_ones_byte:
  assumes "upd_ok n d news st" "distinct cs" "\<forall>c \<in> set cs. c < d" "a \<le> b" "b \<le> n" "i < length (snd st)" "k < n"
  shows "upd_ok n d news (fold (update_one rows news a b) cs st) \<and>
    length (snd (fold (update_one rows news a b) cs st)) = length (snd st) \<and>
    snd (fold (update_one rows news a b) cs st) ! i ! k = (if a \<le> k \<and> k < b
       then xor_deltas rows news (fst st) i k cs (snd st ! i ! k) else snd st ! i ! k) \<and>
    (\<not> (a \<le> k \<and> k < b) \<longrightarrow> (\<forall>c < d. news ! c \<noteq> None \<longrightarrow> fst (fold (update_one rows news a b) cs st) ! c ! k = fst st ! c ! k))"
  using assms
proof (induction cs arbitrary: st)
  case Nil
  then show ?case by (simp add: xor_deltas_def)
next
  case (Cons c cs)
  let ?st = "update_one rows news a b c st"
  have c: "c < d" using Cons.prems by simp
  note one = update_one_byte [where rows = rows, OF Cons.prems(1) c Cons.prems(4,5,6,7)]
  have deltas: "xor_deltas rows news (fst ?st) i k cs v = xor_deltas rows news (fst st) i k cs v" for v
  proof -
    have "delta news (fst ?st) e k = delta news (fst st) e k" if "e \<in> set cs" for e
    proof -
      have "e \<noteq> c" using Cons.prems(2) that by auto
      then show ?thesis using one(4) by (intro delta_cong) simp
    qed
    then show ?thesis unfolding xor_deltas_def by (intro fold_cong) simp_all
  qed
  have IH: "upd_ok n d news (fold (update_one rows news a b) cs ?st) \<and>
    length (snd (fold (update_one rows news a b) cs ?st)) = length (snd ?st) \<and>
    snd (fold (update_one rows news a b) cs ?st) ! i ! k = (if a \<le> k \<and> k < b
       then xor_deltas rows news (fst ?st) i k cs (snd ?st ! i ! k) else snd ?st ! i ! k) \<and>
    (\<not> (a \<le> k \<and> k < b) \<longrightarrow> (\<forall>c < d. news ! c \<noteq> None \<longrightarrow> fst (fold (update_one rows news a b) cs ?st) ! c ! k = fst ?st ! c ! k))"
    using Cons.IH [of ?st] Cons.prems one(1,2) by simp
  have "fst ?st ! e ! k = fst st ! e ! k" if "\<not> (a \<le> k \<and> k < b)" "news ! e \<noteq> None" for e
    using one(4) [of e] one(5) that by (cases "e = c") auto
  then show ?case
    using IH one(2,3) deltas by (auto simp: xor_deltas_def)
qed

lemma update_jobs_cover:
  assumes "0 < minSplitSize opt"
  shows "jobs_cover (update_jobs opt n) n"
proof (cases "update_parallel opt n")
  case True
  let ?d = "nat (if int n div maxGoroutines opt < minSplitSize opt then minSplitSize opt else int n div maxGoroutines opt)"
  have "0 < ?d" using assms by (auto simp: not_less)
  moreover have "update_jobs opt n = split_jobs ?d n 0"
    using True by (simp add: update_jobs_def Let_def)
  ultimately show ?thesis
    unfolding jobs_cover_def using split_jobs_bounds [of 0 n _ _ ?d] split_jobs_unique [of ?d 0 _ n] by auto
qed (auto simp: update_jobs_def jobs_cover_def)

definition changed_bytes :: "nat \<Rightarrow> bytes option list \<Rightarrow> nat \<Rightarrow> bytes list \<Rightarrow> byte option list" where
  "changed_bytes d news k olds = map (\<lambda>c. if news ! c = None then None else Some (olds ! c ! k)) [0..<d]"

lemma changed_bytes_cong:
  "\<forall>c < d. news ! c \<noteq> None \<longrightarrow> olds ! c ! k = olds' ! c ! k \<Longrightarrow> changed_bytes d news k olds = changed_bytes d news k olds'"
  by (simp add: changed_bytes_def)

lemma xor_deltas_changed:
  assumes "changed_bytes d news k olds = changed_bytes d news k olds'"
  shows "xor_deltas rows news olds i k [0..<d] v = xor_deltas rows news olds' i k [0..<d] v"
proof -
  have "delta news olds c k = delta news olds' c k" if "c < d" for c
    using map_eq_nthD [OF assms [unfolded changed_bytes_def], of c] that by (intro delta_cong) simp
  then show ?thesis unfolding xor_deltas_def by (intro fold_cong) simp_all
qed

lemma update_fold_byte:
  assumes "upd_ok n (dataShards r) news (olds, outs)" "0 < minSplitSize (rs_o r)" "i < length outs" "k < n"
    and "res = fold (update_range r rows news) (update_jobs (rs_o r) n) (olds, outs)"
  shows "upd_ok n (dataShards r) news res" "length (snd res) = length outs"
    "snd res ! i ! k = xor_deltas rows news olds i k [0..<dataShards r] (outs ! i ! k)"
proof -
  let ?rs = "update_jobs (rs_o r) n" and ?d = "dataShards r"
  note cover = update_jobs_cover [OF assms(2), of n]
  define g where "g cs v = xor_deltas rows news (SOME o'. changed_bytes ?d news k o' = cs) i k [0..<?d] v" for cs v
  have g: "g (changed_bytes ?d news k o') v = xor_deltas rows news o' i k [0..<?d] v" for o' v
    unfolding g_def by (rule xor_deltas_changed) (rule someI_ex, blast)
  have "(upd_ok n ?d news res \<and> length (snd res) = length outs) \<and>
      snd res ! i ! k = g (changed_bytes ?d news k (fst (olds, outs))) (snd (olds, outs) ! i ! k)"
    unfolding assms(5)
  proof (rule fold_once [where obs = "\<lambda>st. snd st ! i ! k" and ctx = "\<lambda>st. changed_bytes ?d news k (fst st)",
        OF jobs_cover_once [OF cover assms(4)]])
    fix x st assume x: "x \<in> set ?rs" and st: "upd_ok n ?d news st \<and> length (snd st) = length outs"
    have "fst x \<le> snd x" "snd x \<le> n" using cover x by (auto simp: jobs_cover_def)
    then show "(upd_ok n ?d news (update_range r rows news x st) \<and>
          length (snd (update_range r rows news x st)) = length outs) \<and>
        (if fst x \<le> k \<and> k < snd x
         then snd (update_range r rows news x st) ! i ! k = g (changed_bytes ?d news k (fst st)) (snd st ! i ! k)
         else snd (update_range r rows news x st) ! i ! k = snd st ! i ! k \<and>
           changed_bytes ?d news k (fst (update_range r rows news x st)) = changed_bytes ?d news k (fst st))"
      using update_ones_byte [of n ?d news st "[0..<?d]" "fst x" "snd x" i k rows] st assms(3,4)
        update_range_fold [of r rows news "fst x" "snd x" st]
      by (simp add: g changed_bytes_cong)
  qed (use assms(1) in simp)
  then show "upd_ok n ?d news res" "length (snd res) = length outs"
    "snd res ! i ! k = xor_deltas rows news olds i k [0..<?d] (outs ! i ! k)"
    by (simp_all add: g)
qed

section \<open>The parity of the new data\<close>

definition new_data :: "bytes list \<Rightarrow> bytes option list \<Rightarrow> bytes list" where
  "new_data data news = map2 (\<lambda>old new. case new of None \<Rightarrow> old | Some b \<Rightarrow> b) data news"

lemma xor_deltas_dot:
  assumes "length data = d" "length news = d" "length (rows ! i) = d"
    and "\<And>c. c < d \<Longrightarrow> news ! c \<noteq> None \<Longrightarrow> olds ! c ! k = data ! c ! k"
  shows "xor_deltas rows news olds i k [0..<d] (dot (rows ! i) (column data k)) =
    dot (rows ! i) (column (new_data data news) k)"
proof -
  have "m \<le> d \<Longrightarrow> xor_deltas rows news olds i k [0..<m] (dot (rows ! i) (column data k)) =
      dot (take m (rows ! i)) (take m (column (new_data data news) k)) XOR
      dot (drop m (rows ! i)) (drop m (column data k))" for m
  proof (induction m)
    case 0
    then show ?case by (simp add: xor_deltas_def)
  next
    case (Suc m)
    have m: "m < d" using Suc.prems by simp
    have "drop m (rows ! i) = rows ! i ! m # drop (Suc m) (rows ! i)"
      "drop m (column data k) = data ! m ! k # drop (Suc m) (column data k)"
      using m assms(1,3) by (simp_all add: Cons_nth_drop_Suc [symmetric] column_def)
    moreover have "take (Suc m) (rows ! i) = take m (rows ! i) @ [rows ! i ! m]"
      "take (Suc m) (column (new_data data news) k) = take m (column (new_data data news) k) @ [new_data data news ! m ! k]"
      using m assms(1-3) by (simp_all add: take_Suc_conv_app_nth column_def new_data_def)
    moreover have "new_data data news ! m ! k = data ! m ! k XOR delta news olds m k"
      using m assms(1,2,4) by (auto simp: new_data_def delta_def split: option.splits)
    ultimately show ?case
      using Suc m assms(1-3)
      by (simp add: xor_deltas_def dot_append new_data_def galMultiply_xor_right xor.assoc xor.left_commute xor.commute)
  qed
  from this [of d] show ?thesis using assms(1-3) by (simp add: new_data_def column_def)
qed

text \<open>The shards passed to \<open>Update\<close>: an old data shard that does not change may be nil; the parity
  shards are all there.\<close>

definition update_args :: "reedSolomon \<Rightarrow> nat \<Rightarrow> bytes list \<Rightarrow> bytes option list \<Rightarrow> bytes option list \<Rightarrow> bool" where
  "update_args r n c shards news \<longleftrightarrow> length shards = totalShards r \<and> length news = dataShards r \<and>
     (\<exists>b. Some b \<in> set news) \<and> (\<forall>b. Some b \<in> set news \<longrightarrow> length b = n) \<and>
     (\<forall>i < totalShards r. shards ! i = None \<or> shards ! i = Some (c ! i)) \<and>
     (\<forall>i < dataShards r. news ! i \<noteq> None \<longrightarrow> shards ! i \<noteq> None) \<and>
     (\<forall>i. dataShards r \<le> i \<longrightarrow> i < totalShards r \<longrightarrow> shards ! i \<noteq> None)"

lemma update_argsD:
  assumes "update_args r n c shards news" "dataShards r \<le> totalShards r"
  shows "length shards = totalShards r" "length news = dataShards r"
    "i < totalShards r \<Longrightarrow> shards ! i = None \<or> shards ! i = Some (c ! i)"
    "i < dataShards r \<Longrightarrow> news ! i \<noteq> None \<Longrightarrow> shards ! i = Some (c ! i)"
    "dataShards r \<le> i \<Longrightarrow> i < totalShards r \<Longrightarrow> shards ! i = Some (c ! i)"
    "i < dataShards r \<Longrightarrow> news ! i = Some b \<Longrightarrow> length b = n"
proof -
  note a = assms(1) [unfolded update_args_def]
  show "length shards = totalShards r" "length news = dataShards r" using a by simp_all
  show all: "shards ! i = None \<or> shards ! i = Some (c ! i)" if "i < totalShards r" for i
    using a that by blast
  show "shards ! i = Some (c ! i)" if "i < dataShards r" "news ! i \<noteq> None"
  proof -
    have "shards ! i \<noteq> None" using a that by blast
    then show ?thesis using all [of i] that(1) assms(2) by auto
  qed
  show "shards ! i = Some (c ! i)" if "dataShards r \<le> i" "i < totalShards r"
  proof -
    have "shards ! i \<noteq> None" using a that by blast
    then show ?thesis using all [of i] that(2) by auto
  qed
  show "i < dataShards r \<Longrightarrow> news ! i = Some b \<Longrightarrow> length b = n"
    using a nth_mem [of i news] by auto
qed

lemma update_args_data:
  assumes "rs_wf r" "codeword r n c" "update_args r n c shards news"
  defines "olds \<equiv> map shard_bytes (take (dataShards r) shards)"
  shows "upd_ok n (dataShards r) news (olds, drop (dataShards r) c)"
    "map shard_bytes (drop (dataShards r) shards) = drop (dataShards r) c"
    "\<And>i. i < dataShards r \<Longrightarrow> news ! i \<noteq> None \<Longrightarrow> olds ! i = c ! i"
proof -
  note len = codeword_lens [OF assms(1,2)]
  have d: "dataShards r \<le> totalShards r" by (rule rs_wf_matrix(2) [OF assms(1)])
  have olds: "olds ! i = c ! i" if "i < dataShards r" "news ! i \<noteq> None" for i
    using update_argsD(1) [OF assms(3) d] update_argsD(4) [OF assms(3) d, of i] that d by (simp add: olds_def shard_bytes_def)
  then show "\<And>i. i < dataShards r \<Longrightarrow> news ! i \<noteq> None \<Longrightarrow> olds ! i = c ! i" .
  show "map shard_bytes (drop (dataShards r) shards) = drop (dataShards r) c"
  proof (rule nth_equalityI)
    fix i assume "i < length (map shard_bytes (drop (dataShards r) shards))"
    then have i: "dataShards r + i < totalShards r" using assms(3) by (simp add: update_args_def)
    then have "shards ! (dataShards r + i) = Some (c ! (dataShards r + i))"
      using update_argsD(5) [OF assms(3) d] by simp
    then show "map shard_bytes (drop (dataShards r) shards) ! i = drop (dataShards r) c ! i"
      using i assms(3) len by (simp add: update_args_def shard_bytes_def)
  qed (use assms(3) len in \<open>simp add: update_args_def\<close>)
  have "length inp = n" if "i < dataShards r" "news ! i = Some inp" for i inp
    using update_argsD(6) [OF assms(3) d] that by blast
  moreover have "length olds = dataShards r" using assms(3) d by (simp add: update_args_def olds_def)
  ultimately show "upd_ok n (dataShards r) news (olds, drop (dataShards r) c)"
    using olds len d by (simp add: upd_ok_def lens_eq_drop lens_eq_nth)
qed

lemma update_args_checks:
  assumes "rs_wf r" "codeword r n c" "update_args r n c shards news"
  shows "shardSize (map shard_bytes shards) = n" "checkShards (map shard_bytes shards) True = None"
    "checkShards (map shard_bytes news) True = None"
proof -
  note len = codeword_lens [OF assms(1,2)]
  have t: "dataShards r < totalShards r" using assms(1) by (auto simp: rs_wf_def)
  note D = update_argsD [OF assms(3) less_imp_le [OF t]]
  have "x = [] \<or> length x = n" if x: "x \<in> set (map shard_bytes shards)" for x
  proof -
    obtain i where "i < totalShards r" "x = shard_bytes (shards ! i)"
      using x D(1) by (auto simp: in_set_conv_nth)
    then show ?thesis
      using D(3) [of i] lens_eq_nth [OF len(2), of i] len(1) by (auto simp: shard_bytes_def)
  qed
  moreover have "shard_bytes (shards ! dataShards r) \<noteq> []"
    using D(5) [of "dataShards r"] t codeword_nonempty [OF assms(1,2) t] by (simp add: shard_bytes_def)
  then have "\<exists>x \<in> set (map shard_bytes shards). x \<noteq> []"
    using D(1) t nth_mem [of "dataShards r" shards] by auto
  ultimately show "shardSize (map shard_bytes shards) = n" "checkShards (map shard_bytes shards) True = None"
    using len(3) by (blast intro: sizes_nilok)+
  show "checkShards (map shard_bytes news) True = None"
  proof (rule sizes_nilok(2) [OF _ _ len(3)])
    show "\<forall>x \<in> set (map shard_bytes news). x = [] \<or> length x = n"
      using assms(3) by (auto simp: update_args_def shard_bytes_def split: option.splits)
    show "\<exists>x \<in> set (map shard_bytes news). x \<noteq> []"
      using assms(3) len(3) by (force simp: update_args_def shard_bytes_def)
  qed
qed

lemma Update_codeword:
  assumes r: "rs_wf r" and c: "codeword r n c" and args: "update_args r n c shards news"
    and c': "codeword r n c'" "take (dataShards r) c' = new_data (take (dataShards r) c) news"
  shows "\<exists>shards'. Update r shards news = Inr shards' \<and> drop (dataShards r) shards' = map Some (drop (dataShards r) c')"
proof -
  let ?d = "dataShards r" and ?p = "parityShards r" and ?olds = "map shard_bytes (take (dataShards r) shards)"
  note len = codeword_lens [OF r c] and len' = codeword_lens [OF r c'(1)]
  note data = update_args_data [OF r c args]
  have t: "totalShards r = ?d + ?p" "0 < ?p" and ms: "0 < minSplitSize (rs_o r)"
    using r by (auto simp: rs_wf_def tuned_def)
  note D = update_argsD [OF args rs_wf_matrix(2) [OF r]]
  define res where "res = fold (update_range r (rs_parity r) news) (update_jobs (rs_o r) n) (?olds, drop ?d c)"
  have fold: "upd_ok n ?d news res" "length (snd res) = ?p"
    "\<And>i k. i < ?p \<Longrightarrow> k < n \<Longrightarrow> snd res ! i ! k = xor_deltas (rs_parity r) news ?olds i k [0..<?d] (drop ?d c ! i ! k)"
    using update_fold_byte [OF data(1) ms _ _ res_def] len t by auto
  have row: "length (rs_parity r ! i) = ?d" "rs_parity r ! i = rs_m r ! (?d + i)" if "i < ?p" for i
    using that r rs_m_split(2) [OF r] by (auto simp: mat_simps rs_wf_def coding_matrix_def)
  have "snd res ! i ! k = drop ?d c' ! i ! k" if "i < ?p" "k < n" for i k
  proof -
    have "drop ?d x ! i ! k = dot (rs_parity r ! i) (column (take ?d x) k)" if "codeword r n x" for x
      using codeword_byte [OF r that, of "?d + i" k] codeword_lens [OF r that] row(2) \<open>i < ?p\<close> \<open>k < n\<close> t by simp
    note byte = this
    have "xor_deltas (rs_parity r) news ?olds i k [0..<?d] (dot (rs_parity r ! i) (column (take ?d c) k)) =
        dot (rs_parity r ! i) (column (new_data (take ?d c) news) k)"
      using len t D(2) row(1) [OF that(1)] data(3) by (intro xor_deltas_dot) simp_all
    then show ?thesis
      unfolding fold(3) [OF that] byte [OF c] byte [OF c'(1)] c'(2) .
  qed
  moreover have "lens_eq n (snd res)" using fold(1) by (simp add: upd_ok_def)
  ultimately have snd_res: "snd res = drop ?d c'"
    using fold(2) len' t by (auto intro!: nth_equalityI simp: lens_eq_nth)
  have "update_jobs (rs_o r) n \<noteq> []"
    using update_jobs_cover [OF ms, of n] len(3) by (force simp: jobs_cover_def)
  moreover have "\<not> update_panics r ?olds news n"
    using data(1) by (auto simp: update_panics_def upd_ok_def split: option.splits)
  ultimately have upd: "updateParityShards r (rs_parity r) ?olds news (drop ?d c) n = Inr res"
    using len t by (simp add: updateParityShards_def res_def)
  let ?out = "map2 (\<lambda>s b. case s of None \<Rightarrow> None | Some _ \<Rightarrow> Some b) shards (fst res @ snd res)"
  have "\<not> (\<exists>i < length news. news ! i \<noteq> None \<and> shards ! i = None)" using D(2,4) by auto
  moreover have "\<not> (\<exists>p \<in> set (drop ?d shards). p = None)" using D(1) D(5) by (auto simp: in_set_conv_nth)
  ultimately have "Update r shards news = Inr ?out"
    using update_args_checks [OF r c args] D(1,2) data(2) upd by (simp add: Update_def split: prod.splits)
  moreover have "drop ?d ?out = map Some (drop ?d c')"
  proof (rule nth_equalityI)
    show "length (drop ?d ?out) = length (map Some (drop ?d c'))"
      using D(1) fold(1,2) len' t by (simp add: upd_ok_def)
    fix i assume "i < length (drop ?d ?out)"
    then show "drop ?d ?out ! i = map Some (drop ?d c') ! i"
      using D(1) D(5) [of "?d + i"] fold(1,2) len' t snd_res by (simp add: upd_ok_def nth_append)
  qed
  ultimately show ?thesis by blast
qed

section \<open>Properties\<close>

text \<open>C29. \<open>Update\<close> brings the parity up to date: given the old parity, the old content of the shards
  that change (the others may be nil) and their new content, it succeeds, serial or over
  goroutines, and the parity shards it leaves are those that \<open>Encode\<close> computes for the new data.\<close>

theorem Update_is_Encode:
  assumes "rs_wf r" "length old = totalShards r" "0 < n" "\<forall>x \<in> set old. length x = n" "Encode r old = Inr c"
    and "update_args r n c shards news"
  shows "\<exists>shards' c'. Update r shards news = Inr shards' \<and>
    Encode r (new_data (take (dataShards r) old) news @ drop (dataShards r) old) = Inr c' \<and>
    drop (dataShards r) shards' = map Some (drop (dataShards r) c')"
proof -
  let ?d = "dataShards r" and ?new = "new_data (take (dataShards r) old) news @ drop (dataShards r) old"
  have lens: "lens_eq n old" using assms(4) by (simp add: lens_eq_def)
  have d: "?d \<le> totalShards r" by (rule rs_wf_matrix(2) [OF assms(1)])
  have c: "codeword r n c" "take ?d c = take ?d old"
    using Encode_codeword [OF assms(1,2) lens assms(3)] assms(5) by auto
  note D = update_argsD [OF assms(6) d]
  have "length (new_data (take ?d old) news ! i) = n" if "i < ?d" for i
    using that D(2) D(6) [of i] assms(2) d lens_eq_nth [OF lens, of i]
    by (cases "news ! i") (simp_all add: new_data_def)
  then have "lens_eq n (new_data (take ?d old) news)"
    using D(2) assms(2) d by (auto simp: lens_eq_def in_set_conv_nth new_data_def)
  then obtain c' where c': "Encode r ?new = Inr c'" "codeword r n c'" "take ?d c' = take ?d ?new"
    using Encode_codeword [OF assms(1), of ?new n] assms(2,3) lens D(2) d
    by (auto simp: lens_eq_drop new_data_def)
  have "take ?d c' = new_data (take ?d c) news"
    using c'(3) c(2) D(2) assms(2) d by (simp add: new_data_def)
  then show ?thesis
    using Update_codeword [OF assms(1) c(1) assms(6) c'(2)] c'(1) by blast
qed

theorem Update_is_Encode_witness:
  "\<exists>r c shards' c'. rs_wf r \<and> Encode r [[1, 2], [3, 4], [0, 0], [0, 0]] = Inr c \<and>
     Update r [None, Some [3, 4], Some (c ! 2), Some (c ! 3)] [None, Some [5, 6]] = Inr shards' \<and>
     Encode r [[1, 2], [5, 6], [0, 0], [0, 0]] = Inr c' \<and> drop 2 shards' = map Some (drop 2 c')"
proof -
  obtain r where r: "rs_wf r" "dataShards r = 2" "totalShards r = 4" using default_encoder by metis
  let ?s = "[[1, 2], [3, 4], [0, 0], [0, 0]] :: bytes list"
  obtain c where c: "Encode r ?s = Inr c" "codeword r 2 c" "take 2 c = take 2 ?s"
    using Encode_codeword [OF r(1), of ?s 2] r by (auto simp: lens_eq_def)
  have "c ! 1 = [3, 4]" using c(3) nth_take [of 1 2 c] by (metis One_nat_def lessI nth_Cons_0 nth_Cons_Suc numeral_2_eq_2 take_Suc_Cons)
  then have args: "update_args r 2 c [None, Some [3, 4], Some (c ! 2), Some (c ! 3)] [None, Some [5, 6]]"
    using r by (auto simp: update_args_def less_Suc_eq numeral_eq_Suc)
  have "\<exists>shards' c'. Update r [None, Some [3, 4], Some (c ! 2), Some (c ! 3)] [None, Some [5, 6]] = Inr shards' \<and>
      Encode r (new_data (take (dataShards r) ?s) [None, Some [5, 6]] @ drop (dataShards r) ?s) = Inr c' \<and>
      drop (dataShards r) shards' = map Some (drop (dataShards r) c')"
    using r by (intro Update_is_Encode [OF r(1) _ _ _ c(1) args]) simp_all
  then show ?thesis
    using r c(1) by (auto simp: new_data_def)
qed

end
