(* ===== verification/Streaming.thy ===== *)
theory Streaming
  imports Codewords Splitting
begin

text \<open>
  The stream encoder of \<open>reedsolomon/streaming.go\<close>: shards are read and written in blocks, through
  buffers from a pool, and every block goes through the encoder of theory \<open>Reed_Solomon\<close>. A reader is
  the bytes it still delivers and the error that follows them, which is what \<open>io.ReadFull\<close> sees of it. A
  buffer is a slice: memory up to its capacity, whatever the pool left there, and a length. The
  loops are \<open>partial_function\<close>s, so an operation that does not return has the value \<open>None\<close>; that they
  all return is proved from the bytes left to read.
\<close>

section \<open>Readers, buffers, writers\<close>

abbreviation io_EOF :: rs_error where "io_EOF \<equiv> IoError ''EOF''"
abbreviation io_ErrUnexpectedEOF :: rs_error where "io_ErrUnexpectedEOF \<equiv> IoError ''unexpected EOF''"
abbreviation io_ErrShortWrite :: rs_error where "io_ErrShortWrite \<equiv> IoError ''short write''"

record reader =
  rd_rest :: bytes
  rd_end :: rs_error

definition open_reader :: "bytes \<Rightarrow> reader" where
  "open_reader content = \<lparr>rd_rest = content, rd_end = io_EOF\<rparr>"

text \<open>\<open>io.ReadFull\<close> into a slice of length \<open>n\<close>: what was read, the error, the reader afterwards.\<close>

definition ReadFull :: "reader \<Rightarrow> nat \<Rightarrow> bytes \<times> rs_error option \<times> reader" where
  "ReadFull rd n =
     (if n \<le> length (rd_rest rd) then (take n (rd_rest rd), None, rd\<lparr>rd_rest := drop n (rd_rest rd)\<rparr>)
      else (rd_rest rd,
            Some (if rd_rest rd \<noteq> [] \<and> rd_end rd = io_EOF then io_ErrUnexpectedEOF else rd_end rd),
            rd\<lparr>rd_rest := []\<rparr>))"

record buffer =
  b_mem :: bytes
  b_len :: nat

definition b_val :: "buffer \<Rightarrow> bytes" where
  "b_val b = take (b_len b) (b_mem b)"

text \<open>The slice expression \<open>b[:n]\<close> and writing to the front of a slice.\<close>

definition reslice :: "nat \<Rightarrow> buffer \<Rightarrow> buffer result" where
  "reslice n b = (if n \<le> length (b_mem b) then Inr (b\<lparr>b_len := n\<rparr>) else Inl index_panic)"

definition b_put :: "bytes \<Rightarrow> buffer \<Rightarrow> buffer" where
  "b_put v b = b\<lparr>b_mem := v @ drop (length v) (b_mem b)\<rparr>"

definition b_set :: "bytes \<Rightarrow> buffer \<Rightarrow> buffer" where
  "b_set v b = (b_put v b)\<lparr>b_len := length v\<rparr>"

type_synonym 'w writer_fun = "'w \<Rightarrow> bytes \<Rightarrow> 'w \<times> nat \<times> rs_error option"

section \<open>Construction\<close>

record rsStream =
  st_r :: reedSolomon
  st_o :: options

text \<open>\<open>NewStream\<close> lets \<open>New\<close> build the encoder and asserts that it is the matrix encoder.\<close>

definition NewStream :: "cpu \<Rightarrow> int \<Rightarrow> int \<Rightarrow> Option list \<Rightarrow> rsStream result" where
  "NewStream c d p opts =
     (if 256 < d + p then Inl ErrMaxShardNum
      else
        let opt = apply_options c opts;
            opt = (if streamBS opt = 0 \<and> 0 < o_shardSize opt then opt\<lparr>streamBS := o_shardSize opt\<rparr> else opt);
            opt = (if streamBS opt \<le> 0 then opt\<lparr>streamBS := 4 * 1024 * 1024\<rparr> else opt);
            opts = (if o_shardSize opt = 0 \<and> maxGoroutines opt = maxGoroutines (defaultOptions c)
                    then opts @ [WithAutoGoroutines (streamBS opt)] else opts)
        in bind_res (New c d p opts) (\<lambda>enc.
             case enc of
               RS r \<Rightarrow> Inr \<lparr>st_r = r, st_o = opt\<rparr>
             | _ \<Rightarrow> Inl (GoPanic ''interface conversion'')))"

definition NewStreamC :: "cpu \<Rightarrow> int \<Rightarrow> int \<Rightarrow> bool \<Rightarrow> bool \<Rightarrow> Option list \<Rightarrow> rsStream result" where
  "NewStreamC c d p conReads conWrites opts =
     NewStream c d p (opts @ [WithConcurrentStreamReads conReads, WithConcurrentStreamWrites conWrites])"

text \<open>The slices of the pool: \<open>totalShards\<close> of them, the capacity rounded up to 64 bytes by \<open>AllocAligned\<close>. Their
  content is what the last user left.\<close>

definition pool_ok :: "rsStream \<Rightarrow> bytes list \<Rightarrow> bool" where
  "pool_ok s pool \<longleftrightarrow> length pool = totalShards (st_r s)
     \<and> (\<forall>mem \<in> set pool. length mem = (nat (streamBS (st_o s)) + 63) div 64 * 64)"

definition createSlice :: "rsStream \<Rightarrow> bytes list \<Rightarrow> buffer list" where
  "createSlice s pool = map (\<lambda>mem. \<lparr>b_mem = mem, b_len = nat (streamBS (st_o s))\<rparr>) pool"

section \<open>Blocks\<close>

fun trimShards :: "buffer list \<Rightarrow> nat \<Rightarrow> buffer list result" where
  "trimShards [] n = Inr []"
| "trimShards (b # bs) n =
     bind_res (if b_len b \<noteq> 0 then reslice n b else Inr b) (\<lambda>b.
       let b = (if b_len b < n then b\<lparr>b_len := 0\<rparr> else b)
       in bind_res (trimShards bs n) (\<lambda>bs. Inr (b # bs)))"

text \<open>\<open>size\<close> is -1 as long as every reader filled its slice.\<close>

fun readShards_loop ::
  "int \<Rightarrow> nat \<Rightarrow> buffer list \<Rightarrow> reader option list \<Rightarrow> rs_error option \<times> buffer list \<times> reader option list" where
  "readShards_loop sz i (b # dst) (None # ins) =
     (let (err, dst, ins) = readShards_loop sz (i + 1) dst ins in (err, b\<lparr>b_len := 0\<rparr> # dst, None # ins))"
| "readShards_loop sz i (b # dst) (Some rd # ins) =
     (case ReadFull rd (b_len b) of (got, err, rd) \<Rightarrow>
        let n = int (length got); b = b_put got b
        in case err of
             None \<Rightarrow>
               (let (err, dst, ins) = readShards_loop sz (i + 1) dst ins in (err, b # dst, Some rd # ins))
           | Some e \<Rightarrow>
               if e = io_ErrUnexpectedEOF \<or> e = io_EOF
               then if 0 \<le> sz \<and> n \<noteq> sz then (Some ErrShardSize, b # dst, Some rd # ins)
                    else let (err, dst, ins) = readShards_loop n (i + 1) dst ins
                         in (err, b\<lparr>b_len := length got\<rparr> # dst, Some rd # ins)
               else (Some (StreamReadError e i), b # dst, Some rd # ins))"
| "readShards_loop sz i dst ins = (if sz = 0 then Some io_EOF else None, dst, ins)"

definition readShards :: "buffer list \<Rightarrow> reader option list \<Rightarrow> rs_error option \<times> buffer list \<times> reader option list" where
  "readShards dst ins =
     (if length ins \<noteq> length dst then (Some (GoPanic ''in and dst size do not match''), dst, ins)
      else readShards_loop (- 1) 0 dst ins)"

fun writeShards_loop :: "'w writer_fun \<Rightarrow> nat \<Rightarrow> 'w option list \<Rightarrow> bytes list \<Rightarrow> 'w option list \<times> rs_error option" where
  "writeShards_loop wr i (None # outs) (v # vs) =
     (let (outs, err) = writeShards_loop wr (i + 1) outs vs in (None # outs, err))"
| "writeShards_loop wr i (Some w # outs) (v # vs) =
     (case wr w v of (w, n, err) \<Rightarrow>
        case err of
          Some e \<Rightarrow> (Some w # outs, Some (StreamWriteError e i))
        | None \<Rightarrow>
            if n \<noteq> length v then (Some w # outs, Some (StreamWriteError io_ErrShortWrite i))
            else let (outs, err) = writeShards_loop wr (i + 1) outs vs in (Some w # outs, err))"
| "writeShards_loop wr i outs vs = (outs, None)"

definition writeShards :: "'w writer_fun \<Rightarrow> 'w option list \<Rightarrow> bytes list \<Rightarrow> 'w option list \<times> rs_error option" where
  "writeShards wr outs vs =
     (if length outs \<noteq> length vs then (outs, Some (GoPanic ''in and out size do not match''))
      else writeShards_loop wr 0 outs vs)"

section \<open>Shards at once\<close>

text \<open>\<open>cReadShards\<close> and \<open>cWriteShards\<close> read and write every shard in a goroutine of its own. Each goroutine has its own reader or writer and
  its own slice, so only the order in which the results arrive in the channel is open: it is an argument.\<close>

type_synonym readResult = "nat \<times> nat \<times> rs_error option"

fun read_all :: "nat \<Rightarrow> buffer list \<Rightarrow> reader option list \<Rightarrow> readResult list \<times> buffer list \<times> reader option list" where
  "read_all i (b # dst) (None # ins) =
     (let (res, dst, ins) = read_all (i + 1) dst ins in (res, b\<lparr>b_len := 0\<rparr> # dst, None # ins))"
| "read_all i (b # dst) (Some rd # ins) =
     (case ReadFull rd (b_len b) of (got, err, rd) \<Rightarrow>
        let (res, dst, ins) = read_all (i + 1) dst ins in ((i, length got, err) # res, b_put got b # dst, Some rd # ins))"
| "read_all i dst ins = ([], dst, ins)"

fun collect_sizes :: "int \<Rightarrow> readResult list \<Rightarrow> buffer list \<Rightarrow> rs_error option \<times> buffer list" where
  "collect_sizes sz [] dst = (if sz = 0 then Some io_EOF else None, dst)"
| "collect_sizes sz ((i, n, None) # res) dst = collect_sizes sz res dst"
| "collect_sizes sz ((i, n, Some e) # res) dst =
     (if e = io_ErrUnexpectedEOF \<or> e = io_EOF
      then if 0 \<le> sz \<and> int n \<noteq> sz then (Some ErrShardSize, dst)
           else collect_sizes (int n) res (dst[i := (dst ! i)\<lparr>b_len := n\<rparr>])
      else (Some (StreamReadError e i), dst))"

definition cReadShards ::
  "(readResult list \<Rightarrow> readResult list) \<Rightarrow> buffer list \<Rightarrow> reader option list \<Rightarrow> rs_error option \<times> buffer list \<times> reader option list" where
  "cReadShards arrived dst ins =
     (if length ins \<noteq> length dst then (Some (GoPanic ''in and dst size do not match''), dst, ins)
      else let (res, dst, ins) = read_all 0 dst ins; (err, dst) = collect_sizes (- 1) (arrived res) dst in (err, dst, ins))"

fun write_all :: "'w writer_fun \<Rightarrow> nat \<Rightarrow> 'w option list \<Rightarrow> bytes list \<Rightarrow> 'w option list \<times> rs_error option list" where
  "write_all wr i (None # outs) (v # vs) = (let (outs, errs) = write_all wr (i + 1) outs vs in (None # outs, None # errs))"
| "write_all wr i (Some w # outs) (v # vs) =
     (case wr w v of (w, n, err) \<Rightarrow>
        let (outs, errs) = write_all wr (i + 1) outs vs
        in (Some w # outs,
            (case err of
               Some e \<Rightarrow> Some (StreamWriteError e i) # errs
             | None \<Rightarrow> if n \<noteq> length v then Some (StreamWriteError io_ErrShortWrite i) # errs else errs)))"
| "write_all wr i outs vs = (outs, [])"

definition cWriteShards ::
  "'w writer_fun \<Rightarrow> (rs_error option list \<Rightarrow> rs_error option list) \<Rightarrow> 'w option list \<Rightarrow> bytes list \<Rightarrow> 'w option list \<times> rs_error option" where
  "cWriteShards wr arrived outs vs =
     (if length outs \<noteq> length vs then (outs, Some (GoPanic ''in and out size do not match''))
      else let (outs, errs) = write_all wr 0 outs vs
           in (outs, case List.find (\<lambda>err. err \<noteq> None) (arrived errs) of Some err \<Rightarrow> err | None \<Rightarrow> None))"

text \<open>The two functions of an encoder that read and write the shards of a block. The first argument is the number of bytes read so far, which
  tells the blocks apart: the results may arrive in another order for every block.\<close>

record 'w stream_io =
  io_read :: "nat \<Rightarrow> buffer list \<Rightarrow> reader option list \<Rightarrow> rs_error option \<times> buffer list \<times> reader option list"
  io_write :: "nat \<Rightarrow> 'w option list \<Rightarrow> bytes list \<Rightarrow> 'w option list \<times> rs_error option"

definition in_turn :: "'w writer_fun \<Rightarrow> 'w stream_io" where
  "in_turn wr = \<lparr>io_read = (\<lambda>_. readShards), io_write = (\<lambda>_. writeShards wr)\<rparr>"

definition stream_io_of ::
  "rsStream \<Rightarrow> 'w writer_fun \<Rightarrow> (nat \<Rightarrow> readResult list \<Rightarrow> readResult list) \<Rightarrow> (nat \<Rightarrow> rs_error option list \<Rightarrow> rs_error option list) \<Rightarrow> 'w stream_io" where
  "stream_io_of s wr reads writes =
     \<lparr>io_read = (\<lambda>k. if concReads (st_o s) then cReadShards (reads k) else readShards),
      io_write = (\<lambda>k. if concWrites (st_o s) then cWriteShards wr (writes k) else writeShards wr)\<rparr>"

section \<open>Operations\<close>

text \<open>A \<open>for\<close> loop whose body returns or goes on.\<close>

partial_function (option) stream_loop :: "('s \<Rightarrow> 'a + 's) \<Rightarrow> 's \<Rightarrow> 'a option" where
  "stream_loop body st = (case body st of Inl res \<Rightarrow> Some res | Inr st \<Rightarrow> stream_loop body st)"

text \<open>The state of the loops: the slices, the readers, the writers, the number of bytes read, the encoder (whose
  cache changes).\<close>

record 'w stream_state =
  ss_all :: "buffer list"
  ss_in :: "reader option list"
  ss_out :: "'w option list"
  ss_read :: nat
  ss_r :: reedSolomon

definition encode_block_by :: "'w stream_io \<Rightarrow> 'w stream_state \<Rightarrow> (rs_error option \<times> 'w stream_state) + 'w stream_state" where
  "encode_block_by io st =
     (let d = dataShards (ss_r st);
          (err, ins, data) = io_read io (ss_read st) (take d (ss_all st)) (ss_in st);
          st = st\<lparr>ss_all := ins @ drop d (ss_all st), ss_in := data\<rparr>
      in case err of
           Some e \<Rightarrow>
             if e = io_EOF then Inl (if ss_read st = 0 then Some ErrShardNoData else None, st) else Inl (Some e, st)
         | None \<Rightarrow>
             let n = shardSize (map b_val ins)
             in case trimShards (drop d (ss_all st)) n of
                  Inl e \<Rightarrow> Inl (Some e, st)
                | Inr out \<Rightarrow>
                    let st = st\<lparr>ss_all := ins @ out, ss_read := ss_read st + n\<rparr>
                    in case Encode (ss_r st) (map b_val (ss_all st)) of
                         Inl e \<Rightarrow> Inl (Some e, st)
                       | Inr shards \<Rightarrow>
                           let all = map2 b_set shards (ss_all st);
                               (outs, err) = io_write io (ss_read st) (ss_out st) (map b_val (drop d all));
                               st = st\<lparr>ss_all := all, ss_out := outs\<rparr>
                           in (case err of Some e \<Rightarrow> Inl (Some e, st) | None \<Rightarrow> Inr st))"

definition stream_Encode_by ::
  "rsStream \<Rightarrow> 'w stream_io \<Rightarrow> bytes list \<Rightarrow> reader option list \<Rightarrow> 'w option list \<Rightarrow> (rs_error option \<times> 'w stream_state) option" where
  "stream_Encode_by s io pool data parity =
     (let st = \<lparr>ss_all = createSlice s pool, ss_in = data, ss_out = parity, ss_read = 0, ss_r = st_r s\<rparr>
      in if length data \<noteq> dataShards (st_r s) then Some (Some ErrTooFewShards, st)
         else if length parity \<noteq> parityShards (st_r s) then Some (Some ErrTooFewShards, st)
         else stream_loop (encode_block_by io) st)"

definition verify_block_by :: "unit stream_io \<Rightarrow> unit stream_state \<Rightarrow> (bool \<times> rs_error option) + unit stream_state" where
  "verify_block_by io st =
     (let (err, all, shards) = io_read io (ss_read st) (ss_all st) (ss_in st);
          st = st\<lparr>ss_all := all, ss_in := shards\<rparr>
      in case err of
           Some e \<Rightarrow>
             if e = io_EOF then Inl (if ss_read st = 0 then (False, Some ErrShardNoData) else (True, None)) else Inl (False, Some e)
         | None \<Rightarrow>
             let st = st\<lparr>ss_read := ss_read st + shardSize (map b_val all)\<rparr>
             in case Verify (ss_r st) (map b_val all) of
                  Inl e \<Rightarrow> Inl (False, Some e)
                | Inr ok \<Rightarrow> if \<not> ok then Inl (ok, None) else Inr st)"

definition stream_Verify_by :: "rsStream \<Rightarrow> unit stream_io \<Rightarrow> bytes list \<Rightarrow> reader option list \<Rightarrow> (bool \<times> rs_error option) option" where
  "stream_Verify_by s io pool shards =
     (if length shards \<noteq> totalShards (st_r s) then Some (False, Some ErrTooFewShards)
      else stream_loop (verify_block_by io)
             \<lparr>ss_all = createSlice s pool, ss_in = shards, ss_out = [], ss_read = 0, ss_r = st_r s\<rparr>)"

text \<open>The encoder reuses the memory of an empty slice as its buffer.\<close>

definition reconstruct_block_by ::
  "'w stream_io \<Rightarrow> bool \<Rightarrow> 'w stream_state \<Rightarrow> (rs_error option \<times> 'w stream_state) + 'w stream_state" where
  "reconstruct_block_by io reconDataOnly st =
     (let (err, all, valid) = io_read io (ss_read st) (ss_all st) (ss_in st);
          st = st\<lparr>ss_all := all, ss_in := valid\<rparr>
      in case err of
           Some e \<Rightarrow>
             if e = io_EOF then Inl (if ss_read st = 0 then Some ErrShardNoData else None, st) else Inl (Some e, st)
         | None \<Rightarrow>
             let n = shardSize (map b_val all); st = st\<lparr>ss_read := ss_read st + n\<rparr>
             in case trimShards all n of
                  Inl e \<Rightarrow> Inl (Some e, st)
                | Inr all \<Rightarrow>
                    case (if reconDataOnly then ReconstructData else Reconstruct) (ss_r st) (\<lambda>i. b_mem (all ! i)) (map b_val all) of
                      Inl e \<Rightarrow> Inl (Some e, st\<lparr>ss_all := all\<rparr>)
                    | Inr (r, shards) \<Rightarrow>
                        let all = map2 b_set shards all;
                            (outs, err) = io_write io (ss_read st) (ss_out st) (map b_val all);
                            st = st\<lparr>ss_all := all, ss_out := outs, ss_r := r\<rparr>
                        in (case err of Some e \<Rightarrow> Inl (Some e, st) | None \<Rightarrow> Inr st))"

definition stream_Reconstruct_by ::
  "rsStream \<Rightarrow> 'w stream_io \<Rightarrow> bytes list \<Rightarrow> reader option list \<Rightarrow> 'w option list \<Rightarrow> (rs_error option \<times> 'w stream_state) option" where
  "stream_Reconstruct_by s io pool valid fill =
     (let d = dataShards (st_r s); t = totalShards (st_r s);
          st = \<lparr>ss_all = createSlice s pool, ss_in = valid, ss_out = fill, ss_read = 0, ss_r = st_r s\<rparr>
      in if length valid \<noteq> t then Some (Some ErrTooFewShards, st)
         else if length fill \<noteq> t then Some (Some ErrTooFewShards, st)
         else if \<exists>i < t. valid ! i \<noteq> None \<and> fill ! i \<noteq> None then Some (Some ErrReconstructMismatch, st)
         else stream_loop (reconstruct_block_by io (\<forall>i < t. d \<le> i \<longrightarrow> fill ! i = None)) st)"

text \<open>\<open>io.MultiReader\<close> delivers one reader after the other, up to the first error that is not \<open>io.EOF\<close>. \<open>io.CopyN\<close> is one
  write of what there is: its error is the writer's, else the reader's when it delivers too little.\<close>

fun MultiReader :: "reader list \<Rightarrow> reader" where
  "MultiReader [] = open_reader []"
| "MultiReader (rd # rds) =
     (if rd_end rd = io_EOF
      then (MultiReader rds)\<lparr>rd_rest := rd_rest rd @ rd_rest (MultiReader rds)\<rparr>
      else rd)"

definition CopyN :: "'w writer_fun \<Rightarrow> 'w \<Rightarrow> reader \<Rightarrow> nat \<Rightarrow> 'w \<times> nat \<times> rs_error option \<times> reader" where
  "CopyN wr w rd n =
     (let got = take n (rd_rest rd); rd' = rd\<lparr>rd_rest := drop n (rd_rest rd)\<rparr>
      in if got = [] then (w, 0, if n = 0 then None else Some (rd_end rd), rd')
         else case wr w got of (w, m, err) \<Rightarrow>
           case err of
             Some e \<Rightarrow> (w, m, Some e, rd')
           | None \<Rightarrow>
               if m \<noteq> length got then (w, m, Some io_ErrShortWrite, rd')
               else (w, m, if m < n then Some (rd_end rd) else None, rd'))"

definition stream_Join ::
  "rsStream \<Rightarrow> 'w writer_fun \<Rightarrow> 'w \<Rightarrow> reader option list \<Rightarrow> nat \<Rightarrow> 'w \<times> rs_error option" where
  "stream_Join s wr dst shards outSize =
     (let d = dataShards (st_r s)
      in if length shards < d then (dst, Some ErrTooFewShards)
         else case find (\<lambda>i. shards ! i = None) [0..<d] of
             Some i \<Rightarrow> (dst, Some (StreamReadError ErrShardNoData i))
           | None \<Rightarrow>
               case CopyN wr dst (MultiReader (map the (take d shards))) outSize of (dst, n, err, _) \<Rightarrow>
                 (dst, if err = Some io_EOF then Some ErrShortData
                       else if err \<noteq> None then err
                       else if n \<noteq> outSize then Some ErrShortData
                       else None))"

text \<open>The loop of \<open>Split\<close>. The reader of zeros delivers what is asked of it, so the padding is what was taken
  beyond the data: \<open>zeros\<close> are the zeros left of the limit.\<close>

fun split_copy :: "'w writer_fun \<Rightarrow> nat \<Rightarrow> reader \<Rightarrow> 'w list \<Rightarrow> 'w list \<times> rs_error option \<times> reader" where
  "split_copy wr perShard data [] = ([], None, data)"
| "split_copy wr perShard data (w # ws) =
     (case CopyN wr w data perShard of (w, n, err, data) \<Rightarrow>
        if err \<noteq> None \<and> err \<noteq> Some io_EOF then (w # ws, err, data)
        else if n \<noteq> perShard then (w # ws, Some ErrShortData, data)
        else let (ws, err, data) = split_copy wr perShard data ws in (w # ws, err, data))"

definition stream_Split ::
  "rsStream \<Rightarrow> 'w writer_fun \<Rightarrow> reader \<Rightarrow> 'w option list \<Rightarrow> nat \<Rightarrow> 'w option list \<times> nat \<times> rs_error option" where
  "stream_Split s wr data dst sz =
     (let d = dataShards (st_r s)
      in if sz = 0 then (dst, 0, Some ErrShortData)
         else if length dst \<noteq> d then (dst, 0, Some ErrInvShardNum)
         else case find (\<lambda>i. dst ! i = None) [0..<d] of
             Some i \<Rightarrow> (dst, 0, Some (StreamWriteError ErrShardNoData i))
           | None \<Rightarrow>
               let perShard = (sz + d - 1) div d;
                   paddingSize = totalShards (st_r s) * perShard - sz;
                   src = MultiReader [data, open_reader (replicate paddingSize 0)];
                   (ws, err, rest) = split_copy wr perShard src (map the dst);
                   taken = length (rd_rest src) - length (rd_rest rest)
               in (map Some ws, taken - length (rd_rest data), err))"

section \<open>One shard after the other\<close>

text \<open>The operations as an encoder without the options for concurrent streams runs them.\<close>

definition encode_block :: "'w writer_fun \<Rightarrow> 'w stream_state \<Rightarrow> (rs_error option \<times> 'w stream_state) + 'w stream_state" where
  "encode_block wr = encode_block_by (in_turn wr)"

definition stream_Encode ::
  "rsStream \<Rightarrow> 'w writer_fun \<Rightarrow> bytes list \<Rightarrow> reader option list \<Rightarrow> 'w option list \<Rightarrow> (rs_error option \<times> 'w stream_state) option" where
  "stream_Encode s wr = stream_Encode_by s (in_turn wr)"

definition verify_block :: "unit stream_state \<Rightarrow> (bool \<times> rs_error option) + unit stream_state" where
  "verify_block = verify_block_by (in_turn (\<lambda>_ _. ((), 0, None)))"

definition stream_Verify :: "rsStream \<Rightarrow> bytes list \<Rightarrow> reader option list \<Rightarrow> (bool \<times> rs_error option) option" where
  "stream_Verify s = stream_Verify_by s (in_turn (\<lambda>_ _. ((), 0, None)))"

definition reconstruct_block ::
  "'w writer_fun \<Rightarrow> bool \<Rightarrow> 'w stream_state \<Rightarrow> (rs_error option \<times> 'w stream_state) + 'w stream_state" where
  "reconstruct_block wr = reconstruct_block_by (in_turn wr)"

definition stream_Reconstruct ::
  "rsStream \<Rightarrow> 'w writer_fun \<Rightarrow> bytes list \<Rightarrow> reader option list \<Rightarrow> 'w option list \<Rightarrow> (rs_error option \<times> 'w stream_state) option" where
  "stream_Reconstruct s wr = stream_Reconstruct_by s (in_turn wr)"

lemma in_turn_simps [simp]: "io_read (in_turn wr) k = readShards" "io_write (in_turn wr) k = writeShards wr"
  by (simp_all add: in_turn_def)

lemmas encode_block_eq = encode_block_def encode_block_by_def in_turn_simps
lemmas verify_block_eq = verify_block_def verify_block_by_def in_turn_simps
lemmas reconstruct_block_eq = reconstruct_block_def reconstruct_block_by_def in_turn_simps
lemmas stream_Encode_eq = stream_Encode_def stream_Encode_by_def encode_block_def [symmetric]
lemmas stream_Verify_eq = stream_Verify_def stream_Verify_by_def verify_block_def [symmetric]
lemmas stream_Reconstruct_eq = stream_Reconstruct_def stream_Reconstruct_by_def reconstruct_block_def [symmetric]

section \<open>Loops\<close>

text \<open>What a loop body promises: it keeps an invariant, it makes progress, and what it returns satisfies the
  postcondition.\<close>

locale stream_body =
  fixes body :: "'s \<Rightarrow> 'a + 's" and left :: "'s \<Rightarrow> nat" and inv :: "'s \<Rightarrow> bool" and post :: "'a \<Rightarrow> bool"
  assumes step: "inv st \<Longrightarrow> body st = Inr st' \<Longrightarrow> inv st' \<and> left st' < left st"
    and return: "inv st \<Longrightarrow> body st = Inl res \<Longrightarrow> post res"
begin

lemma loop_returns: "inv st \<Longrightarrow> \<exists>res. stream_loop body st = Some res \<and> post res"
proof (induction "left st" arbitrary: st rule: less_induct)
  case less
  show ?case
  proof (cases "body st")
    case (Inl res)
    then show ?thesis using return [OF less.prems] by (simp add: stream_loop.simps)
  next
    case (Inr st')
    then show ?thesis using less.hyps step [OF less.prems Inr] by (simp add: stream_loop.simps)
  qed
qed

end

definition bytes_left :: "reader option list \<Rightarrow> nat" where
  "bytes_left ins = (\<Sum>rd \<leftarrow> ins. case rd of None \<Rightarrow> 0 | Some rd \<Rightarrow> length (rd_rest rd))"

lemma ReadFull_consumes:
  "ReadFull rd n = (got, err, rd') \<Longrightarrow>
     length (rd_rest rd) = length (rd_rest rd') + length got \<and> (err = None \<longrightarrow> length got = n)"
  by (auto simp: ReadFull_def split: if_splits)

lemma readShards_loop_consumes:
  "readShards_loop sz i dst ins = (None, dst', ins') \<Longrightarrow> length ins = length dst \<Longrightarrow>
     bytes_left ins' + (\<Sum>b \<leftarrow> dst'. b_len b) = bytes_left ins"
proof (induction sz i dst ins arbitrary: dst' ins' rule: readShards_loop.induct)
  case (2 sz i b dst rd ins)
  obtain got err rd' where r: "ReadFull rd (b_len b) = (got, err, rd')" by (metis prod_cases3)
  show ?case
    using "2.prems" "2.IH" [OF r [symmetric] refl refl refl] ReadFull_consumes [OF r] r
    by (cases err) (auto simp: Let_def bytes_left_def b_put_def split: prod.splits if_splits)
qed (auto simp: bytes_left_def Let_def split: prod.splits if_splits)

lemma readShards_consumes:
  "readShards dst ins = (None, dst', ins') \<Longrightarrow> bytes_left ins' + (\<Sum>b \<leftarrow> dst'. b_len b) = bytes_left ins"
  using readShards_loop_consumes by (auto simp: readShards_def split: if_splits)

lemma readShards_progress:
  assumes "readShards dst ins = (None, dst', ins')" "b \<in> set dst'" "b_val b \<noteq> []"
  shows "bytes_left ins' < bytes_left ins"
proof -
  have "0 < b_len b" using assms(3) by (auto simp: b_val_def)
  moreover have "b_len b \<le> (\<Sum>b \<leftarrow> dst'. b_len b)" using assms(2) by (simp add: member_le_sum_list)
  ultimately show ?thesis using readShards_consumes [OF assms(1)] by linarith
qed

lemma readShards_loop_length:
  "readShards_loop sz i dst ins = (err, dst', ins') \<Longrightarrow> length dst' = length dst \<and> length ins' = length ins"
  by (induction sz i dst ins arbitrary: err dst' ins' rule: readShards_loop.induct)
    (auto simp: Let_def b_put_def split: prod.splits if_splits option.splits)

lemma readShards_length:
  "readShards dst ins = (err, dst', ins') \<Longrightarrow> length dst' = length dst \<and> length ins' = length ins"
  by (auto simp: readShards_def dest: readShards_loop_length split: if_splits)

lemma checkShards_nonempty: "checkShards shards nilok = None \<Longrightarrow> \<exists>x \<in> set shards. x \<noteq> []"
proof -
  have "shardSize shards \<noteq> 0 \<Longrightarrow> \<exists>x \<in> set shards. x \<noteq> []" by (induction shards) (auto split: if_splits)
  then show "checkShards shards nilok = None \<Longrightarrow> \<exists>x \<in> set shards. x \<noteq> []"
    by (auto simp: checkShards_def Let_def split: if_splits)
qed

lemma trimShards_nonempty:
  "trimShards bs n = Inr bs' \<Longrightarrow> b' \<in> set bs' \<Longrightarrow> b_val b' \<noteq> [] \<Longrightarrow> \<exists>b \<in> set bs. 0 < b_len b"
  by (induction bs n arbitrary: bs' rule: trimShards.induct)
    (auto simp: bind_res_Inr reslice_def b_val_def Let_def split: if_splits)

interpretation enc_ends: stream_body "encode_block wr" "\<lambda>st. bytes_left (ss_in st)"
  "\<lambda>st. 0 < dataShards (ss_r st)" "\<lambda>_. True" for wr
proof
  fix st st' :: "'a stream_state"
  assume d: "0 < dataShards (ss_r st)" and b: "encode_block wr st = Inr st'"
  let ?d = "dataShards (ss_r st)"
  obtain err ins data where rs: "readShards (take ?d (ss_all st)) (ss_in st) = (err, ins, data)" by (metis prod_cases3)
  obtain out shards where b': "err = None" "ss_r st' = ss_r st" "ss_in st' = data"
      "Encode (ss_r st) (map b_val (ins @ out)) = Inr shards"
      "trimShards (drop ?d (ins @ drop ?d (ss_all st))) (shardSize (map b_val ins)) = Inr out"
    using b rs by (auto simp: encode_block_eq Let_def split: option.splits if_splits sum.splits prod.splits)
  then have c: "checkShards (map b_val (ins @ out)) False = None" "length (ins @ out) = totalShards (ss_r st)"
    by (auto simp: Encode_def split: if_splits option.splits)
  have "ss_all st \<noteq> []"
  proof
    assume "ss_all st = []"
    then have "ins = []" using readShards_length [OF rs] by simp
    moreover have "out = []" using b'(5) \<open>ss_all st = []\<close> \<open>ins = []\<close> by simp
    ultimately show False using checkShards_nonempty [OF c(1)] by simp
  qed
  then have "ins \<noteq> []" using readShards_length [OF rs] d by (auto simp: min_def split: if_splits)
  then have hd: "hd ins \<in> set ins" by simp
  have "\<forall>x \<in> set ins. b_val x \<noteq> []" using c(1) by (force simp: checkShards_def Let_def split: if_splits)
  with hd have "hd ins \<in> set ins" "b_val (hd ins) \<noteq> []" by auto
  then show "0 < dataShards (ss_r st') \<and> bytes_left (ss_in st') < bytes_left (ss_in st)"
    using readShards_progress [of "take ?d (ss_all st)" "ss_in st" ins data "hd ins"] rs b' d by simp
qed simp

interpretation ver_ends: stream_body verify_block "\<lambda>st. bytes_left (ss_in st)" "\<lambda>_. True" "\<lambda>_. True"
proof
  fix st st' :: "unit stream_state"
  assume b: "verify_block st = Inr st'"
  obtain err all shards where rs: "readShards (ss_all st) (ss_in st) = (err, all, shards)" by (metis prod_cases3)
  have b': "err = None" "ss_in st' = shards" "Verify (ss_r st) (map b_val all) = Inr True"
    using b rs by (auto simp: verify_block_eq Let_def split: option.splits if_splits sum.splits)
  then have "checkShards (map b_val all) False = None"
    by (auto simp: Verify_def split: if_splits option.splits)
  then obtain x where "x \<in> set all" "b_val x \<noteq> []" using checkShards_nonempty by fastforce
  then show "True \<and> bytes_left (ss_in st') < bytes_left (ss_in st)"
    using readShards_progress rs b' by auto
qed simp

interpretation rec_ends: stream_body "reconstruct_block wr dataOnly" "\<lambda>st. bytes_left (ss_in st)" "\<lambda>_. True" "\<lambda>_. True"
  for wr dataOnly
proof
  fix st st' :: "'a stream_state"
  assume b: "reconstruct_block wr dataOnly st = Inr st'"
  obtain err all valid where rs: "readShards (ss_all st) (ss_in st) = (err, all, valid)" by (metis prod_cases3)
  obtain all' res where b': "err = None" "ss_in st' = valid" "trimShards all (shardSize (map b_val all)) = Inr all'"
      "reconstruct (ss_r st) (\<lambda>i. b_mem (all' ! i)) (map b_val all') dataOnly None = Inr res"
    using b rs
    by (auto simp: reconstruct_block_eq Let_def Reconstruct_def ReconstructData_def
        split: option.splits if_splits sum.splits prod.splits)
  then have "checkShards (map b_val all') True = None"
    by (auto simp: reconstruct_def Let_def split: if_splits option.splits)
  then obtain x where "x \<in> set all'" "b_val x \<noteq> []" using checkShards_nonempty by fastforce
  then obtain y where y: "y \<in> set all" "0 < b_len y" using trimShards_nonempty [OF b'(3)] by blast
  have "b_len y \<le> (\<Sum>b \<leftarrow> all. b_len b)" using y by (simp add: member_le_sum_list)
  then show "True \<and> bytes_left (ss_in st') < bytes_left (ss_in st)"
    using readShards_consumes [of "ss_all st" "ss_in st" all valid] rs b' y(2) by auto
qed simp

section \<open>Blocks of codewords\<close>

text \<open>Being a codeword is a property of every byte position.\<close>

definition byte_ok :: "reedSolomon \<Rightarrow> bytes list \<Rightarrow> nat \<Rightarrow> bool" where
  "byte_ok r c k \<longleftrightarrow> (\<forall>i < totalShards r. c ! i ! k = dot (rs_m r ! i) (column (take (dataShards r) c) k))"

lemma codeword_bytes:
  assumes "rs_wf r"
  shows "codeword r n c \<longleftrightarrow> 0 < n \<and> length c = totalShards r \<and> lens_eq n c \<and> (\<forall>k < n. byte_ok r c k)"
proof
  assume c: "codeword r n c"
  then show "0 < n \<and> length c = totalShards r \<and> lens_eq n c \<and> (\<forall>k < n. byte_ok r c k)"
    using codeword_lens [OF assms c] codeword_byte [OF assms c] by (auto simp: byte_ok_def)
next
  assume a: "0 < n \<and> length c = totalShards r \<and> lens_eq n c \<and> (\<forall>k < n. byte_ok r c k)"
  have m: "length (rs_m r) = totalShards r" using rs_wf_matrix(1) [OF assms] by (simp add: coding_matrix_def wf_mat_def)
  have "c = code_ref (rs_m r) (take (dataShards r) c) n"
  proof (rule nth_equalityI)
    fix i assume i: "i < length c"
    then have "length (c ! i) = n" using a by (simp add: lens_eq_nth)
    then show "c ! i = code_ref (rs_m r) (take (dataShards r) c) n ! i"
      using a i m by (auto simp: code_ref_nth byte_ok_def intro!: nth_equalityI)
  qed (use a m in simp)
  then show "codeword r n c" using a by (simp add: codeword_def)
qed

definition block :: "nat \<Rightarrow> nat \<Rightarrow> bytes list \<Rightarrow> bytes list" where
  "block k n c = map (\<lambda>s. take n (drop k s)) c"

lemma length_block [simp]: "length (block k n c) = length c"
  by (simp add: block_def)

lemma block_take: "take m (block k n c) = block k n (take m c)"
  by (simp add: block_def take_map)

lemma block_drop: "drop m (block k n c) = block k n (drop m c)"
  by (simp add: block_def drop_map)

lemma lens_eq_block: "lens_eq N c \<Longrightarrow> k + n \<le> N \<Longrightarrow> lens_eq n (block k n c)"
  by (auto simp: lens_eq_def block_def)

lemma byte_ok_block:
  assumes "rs_wf r" "length c = totalShards r" "lens_eq N c" "k + n \<le> N" "j < n"
  shows "byte_ok r (block k n c) j \<longleftrightarrow> byte_ok r c (k + j)"
proof -
  have nth: "take n (drop k x) ! j = x ! (k + j)" if "x \<in> set c" for x
    using that assms(3-5) by (simp add: lens_eq_def)
  have "column (take (dataShards r) (block k n c)) j = column (take (dataShards r) c) (k + j)"
    using nth by (auto simp: column_def block_def take_map dest: in_set_takeD)
  then show ?thesis
    using assms(2) nth by (simp add: byte_ok_def block_def)
qed

lemma codeword_block:
  assumes "rs_wf r" "codeword r N c" "k + n \<le> N" "0 < n"
  shows "codeword r n (block k n c)"
  using assms codeword_bytes [OF assms(1)] byte_ok_block [OF assms(1) _ _ assms(3)] lens_eq_block [of N c k n]
  by simp

lemma codeword_unique:
  "codeword r n c \<Longrightarrow> codeword r n c' \<Longrightarrow> take (dataShards r) c = take (dataShards r) c' \<Longrightarrow> c = c'"
  unfolding codeword_def by metis

lemma Encode_block:
  assumes r: "rs_wf r" and cw: "codeword r N cw" and n: "k + n \<le> N" "0 < n"
    and outs: "length outs = parityShards r" "lens_eq n outs"
  shows "Encode r (block k n (take (dataShards r) cw) @ outs) = Inr (block k n cw)"
proof -
  let ?d = "dataShards r"
  have len: "length cw = totalShards r" "lens_eq N cw" using codeword_lens [OF r cw] by simp_all
  have t: "totalShards r = ?d + parityShards r" using r by (simp add: rs_wf_def)
  have "lens_eq n (block k n (take ?d cw) @ outs)" "length (block k n (take ?d cw) @ outs) = totalShards r"
    using len outs t n lens_eq_block [OF lens_eq_take [OF len(2)] n(1)] by simp_all
  then obtain c where c: "Encode r (block k n (take ?d cw) @ outs) = Inr c" "codeword r n c"
      "take ?d c = take ?d (block k n (take ?d cw) @ outs)"
    using Encode_codeword [OF r] n(2) by blast
  have "take ?d c = take ?d (block k n cw)" using c(3) len t by (simp add: block_take)
  then show ?thesis using c codeword_unique [OF c(2) codeword_block [OF r cw n]] by simp
qed

section \<open>Reading files of one length\<close>

text \<open>The readers of a set of shard files, some of them missing, when \<open>k\<close> bytes of each have been read.\<close>

definition files_at :: "nat \<Rightarrow> bytes option list \<Rightarrow> reader option list" where
  "files_at k cs = map (map_option (\<lambda>c. open_reader (drop k c))) cs"

definition load :: "nat \<Rightarrow> nat \<Rightarrow> buffer \<Rightarrow> bytes option \<Rightarrow> buffer" where
  "load k n b x = (case x of None \<Rightarrow> b\<lparr>b_len := 0\<rparr> | Some c \<Rightarrow> b_set (take n (drop k c)) b)"

definition shard_files :: "nat \<Rightarrow> bytes option list \<Rightarrow> bool" where
  "shard_files N cs \<longleftrightarrow> (\<forall>c. Some c \<in> set cs \<longrightarrow> length c = N)"

lemma b_val_set [simp]: "b_val (b_set v b) = v"
  by (simp add: b_val_def b_set_def b_put_def)

lemma b_val_empty [simp]: "b_val (b\<lparr>b_len := 0\<rparr>) = []"
  by (simp add: b_val_def)

lemma b_set_simps [simp]:
  "b_len (b_set v b) = length v"
  "length v \<le> length (b_mem b) \<Longrightarrow> length (b_mem (b_set v b)) = length (b_mem b)"
  by (simp_all add: b_set_def b_put_def)

lemma b_put_full: "b_len b = length v \<Longrightarrow> b_put v b = b_set v b"
  by (simp add: b_set_def b_put_def)

lemma readShards_loop_files:
  assumes "length dst = length cs" "\<forall>(b, x) \<in> set (zip dst cs). x \<noteq> None \<longrightarrow> b_len b = m" "0 < m"
    and "shard_files N cs" "k \<le> N" "n = min m (N - k)" "sz = -1 \<or> sz = int n"
  shows "readShards_loop sz i dst (files_at k cs) =
    (if n = 0 \<and> (sz = 0 \<or> (\<exists>c. Some c \<in> set cs)) then Some io_EOF else None,
     map2 (load k n) dst cs, files_at (k + n) cs)"
  using assms(1,2,4,7)
proof (induction dst cs arbitrary: sz i rule: list_induct2)
  case Nil
  then show ?case using assms(6) by (auto simp: files_at_def)
next
  case (Cons b dst x cs)
  have "shard_files N cs" using Cons.prems(2) by (simp add: shard_files_def)
  note IH = Cons.IH [OF _ this]
  show ?case
  proof (cases x)
    case None
    then show ?thesis using IH [of sz "i + 1"] Cons.prems by (auto simp: files_at_def load_def)
  next
    case (Some c)
    then have c: "b_len b = m" "length c = N" using Cons.prems by (auto simp: shard_files_def)
    show ?thesis
    proof (cases "m \<le> N - k")
      case True
      then have n: "n = m" "0 < n" using assms(3,6) by auto
      then have "ReadFull (open_reader (drop k c)) (b_len b) = (take n (drop k c), None, open_reader (drop (k + n) c))"
        using c True by (simp add: ReadFull_def open_reader_def add.commute)
      moreover have "b_put (take n (drop k c)) b = b_set (take n (drop k c)) b"
        using c n True by (intro b_put_full) simp
      ultimately show ?thesis
        using IH [of sz "i + 1"] Cons.prems Some n by (auto simp: files_at_def load_def Let_def)
    next
      case False
      then have n: "n = N - k" "k + n = N" using assms(5,6) by auto
      have "ReadFull (open_reader (drop k c)) (b_len b) =
          (take n (drop k c), Some (if n \<noteq> 0 then io_ErrUnexpectedEOF else io_EOF), open_reader (drop (k + n) c))"
        using c False n by (auto simp: ReadFull_def open_reader_def)
      moreover have "(b_put (take n (drop k c)) b)\<lparr>b_len := n\<rparr> = b_set (take n (drop k c)) b"
        using c n by (simp add: b_set_def)
      ultimately show ?thesis
        using IH [of "int n" "i + 1"] Cons.prems Some c n by (auto simp: files_at_def load_def Let_def)
    qed
  qed
qed

lemma readShards_files:
  assumes "length dst = length cs" "\<forall>(b, x) \<in> set (zip dst cs). x \<noteq> None \<longrightarrow> b_len b = m" "0 < m"
    and "shard_files N cs" "k \<le> N" "n = min m (N - k)"
  shows "readShards dst (files_at k cs) =
    (if n = 0 \<and> (\<exists>c. Some c \<in> set cs) then Some io_EOF else None, map2 (load k n) dst cs, files_at (k + n) cs)"
  using readShards_loop_files [OF assms, of "-1" 0] assms(1) by (simp add: readShards_def files_at_def)

definition block_opt :: "nat \<Rightarrow> nat \<Rightarrow> bytes option list \<Rightarrow> bytes list" where
  "block_opt k n cs = map (\<lambda>x. case x of None \<Rightarrow> [] | Some c \<Rightarrow> take n (drop k c)) cs"

lemma load_vals: "length dst = length cs \<Longrightarrow> map b_val (map2 (load k n) dst cs) = block_opt k n cs"
  by (induction dst cs rule: list_induct2) (auto simp: block_opt_def load_def split: option.splits)

lemma block_opt_Some: "block_opt k n (map Some cs) = block k n cs"
  by (simp add: block_opt_def block_def)

lemma trimShards_ok:
  "\<forall>b \<in> set bs. n \<le> length (b_mem b) \<Longrightarrow>
     trimShards bs n = Inr (map (\<lambda>b. b\<lparr>b_len := (if b_len b = 0 then 0 else n)\<rparr>) bs)"
  by (induction bs) (auto simp: reslice_def Let_def)

lemma writeShards_files:
  assumes "length outs = length vs"
  shows "writeShards buffer_write outs vs = (map2 (\<lambda>w v. map_option (\<lambda>w. w @ v) w) outs vs, None)"
proof -
  have "writeShards_loop buffer_write i outs vs = (map2 (\<lambda>w v. map_option (\<lambda>w. w @ v) w) outs vs, None)" for i
    using assms
  proof (induction outs vs arbitrary: i rule: list_induct2)
    case (Cons w outs v vs)
    then show ?case by (cases w) (auto simp: buffer_write_def)
  qed simp
  then show ?thesis using assms by (simp add: writeShards_def)
qed

section \<open>Encoding a stream\<close>

text \<open>Slices ready for the next block.\<close>

definition ready_slices :: "nat \<Rightarrow> nat \<Rightarrow> buffer list \<Rightarrow> bool" where
  "ready_slices t m bs \<longleftrightarrow> length bs = t \<and> 0 < m \<and> (\<forall>b \<in> set bs. b_len b = m \<and> m \<le> length (b_mem b))"

lemma ready_createSlice:
  assumes "pool_ok s pool" "0 < streamBS (st_o s)"
  shows "ready_slices (totalShards (st_r s)) (nat (streamBS (st_o s))) (createSlice s pool)"
proof -
  have "n \<le> (n + 63) div 64 * 64" for n :: nat by presburger
  then show ?thesis using assms by (auto simp: ready_slices_def createSlice_def pool_ok_def)
qed

definition enc_inv :: "reedSolomon \<Rightarrow> nat \<Rightarrow> bytes list \<Rightarrow> bytes list \<Rightarrow> bytes stream_state \<Rightarrow> bool" where
  "enc_inv r N cw ws st \<longleftrightarrow> rs_wf r \<and> codeword r N cw \<and> length ws = parityShards r \<and> ss_r st = r \<and>
     (\<exists>k m. k \<le> N \<and> ss_read st = k \<and> ready_slices (totalShards r) m (ss_all st)
        \<and> ss_in st = files_at k (map Some (take (dataShards r) cw))
        \<and> ss_out st = map2 (\<lambda>w c. Some (w @ take k c)) ws (drop (dataShards r) cw))"

lemma slices_load:
  assumes "ready_slices t m bs" "length cs = t" "lens_eq N cs" "k \<le> N" "n = min m (N - k)" "0 < n"
  shows "ready_slices t n (map2 (load k n) bs (map Some cs))"
proof -
  have "b_len (b_set (take n (drop k c)) b) = n \<and> n \<le> length (b_mem (b_set (take n (drop k c)) b))"
    if "b \<in> set bs" "c \<in> set cs" for b c
  proof -
    have "length (take n (drop k c)) = n" using that(2) assms(3-5) by (simp add: lens_eq_def)
    moreover have "n \<le> length (b_mem b)" using that(1) assms(1,5) by (fastforce simp: ready_slices_def)
    ultimately show ?thesis by simp
  qed
  then show ?thesis using assms(1,2,6) by (auto simp: ready_slices_def load_def zip_map2 elim!: in_set_zipE)
qed

lemma readShards_all:
  assumes "ready_slices t m bs" "length cs = t" "0 < t" "lens_eq N cs" "k \<le> N" "n = min m (N - k)"
  shows "readShards bs (files_at k (map Some cs)) =
    (if n = 0 then Some io_EOF else None, map2 (load k n) bs (map Some cs), files_at (k + n) (map Some cs))"
proof -
  have "\<exists>c. Some c \<in> set (map Some cs)" using assms(2,3) by (cases cs) auto
  moreover have "\<forall>(b, x) \<in> set (zip bs (map Some cs)). x \<noteq> None \<longrightarrow> b_len b = m"
    using assms(1) by (auto simp: ready_slices_def dest: set_zip_leftD)
  moreover have "shard_files N (map Some cs)" using assms(4) by (auto simp: shard_files_def lens_eq_def)
  moreover have "length bs = length (map Some cs)" "0 < m" using assms(1,2) by (simp_all add: ready_slices_def)
  ultimately show ?thesis
    using readShards_files [of bs "map Some cs" m N k n] assms(5,6) by simp
qed

lemma trimShards_slices:
  assumes "ready_slices t m bs" "n \<le> m"
  shows "trimShards bs n = Inr (map (\<lambda>b. b\<lparr>b_len := n\<rparr>) bs)"
proof -
  have "\<forall>b \<in> set bs. n \<le> length (b_mem b)" "\<forall>b \<in> set bs. b_len b \<noteq> 0"
    using assms by (fastforce simp: ready_slices_def)+
  then show ?thesis using trimShards_ok [of bs n] by (auto intro!: map_cong)
qed

lemma slices_set:
  assumes "ready_slices t n bs" "length vs = t" "lens_eq n vs"
  shows "ready_slices t n (map2 b_set vs bs)"
  using assms by (auto simp: ready_slices_def lens_eq_def set_zip)

lemma vals_set: "length vs = length bs \<Longrightarrow> map b_val (map2 b_set vs bs) = vs"
  by (induction vs bs rule: list_induct2) auto

lemma encode_step:
  assumes "enc_inv r N cw ws st"
  shows "case encode_block buffer_write st of
    Inl res \<Rightarrow> fst res = None \<and> ss_out (snd res) = map2 (\<lambda>w c. Some (w @ c)) ws (drop (dataShards r) cw)
  | Inr st' \<Rightarrow> enc_inv r N cw ws st'"
proof -
  let ?d = "dataShards r" and ?t = "totalShards r"
  have r: "rs_wf r" and cw: "codeword r N cw" and ws: "length ws = parityShards r" and sr: "ss_r st = r"
    using assms by (simp_all add: enc_inv_def)
  obtain k m where k: "k \<le> N" "ss_read st = k" and sl: "ready_slices ?t m (ss_all st)"
      and "in": "ss_in st = files_at k (map Some (take ?d cw))"
      and out: "ss_out st = map2 (\<lambda>w c. Some (w @ take k c)) ws (drop ?d cw)"
    using assms by (auto simp: enc_inv_def)
  have len: "length cw = ?t" "lens_eq N cw" "0 < N" using codeword_lens [OF r cw] by simp_all
  have t: "?t = ?d + parityShards r" "0 < ?d" using r by (simp_all add: rs_wf_def)
  have sl': "ready_slices ?d m (take ?d (ss_all st))" "ready_slices (parityShards r) m (drop ?d (ss_all st))"
    using sl t by (auto simp: ready_slices_def dest: in_set_takeD in_set_dropD)
  define n where "n = min m (N - k)"
  define ins where "ins = map2 (load k n) (take ?d (ss_all st)) (map Some (take ?d cw))"
  have read: "readShards (take ?d (ss_all st)) (ss_in st) =
      (if n = 0 then Some io_EOF else None, ins, files_at (k + n) (map Some (take ?d cw)))"
    unfolding "in" ins_def using readShards_all [OF sl'(1) _ t(2) _ k(1) n_def] len t by (simp add: lens_eq_take)
  show ?thesis
  proof (cases "n = 0")
    case True
    then have "k = N" using k sl by (auto simp: n_def ready_slices_def)
    moreover have "map2 (\<lambda>w c. Some (w @ take N c)) ws (drop ?d cw) = map2 (\<lambda>w c. Some (w @ c)) ws (drop ?d cw)"
      using len(2) by (auto simp: list_eq_iff_nth_eq lens_eq_def)
    ultimately show ?thesis using read True k len sr out by (auto simp: encode_block_eq Let_def)
  next
    case False
    have lens: "length (take ?d cw) = ?d" "lens_eq N (take ?d cw)" using len t by (simp_all add: lens_eq_take)
    have ins: "ready_slices ?d n ins" unfolding ins_def using slices_load [OF sl'(1) lens k(1) n_def] False by simp
    have vals: "map b_val ins = block k n (take ?d cw)"
      unfolding ins_def using load_vals [of "take ?d (ss_all st)" "map Some (take ?d cw)"] sl'(1) lens by (simp add: ready_slices_def block_opt_Some)
    have kn: "k + n \<le> N" "n \<le> m" using k by (auto simp: n_def)
    have size: "shardSize (map b_val ins) = n"
      unfolding vals using lens_eq_block [OF lens(2) kn(1)] lens(1) t(2)
      by (intro shardSize_lens) (auto simp: block_def)
    define outs where "outs = map (\<lambda>b. b\<lparr>b_len := n\<rparr>) (drop ?d (ss_all st))"
    have trim: "trimShards (drop ?d (ss_all st)) n = Inr outs"
      unfolding outs_def by (rule trimShards_slices [OF sl'(2) kn(2)])
    have outs: "ready_slices (parityShards r) n outs"
      using sl'(2) kn(2) False by (auto simp: ready_slices_def outs_def)
    then have "lens_eq n (map b_val outs)" "length (map b_val outs) = parityShards r"
      by (auto simp: lens_eq_def ready_slices_def b_val_def)
    then have enc: "Encode r (map b_val (ins @ outs)) = Inr (block k n cw)"
      using Encode_block [OF r cw kn(1)] False vals by simp
    define all where "all = map2 b_set (block k n cw) (ins @ outs)"
    have all0: "ready_slices ?t n (ins @ outs)" using ins outs t by (auto simp: ready_slices_def)
    have av: "map b_val (drop ?d all) = block k n (drop ?d cw)"
      using vals_set [of "block k n cw" "ins @ outs"] all0 len by (simp add: all_def ready_slices_def drop_map [symmetric] block_drop)
    have wr: "writeShards buffer_write (ss_out st) (block k n (drop ?d cw)) =
        (map2 (\<lambda>w c. Some (w @ take (k + n) c)) ws (drop ?d cw), None)"
      using ws len t by (subst writeShards_files)
        (auto simp: out block_def take_add list_eq_iff_nth_eq)
    have drop_all: "drop ?d (ins @ drop ?d (ss_all st)) = drop ?d (ss_all st)" using ins by (simp add: ready_slices_def)
    have step: "encode_block buffer_write st = Inr (st\<lparr>ss_all := all, ss_in := files_at (k + n) (map Some (take ?d cw)),
        ss_read := k + n, ss_out := map2 (\<lambda>w c. Some (w @ take (k + n) c)) ws (drop ?d cw)\<rparr>)"
      using False trim enc av wr size k(2) sr read drop_all by (simp add: encode_block_eq Let_def all_def [symmetric])
    show ?thesis
      unfolding step using r cw ws sr kn(1) slices_set [OF all0, of "block k n cw", folded all_def] len lens_eq_block [OF len(2) kn(1)]
      by (auto simp: enc_inv_def)
  qed
qed

interpretation enc_ok: stream_body "encode_block buffer_write" "\<lambda>st. bytes_left (ss_in st)" "enc_inv r N cw ws"
  "\<lambda>res. fst res = None \<and> ss_out (snd res) = map2 (\<lambda>w c. Some (w @ c)) ws (drop (dataShards r) cw)" for r N cw ws
proof
  fix st st' assume i: "enc_inv r N cw ws st" and b: "encode_block buffer_write st = Inr st'"
  have "0 < dataShards (ss_r st)" using i by (auto simp: enc_inv_def rs_wf_def)
  then show "enc_inv r N cw ws st' \<and> bytes_left (ss_in st') < bytes_left (ss_in st)"
    using encode_step [OF i] enc_ends.step [OF _ b] b by simp
next
  fix st res assume "enc_inv r N cw ws st" "encode_block buffer_write st = Inl res"
  then show "fst res = None \<and> ss_out (snd res) = map2 (\<lambda>w c. Some (w @ c)) ws (drop (dataShards r) cw)"
    using encode_step [of r N cw ws st] by simp
qed

section \<open>Verifying a stream\<close>

definition ver_inv :: "reedSolomon \<Rightarrow> nat \<Rightarrow> bytes list \<Rightarrow> unit stream_state \<Rightarrow> bool" where
  "ver_inv r N cs st \<longleftrightarrow> rs_wf r \<and> length cs = totalShards r \<and> lens_eq N cs \<and> 0 < N \<and> ss_r st = r \<and>
     (\<exists>k m. k \<le> N \<and> ss_read st = k \<and> ready_slices (totalShards r) m (ss_all st) \<and> ss_in st = files_at k (map Some cs)
        \<and> (\<forall>j < k. byte_ok r cs j))"

lemma verify_step:
  assumes "ver_inv r N cs st"
  shows "case verify_block st of Inl res \<Rightarrow> res = (codeword r N cs, None) | Inr st' \<Rightarrow> ver_inv r N cs st'"
proof -
  let ?t = "totalShards r"
  have r: "rs_wf r" and len: "length cs = ?t" "lens_eq N cs" "0 < N" and sr: "ss_r st = r"
    using assms by (simp_all add: ver_inv_def)
  obtain k m where k: "k \<le> N" "ss_read st = k" and sl: "ready_slices ?t m (ss_all st)"
      and "in": "ss_in st = files_at k (map Some cs)" and ok: "\<forall>j < k. byte_ok r cs j"
    using assms by (auto simp: ver_inv_def)
  have t: "0 < ?t" using r by (simp add: rs_wf_def)
  define n where "n = min m (N - k)"
  define all where "all = map2 (load k n) (ss_all st) (map Some cs)"
  have read: "readShards (ss_all st) (ss_in st) = (if n = 0 then Some io_EOF else None, all, files_at (k + n) (map Some cs))"
    unfolding "in" all_def by (rule readShards_all [OF sl len(1) t len(2) k(1) n_def])
  show ?thesis
  proof (cases "n = 0")
    case True
    then have "k = N" using k sl by (auto simp: n_def ready_slices_def)
    then have "codeword r N cs" using codeword_bytes [OF r] len ok by simp
    then show ?thesis using read True k len \<open>k = N\<close> by (auto simp: verify_block_eq Let_def)
  next
    case False
    have kn: "k + n \<le> N" "0 < n" using k False by (auto simp: n_def)
    have vals: "map b_val all = block k n cs"
      unfolding all_def using load_vals [of "ss_all st" "map Some cs"] sl len by (simp add: ready_slices_def block_opt_Some)
    have bl: "lens_eq n (block k n cs)" "block k n cs \<noteq> []" using lens_eq_block [OF len(2) kn(1)] len t by (auto simp: block_def)
    have ver: "Verify r (map b_val all) = Inr (codeword r n (block k n cs))"
      unfolding vals using Verify_codeword [OF r] bl len kn by simp
    have step: "verify_block st = (if codeword r n (block k n cs)
        then Inr (st\<lparr>ss_all := all, ss_in := files_at (k + n) (map Some cs), ss_read := k + n\<rparr>) else Inl (False, None))"
      using False read ver sr k(2) shardSize_lens [OF bl] vals by (simp add: verify_block_eq Let_def)
    have all: "ready_slices ?t n all" unfolding all_def by (rule slices_load [OF sl len(1,2) k(1) n_def kn(2)])
    show ?thesis
    proof (cases "codeword r n (block k n cs)")
      case True
      have "byte_ok r cs j" if "j < k + n" for j
      proof (cases "j < k")
        case False
        then have "byte_ok r (block k n cs) (j - k)" using True codeword_bytes [OF r] that by simp
        then show ?thesis using byte_ok_block [OF r len(1,2) kn(1), of "j - k"] False that by simp
      qed (use ok in simp)
      then show ?thesis using step True r len sr kn all by (auto simp: ver_inv_def)
    next
      case False
      then have "\<not> codeword r N cs" using codeword_block [OF r _ kn] by blast
      then show ?thesis using step False by simp
    qed
  qed
qed

interpretation ver_ok: stream_body verify_block "\<lambda>st. bytes_left (ss_in st)" "ver_inv r N cs"
  "\<lambda>res. res = (codeword r N cs, None)" for r N cs
proof
  fix st st' assume "ver_inv r N cs st" "verify_block st = Inr st'"
  then show "ver_inv r N cs st' \<and> bytes_left (ss_in st') < bytes_left (ss_in st)"
    using verify_step [of r N cs st] ver_ends.step [of st st'] by simp
next
  fix st res assume "ver_inv r N cs st" "verify_block st = Inl res"
  then show "res = (codeword r N cs, None)" using verify_step [of r N cs st] by simp
qed

section \<open>Reconstructing a stream\<close>

text \<open>Shard files of which some are missing, and the writers for the missing ones that are wanted.\<close>

definition survivors :: "reedSolomon \<Rightarrow> bytes list \<Rightarrow> bytes option list \<Rightarrow> bool" where
  "survivors r cw cs \<longleftrightarrow> length cs = totalShards r \<and> (\<forall>i < totalShards r. cs ! i = None \<or> cs ! i = Some (cw ! i))
     \<and> dataShards r \<le> length (filter (\<lambda>i. cs ! i \<noteq> None) [0..<totalShards r])"

definition default_matrix :: "reedSolomon \<Rightarrow> bool" where
  "default_matrix r \<longleftrightarrow> totalShards r \<le> 256 \<and> buildMatrix (int (dataShards r)) (int (totalShards r)) = Inr (rs_m r)"

definition fills :: "reedSolomon \<Rightarrow> bytes option list \<Rightarrow> bytes option list \<Rightarrow> bool" where
  "fills r cs fill \<longleftrightarrow> length fill = totalShards r \<and> (\<forall>i < totalShards r. fill ! i \<noteq> None \<longrightarrow> cs ! i = None)"

definition rec_slices :: "nat \<Rightarrow> bytes option list \<Rightarrow> buffer list \<Rightarrow> bool" where
  "rec_slices m cs bs \<longleftrightarrow> length bs = length cs \<and> 0 < m
     \<and> (\<forall>i < length cs. m \<le> length (b_mem (bs ! i)) \<and> (cs ! i \<noteq> None \<longrightarrow> b_len (bs ! i) = m))"

definition rec_inv ::
  "reedSolomon \<Rightarrow> nat \<Rightarrow> bytes list \<Rightarrow> bytes option list \<Rightarrow> bytes option list \<Rightarrow> bytes stream_state \<Rightarrow> bool" where
  "rec_inv r N cw cs fill st \<longleftrightarrow> codeword r N cw \<and> survivors r cw cs \<and> default_matrix r \<and> fills r cs fill \<and>
     (\<exists>tree. ss_r st = r\<lparr>rs_tree := tree\<rparr>) \<and> rs_wf (ss_r st) \<and> rs_wf r \<and>
     (\<exists>k m. k \<le> N \<and> ss_read st = k \<and> rec_slices m cs (ss_all st) \<and> ss_in st = files_at k cs
        \<and> ss_out st = map2 (\<lambda>f c. map_option (\<lambda>w. w @ take k c) f) fill cw)"

definition data_only :: "reedSolomon \<Rightarrow> bytes option list \<Rightarrow> bool" where
  "data_only r fill \<longleftrightarrow> (\<forall>i < totalShards r. dataShards r \<le> i \<longrightarrow> fill ! i = None)"

lemma survivors_block:
  assumes "rs_wf r" "codeword r N cw" "survivors r cw cs" "k + n \<le> N" "0 < n"
  shows "erased (block k n cw) (block_opt k n cs)" "dataShards r \<le> present_count (block_opt k n cs)"
    and "i < totalShards r \<Longrightarrow> block_opt k n cs ! i \<noteq> [] \<longleftrightarrow> cs ! i \<noteq> None"
proof -
  have len: "length cw = totalShards r" "lens_eq N cw" using codeword_lens [OF assms(1,2)] by simp_all
  have s: "length cs = totalShards r" "\<forall>i < totalShards r. cs ! i = None \<or> cs ! i = Some (cw ! i)"
    using assms(3) by (simp_all add: survivors_def)
  show "erased (block k n cw) (block_opt k n cs)"
    using s len by (auto simp: erased_def block_def block_opt_def split: option.splits)
  have ne: "block_opt k n cs ! i \<noteq> [] \<longleftrightarrow> cs ! i \<noteq> None" if "i < totalShards r" for i
  proof -
    have "length (cw ! i) = N" using that len by (simp add: lens_eq_nth)
    then show ?thesis using s that assms(4,5) by (auto simp: block_opt_def split: option.splits)
  qed
  then show "i < totalShards r \<Longrightarrow> block_opt k n cs ! i \<noteq> [] \<longleftrightarrow> cs ! i \<noteq> None" by blast
  have "present_count (block_opt k n cs) = length (filter (\<lambda>i. cs ! i \<noteq> None) [0..<totalShards r])"
    using ne s(1) unfolding present_count_def
    by (intro arg_cong [where f = length] filter_cong) (auto simp: block_opt_def)
  then show "dataShards r \<le> present_count (block_opt k n cs)" using assms(3) by (simp add: survivors_def)
qed

lemma codeword_tree: "codeword (r\<lparr>rs_tree := tree\<rparr>) n c = codeword r n c"
  by (simp add: codeword_def)

lemma reconstruct_survivors:
  assumes r: "rs_wf r" "rs_wf (r\<lparr>rs_tree := tree\<rparr>)" "default_matrix r" and cw: "codeword r N cw" "survivors r cw cs"
    and n: "k + n \<le> N" "0 < n"
  shows "\<exists>tree'. reconstruct (r\<lparr>rs_tree := tree\<rparr>) spare (block_opt k n cs) dataOnly None =
      Inr (r\<lparr>rs_tree := tree'\<rparr>, restored (block k n cw) (block_opt k n cs) (dataShards r) dataOnly)
    \<and> rs_wf (r\<lparr>rs_tree := tree'\<rparr>)"
proof -
  note s = survivors_block [OF r(1) cw n]
  have c: "codeword (r\<lparr>rs_tree := tree\<rparr>) n (block k n cw)"
    using codeword_block [OF r(1) cw(1) n] by (simp add: codeword_tree)
  have "length (block_opt k n cs) = totalShards r" using cw(2) by (simp add: block_opt_def survivors_def)
  then have "\<exists>v. Invert (map ((!) (rs_m r)) (rows_used (block_opt k n cs) (dataShards r))) = Inr v"
    using default_rows_invertible [OF r(1)] r(3) s(2) by (simp add: default_matrix_def)
  then show ?thesis
    using reconstruct_cases [OF r(2) c, of "block_opt k n cs" spare dataOnly] s by auto
qed

lemma rec_slices_load:
  assumes "rec_slices m cs bs" "shard_files N cs" "k \<le> N" "n = min m (N - k)" "0 < n"
  shows "rec_slices n cs (map2 (load k n) bs cs)"
    and "trimShards (map2 (load k n) bs cs) n = Inr (map2 (load k n) bs cs)"
proof -
  have each: "n \<le> length (b_mem (load k n b x)) \<and> (x \<noteq> None \<longrightarrow> b_len (load k n b x) = n)
      \<and> (b_len (load k n b x) = 0 \<or> b_len (load k n b x) = n)"
    if b: "b \<in> set bs" and x: "x \<in> set cs" for b x
  proof -
    have "n \<le> length (b_mem b)" using b assms(1,4) by (fastforce simp: rec_slices_def in_set_conv_nth)
    moreover have "length (take n (drop k c)) = n" if "x = Some c" for c
      using x that assms(2-4) by (auto simp: shard_files_def)
    ultimately show ?thesis by (auto simp: load_def split: option.splits)
  qed
  have len: "length bs = length cs" using assms(1) by (simp add: rec_slices_def)
  show "rec_slices n cs (map2 (load k n) bs cs)"
    using each [OF nth_mem nth_mem] len assms(5) by (auto simp: rec_slices_def)
  have "(\<lambda>b. b\<lparr>b_len := (if b_len b = 0 then 0 else n)\<rparr>) b = b" if "b \<in> set (map2 (load k n) bs cs)" for b
  proof -
    have "b_len b = 0 \<or> b_len b = n" using that each by (auto elim!: in_set_zipE)
    then show ?thesis by auto
  qed
  moreover have "\<forall>b \<in> set (map2 (load k n) bs cs). n \<le> length (b_mem b)" using each by (auto elim!: in_set_zipE)
  ultimately show "trimShards (map2 (load k n) bs cs) n = Inr (map2 (load k n) bs cs)"
    using trimShards_ok [of "map2 (load k n) bs cs" n] by (simp add: map_idI)
qed

lemma restored_nth:
  fixes dataOnly :: bool
  assumes "rs_wf r" "codeword r N cw" "survivors r cw cs" "k + n \<le> N" "0 < n" "i < totalShards r"
  defines "v \<equiv> restored (block k n cw) (block_opt k n cs) (dataShards r) dataOnly ! i"
  shows "length v \<le> n" "cs ! i \<noteq> None \<Longrightarrow> length v = n" "dataOnly \<longrightarrow> i < dataShards r \<Longrightarrow> v = block k n cw ! i"
proof -
  have len: "length cw = totalShards r" "lens_eq N cw" using codeword_lens [OF assms(1,2)] by simp_all
  have bl: "length (block k n cw ! i) = n" using lens_eq_nth [OF lens_eq_block [OF len(2) assms(4)], of i] len assms(6) by simp
  have s: "block_opt k n cs ! i = [] \<or> block_opt k n cs ! i = block k n cw ! i" "block_opt k n cs ! i \<noteq> [] \<longleftrightarrow> cs ! i \<noteq> None"
    using survivors_block [OF assms(1-5)] len assms(6) by (auto simp: erased_def)
  have v: "v = (if dataOnly \<and> dataShards r \<le> i then block_opt k n cs ! i else block k n cw ! i)"
    using len assms(6) by (simp add: v_def restored_def)
  show "length v \<le> n" "cs ! i \<noteq> None \<Longrightarrow> length v = n" "dataOnly \<longrightarrow> i < dataShards r \<Longrightarrow> v = block k n cw ! i"
    using v bl s by auto
qed

lemma rec_slices_set:
  assumes "rec_slices n cs bs" "length vs = length cs" "\<forall>i < length cs. length (vs ! i) \<le> n \<and> (cs ! i \<noteq> None \<longrightarrow> length (vs ! i) = n)"
  shows "rec_slices n cs (map2 b_set vs bs)"
proof -
  have "length (b_mem (b_set (vs ! i) (bs ! i))) = length (b_mem (bs ! i))" if "i < length cs" for i
    using assms that by (intro b_set_simps) (auto simp: rec_slices_def intro: le_trans)
  then show ?thesis using assms by (auto simp: rec_slices_def)
qed

lemma fill_written:
  assumes "rs_wf r" "codeword r N cw" "survivors r cw cs" "fills r cs fill" "k + n \<le> N" "0 < n"
  shows "writeShards buffer_write (map2 (\<lambda>f c. map_option (\<lambda>w. w @ take k c) f) fill cw)
      (restored (block k n cw) (block_opt k n cs) (dataShards r) (data_only r fill)) =
    (map2 (\<lambda>f c. map_option (\<lambda>w. w @ take (k + n) c) f) fill cw, None)"
proof -
  have len: "length cw = totalShards r" "length fill = totalShards r"
    using codeword_lens [OF assms(1,2)] assms(4) by (simp_all add: fills_def)
  have "map_option (\<lambda>w. w @ restored (block k n cw) (block_opt k n cs) (dataShards r) (data_only r fill) ! i)
      (map_option (\<lambda>w. w @ take k (cw ! i)) (fill ! i)) = map_option (\<lambda>w. w @ take (k + n) (cw ! i)) (fill ! i)"
    if i: "i < totalShards r" for i
  proof (cases "fill ! i")
    case (Some w)
    then have "data_only r fill \<longrightarrow> i < dataShards r" using i by (auto simp: data_only_def not_less [symmetric])
    then show ?thesis
      using restored_nth(3) [OF assms(1-3,5,6) i] Some i len by (simp add: block_def take_add)
  qed simp
  then show ?thesis
    using len by (subst writeShards_files) (auto simp: restored_def list_eq_iff_nth_eq)
qed

lemma reconstruct_step:
  assumes "rec_inv r N cw cs fill st"
  shows "case reconstruct_block buffer_write (data_only r fill) st of
    Inl res \<Rightarrow> fst res = None \<and> ss_out (snd res) = map2 (\<lambda>f c. map_option (\<lambda>w. w @ c) f) fill cw
  | Inr st' \<Rightarrow> rec_inv r N cw cs fill st'"
proof -
  let ?d = "dataShards r" and ?t = "totalShards r"
  have r: "rs_wf r" "default_matrix r" and cw: "codeword r N cw" "survivors r cw cs" and fl: "fills r cs fill"
    using assms by (simp_all add: rec_inv_def)
  obtain tree where tree: "ss_r st = r\<lparr>rs_tree := tree\<rparr>" "rs_wf (r\<lparr>rs_tree := tree\<rparr>)" using assms by (auto simp: rec_inv_def)
  obtain k m where k: "k \<le> N" "ss_read st = k" and sl: "rec_slices m cs (ss_all st)" and "in": "ss_in st = files_at k cs"
      and out: "ss_out st = map2 (\<lambda>f c. map_option (\<lambda>w. w @ take k c) f) fill cw"
    using assms by (auto simp: rec_inv_def)
  have len: "length cw = ?t" "lens_eq N cw" "0 < N" using codeword_lens [OF r(1) cw(1)] by simp_all
  have cs: "length cs = ?t" "\<forall>i < ?t. cs ! i = None \<or> cs ! i = Some (cw ! i)" using cw(2) by (simp_all add: survivors_def)
  have "length c = N" if c: "Some c \<in> set cs" for c
  proof -
    obtain i where "i < ?t" "cs ! i = Some c" using c cs(1) unfolding in_set_conv_nth by auto
    then have "c = cw ! i" "i < length cw" using cs(2) len(1) by fastforce+
    then show ?thesis using lens_eq_nth [OF len(2)] by simp
  qed
  then have sf: "shard_files N cs" by (simp add: shard_files_def)
  define n where "n = min m (N - k)"
  define all where "all = map2 (load k n) (ss_all st) cs"
  have "0 < ?d" using r(1) by (simp add: rs_wf_def)
  then have "filter (\<lambda>i. cs ! i \<noteq> None) [0..<?t] \<noteq> []" using cw(2) by (auto simp: survivors_def)
  then obtain i where "i < ?t" "cs ! i \<noteq> None" by (auto simp: filter_empty_conv)
  then have some: "\<exists>c. Some c \<in> set cs" using cs(1) by (metis nth_mem option.exhaust)
  have read: "readShards (ss_all st) (ss_in st) = (if n = 0 then Some io_EOF else None, all, files_at (k + n) cs)"
  proof -
    have "\<forall>(b, x) \<in> set (zip (ss_all st) cs). x \<noteq> None \<longrightarrow> b_len b = m" "length (ss_all st) = length cs" "0 < m"
      using sl by (auto simp: rec_slices_def set_zip)
    then show ?thesis
      unfolding "in" all_def using readShards_files [of "ss_all st" cs m N k n] sf k(1) some n_def by simp
  qed
  show ?thesis
  proof (cases "n = 0")
    case True
    then have "k = N" using k sl by (auto simp: n_def rec_slices_def)
    moreover have "map2 (\<lambda>f c. map_option (\<lambda>w. w @ take N c) f) fill cw = map2 (\<lambda>f c. map_option (\<lambda>w. w @ c) f) fill cw"
      using len(2) by (auto simp: list_eq_iff_nth_eq lens_eq_def)
    ultimately show ?thesis using read True k len out by (auto simp: reconstruct_block_eq Let_def)
  next
    case False
    have kn: "k + n \<le> N" "0 < n" using k False by (auto simp: n_def)
    note sb = survivors_block [OF r(1) cw kn]
    have vals: "map b_val all = block_opt k n cs"
      unfolding all_def using load_vals sl by (simp add: rec_slices_def)
    have size: "shardSize (map b_val all) = n"
      unfolding vals using erased_sizes(1) [OF sb(1) lens_eq_block [OF len(2) kn(1)] kn(2)] sb(2) \<open>0 < ?d\<close> by simp
    note slices = rec_slices_load [OF sl sf k(1) n_def kn(2), folded all_def]
    define shards where "shards = restored (block k n cw) (block_opt k n cs) ?d (data_only r fill)"
    obtain tree' where rec: "reconstruct (r\<lparr>rs_tree := tree\<rparr>) (\<lambda>i. b_mem (all ! i)) (block_opt k n cs) (data_only r fill) None =
        Inr (r\<lparr>rs_tree := tree'\<rparr>, shards)" "rs_wf (r\<lparr>rs_tree := tree'\<rparr>)"
      using reconstruct_survivors [OF r(1) tree(2) r(2) cw kn] shards_def by blast
    define all' where "all' = map2 b_set shards all"
    have "length shards = length cs" using len cs by (simp add: shards_def restored_def)
    then have all': "map b_val all' = shards" "rec_slices n cs all'"
      using restored_nth(1,2) [OF r(1) cw kn, of _ "data_only r fill"] cs slices(1) vals_set [of shards all]
      by (auto simp: all'_def shards_def rec_slices_def [of n cs all] intro!: rec_slices_set)
    have rec': "(if data_only r fill then ReconstructData else Reconstruct) (ss_r st) (\<lambda>i. b_mem (all ! i)) (map b_val all) =
        Inr (r\<lparr>rs_tree := tree'\<rparr>, shards)"
      using rec(1) tree(1) vals by (cases "data_only r fill") (simp_all add: Reconstruct_def ReconstructData_def)
    have step: "reconstruct_block buffer_write (data_only r fill) st = Inr (st\<lparr>ss_all := all', ss_in := files_at (k + n) cs,
        ss_read := k + n, ss_out := map2 (\<lambda>f c. map_option (\<lambda>w. w @ take (k + n) c) f) fill cw, ss_r := r\<lparr>rs_tree := tree'\<rparr>\<rparr>)"
      using False read slices(2) rec' fill_written [OF r(1) cw fl kn, folded shards_def] all'(1) size k(2) out
      by (simp add: reconstruct_block_eq Let_def all'_def [symmetric] del: if_split map_map)
    show ?thesis
      unfolding step using r cw fl rec(2) kn all'(2) by (auto simp: rec_inv_def)
  qed
qed

interpretation rec_ok: stream_body "reconstruct_block buffer_write (data_only r fill)" "\<lambda>st. bytes_left (ss_in st)"
  "rec_inv r N cw cs fill"
  "\<lambda>res. fst res = None \<and> ss_out (snd res) = map2 (\<lambda>f c. map_option (\<lambda>w. w @ c) f) fill cw" for r N cw cs fill
proof
  fix st st' assume "rec_inv r N cw cs fill st" "reconstruct_block buffer_write (data_only r fill) st = Inr st'"
  then show "rec_inv r N cw cs fill st' \<and> bytes_left (ss_in st') < bytes_left (ss_in st)"
    using reconstruct_step [of r N cw cs fill st] rec_ends.step [of buffer_write "data_only r fill" st st'] by simp
next
  fix st res assume "rec_inv r N cw cs fill st" "reconstruct_block buffer_write (data_only r fill) st = Inl res"
  then show "fst res = None \<and> ss_out (snd res) = map2 (\<lambda>f c. map_option (\<lambda>w. w @ c) f) fill cw"
    using reconstruct_step [of r N cw cs fill st] by simp
qed

section \<open>The operations on files\<close>

text \<open>The options that make the source read or write the shards concurrently are off: the loops above are
  those of \<open>readShards\<close> and \<open>writeShards\<close>.\<close>

definition sequential :: "rsStream \<Rightarrow> bool" where
  "sequential s \<longleftrightarrow> \<not> concReads (st_o s) \<and> \<not> concWrites (st_o s)"

definition stream_ok :: "rsStream \<Rightarrow> bytes list \<Rightarrow> bool" where
  "stream_ok s pool \<longleftrightarrow> rs_wf (st_r s) \<and> 0 < streamBS (st_o s) \<and> pool_ok s pool"

lemma files_at_0: "files_at 0 (map Some cs) = map (\<lambda>x. Some (open_reader x)) cs"
  by (simp add: files_at_def)

lemma stream_Encode_files:
  assumes "stream_ok s pool" "codeword (st_r s) N cw" "length ws = parityShards (st_r s)"
  obtains st where "stream_Encode s buffer_write pool (map (\<lambda>x. Some (open_reader x)) (take (dataShards (st_r s)) cw)) (map Some ws) =
      Some (None, st)" "ss_out st = map2 (\<lambda>w c. Some (w @ c)) ws (drop (dataShards (st_r s)) cw)"
proof -
  let ?r = "st_r s" let ?d = "dataShards ?r"
  let ?st = "\<lparr>ss_all = createSlice s pool, ss_in = map (\<lambda>x. Some (open_reader x)) (take ?d cw), ss_out = map Some ws,
      ss_read = 0, ss_r = ?r\<rparr>"
  have r: "rs_wf ?r" "ready_slices (totalShards ?r) (nat (streamBS (st_o s))) (createSlice s pool)"
    using assms(1) ready_createSlice by (simp_all add: stream_ok_def)
  have len: "length cw = totalShards ?r" "totalShards ?r = ?d + parityShards ?r"
    using codeword_lens(1) [OF r(1) assms(2)] r(1) by (auto simp: rs_wf_def)
  have "map Some ws = map2 (\<lambda>w c. Some w) ws (drop ?d cw)" using len assms(3) by (simp add: list_eq_iff_nth_eq)
  then have "enc_inv ?r N cw ws ?st"
    unfolding enc_inv_def using r assms(2,3) by (auto simp: files_at_0)
  then obtain res where res: "stream_loop (encode_block buffer_write) ?st = Some res" "fst res = None"
      "ss_out (snd res) = map2 (\<lambda>w c. Some (w @ c)) ws (drop ?d cw)"
    using enc_ok.loop_returns by blast
  moreover have "stream_Encode s buffer_write pool (ss_in ?st) (map Some ws) = Some res"
    using res(1) len assms(3) by (simp add: stream_Encode_eq Let_def)
  ultimately show ?thesis using that [of "snd res"] by (cases res) auto
qed

lemma stream_Verify_files:
  assumes "stream_ok s pool" "length cs = totalShards (st_r s)" "lens_eq N cs" "0 < N"
  shows "stream_Verify s pool (map (\<lambda>x. Some (open_reader x)) cs) = Some (codeword (st_r s) N cs, None)"
proof -
  let ?st = "\<lparr>ss_all = createSlice s pool, ss_in = map (\<lambda>x. Some (open_reader x)) cs, ss_out = [], ss_read = 0, ss_r = st_r s\<rparr>"
  have "ver_inv (st_r s) N cs ?st"
    using assms ready_createSlice by (auto simp: ver_inv_def stream_ok_def files_at_0)
  then show ?thesis
    using ver_ok.loop_returns [of "st_r s" N cs ?st] assms(2) by (auto simp: stream_Verify_eq)
qed

text \<open>A missing shard file makes \<open>Verify\<close> fail on the first block.\<close>

lemma stream_Verify_missing:
  assumes "stream_ok s pool" "shard_files N cs" "length cs = totalShards (st_r s)" "None \<in> set cs" "0 < N"
  shows "\<exists>e. stream_Verify s pool (files_at 0 cs) = Some (False, Some e)"
proof -
  let ?r = "st_r s" and ?m = "nat (streamBS (st_o s))"
  let ?st = "\<lparr>ss_all = createSlice s pool, ss_in = files_at 0 cs, ss_out = [], ss_read = 0, ss_r = ?r\<rparr>"
  have sl: "ready_slices (totalShards ?r) ?m (createSlice s pool)" "0 < ?m"
    using assms(1) ready_createSlice by (auto simp: stream_ok_def)
  define n where "n = min ?m N"
  define all where "all = map2 (load 0 n) (createSlice s pool) cs"
  have "\<forall>(b, x) \<in> set (zip (createSlice s pool) cs). x \<noteq> None \<longrightarrow> b_len b = ?m"
    using sl(1) by (auto simp: ready_slices_def dest: set_zip_leftD)
  then have read: "readShards (ss_all ?st) (ss_in ?st) = (None, all, files_at n cs)"
    using readShards_files [of "createSlice s pool" cs ?m N 0 n] sl assms(2,3,5) by (simp add: ready_slices_def n_def all_def)
  have vals: "map b_val all = block_opt 0 n cs" unfolding all_def using load_vals sl(1) assms(3) by (simp add: ready_slices_def)
  have "[] \<in> set (map b_val all)" unfolding vals using assms(4) by (force simp: block_opt_def)
  then obtain e where "checkShards (map b_val all) False = Some e"
    by (cases "checkShards (map b_val all) False") (auto simp: checkShards_def Let_def split: if_splits)
  then have "\<exists>e. Verify ?r (map b_val all) = Inl e" by (auto simp: Verify_def)
  then obtain e where "verify_block ?st = Inl (False, Some e)" using read by (auto simp: verify_block_eq Let_def)
  then show ?thesis using assms(3) by (simp add: stream_Verify_eq stream_loop.simps files_at_def)
qed

lemma stream_Reconstruct_files:
  assumes "stream_ok s pool" "default_matrix (st_r s)" "codeword (st_r s) N cw" "survivors (st_r s) cw cs" "fills (st_r s) cs fill"
  obtains st where "stream_Reconstruct s buffer_write pool (files_at 0 cs) fill = Some (None, st)"
    "ss_out st = map2 (\<lambda>f c. map_option (\<lambda>w. w @ c) f) fill cw"
proof -
  let ?r = "st_r s" let ?t = "totalShards ?r"
  let ?st = "\<lparr>ss_all = createSlice s pool, ss_in = files_at 0 cs, ss_out = fill, ss_read = 0, ss_r = ?r\<rparr>"
  have r: "rs_wf ?r" "ready_slices ?t (nat (streamBS (st_o s))) (createSlice s pool)"
    using assms(1) ready_createSlice by (simp_all add: stream_ok_def)
  have len: "length cw = ?t" "length cs = ?t" "length fill = ?t"
    using codeword_lens(1) [OF r(1) assms(3)] assms(4,5) by (simp_all add: survivors_def fills_def)
  have "fill = map2 (\<lambda>f c. map_option (\<lambda>w. w) f) fill cw" using len by (simp add: list_eq_iff_nth_eq option.map_ident)
  moreover have "rec_slices (nat (streamBS (st_o s))) cs (createSlice s pool)"
    using r(2) len by (auto simp: ready_slices_def rec_slices_def)
  moreover have "\<exists>tree. ?r = ?r\<lparr>rs_tree := tree\<rparr>" by (intro exI [of _ "rs_tree ?r"]) simp
  ultimately have "rec_inv ?r N cw cs fill ?st"
    unfolding rec_inv_def using r(1) assms(2-5) by auto
  then obtain res where res: "stream_loop (reconstruct_block buffer_write (data_only ?r fill)) ?st = Some res" "fst res = None"
      "ss_out (snd res) = map2 (\<lambda>f c. map_option (\<lambda>w. w @ c) f) fill cw"
    using rec_ok.loop_returns by blast
  moreover have "stream_Reconstruct s buffer_write pool (files_at 0 cs) fill = Some res"
    using res(1) len assms(5) by (auto simp: stream_Reconstruct_eq Let_def data_only_def fills_def files_at_def)
  ultimately show ?thesis using that [of "snd res"] by (cases res) auto
qed

lemma CopyN_buffer:
  "0 < n \<Longrightarrow> n \<le> length (rd_rest rd) \<Longrightarrow>
     CopyN buffer_write w rd n = (w @ take n (rd_rest rd), n, None, rd\<lparr>rd_rest := drop n (rd_rest rd)\<rparr>)"
  by (auto simp: CopyN_def buffer_write_def Let_def)

lemma split_copy_chunks:
  assumes "0 < per" "length ws * per \<le> length (rd_rest rd)"
  shows "split_copy buffer_write per rd ws =
    (map2 (@) ws (chunks per (length ws) (rd_rest rd)), None, rd\<lparr>rd_rest := drop (length ws * per) (rd_rest rd)\<rparr>)"
  using assms(2)
proof (induction ws arbitrary: rd)
  case (Cons w ws)
  then show ?case using Cons.IH [of "rd\<lparr>rd_rest := drop per (rd_rest rd)\<rparr>"] assms(1) by (simp add: CopyN_buffer chunks_Suc add.commute)
qed simp

text \<open>The bytes per shard for an input said to have \<open>sz\<close> bytes. The padding \<open>Split\<close> provides is that of all shards, the
  parity included, so it covers an input that is too short.\<close>

definition per_shard :: "nat \<Rightarrow> nat \<Rightarrow> nat" where
  "per_shard d sz = (sz + d - 1) div d"

lemma per_shard_bounds:
  assumes "0 < d" "0 < sz"
  shows "0 < per_shard d sz" "sz \<le> d * per_shard d sz" "d * per_shard d sz - sz < d * per_shard d sz"
  using div_up_pos [of d sz] div_up_bound [of d sz] assms by (auto simp: per_shard_def mult.commute)

lemma stream_Split_padded:
  assumes r: "0 < dataShards (st_r s)" "dataShards (st_r s) \<le> totalShards (st_r s)"
    and n: "0 < sz" "length data \<le> sz" "sz - length data \<le> (totalShards (st_r s) - dataShards (st_r s)) * per_shard (dataShards (st_r s)) sz"
  defines "d \<equiv> dataShards (st_r s)"
  shows "stream_Split s buffer_write (open_reader data) (replicate d (Some [])) sz =
    (map Some (chunks (per_shard d sz) d (padded (d * per_shard d sz) data)), d * per_shard d sz - length data, None)"
proof -
  let ?per = "per_shard d sz" and ?t = "totalShards (st_r s)" and ?n = "length data"
  note per = per_shard_bounds [OF r(1) n(1), folded d_def]
  have t: "?t * ?per = d * ?per + (?t - d) * ?per" using r(2) by (simp add: d_def diff_mult_distrib)
  define src where "src = MultiReader [open_reader data, open_reader (replicate (?t * ?per - sz) 0)]"
  have src: "rd_rest src = data @ replicate (?t * ?per - sz) 0" by (simp add: open_reader_def src_def)
  have need: "?n \<le> d * ?per" "d * ?per - ?n \<le> ?t * ?per - sz"
    using per(2) n(2,3) unfolding t d_def [symmetric] by linarith+
  then have len: "d * ?per \<le> length (rd_rest src)" unfolding src by simp
  have "chunks ?per d (rd_rest src) = chunks ?per d (take (d * ?per) (rd_rest src))"
    by (rule chunks_take [symmetric]) simp
  also have "take (d * ?per) (rd_rest src) = padded (d * ?per) data"
    unfolding src padded_def using need(1) min.absorb1 [OF need(2)] by simp
  finally have ch: "chunks ?per d (rd_rest src) = chunks ?per d (padded (d * ?per) data)" .
  have "map2 (@) (replicate d []) (chunks ?per d xs) = chunks ?per d xs" for xs :: bytes
    by (simp add: list_eq_iff_nth_eq)
  then have copy: "split_copy buffer_write ?per src (replicate d []) =
      (chunks ?per d (padded (d * ?per) data), None, src\<lparr>rd_rest := drop (d * ?per) (rd_rest src)\<rparr>)"
    using split_copy_chunks [of ?per "replicate d []" src] per(1) len ch by simp
  have "find (\<lambda>i. replicate d (Some ([] :: bytes)) ! i = None) [0..<d] = None" by (auto simp: find_None_iff)
  moreover have "map the (replicate d (Some ([] :: bytes))) = replicate d []" by simp
  moreover have "length (rd_rest src) - (length (rd_rest src) - d * ?per) - ?n = d * ?per - ?n" using len by simp
  ultimately show ?thesis
    using copy n(1) unfolding stream_Split_def per_shard_def [symmetric] d_def [symmetric] Let_def
    by (simp add: src_def [symmetric] del: MultiReader.simps map_replicate) (simp add: open_reader_def)
qed

lemma stream_Split_files:
  assumes "0 < dataShards (st_r s)" "dataShards (st_r s) \<le> totalShards (st_r s)" "data \<noteq> []"
  defines "d \<equiv> dataShards (st_r s)"
  defines "per \<equiv> per_shard d (length data)"
  shows "stream_Split s buffer_write (open_reader data) (replicate d (Some [])) (length data) =
    (map Some (chunks per d (padded (d * per) data)), d * per - length data, None)"
  using stream_Split_padded [OF assms(1,2), of "length data" data] assms(3) by (simp add: d_def per_def)

lemma MultiReader_files: "MultiReader (map open_reader cs) = open_reader (concat cs)"
  by (induction cs) (simp_all add: open_reader_def)

lemma stream_Join_files:
  assumes "dataShards (st_r s) \<le> length cs" "n = length (concat (take (dataShards (st_r s)) cs))" "0 < n"
  shows "stream_Join s buffer_write w (map (\<lambda>x. Some (open_reader x)) cs) n = (w @ concat (take (dataShards (st_r s)) cs), None)"
proof -
  let ?d = "dataShards (st_r s)"
  have "find (\<lambda>i. map (\<lambda>x. Some (open_reader x)) cs ! i = None) [0..<?d] = None" using assms(1) by (auto simp: find_None_iff)
  moreover have "map the (take ?d (map (\<lambda>x. Some (open_reader x)) cs)) = map open_reader (take ?d cs)" by (simp add: take_map)
  ultimately show ?thesis
    using assms CopyN_buffer [of n "open_reader (concat (take ?d cs))" w]
    by (simp add: stream_Join_def MultiReader_files) (simp add: open_reader_def)
qed

text \<open>With every file present and none wanted, the loop of \<open>Reconstruct\<close> only reads.\<close>

definition noop_inv :: "reedSolomon \<Rightarrow> nat \<Rightarrow> bytes list \<Rightarrow> bytes stream_state \<Rightarrow> bool" where
  "noop_inv r N cs st \<longleftrightarrow> rs_wf r \<and> length cs = totalShards r \<and> lens_eq N cs \<and> 0 < N \<and> ss_r st = r \<and>
     ss_out st = replicate (totalShards r) None \<and>
     (\<exists>k m. k \<le> N \<and> ss_read st = k \<and> ready_slices (totalShards r) m (ss_all st) \<and> ss_in st = files_at k (map Some cs))"

lemma reconstruct_complete:
  assumes "length s = totalShards r" "0 < totalShards r" "lens_eq n s" "0 < n"
  shows "reconstruct r spare s dataOnly None = Inr (r, s)"
proof -
  have "s \<noteq> []" using assms(1,2) by auto
  moreover have "\<forall>i < totalShards r. s ! i \<noteq> []" using assms lens_eq_nth by fastforce
  then have "length (filter (\<lambda>i. s ! i \<noteq> []) [0..<totalShards r]) = totalShards r" by (simp add: filter_length_eq_upt)
  ultimately show ?thesis using checkShards_lens [OF assms(3) _ assms(4), of True] assms(1) by (simp add: reconstruct_def Let_def)
qed

lemma noop_step:
  assumes "noop_inv r N cs st"
  shows "case reconstruct_block buffer_write True st of
    Inl res \<Rightarrow> fst res = None \<and> ss_out (snd res) = replicate (totalShards r) None | Inr st' \<Rightarrow> noop_inv r N cs st'"
proof -
  let ?t = "totalShards r"
  have r: "rs_wf r" and len: "length cs = ?t" "lens_eq N cs" "0 < N" and sr: "ss_r st = r" "ss_out st = replicate ?t None"
    using assms by (simp_all add: noop_inv_def)
  obtain k m where k: "k \<le> N" "ss_read st = k" and sl: "ready_slices ?t m (ss_all st)" and "in": "ss_in st = files_at k (map Some cs)"
    using assms by (auto simp: noop_inv_def)
  have t: "0 < ?t" using r by (simp add: rs_wf_def)
  define n where "n = min m (N - k)"
  define all where "all = map2 (load k n) (ss_all st) (map Some cs)"
  have read: "readShards (ss_all st) (ss_in st) = (if n = 0 then Some io_EOF else None, all, files_at (k + n) (map Some cs))"
    unfolding "in" all_def by (rule readShards_all [OF sl len(1) t len(2) k(1) n_def])
  show ?thesis
  proof (cases "n = 0")
    case True
    then have "k = N" using k sl by (auto simp: n_def ready_slices_def)
    then show ?thesis using read True k len sr by (auto simp: reconstruct_block_eq Let_def)
  next
    case False
    have kn: "k + n \<le> N" "0 < n" using k False by (auto simp: n_def)
    have all: "ready_slices ?t n all" unfolding all_def by (rule slices_load [OF sl len(1,2) k(1) n_def kn(2)])
    have vals: "map b_val all = block k n cs"
      unfolding all_def using load_vals [of "ss_all st" "map Some cs"] sl len by (simp add: ready_slices_def block_opt_Some)
    have bl: "lens_eq n (block k n cs)" "block k n cs \<noteq> []" using lens_eq_block [OF len(2) kn(1)] len t by (auto simp: block_def)
    have trim: "trimShards all n = Inr all"
      unfolding trimShards_slices [OF all order_refl] using all by (auto simp: ready_slices_def intro!: map_idI)
    have rec: "ReconstructData (ss_r st) (\<lambda>i. b_mem (all ! i)) (map b_val all) = Inr (r, block k n cs)"
      unfolding vals ReconstructData_def sr(1) by (rule reconstruct_complete [OF _ t bl(1) kn(2)]) (simp add: len)
    define all' where "all' = map2 b_set (block k n cs) all"
    have all': "map b_val all' = block k n cs" "ready_slices ?t n all'"
      using vals_set [of "block k n cs" all] slices_set [OF all _ bl(1)] all len by (simp_all add: all'_def ready_slices_def)
    have "writeShards buffer_write (replicate ?t None) (block k n cs) = (replicate ?t None, None)"
      using len by (subst writeShards_files) (simp_all add: list_eq_iff_nth_eq)
    then have "reconstruct_block buffer_write True st =
        Inr (st\<lparr>ss_all := all', ss_in := files_at (k + n) (map Some cs), ss_read := k + n\<rparr>)"
      using False read trim rec shardSize_lens [OF bl] vals all'(1) sr k(2)
      by (simp add: reconstruct_block_eq Let_def all'_def [symmetric] del: map_map)
    then show ?thesis using r len sr kn all'(2) by (auto simp: noop_inv_def)
  qed
qed

interpretation rec_noop: stream_body "reconstruct_block buffer_write True" "\<lambda>st. bytes_left (ss_in st)" "noop_inv r N cs"
  "\<lambda>res. fst res = None \<and> ss_out (snd res) = replicate (totalShards r) None" for r N cs
proof
  fix st st' assume "noop_inv r N cs st" "reconstruct_block buffer_write True st = Inr st'"
  then show "noop_inv r N cs st' \<and> bytes_left (ss_in st') < bytes_left (ss_in st)"
    using noop_step [of r N cs st] rec_ends.step [of buffer_write True st st'] by simp
next
  fix st res assume "noop_inv r N cs st" "reconstruct_block buffer_write True st = Inl res"
  then show "fst res = None \<and> ss_out (snd res) = replicate (totalShards r) None" using noop_step [of r N cs st] by simp
qed

lemma stream_Reconstruct_complete:
  assumes "stream_ok s pool" "length cs = totalShards (st_r s)" "lens_eq N cs" "0 < N"
  obtains st where "stream_Reconstruct s buffer_write pool (files_at 0 (map Some cs)) (replicate (totalShards (st_r s)) None) = Some (None, st)"
    "ss_out st = replicate (totalShards (st_r s)) None"
proof -
  let ?r = "st_r s" let ?t = "totalShards ?r"
  let ?st = "\<lparr>ss_all = createSlice s pool, ss_in = files_at 0 (map Some cs), ss_out = replicate ?t None, ss_read = 0, ss_r = ?r\<rparr>"
  have "noop_inv ?r N cs ?st"
    using assms ready_createSlice by (auto simp: noop_inv_def stream_ok_def)
  then obtain res where res: "stream_loop (reconstruct_block buffer_write True) ?st = Some res" "fst res = None"
      "ss_out (snd res) = replicate ?t None" using rec_noop.loop_returns by blast
  moreover have "stream_Reconstruct s buffer_write pool (files_at 0 (map Some cs)) (replicate ?t None) = Some res"
    using res(1) assms(2) by (auto simp: stream_Reconstruct_eq Let_def files_at_def)
  ultimately show ?thesis using that [of "snd res"] by (cases res) auto
qed

section \<open>The encoder NewStream builds\<close>

lemma NewStream_wf:
  assumes "NewStream c (int d) (int p) opts = Inr s" "0 < p" "set opts \<subseteq> package_options" "1 \<le> GOMAXPROCS c"
  shows "rs_wf (st_r s) \<and> dataShards (st_r s) = d \<and> parityShards (st_r s) = p \<and> totalShards (st_r s) = d + p \<and> 0 < streamBS (st_o s)"
proof -
  obtain opts' where o: "New c (int d) (int p) opts' = Inr (RS (st_r s))" "set opts' \<subseteq> package_options" "0 < streamBS (st_o s)"
    using assms(1,3) package_options.intros(2)
    by (auto simp: NewStream_def Let_def bind_res_Inr split: if_splits Encoder.splits)
  then show ?thesis using New_wf [OF o(1) assms(2) o(2) assms(4)] by (auto simp: rs_wf_def)
qed

lemma NewStream_default:
  assumes "0 < d" "0 < p" "d + p \<le> 256" "1 \<le> GOMAXPROCS c"
  obtains s where "NewStream c (int d) (int p) [] = Inr s" "default_matrix (st_r s)" "sequential s"
    "streamBS (st_o s) = 4 * 1024 * 1024"
proof -
  let ?opts = "[WithAutoGoroutines 4194304]"
  have opt: "apply_options c ?opts = (defaultOptions c)\<lparr>o_shardSize := 4194304\<rparr>"
    by (simp add: apply_options_def WithAutoGoroutines_def)
  have sel: "select_matrix (apply_options c ?opts) (int d) (int p) = buildMatrix (int d) (int (d + p))"
    unfolding opt by (simp add: select_matrix_def defaultOptions_def Let_def)
  obtain m where m: "buildMatrix (int d) (int (d + p)) = Inr m"
    using buildMatrix_ok [of d "d + p"] assms by (metis le_add1)
  obtain r where r: "New c (int d) (int p) ?opts = Inr (RS r)"
    using assms m sel unfolding New_def by (auto simp: Let_def opt defaultOptions_def)
  have wf: "rs_wf r \<and> dataShards r = d \<and> parityShards r = p \<and> buildMatrix (int d) (int (d + p)) = Inr (rs_m r)"
    using New_wf [OF r assms(2) _ assms(4)] sel package_options.intros(2) by auto
  then have "default_matrix r" using assms(3) by (auto simp: default_matrix_def rs_wf_def)
  moreover have "NewStream c (int d) (int p) [] = Inr \<lparr>st_r = r, st_o = (defaultOptions c)\<lparr>streamBS := 4 * 1024 * 1024\<rparr>\<rparr>"
    using r assms(3) by (simp add: NewStream_def Let_def apply_options_def defaultOptions_def)
  ultimately show ?thesis by (intro that) (auto simp: sequential_def defaultOptions_def)
qed

lemma Encode_padded:
  assumes "rs_wf r" "dataShards r = d" "parityShards r = p" "length data = d" "0 < N" "lens_eq N data"
  obtains cw where "Encode r (data @ replicate p (replicate N 0)) = Inr cw" "codeword r N cw" "take d cw = data"
proof -
  have "lens_eq N (data @ replicate p (replicate N 0))" "length (data @ replicate p (replicate N 0)) = totalShards r"
    using assms by (auto simp: lens_eq_def rs_wf_def)
  from Encode_codeword [OF assms(1) this(2,1) assms(5)] show ?thesis using that assms(2,4) by auto
qed

section \<open>Properties\<close>

text \<open>C13. Coding a stream is coding in memory: whatever the block size, the number of blocks and the memory the
  pool hands out, \<open>Encode\<close> of the stream encoder writes the parity that \<open>Encode\<close> of the encoder computes for the
  whole shards, and \<open>Verify\<close> returns the same answer.\<close>

theorem stream_coding_is_memory_coding:
  assumes "NewStream c (int d) (int p) opts = Inr s" "0 < p" "set opts \<subseteq> package_options" "1 \<le> GOMAXPROCS c"
    and "sequential s" "pool_ok s pool" "length data = d" "length shards = d + p" "0 < N"
    and "\<forall>x \<in> set (data @ shards). length x = N"
  shows "(\<exists>cw st. Encode (st_r s) (data @ replicate p (replicate N 0)) = Inr cw \<and>
      stream_Encode s buffer_write pool (map (\<lambda>x. Some (open_reader x)) data) (replicate p (Some [])) = Some (None, st) \<and>
      ss_out st = map Some (drop d cw)) \<and>
    (\<exists>ok. Verify (st_r s) shards = Inr ok \<and> stream_Verify s pool (map (\<lambda>x. Some (open_reader x)) shards) = Some (ok, None))"
proof -
  note s = NewStream_wf [OF assms(1-4)]
  have ok: "stream_ok s pool" using s assms(6) by (simp add: stream_ok_def)
  have lens: "lens_eq N data" "lens_eq N shards" using assms(10) by (auto simp: lens_eq_def)
  obtain cw where cw: "Encode (st_r s) (data @ replicate p (replicate N 0)) = Inr cw" "codeword (st_r s) N cw" "take d cw = data"
    using Encode_padded [OF _ _ _ assms(7,9) lens(1)] s by blast
  obtain st where st: "stream_Encode s buffer_write pool (map (\<lambda>x. Some (open_reader x)) data) (map Some (replicate p [])) = Some (None, st)"
      "ss_out st = map2 (\<lambda>w c. Some (w @ c)) (replicate p []) (drop d cw)"
    using stream_Encode_files [OF ok cw(2), of "replicate p []"] s cw(3) by auto
  have "length cw = d + p" using codeword_lens(1) [of "st_r s" N cw] cw(2) s by simp
  then have "ss_out st = map Some (drop d cw)" using st(2) by (simp add: list_eq_iff_nth_eq)
  moreover have "Verify (st_r s) shards = Inr (codeword (st_r s) N shards)"
    using Verify_codeword [of "st_r s" shards N] s assms(8,9) lens(2) by simp
  ultimately show ?thesis
    using cw(1) st(1) stream_Verify_files [OF ok _ lens(2) assms(9)] s assms(8) by (auto simp: map_replicate_const)
qed

text \<open>C10. The repair of a set of shard files: with the default matrix, as long as there are as many files as data
  shards, \<open>Reconstruct\<close> writes to the writers given for missing files exactly what these files held, block by
  block, and the error is nil.\<close>

theorem stream_repairs:
  assumes "NewStream c (int d) (int p) [] = Inr s" "0 < d" "0 < p" "d + p \<le> 256" "1 \<le> GOMAXPROCS c" "pool_ok s pool"
    and "length data = d" "0 < N" "\<forall>x \<in> set data. length x = N" "Encode (st_r s) (data @ replicate p (replicate N 0)) = Inr cw"
    and "length cs = d + p" "\<forall>i < d + p. cs ! i = None \<or> cs ! i = Some (cw ! i)"
    and "d \<le> length (filter (\<lambda>i. cs ! i \<noteq> None) [0..<d + p])"
    and "length fill = d + p" "\<forall>i < d + p. fill ! i \<noteq> None \<longrightarrow> cs ! i = None"
  shows "\<exists>st. stream_Reconstruct s buffer_write pool (map (map_option open_reader) cs) fill = Some (None, st) \<and>
    ss_out st = map (\<lambda>i. map_option (\<lambda>w. w @ cw ! i) (fill ! i)) [0..<d + p]"
proof -
  note s = NewStream_wf [OF assms(1,3) _ assms(5), simplified]
  have dm: "default_matrix (st_r s)" using NewStream_default [OF assms(2-5)] assms(1) by fastforce
  have ok: "stream_ok s pool" using s assms(6) by (simp add: stream_ok_def)
  have "lens_eq N data" using assms(9) by (simp add: lens_eq_def)
  then have cw: "codeword (st_r s) N cw" using Encode_padded [OF _ _ _ assms(7,8)] s assms(10) by (metis Inr_inject)
  obtain st where "stream_Reconstruct s buffer_write pool (files_at 0 cs) fill = Some (None, st)"
      "ss_out st = map2 (\<lambda>f c. map_option (\<lambda>w. w @ c) f) fill cw"
    using stream_Reconstruct_files [OF ok dm cw, of cs fill] s assms(11-15) by (auto simp: survivors_def fills_def)
  moreover have "length cw = d + p" using codeword_lens(1) [of "st_r s" N cw] cw s by simp
  then have "map2 (\<lambda>f c. map_option (\<lambda>w. w @ c) f) fill cw = map (\<lambda>i. map_option (\<lambda>w. w @ cw ! i) (fill ! i)) [0..<d + p]"
    using assms(14) by (simp add: list_eq_iff_nth_eq)
  ultimately show ?thesis by (simp add: files_at_def)
qed

lemma stream_returns:
  shows "0 < dataShards (st_r s) \<Longrightarrow> \<exists>res. stream_Encode s wr pool data parity = Some res"
    and "\<exists>res. stream_Verify s pool shards = Some res"
    and "\<exists>res. stream_Reconstruct s wr' pool valid fill = Some res"
  subgoal using enc_ends.loop_returns [of _ wr] by (simp add: stream_Encode_eq Let_def)
  subgoal using ver_ends.loop_returns by (auto simp: stream_Verify_eq)
  subgoal using rec_ends.loop_returns [of wr'] by (simp add: stream_Reconstruct_eq Let_def)
  done

text \<open>The operations on streams return, whatever the readers deliver or fail with, however the writers behave
  and whatever is in the buffers.\<close>

theorem stream_operations_return:
  assumes "0 < dataShards (st_r s)"
  shows "(\<exists>res. stream_Encode s wr pool data parity = Some res) \<and> (\<exists>res. stream_Verify s pool shards = Some res) \<and>
    (\<exists>res. stream_Reconstruct s wr' pool valid fill = Some res)"
  using stream_returns assms by blast

text \<open>\<open>Split\<close> does not notice a short input: its documentation promises \<open>ErrShortData\<close> when the stream ends before
  the size it was given, but the zeros it pads with are counted for all shards, so an input that is short by no
  more than the size of the parity shards is padded without an error.\<close>

theorem stream_Split_pads_short_input:
  assumes "NewStream c (int d) (int p) opts = Inr s" "0 < p" "set opts \<subseteq> package_options" "1 \<le> GOMAXPROCS c"
    and "0 < sz" "length data < sz" "sz - length data \<le> p * per_shard d sz"
  shows "\<exists>dst. stream_Split s buffer_write (open_reader data) (replicate d (Some [])) sz = (map Some dst, d * per_shard d sz - length data, None) \<and>
    concat dst = padded (d * per_shard d sz) data"
proof -
  note s = NewStream_wf [OF assms(1-4)]
  have d: "0 < d" using s by (auto simp: rs_wf_def)
  have "length data \<le> d * per_shard d sz" using per_shard_bounds(2) [OF d assms(5)] assms(6) by linarith
  then have "concat (chunks (per_shard d sz) d (padded (d * per_shard d sz) data)) = padded (d * per_shard d sz) data"
    by (simp add: concat_chunks padded_def)
  then show ?thesis using stream_Split_padded [of s sz data] s d assms(5-7) by auto
qed

section \<open>Witnesses\<close>

lemma sample_stream:
  obtains s where "NewStream (plain_cpu 4) 2 2 [] = Inr s" "sequential s" "dataShards (st_r s) = 2"
    "parityShards (st_r s) = 2" "rs_wf (st_r s)" "pool_ok s (replicate 4 (replicate 4194304 7))"
proof -
  obtain s where s: "NewStream (plain_cpu 4) (int 2) (int 2) [] = Inr s" "sequential s" "streamBS (st_o s) = 4 * 1024 * 1024"
    using NewStream_default [of 2 2 "plain_cpu 4"] by (auto simp: plain_cpu_def)
  note wf = NewStream_wf [OF s(1)]
  have "rs_wf (st_r s) \<and> dataShards (st_r s) = 2 \<and> parityShards (st_r s) = 2 \<and> totalShards (st_r s) = 4"
    using wf by (simp add: plain_cpu_def)
  then show ?thesis using s that [of s] by (simp add: pool_ok_def)
qed

theorem stream_coding_is_memory_coding_witness:
  "\<exists>s cw st. NewStream (plain_cpu 4) 2 2 [] = Inr s \<and> Encode (st_r s) [[1, 2], [3, 4], [0, 0], [0, 0]] = Inr cw \<and>
     stream_Encode s buffer_write (replicate 4 (replicate 4194304 7)) [Some (open_reader [1, 2]), Some (open_reader [3, 4])] [Some [], Some []] =
       Some (None, st) \<and> ss_out st = map Some (drop 2 cw)"
proof -
  obtain s where s: "NewStream (plain_cpu 4) 2 2 [] = Inr s" "sequential s" "pool_ok s (replicate 4 (replicate 4194304 7))"
    using sample_stream by metis
  then show ?thesis
    using stream_coding_is_memory_coding [of "plain_cpu 4" 2 2 "[]" s "replicate 4 (replicate 4194304 7)" "[[1, 2], [3, 4]]"
        "[[1, 2], [3, 4], [5, 6], [7, 8]]" 2]
    by (auto simp: plain_cpu_def numeral_2_eq_2)
qed

theorem stream_repairs_witness:
  "\<exists>s cw st. NewStream (plain_cpu 4) 2 2 [] = Inr s \<and> Encode (st_r s) [[1, 2], [3, 4], [0, 0], [0, 0]] = Inr cw \<and>
     stream_Reconstruct s buffer_write (replicate 4 (replicate 4194304 7))
       [None, Some (open_reader (cw ! 1)), None, Some (open_reader (cw ! 3))] [Some [], None, Some [9], None] = Some (None, st) \<and>
     ss_out st = [Some [1, 2], None, Some (9 # cw ! 2), None]"
proof -
  obtain s where s: "NewStream (plain_cpu 4) 2 2 [] = Inr s" "rs_wf (st_r s)" "dataShards (st_r s) = 2" "parityShards (st_r s) = 2"
      "pool_ok s (replicate 4 (replicate 4194304 7))"
    using sample_stream by metis
  have lens: "lens_eq 2 [[1, 2], [3, 4]]" by (simp add: lens_eq_def)
  obtain cw where cw: "Encode (st_r s) [[1, 2], [3, 4], [0, 0], [0, 0]] = Inr cw" "take 2 cw = [[1, 2], [3, 4]]"
    using Encode_padded [OF s(2-4) _ _ lens] by (auto simp: numeral_2_eq_2)
  let ?cs = "[None, Some (cw ! 1), None, Some (cw ! 3)]"
  have nth: "\<forall>i < 2 + 2. ?cs ! i = None \<or> ?cs ! i = Some (cw ! i)"
    "\<forall>i < 2 + 2. [Some [], None, Some [9], None] ! i \<noteq> None \<longrightarrow> ?cs ! i = None"
    by (auto simp: less_Suc_eq numeral_eq_Suc)
  have "\<exists>st. stream_Reconstruct s buffer_write (replicate 4 (replicate 4194304 7)) (map (map_option open_reader) ?cs)
      [Some [], None, Some [9], None] = Some (None, st) \<and>
    ss_out st = map (\<lambda>i. map_option (\<lambda>w. w @ cw ! i) ([Some [], None, Some [9], None] ! i)) [0..<2 + 2]"
    by (rule stream_repairs [of "plain_cpu 4" 2 2 s _ "[[1, 2], [3, 4]]" 2])
      (use s cw nth in \<open>simp_all add: plain_cpu_def numeral_2_eq_2 upt_rec\<close>)
  moreover have "cw ! 0 = [1, 2]" using arg_cong [OF cw(2), of "\<lambda>xs. xs ! 0"] by simp
  ultimately show ?thesis using s cw(1) by (auto simp: upt_rec numeral_2_eq_2)
qed

theorem stream_operations_return_witness:
  "\<exists>s res. NewStream (plain_cpu 4) 2 2 [] = Inr s \<and>
     stream_Verify s [] [None, Some \<lparr>rd_rest = [1, 2], rd_end = IoError ''input/output error''\<rparr>, None, None] = Some res"
proof -
  obtain s where s: "NewStream (plain_cpu 4) 2 2 [] = Inr s" "dataShards (st_r s) = 2" using sample_stream by metis
  then show ?thesis
    using stream_operations_return [of s buffer_write "[]" "[]" "[]" "[None, Some \<lparr>rd_rest = [1, 2], rd_end = IoError ''input/output error''\<rparr>, None, None]" buffer_write "[]" "[]"]
    by auto
qed

theorem stream_Split_pads_short_input_witness:
  "\<exists>s dst. NewStream (plain_cpu 4) 2 2 [] = Inr s \<and>
     stream_Split s buffer_write (open_reader [1, 2, 3, 4, 5]) [Some [], Some []] 7 = (map Some dst, 3, None) \<and>
     concat dst = [1, 2, 3, 4, 5, 0, 0, 0]"
proof -
  obtain s where s: "NewStream (plain_cpu 4) 2 2 [] = Inr s" using sample_stream by metis
  have "per_shard 2 7 = 4" by (simp add: per_shard_def)
  then show ?thesis
    using s stream_Split_pads_short_input [of "plain_cpu 4" 2 2 "[]" s 7 "[1, 2, 3, 4, 5]"]
    by (auto simp: plain_cpu_def padded_def numeral_2_eq_2 numeral_3_eq_3)
qed

end
