(* ===== verification/Metadata.thy ===== *)
theory Metadata
  imports Prelude "HOL-Library.AList" "HOL-Library.Multiset"
begin

text \<open>
  The data of the distributed layer: the structures of \<open>fs/dis_operations/dis_metadata.go\<close>, the JSON
  files they are kept in, and the path functions of the Go library that the layer uses.
  A Go map is an association list with distinct keys. Go leaves the order of iteration over a
  map open and may choose a new one each time; a function that iterates takes the order as an
  argument, a function \<open>ro\<close> that permutes the entries (\<open>range_order\<close>).
  A throughput is a float64 in the source and a rational here: rounding, infinities and NaN are
  not modelled.
\<close>

section \<open>Structures\<close>

record Remote =
  Remote_Name :: string
  Remote_Type :: string

record DistributedFile =
  df_DistributedFile :: string
  df_Remote :: Remote
  df_Checksum :: string
  df_Check :: bool

record FileInfo =
  fi_FileName :: string
  fi_FileSize :: int
  fi_DisFileSize :: int
  fi_Shard :: int
  fi_Parity :: int
  fi_Flag :: bool
  fi_State :: string
  fi_Checksum :: string
  fi_Padding :: int
  fi_DistributedFileInfos :: "(string \<times> DistributedFile) list"

record RemoteInfo =
  UpThroughputHistory :: "rat list"
  AvgUpThroughput :: rat
  DownThroughputHistory :: "rat list"
  AvgDownThroughput :: rat

record LoadBalancerInfo =
  RoundRobinCounter :: int
  RemoteInfos :: "(string \<times> RemoteInfo) list"

type_synonym FilesMap = "(string \<times> FileInfo) list"

datatype ThroughputType = Upload | Download

text \<open>\<open>Remote{}\<close> and \<open>RemoteInfo{}\<close>: the zero values.\<close>

definition no_remote :: Remote where
  "no_remote = \<lparr> Remote_Name = [], Remote_Type = [] \<rparr>"

definition no_remote_info :: RemoteInfo where
  "no_remote_info = \<lparr> UpThroughputHistory = [], AvgUpThroughput = 0, DownThroughputHistory = [], AvgDownThroughput = 0 \<rparr>"

definition Remote_String :: "Remote \<Rightarrow> string" where
  "Remote_String r = Remote_Name r @ ''|'' @ Remote_Type r"

definition maxEntries :: nat where
  "maxEntries = 10"

definition maxSpeed :: "rat list \<Rightarrow> rat" where
  "maxSpeed history =
     (case history of [] \<Rightarrow> 0 | h # _ \<Rightarrow> fold (\<lambda>speed mx. if mx < speed then speed else mx) history h)"

definition push_history :: "rat \<Rightarrow> rat list \<Rightarrow> rat list" where
  "push_history newSpeed history =
     (let history = history @ [newSpeed]
      in if maxEntries < length history then drop (length history - maxEntries) history else history)"

definition UpdateThroughput :: "rat \<Rightarrow> ThroughputType \<Rightarrow> RemoteInfo \<Rightarrow> RemoteInfo" where
  "UpdateThroughput newSpeed tType b =
     (case tType of
        Upload \<Rightarrow> let h = push_history newSpeed (UpThroughputHistory b)
                  in b\<lparr>UpThroughputHistory := h, AvgUpThroughput := maxSpeed h\<rparr>
      | Download \<Rightarrow> let h = push_history newSpeed (DownThroughputHistory b)
                  in b\<lparr>DownThroughputHistory := h, AvgDownThroughput := maxSpeed h\<rparr>)"

section \<open>JSON files\<close>

text \<open>What a JSON file can be to its reader: not there, not readable, empty, not decodable, the
  literal null, or the encoding of a value.\<close>

datatype 'a json_file = NoFile | NoAccess | EmptyFile | BadJson | JsonNull | Json 'a

text \<open>How a write ends: done; the directory could not be made; or the file could not be written, and
  what is left of it (\<open>os.WriteFile\<close> truncates first).\<close>

datatype 'a write_end = Wrote | MkdirFailed | WriteFailed "'a json_file"

datatype dis_error =
    OpenFailed
  | DecodeFailed
  | DirFailed
  | WriteError
  | EmptyFileName
  | FileNotFound string
  | ShardNotFound string string
  | StatFailed string
  | ChecksumFailed string
  | RenameFailed string
  | NoRemotes
  | AllRemotesFailed
  | ShardDirFailed
  | IndexPanic
  | NilPanic
  | NoAboutSupport
  | AboutFailed
  | NilUsageReturned
  | CwdFailed
  | NoSuchFile string
  | InvalidLoadBalancer string
  | PasswordError
  | Errors "dis_error list"

type_synonym 'a dis_result = "dis_error + 'a"

text \<open>A range over a map in Go visits every entry once, in an order of its own.\<close>

definition range_order :: "('a list \<Rightarrow> 'a list) \<Rightarrow> bool" where
  "range_order ro \<longleftrightarrow> (\<forall>xs. mset (ro xs) = mset xs)"

section \<open>Paths\<close>

text \<open>\<open>filepath.Base\<close> on a slash-separated path.\<close>

definition path_Base :: "string \<Rightarrow> string" where
  "path_Base path =
     (if path = [] then ''.''
      else let stripped = rev (dropWhile (\<lambda>c. c = CHR ''/'') (rev path));
               base = rev (takeWhile (\<lambda>c. c \<noteq> CHR ''/'') (rev stripped))
           in if base = [] then ''/'' else base)"

section \<open>Facts\<close>

lemma range_orderD:
  assumes "range_order ro"
  shows "set (ro xs) = set xs" "length (ro xs) = length xs" "mset (ro xs) = mset xs"
  using assms by (auto simp: range_order_def dest: mset_eq_setD mset_eq_length)

lemma range_order_id: "range_order (\<lambda>xs. xs)"
  by (simp add: range_order_def)

lemma range_order_rev: "range_order rev"
  by (simp add: range_order_def)

lemma path_Base_no_slash:
  assumes "CHR ''/'' \<notin> set path" "path \<noteq> []"
  shows "path_Base path = path"
proof -
  have "last path \<noteq> CHR ''/''" using assms by (metis last_in_set)
  then have drop: "dropWhile (\<lambda>c. c = CHR ''/'') (rev path) = rev path"
    by (simp add: dropWhile_eq_self_iff hd_rev)
  have take: "takeWhile (\<lambda>c. c \<noteq> CHR ''/'') (rev path) = rev path"
    by (rule takeWhile_eq_all_conv [THEN iffD2]) (use assms in \<open>metis set_rev\<close>)
  show ?thesis unfolding path_Base_def Let_def drop rev_rev_ident take using assms by simp
qed

lemma path_Base_idem: "path_Base (path_Base path) = path_Base path"
proof -
  let ?s = "rev (dropWhile (\<lambda>c. c = CHR ''/'') (rev path))"
  let ?b = "rev (takeWhile (\<lambda>c. c \<noteq> CHR ''/'') (rev ?s))"
  have "CHR ''/'' \<notin> set ?b" using set_takeWhileD by fastforce
  then show ?thesis
    using path_Base_no_slash [of ?b] by (auto simp: path_Base_def Let_def)
qed

lemma map_of_distinct_in:
  "distinct (map fst al) \<Longrightarrow> (k, v) \<in> set al \<longleftrightarrow> map_of al k = Some v"
  by (rule map_of_eq_Some_iff [symmetric])

lemma fst_update_distinct [simp]: "distinct (map fst al) \<Longrightarrow> distinct (map fst (AList.update k v al))"
  by (simp add: AList.distinct_update)

lemma fst_delete_distinct [simp]: "distinct (map fst al) \<Longrightarrow> distinct (map fst (AList.delete k al))"
  by (simp add: AList.distinct_delete)

text \<open>The recorded value is the maximum of the kept history.\<close>

lemma maxSpeed_Max: "history \<noteq> [] \<Longrightarrow> maxSpeed history = Max (set history)"
proof -
  have step: "(\<lambda>speed mx. if mx < speed then speed else mx) = (max :: rat \<Rightarrow> rat \<Rightarrow> rat)"
    by (auto simp: fun_eq_iff max_def)
  assume "history \<noteq> []"
  then obtain h t where h: "history = h # t" by (cases history) auto
  have "fold max history h = Max (insert h (set history))" by (metis Max.set_eq_fold list.simps(15))
  then show ?thesis by (simp add: h maxSpeed_def step insert_absorb)
qed

lemma push_history_spec:
  "push_history s h = drop (length h + 1 - maxEntries) (h @ [s])" "length (push_history s h) \<le> maxEntries"
  "s \<in> set (push_history s h)"
proof -
  show *: "push_history s h = drop (length h + 1 - maxEntries) (h @ [s])"
    by (simp add: push_history_def Let_def)
  show "length (push_history s h) \<le> maxEntries" by (simp add: * )
  have "last (push_history s h) = s \<and> push_history s h \<noteq> []"
    by (simp add: * last_drop maxEntries_def)
  then show "s \<in> set (push_history s h)" by (metis last_in_set)
qed

end
