(* ===== verification/Hashing.thy ===== *)
theory Hashing
  imports Metadata
begin

text \<open>
  \<open>fs/dis_operations/hash.go\<close> and the shard directory. A shard travels under the SHA-256 of its
  name: the functions here compute that name and rename files of the local shard directory.
  SHA-256 is part of the Go library (\<open>crypto/sha256\<close>), written out after FIPS 180-4; \<open>hash.Write\<close>
  never returns an error, so the error returns of \<open>CalculateHash\<close> do not occur.
  The shard directory is a map from file names (without a slash) to contents. A rename fails when
  the source is missing, and may fail for other reasons, which an argument decides.
\<close>

section \<open>SHA-256\<close>

type_synonym word32 = "32 word"

text \<open>The constants are the first 32 bits of the fractional parts of the cube roots of the first 64
  primes and of the square roots of the first eight. \<open>iroot k n b\<close> is the integer part of the \<open>k\<close>-th root of
  \<open>n\<close>, found bit by bit below bit \<open>b\<close>; a root below 7 has 35 bits when 32 are after the point.\<close>

definition iroot :: "nat \<Rightarrow> int \<Rightarrow> nat \<Rightarrow> int" where
  "iroot k n b = fold (\<lambda>i r. if (r + 2 ^ i) ^ k \<le> n then r + 2 ^ i else r) (rev [0..<b]) 0"

definition sha_primes :: "int list" where
  "sha_primes = filter (\<lambda>p. list_all (\<lambda>q. q = p \<or> p mod q \<noteq> 0) [2, 3, 5, 7, 11, 13, 17]) [2..311]"

definition sha_rounds :: "word32 list" where
  "sha_rounds = map (\<lambda>p. word_of_int (iroot 3 (p * 2 ^ 96) 35)) sha_primes"

definition sha_init :: "word32 list" where
  "sha_init = map (\<lambda>p. word_of_int (iroot 2 (p * 2 ^ 64) 35)) (take 8 sha_primes)"

definition rotr :: "nat \<Rightarrow> word32 \<Rightarrow> word32" where
  "rotr n w = drop_bit n w OR push_bit (32 - n) w"

text \<open>The message schedule is kept newest word first: the words sixteen, fifteen, seven and two
  places back are at 15, 14, 6 and 1.\<close>

primrec sha_schedule :: "nat \<Rightarrow> word32 list \<Rightarrow> word32 list" where
  "sha_schedule 0 w = rev w"
| "sha_schedule (Suc n) w =
     (let s0 = rotr 7 (w ! 14) XOR rotr 18 (w ! 14) XOR drop_bit 3 (w ! 14);
          s1 = rotr 17 (w ! 1) XOR rotr 19 (w ! 1) XOR drop_bit 10 (w ! 1)
      in sha_schedule n ((w ! 15 + s0 + w ! 6 + s1) # w))"

fun sha_step :: "word32 \<times> word32 \<Rightarrow> word32 list \<Rightarrow> word32 list" where
  "sha_step (k, w) [a, b, c, d, e, f, g, h] =
     (let s1 = rotr 6 e XOR rotr 11 e XOR rotr 25 e;
          ch = (e AND f) XOR (NOT e AND g);
          t1 = h + s1 + ch + k + w;
          s0 = rotr 2 a XOR rotr 13 a XOR rotr 22 a;
          maj = (a AND b) XOR (a AND c) XOR (b AND c)
      in [t1 + (s0 + maj), a, b, c, d + t1, e, f, g])"
| "sha_step _ st = st"

fun be_words :: "byte list \<Rightarrow> word32 list" where
  "be_words (a # b # c # d # bs) =
     (push_bit 24 (ucast a) OR push_bit 16 (ucast b) OR push_bit 8 (ucast c) OR ucast d) # be_words bs"
| "be_words _ = []"

definition sha_block :: "byte list \<Rightarrow> word32 list \<Rightarrow> word32 list" where
  "sha_block blk st = map2 (+) st (fold sha_step (zip sha_rounds (sha_schedule 48 (rev (be_words blk)))) st)"

definition sha_pad :: "byte list \<Rightarrow> byte list" where
  "sha_pad msg =
     msg @ [0x80] @ replicate ((119 - length msg mod 64) mod 64) 0 @
     map (\<lambda>i. ucast (drop_bit (56 - 8 * i) (push_bit 3 (of_nat (length msg) :: 64 word)))) [0..<8]"

fun sha_blocks :: "nat \<Rightarrow> byte list \<Rightarrow> word32 list \<Rightarrow> word32 list" where
  "sha_blocks 0 bs st = st"
| "sha_blocks (Suc n) bs st = sha_blocks n (drop 64 bs) (sha_block (take 64 bs) st)"

definition sha256 :: "byte list \<Rightarrow> byte list" where
  "sha256 msg =
     (let p = sha_pad msg
      in concat (map (\<lambda>w. map (\<lambda>i. ucast (drop_bit (24 - 8 * i) w)) [0..<4])
                     (sha_blocks (length p div 64) p sha_init)))"

definition hex_digit :: "byte \<Rightarrow> char" where
  "hex_digit d = ''0123456789abcdef'' ! unat d"

definition hex_EncodeToString :: "byte list \<Rightarrow> string" where
  "hex_EncodeToString bs = concat (map (\<lambda>b. [hex_digit (drop_bit 4 b), hex_digit (b AND 0xf)]) bs)"

definition string_bytes :: "string \<Rightarrow> byte list" where
  "string_bytes s = map of_char s"

section \<open>Names of shards\<close>

definition CalculateHash :: "string \<Rightarrow> string" where
  "CalculateHash name = hex_EncodeToString (sha256 (string_bytes name))"

definition calculateChecksum :: "bytes \<Rightarrow> string" where
  "calculateChecksum content = hex_EncodeToString (sha256 content)"

type_synonym shard_dir = "string \<rightharpoonup> bytes"

text \<open>\<open>os.Rename\<close> inside the shard directory. An existing file of the new name is replaced.\<close>

definition os_Rename :: "bool \<Rightarrow> string \<Rightarrow> string \<Rightarrow> shard_dir \<Rightarrow> (dis_error + unit) \<times> shard_dir" where
  "os_Rename ok old new dir =
     (case dir old of
        None \<Rightarrow> (Inl (RenameFailed old), dir)
      | Some content \<Rightarrow>
          if ok then (Inr (), (dir(old := None))(new \<mapsto> content)) else (Inl (RenameFailed old), dir))"

definition ConvertFileNameForUP :: "bool \<Rightarrow> string \<Rightarrow> shard_dir \<Rightarrow> (dis_error + string) \<times> shard_dir" where
  "ConvertFileNameForUP ok name dir =
     (let hashFileName = CalculateHash name
      in case os_Rename ok name hashFileName dir of
           (Inl e, dir') \<Rightarrow> (Inl e, dir')
         | (Inr _, dir') \<Rightarrow> (Inr hashFileName, dir'))"

definition ConvertFileNameForDo :: "bool \<Rightarrow> string \<Rightarrow> string \<Rightarrow> shard_dir \<Rightarrow> (dis_error + unit) \<times> shard_dir" where
  "ConvertFileNameForDo ok hashedName originalName dir = os_Rename ok hashedName originalName dir"

section \<open>Facts\<close>

lemma length_sha_step [simp]: "length (sha_step kw st) = length st"
  by (cases "(kw, st)" rule: sha_step.cases) (simp_all add: Let_def)

lemma length_sha_fold: "length (fold sha_step kws st) = length st"
  by (induction kws arbitrary: st) simp_all

lemma length_sha_blocks: "length (sha_blocks n bs st) = length st"
  by (induction n arbitrary: bs st) (simp_all add: sha_block_def length_sha_fold)

lemma length_concat_map_const: "(\<And>x. x \<in> set xs \<Longrightarrow> length (f x) = n) \<Longrightarrow> length (concat (map f xs)) = n * length xs"
  by (induction xs) simp_all

lemma length_sha256: "length (sha256 msg) = 32"
proof -
  have "length (concat (map (\<lambda>w. map (\<lambda>i. ucast (drop_bit (24 - 8 * i) w) :: byte) [0..<4]) st)) = 4 * length st"
    for st :: "word32 list" by (rule length_concat_map_const) simp
  moreover have "length sha_primes = 64" by code_simp
  then have "length sha_init = 8" by (simp add: sha_init_def)
  ultimately show ?thesis by (simp add: sha256_def Let_def length_sha_blocks)
qed

lemma hex_digit_set: "unat d < 16 \<Longrightarrow> hex_digit d \<in> set ''0123456789abcdef''"
  unfolding hex_digit_def by (rule nth_mem) simp

lemma nibbles_small: "unat (drop_bit 4 (b :: byte)) < 16" "unat (b AND 0xf) < 16"
proof -
  have "drop_bit 4 (unat b) < 16"
    unfolding drop_bit_eq_div using unsigned_less [of b] by (simp add: less_mult_imp_div_less)
  then show "unat (drop_bit 4 b) < 16" unfolding unat_drop_bit_eq .
  have "b AND 0xf \<le> 0xf" by (rule word_and_le1)
  then show "unat (b AND 0xf) < 16" by (simp add: word_le_nat_alt)
qed

text \<open>A hashed name is 64 characters, all lower-case hexadecimal digits.\<close>

lemma CalculateHash_form:
  "length (CalculateHash name) = 64" "set (CalculateHash name) \<subseteq> set ''0123456789abcdef''"
proof -
  have "length (hex_EncodeToString bs) = 2 * length bs" for bs
    unfolding hex_EncodeToString_def by (rule length_concat_map_const) simp
  then show "length (CalculateHash name) = 64" by (simp add: CalculateHash_def length_sha256)
  have "set [hex_digit (drop_bit 4 b), hex_digit (b AND 0xf)] \<subseteq> set ''0123456789abcdef''" for b
    using hex_digit_set [OF nibbles_small(1)] hex_digit_set [OF nibbles_small(2)] by (metis empty_set empty_subsetI insert_subset list.simps(15))
  then show "set (CalculateHash name) \<subseteq> set ''0123456789abcdef''"
    unfolding CalculateHash_def hex_EncodeToString_def set_concat by fastforce
qed

text \<open>A shard file that is renamed for upload and renamed back after download is again where it
  was, with its contents, and no other file of the shard directory has changed, whenever no file
  already has the hashed name.\<close>

theorem rename_roundtrip:
  assumes "dir name = Some content" "dir (CalculateHash name) = None \<or> CalculateHash name = name"
  shows "\<exists>dir'. ConvertFileNameForUP True name dir = (Inr (CalculateHash name), dir')
           \<and> dir' (CalculateHash name) = Some content
           \<and> ConvertFileNameForDo True (CalculateHash name) name dir' = (Inr (), dir)"
proof -
  let ?h = "CalculateHash name" and ?d = "(dir(name := None))(CalculateHash name \<mapsto> content)"
  have "ConvertFileNameForUP True name dir = (Inr ?h, ?d)"
    using assms(1) by (simp add: ConvertFileNameForUP_def os_Rename_def Let_def)
  moreover have "ConvertFileNameForDo True ?h name ?d = (Inr (), dir)"
    using assms by (auto simp: ConvertFileNameForDo_def os_Rename_def fun_eq_iff)
  ultimately show ?thesis by auto
qed

theorem rename_roundtrip_witness:
  "\<exists>dir'. ConvertFileNameForUP True ''a.0'' [''a.0'' \<mapsto> [7]] = (Inr (CalculateHash ''a.0''), dir')
     \<and> dir' (CalculateHash ''a.0'') = Some [7]
     \<and> ConvertFileNameForDo True (CalculateHash ''a.0'') ''a.0'' dir' = (Inr (), [''a.0'' \<mapsto> [7]])"
  by (rule rename_roundtrip) simp_all

end
