(* ===== verification/Shard_Files.thy ===== *)
theory Shard_Files
  imports Streaming Hashing
begin

text \<open>
  The layer's own part of \<open>reedsolomon/streaming.go\<close>: a file is encrypted, split into shard files in the shard
  directory and encoded; the shard files are verified, repaired and joined, and the result is trimmed and
  decrypted. The encryption is a package of its own (\<open>filecrypt\<close>): what it makes of the content of a file is an
  argument. Which calls of the operating system fail is an argument too; reads and writes of a file that was
  opened succeed. The number of shards is kept in two variables of the package, which the state has.
\<close>

section \<open>State and environment\<close>

record local =
  lf_file :: "string \<rightharpoonup> bytes"
  lf_dirs :: "string set"
  lf_shards :: shard_dir
  lf_data :: nat
  lf_par :: nat

datatype os_call =
    OsMkdir string
  | OsStat string
  | OsOpen nat string
  | OsCreate string
  | OsRemove string
  | OsTruncate string

record shard_env =
  se_cpu :: cpu
  se_dir :: string
  se_fails :: "os_call \<Rightarrow> bool"
  se_encrypt :: "string \<Rightarrow> bytes \<Rightarrow> bytes result"
  se_decrypt :: "string \<Rightarrow> bytes \<Rightarrow> bytes result"
  se_pool :: "nat \<Rightarrow> bytes list"

text \<open>How a call ends: with a result or an error, with the end of the process, or never.\<close>

datatype 'a shard_end = Returned "'a result" | ProcessExit nat | NoReturn

type_synonym 'a sh = "local \<Rightarrow> 'a shard_end \<times> local"

definition sh_return :: "'a \<Rightarrow> 'a sh" where
  "sh_return a fs = (Returned (Inr a), fs)"

definition sh_exit :: "nat \<Rightarrow> 'a sh" where
  "sh_exit code fs = (ProcessExit code, fs)"

definition sh_bind :: "'a sh \<Rightarrow> ('a \<Rightarrow> 'b sh) \<Rightarrow> 'b sh" where
  "sh_bind m f fs =
     (case m fs of
        (Returned (Inr a), fs) \<Rightarrow> f a fs
      | (Returned (Inl e), fs) \<Rightarrow> (Returned (Inl e), fs)
      | (ProcessExit code, fs) \<Rightarrow> (ProcessExit code, fs)
      | (NoReturn, fs) \<Rightarrow> (NoReturn, fs))"

text \<open>An error that is returned, and one that \<open>checkErr\<close> turns into the end of the process. A panic ends the process with
  the same code.\<close>

definition sh_error :: "rs_error \<Rightarrow> 'a sh" where
  "sh_error e fs =
     (case e of GoPanic _ \<Rightarrow> (ProcessExit 2, fs) | GoNoReturn \<Rightarrow> (NoReturn, fs) | _ \<Rightarrow> (Returned (Inl e), fs))"

definition checkErr :: "'a result \<Rightarrow> 'a sh" where
  "checkErr res fs = (case res of Inl e \<Rightarrow> if e = GoNoReturn then (NoReturn, fs) else (ProcessExit 2, fs) | Inr a \<Rightarrow> (Returned (Inr a), fs))"

definition returning :: "'a result \<Rightarrow> 'a sh" where
  "returning res = (case res of Inl e \<Rightarrow> sh_error e | Inr a \<Rightarrow> sh_return a)"

definition os_call :: "shard_env \<Rightarrow> os_call \<Rightarrow> unit result" where
  "os_call env c = (if se_fails env c then Inl (IoError ''os'') else Inr ())"

definition in_shards :: "(shard_dir \<Rightarrow> shard_dir) \<Rightarrow> unit sh" where
  "in_shards f fs = (Returned (Inr ()), fs\<lparr>lf_shards := f (lf_shards fs)\<rparr>)"

definition gets :: "(local \<Rightarrow> 'a) \<Rightarrow> 'a sh" where
  "gets f fs = (Returned (Inr (f fs)), fs)"

definition puts :: "(local \<Rightarrow> local) \<Rightarrow> unit sh" where
  "puts f fs = (Returned (Inr ()), f fs)"

text \<open>A loop over a list that stops at the first call that does not return a value.\<close>

primrec sh_each :: "('a \<Rightarrow> unit sh) \<Rightarrow> 'a list \<Rightarrow> unit sh" where
  "sh_each f [] = sh_return ()"
| "sh_each f (x # xs) = sh_bind (f x) (\<lambda>_. sh_each f xs)"

section \<open>Names\<close>

abbreviation fileCryptExtension :: string where "fileCryptExtension \<equiv> ''.fcef''"

definition digit :: "nat \<Rightarrow> char" where
  "digit n = ''0123456789'' ! n"

fun nat_string :: "nat \<Rightarrow> string" where
  "nat_string n = (if n < 10 then [digit n] else nat_string (n div 10) @ [digit (n mod 10)])"

declare nat_string.simps [simp del]

text \<open>\<open>fmt.Sprintf("%s.%d", file, i)\<close>\<close>

definition shard_name :: "string \<Rightarrow> nat \<Rightarrow> string" where
  "shard_name f i = f @ ''.'' @ nat_string i"

section \<open>Encoding a file\<close>

definition minSize :: nat where
  "minSize = 10 * 1024 * 1024"

function shards_loop :: "nat \<Rightarrow> nat \<Rightarrow> nat" where
  "shards_loop fileSize d = (if fileSize div d < minSize \<and> 10 < d then shards_loop fileSize (d - 10) else d)"
  by auto
termination by (relation "measure snd") auto

declare shards_loop.simps [simp del]

text \<open>The new values of the two variables; \<open>None\<close> is the division by zero.\<close>

definition shards_num :: "nat \<Rightarrow> nat \<Rightarrow> (nat \<times> nat) option" where
  "shards_num fileSize d =
     (if fileSize < minSize then Some (5, 3)
      else if d = 0 then None
      else let d = shards_loop fileSize d in Some (d, d div 2))"

definition calculateShardsNum :: "shard_env \<Rightarrow> string \<Rightarrow> unit sh" where
  "calculateShardsNum env filename =
     sh_bind (checkErr (os_call env (OsStat filename))) (\<lambda>_.
     sh_bind (gets (\<lambda>fs. (lf_file fs filename, lf_data fs))) (\<lambda>(content, d).
       case content of
         None \<Rightarrow> sh_exit 2
       | Some content \<Rightarrow>
           (case shards_num (length content) d of
              None \<Rightarrow> sh_exit 2
            | Some (d, p) \<Rightarrow> puts (\<lambda>fs. fs\<lparr>lf_data := d, lf_par := p\<rparr>))))"

text \<open>The shard files in order, and their creation.\<close>

definition create_shard :: "shard_env \<Rightarrow> string \<Rightarrow> unit sh" where
  "create_shard env name =
     sh_bind (checkErr (os_call env (OsCreate name))) (\<lambda>_. in_shards (\<lambda>dir. dir(name \<mapsto> [])))"

definition open_shard :: "shard_env \<Rightarrow> nat \<Rightarrow> string \<Rightarrow> bytes sh" where
  "open_shard env time name =
     sh_bind (checkErr (os_call env (OsOpen time name))) (\<lambda>_.
     sh_bind (gets (\<lambda>fs. lf_shards fs name)) (\<lambda>content.
       case content of None \<Rightarrow> sh_exit 2 | Some content \<Rightarrow> sh_return content))"

definition checksum_shard :: "shard_env \<Rightarrow> nat \<Rightarrow> string \<Rightarrow> string sh" where
  "checksum_shard env time name =
     sh_bind (gets (\<lambda>fs. lf_shards fs name)) (\<lambda>content.
       case content of
         None \<Rightarrow> sh_exit 1
       | Some content \<Rightarrow> if se_fails env (OsOpen time name) then sh_exit 1 else sh_return (calculateChecksum content))"

text \<open>What the writers of opened shard files have written.\<close>

definition store_files :: "string list \<Rightarrow> bytes option list \<Rightarrow> unit sh" where
  "store_files names ws = in_shards (\<lambda>dir. fold (\<lambda>(name, w) dir. case w of None \<Rightarrow> dir | Some w \<Rightarrow> dir(name \<mapsto> w)) (zip names ws) dir)"

primrec sh_map :: "('a \<Rightarrow> 'b sh) \<Rightarrow> 'a list \<Rightarrow> 'b list sh" where
  "sh_map f [] = sh_return []"
| "sh_map f (x # xs) = sh_bind (f x) (\<lambda>y. sh_bind (sh_map f xs) (\<lambda>ys. sh_return (y # ys)))"

definition of_stream :: "'a option \<Rightarrow> 'a sh" where
  "of_stream res fs = (case res of None \<Rightarrow> (NoReturn, fs) | Some a \<Rightarrow> (Returned (Inr a), fs))"

definition err_result :: "rs_error option \<Rightarrow> unit result" where
  "err_result err = (case err of None \<Rightarrow> Inr () | Some e \<Rightarrow> Inl e)"

record encoded =
  en_paths :: "string list"
  en_checksums :: "string list"
  en_size :: nat
  en_padding :: nat
  en_shard :: nat
  en_parity :: nat

text \<open>The part of \<open>DoEncode\<close> from the opened encrypted file on: create the shard files, split, checksum the data shards,
  encode, checksum the parity shards.\<close>

definition encode_shards :: "shard_env \<Rightarrow> rsStream \<Rightarrow> string \<Rightarrow> bytes \<Rightarrow> nat \<Rightarrow> nat \<Rightarrow> (string list \<times> nat \<times> nat) sh" where
  "encode_shards env enc f content d p =
     (let names = map (shard_name f) [0..<d + p]
      in sh_bind (sh_each (create_shard env) names) (\<lambda>_.
         case stream_Split enc buffer_write (open_reader content) (replicate d (Some [])) (length content) of (ws, padding, err) \<Rightarrow>
         sh_bind (store_files (take d names) ws) (\<lambda>_.
         sh_bind (checkErr (err_result err)) (\<lambda>_.
         sh_bind (sh_map (\<lambda>name. sh_bind (open_shard env 0 name) (\<lambda>data.
                    sh_bind (checksum_shard env 1 name) (\<lambda>checksum. sh_return (data, checksum)))) (take d names)) (\<lambda>datas.
         sh_bind (if length names \<le> 1 then sh_exit 2 else open_shard env 2 (names ! 1)) (\<lambda>second.
         sh_bind (of_stream (stream_Encode enc buffer_write (se_pool env 0) (map (\<lambda>(x, _). Some (open_reader x)) datas) (replicate p (Some []))))
           (\<lambda>(err, st).
         sh_bind (store_files (drop d names) (ss_out st)) (\<lambda>_.
         sh_bind (checkErr (err_result err)) (\<lambda>_.
         sh_bind (sh_map (checksum_shard env 3) (drop d names)) (\<lambda>parities.
         sh_return (map snd datas @ parities, length second, padding)))))))))))"

definition DoEncode :: "shard_env \<Rightarrow> string \<Rightarrow> string \<Rightarrow> encoded sh" where
  "DoEncode env fname password =
     sh_bind (gets (\<lambda>fs. se_dir env \<in> lf_dirs fs)) (\<lambda>exists.
     sh_bind (if exists then sh_return ()
              else sh_bind (checkErr (os_call env (OsMkdir (se_dir env)))) (\<lambda>_. puts (\<lambda>fs. fs\<lparr>lf_dirs := insert (se_dir env) (lf_dirs fs)\<rparr>))) (\<lambda>_.
     sh_bind (calculateShardsNum env fname) (\<lambda>_.
     sh_bind (gets (\<lambda>fs. (case lf_file fs fname of None \<Rightarrow> Inl (IoError ''open'') | Some content \<Rightarrow> se_encrypt env password content,
                           lf_data fs, lf_par fs))) (\<lambda>(cipher, d, p).
     sh_bind (checkErr cipher) (\<lambda>cipher.
     let encFile = fname @ fileCryptExtension; f = path_Base encFile
     in
     sh_bind (puts (\<lambda>fs. fs\<lparr>lf_file := (lf_file fs)(encFile \<mapsto> cipher)\<rparr>)) (\<lambda>_.
     sh_bind (if 256 < d + p then sh_exit 1 else sh_return ()) (\<lambda>_.
     sh_bind (checkErr (NewStream (se_cpu env) (int d) (int p) [])) (\<lambda>enc.
     sh_bind (checkErr (os_call env (OsOpen 0 encFile))) (\<lambda>_.
     sh_bind (checkErr (os_call env (OsStat encFile))) (\<lambda>_.
     sh_bind (encode_shards env enc f cipher d p) (\<lambda>(checksums, sizePerShard, padding).
     sh_bind (checkErr (os_call env (OsRemove encFile))) (\<lambda>_.
     sh_bind (puts (\<lambda>fs. fs\<lparr>lf_file := (lf_file fs)(encFile := None)\<rparr>)) (\<lambda>_.
     sh_return \<lparr>en_paths = map (\<lambda>i. se_dir env @ ''/'' @ shard_name f i) [0..<d + p], en_checksums = checksums, en_size = sizePerShard,
                en_padding = padding, en_shard = d, en_parity = p\<rparr>)))))))))))))"

section \<open>Decoding a file\<close>

text \<open>\<open>trimPadding\<close> on the content of the joined file: the last \<open>trimSize\<close> bytes go if they are all zero; otherwise the
  file is cut to \<open>trimSize\<close> bytes.\<close>

definition trimPadding :: "bytes \<Rightarrow> nat \<Rightarrow> bytes" where
  "trimPadding f trimSize =
     (if trimSize < length f
      then let buf = drop (length f - trimSize) f;
               nullByteCount = length (takeWhile (\<lambda>b. b = 0) buf)
           in if nullByteCount = trimSize then take (length f - trimSize) f else take trimSize f
      else f)"

text \<open>The key in \<open>compareandDeleteChecksum\<close> is built with \<open>Sprint\<close>, which does not interpret the format.\<close>

definition checksum_key :: "string \<Rightarrow> nat \<Rightarrow> string" where
  "checksum_key f i = ''%s.%d'' @ f @ nat_string i"

definition checksum_of :: "(string \<times> string) list \<Rightarrow> string \<Rightarrow> string" where
  "checksum_of m k = (case map_of m k of None \<Rightarrow> [] | Some v \<Rightarrow> v)"

fun compare_loop :: "shard_env \<Rightarrow> (string \<times> string) list \<Rightarrow> (string \<times> string) list \<Rightarrow> string \<Rightarrow> nat list \<Rightarrow> shard_dir \<Rightarrow> shard_dir" where
  "compare_loop env serverChecksum confChecksum f [] dir = dir"
| "compare_loop env serverChecksum confChecksum f (i # is) dir =
     (if checksum_of serverChecksum (checksum_key f i) \<noteq> checksum_of confChecksum (checksum_key f i)
      then if dir (shard_name f i) = None \<or> se_fails env (OsRemove (shard_name f i)) then dir
           else compare_loop env serverChecksum confChecksum f is (dir(shard_name f i := None))
      else compare_loop env serverChecksum confChecksum f is dir)"

definition compareandDeleteChecksum ::
  "shard_env \<Rightarrow> (string \<times> string) list \<Rightarrow> (string \<times> string) list \<Rightarrow> string \<Rightarrow> unit sh" where
  "compareandDeleteChecksum env serverChecksum confChecksum f =
     in_shards (compare_loop env serverChecksum confChecksum f [0..<length confChecksum])"

text \<open>A shard file that cannot be opened or is empty counts as missing. The size is that of the last one.\<close>

definition openInput :: "shard_env \<Rightarrow> nat \<Rightarrow> nat \<Rightarrow> nat \<Rightarrow> string \<Rightarrow> (bytes option list \<times> nat) sh" where
  "openInput env time d p f =
     sh_bind (gets lf_shards) (\<lambda>dir.
       let opened = map (\<lambda>i. if se_fails env (OsOpen time (shard_name f i)) then None else dir (shard_name f i)) [0..<d + p];
           shards = map (\<lambda>c. if c = Some [] then None else c) opened;
           sz = fold (\<lambda>c sz. case c of None \<Rightarrow> sz | Some c \<Rightarrow> length c) shards 0
       in if \<exists>i < d + p. opened ! i \<noteq> None \<and> se_fails env (OsStat (shard_name f i)) then sh_exit 2
          else sh_return (shards, sz))"

definition create_missing :: "shard_env \<Rightarrow> string \<Rightarrow> unit sh" where
  "create_missing env name =
     sh_bind (returning (os_call env (OsCreate name))) (\<lambda>_. in_shards (\<lambda>dir. dir(name \<mapsto> [])))"

text \<open>The repair: whether \<open>DoDecode\<close> goes on. When the second verification says no without an error, \<open>DoDecode\<close> returns
  that error, which is nil.\<close>

definition repair_shards :: "shard_env \<Rightarrow> rsStream \<Rightarrow> string \<Rightarrow> nat \<Rightarrow> nat \<Rightarrow> bool sh" where
  "repair_shards env enc f d p =
     sh_bind (openInput env 5 d p f) (\<lambda>(shards, _).
     let names = map (shard_name f) [0..<d + p]; missing = map (shard_name f) (filter (\<lambda>i. shards ! i = None) [0..<d + p]);
         out = map (\<lambda>c. if c = None then Some [] else None) shards
     in
     sh_bind (sh_each (create_missing env) missing) (\<lambda>_.
     sh_bind (of_stream (stream_Reconstruct enc buffer_write (se_pool env 2) (files_at 0 shards) out)) (\<lambda>(err, st).
     sh_bind (store_files names (ss_out st)) (\<lambda>_.
     sh_bind (returning (err_result err)) (\<lambda>_.
     sh_bind (openInput env 6 d p f) (\<lambda>(shards, _).
     sh_bind (of_stream (stream_Verify enc (se_pool env 3) (files_at 0 shards))) (\<lambda>(ok, err).
       if \<not> ok then (case err of None \<Rightarrow> sh_return False | Some e \<Rightarrow> sh_error e) else sh_return True)))))))"

text \<open>\<open>filepath.Join\<close> of a clean directory and a bare name.\<close>

definition in_dir :: "string \<Rightarrow> string \<Rightarrow> string" where
  "in_dir dir name = (if dir = ''/'' then ''/'' @ name else dir @ ''/'' @ name)"

lemma in_dir_inject [simp]: "in_dir dir a = in_dir dir b \<longleftrightarrow> a = b"
  by (simp add: in_dir_def)

definition decode_join :: "shard_env \<Rightarrow> rsStream \<Rightarrow> string \<Rightarrow> string \<Rightarrow> nat \<Rightarrow> nat \<Rightarrow> nat \<Rightarrow> string \<Rightarrow> unit sh" where
  "decode_join env enc fname outdir padding d p password =
     (let f = fname @ fileCryptExtension; outfn = in_dir outdir f
      in
      sh_bind (gets (\<lambda>fs. outdir \<in> lf_dirs fs)) (\<lambda>isdir.
      sh_bind (returning (if isdir then os_call env (OsCreate outfn) else Inl (IoError ''not a directory''))) (\<lambda>_.
      sh_bind (puts (\<lambda>fs. fs\<lparr>lf_file := (lf_file fs)(outfn \<mapsto> [])\<rparr>)) (\<lambda>_.
      sh_bind (openInput env 7 d p f) (\<lambda>(shards, sz).
      case stream_Join enc buffer_write [] (files_at 0 shards) (d * sz) of (joined, err) \<Rightarrow>
      sh_bind (puts (\<lambda>fs. fs\<lparr>lf_file := (lf_file fs)(outfn \<mapsto> joined)\<rparr>)) (\<lambda>_.
      sh_bind (returning (err_result err)) (\<lambda>_.
      let trimmed = (if 0 < padding then trimPadding joined padding else joined)
      in
      sh_bind (if trimmed \<noteq> joined then checkErr (os_call env (OsTruncate outfn)) else sh_return ()) (\<lambda>_.
      sh_bind (puts (\<lambda>fs. fs\<lparr>lf_file := (lf_file fs)(outfn \<mapsto> trimmed)\<rparr>)) (\<lambda>_.
      sh_bind (returning (se_decrypt env password trimmed)) (\<lambda>plain.
      sh_bind (puts (\<lambda>fs. fs\<lparr>lf_file := (lf_file fs)(in_dir outdir fname \<mapsto> plain)\<rparr>)) (\<lambda>_.
      sh_bind (returning (os_call env (OsRemove outfn))) (\<lambda>_.
      puts (\<lambda>fs. fs\<lparr>lf_file := (lf_file fs)(outfn := None)\<rparr>)))))))))))))"

definition DoDecode ::
  "shard_env \<Rightarrow> string \<Rightarrow> string \<Rightarrow> nat \<Rightarrow> (string \<times> string) list \<Rightarrow> nat \<Rightarrow> nat \<Rightarrow> string \<Rightarrow> unit sh" where
  "DoDecode env fname outfn padding confChecksums downloadshard downloadparity password =
     (let f = fname @ fileCryptExtension
      in
      sh_bind (gets (\<lambda>fs. outfn \<in> lf_dirs fs \<or> lf_file fs outfn \<noteq> None)) (\<lambda>exists.
      if \<not> exists
      then sh_bind (returning (os_call env (OsMkdir outfn))) (\<lambda>_. puts (\<lambda>fs. fs\<lparr>lf_dirs := insert outfn (lf_dirs fs)\<rparr>))
      else
      sh_bind (gets (\<lambda>fs. map (\<lambda>i. (shard_name f i,
          case lf_shards fs (shard_name f i) of
            None \<Rightarrow> []
          | Some c \<Rightarrow> if se_fails env (OsOpen 3 (shard_name f i)) then [] else calculateChecksum c)) [0..<length confChecksums]))
        (\<lambda>shardChecksums.
      sh_bind (compareandDeleteChecksum env shardChecksums confChecksums f) (\<lambda>_.
      sh_bind (returning (NewStream (se_cpu env) (int downloadshard) (int downloadparity) [])) (\<lambda>enc.
      sh_bind (openInput env 4 downloadshard downloadparity f) (\<lambda>(shards, _).
      sh_bind (of_stream (stream_Verify enc (se_pool env 1) (files_at 0 shards))) (\<lambda>(ok, _).
      sh_bind (if ok then sh_return True else repair_shards env enc f downloadshard downloadparity) (\<lambda>go.
      if go then decode_join env enc fname outfn padding downloadshard downloadparity password
      else sh_return ()))))))))"

definition DeleteShardDir :: "shard_env \<Rightarrow> local \<Rightarrow> local" where
  "DeleteShardDir env fs =
     (if se_dir env \<notin> lf_dirs fs \<or> se_fails env (OsOpen 8 (se_dir env)) then fs
      else fs\<lparr>lf_shards := (\<lambda>name. if se_fails env (OsRemove name) then lf_shards fs name else None)\<rparr>)"

section \<open>Names of shard files\<close>

definition digit_value :: "char \<Rightarrow> nat" where
  "digit_value c = of_char c - 48"

definition string_nat :: "string \<Rightarrow> nat" where
  "string_nat s = foldl (\<lambda>n c. n * 10 + digit_value c) 0 s"

lemma digit_value_digit: "n < 10 \<Longrightarrow> digit_value (digit n) = n"
proof -
  have "\<forall>n \<in> set [0..<10]. digit_value (digit n) = n" by code_simp
  then show "n < 10 \<Longrightarrow> digit_value (digit n) = n" by simp
qed

lemma string_nat_string: "string_nat (nat_string n) = n"
proof (induction n rule: nat_string.induct)
  case (1 n)
  then show ?case by (subst nat_string.simps) (auto simp: string_nat_def digit_value_digit)
qed

lemma shard_name_inject [simp]: "shard_name f i = shard_name f j \<longleftrightarrow> i = j"
  using string_nat_string by (auto simp: shard_name_def) metis

lemma distinct_shard_names [simp]: "distinct is \<Longrightarrow> distinct (map (shard_name f) is)"
  by (simp add: distinct_map inj_on_def)

lemma length_nat_string: "0 < length (nat_string n)" "n < 1000 \<Longrightarrow> length (nat_string n) \<le> 3"
proof -
  show "0 < length (nat_string n)" by (subst nat_string.simps) simp
  assume n: "n < 1000"
  have 1: "m < 10 \<Longrightarrow> length (nat_string m) = 1" for m by (subst nat_string.simps) simp
  have 2: "m < 100 \<Longrightarrow> length (nat_string m) \<le> 2" for m
    using 1 [of "m div 10"] by (subst nat_string.simps) auto
  show "length (nat_string n) \<le> 3" using 2 [of "n div 10"] n by (subst nat_string.simps) auto
qed

text \<open>The keys that \<open>compareandDeleteChecksum\<close> looks up are not names of shards.\<close>

lemma checksum_key_no_shard: "i < 1000 \<Longrightarrow> checksum_key f j \<noteq> shard_name f i"
proof
  assume "i < 1000" and eq: "checksum_key f j = shard_name f i"
  have "length (nat_string j) + 4 = length (nat_string i)"
    using arg_cong [OF eq, of length] by (simp add: checksum_key_def shard_name_def)
  then show False using length_nat_string [of i] length_nat_string(1) [of j] \<open>i < 1000\<close> by simp
qed

section \<open>Facts about the steps\<close>

lemma sh_bind_simps [simp]:
  "sh_bind (sh_return a) k fs = k a fs"
  "sh_bind (checkErr (Inr a)) k fs = k a fs"
  "sh_bind (returning (Inr a)) k fs = k a fs"
  "sh_bind (gets g) k fs = k (g fs) fs"
  "sh_bind (puts u) k' fs = k' () (u fs)"
  "sh_bind (in_shards h) k' fs = k' () (fs\<lparr>lf_shards := h (lf_shards fs)\<rparr>)"
  "sh_bind (of_stream (Some a)) k fs = k a fs"
  by (simp_all add: sh_bind_def sh_return_def checkErr_def returning_def gets_def puts_def in_shards_def of_stream_def)

lemma sh_bind_ok: "m fs = (Returned (Inr a), fs') \<Longrightarrow> sh_bind m k fs = k a fs'"
  by (simp add: sh_bind_def)

text \<open>Every call of the operating system succeeds.\<close>

definition calm :: "shard_env \<Rightarrow> bool" where
  "calm env \<longleftrightarrow> (\<forall>c. \<not> se_fails env c)"

lemma calm_simps [simp]:
  "calm env \<Longrightarrow> os_call env c = Inr ()"
  "calm env \<Longrightarrow> \<not> se_fails env c"
  by (simp_all add: calm_def os_call_def)

lemma err_result_simps [simp]: "err_result None = Inr ()" "err_result (Some e) = Inl e"
  by (simp_all add: err_result_def)

lemma create_all:
  assumes "\<And>name fs. mk name fs = (Returned (Inr ()), fs\<lparr>lf_shards := (lf_shards fs)(name \<mapsto> [])\<rparr>)"
  shows "sh_each mk names fs =
    (Returned (Inr ()), fs\<lparr>lf_shards := (\<lambda>n. if n \<in> set names then Some [] else lf_shards fs n)\<rparr>)"
proof (induction names arbitrary: fs)
  case (Cons name names)
  show ?case
    by (simp add: sh_bind_ok [OF assms] Cons.IH) (auto simp: fun_eq_iff)
qed (simp add: sh_return_def)

lemma create_shard_calm: "calm env \<Longrightarrow> create_shard env name fs = (Returned (Inr ()), fs\<lparr>lf_shards := (lf_shards fs)(name \<mapsto> [])\<rparr>)"
  and create_missing_calm: "calm env \<Longrightarrow> create_missing env name fs = (Returned (Inr ()), fs\<lparr>lf_shards := (lf_shards fs)(name \<mapsto> [])\<rparr>)"
  by (simp_all add: create_shard_def create_missing_def in_shards_def)

lemma sh_map_same:
  "\<forall>x \<in> set xs. f x fs = (Returned (Inr (g x)), fs) \<Longrightarrow> sh_map f xs fs = (Returned (Inr (map g xs)), fs)"
  by (induction xs) (simp_all add: sh_bind_ok sh_return_def)

lemma open_shard_calm: "calm env \<Longrightarrow> lf_shards fs name = Some c \<Longrightarrow> open_shard env time name fs = (Returned (Inr c), fs)"
  by (simp add: open_shard_def sh_return_def)

lemma checksum_shard_calm:
  "calm env \<Longrightarrow> lf_shards fs name = Some c \<Longrightarrow> checksum_shard env time name fs = (Returned (Inr (calculateChecksum c)), fs)"
  by (simp add: checksum_shard_def sh_return_def)

text \<open>The shard directory after some files have been written.\<close>

definition written_dir :: "string list \<Rightarrow> bytes option list \<Rightarrow> shard_dir \<Rightarrow> shard_dir" where
  "written_dir names ws dir = fold (\<lambda>(name, w) dir. case w of None \<Rightarrow> dir | Some w \<Rightarrow> dir(name \<mapsto> w)) (zip names ws) dir"

lemma store_files_dir: "store_files names ws fs = (Returned (Inr ()), fs\<lparr>lf_shards := written_dir names ws (lf_shards fs)\<rparr>)"
  by (simp add: store_files_def in_shards_def written_dir_def)

lemma written_dir_other: "n \<notin> set names \<Longrightarrow> written_dir names ws dir n = dir n"
proof (induction names arbitrary: ws dir)
  case (Cons name names)
  then show ?case by (cases ws) (auto simp: written_dir_def split: option.splits)
qed (simp add: written_dir_def)

lemma written_dir_nth:
  "distinct names \<Longrightarrow> length ws = length names \<Longrightarrow> i < length names \<Longrightarrow>
     written_dir names ws dir (names ! i) = (case ws ! i of None \<Rightarrow> dir (names ! i) | Some w \<Rightarrow> Some w)"
proof (induction names arbitrary: ws dir i)
  case (Cons name names)
  then obtain w ws' where ws: "ws = w # ws'" by (cases ws) auto
  have step: "written_dir (name # names) ws dir = written_dir names ws' (case w of None \<Rightarrow> dir | Some w \<Rightarrow> dir(name \<mapsto> w))"
    by (simp add: ws written_dir_def)
  show ?case
  proof (cases i)
    case 0
    then show ?thesis unfolding step using Cons.prems ws by (simp add: written_dir_other split: option.splits)
  next
    case (Suc j)
    then have "names ! j \<noteq> name" using Cons.prems by auto
    then show ?thesis
      unfolding step using Suc Cons.prems Cons.IH [of ws' j] ws by (auto split: option.splits)
  qed
qed simp

section \<open>What DoEncode leaves\<close>

text \<open>The shards of a ciphertext: a codeword of the default encoder whose data shards are the padded ciphertext.\<close>

definition coded :: "rsStream \<Rightarrow> bytes \<Rightarrow> nat \<Rightarrow> bytes list \<Rightarrow> bool" where
  "coded enc cipher N cw \<longleftrightarrow> codeword (st_r enc) N cw \<and> N = per_shard (dataShards (st_r enc)) (length cipher)
     \<and> concat (take (dataShards (st_r enc)) cw) = padded (dataShards (st_r enc) * N) cipher"

definition stream_env :: "shard_env \<Rightarrow> rsStream \<Rightarrow> nat \<Rightarrow> nat \<Rightarrow> bool" where
  "stream_env env enc d p \<longleftrightarrow> calm env \<and> NewStream (se_cpu env) (int d) (int p) [] = Inr enc \<and> default_matrix (st_r enc)
     \<and> dataShards (st_r enc) = d \<and> parityShards (st_r enc) = p \<and> totalShards (st_r enc) = d + p \<and> (\<forall>k. stream_ok enc (se_pool env k))"

lemma stream_envE:
  assumes "calm env" "1 \<le> GOMAXPROCS (se_cpu env)" "0 < d" "0 < p" "d + p \<le> 256"
    and "\<And>k. length (se_pool env k) = d + p \<and> (\<forall>mem \<in> set (se_pool env k). length mem = 4194304)"
  obtains enc where "stream_env env enc d p"
proof -
  obtain enc where enc: "NewStream (se_cpu env) (int d) (int p) [] = Inr enc" "default_matrix (st_r enc)"
      "streamBS (st_o enc) = 4 * 1024 * 1024"
    using NewStream_default [OF assms(3-5,2)] by metis
  note wf = NewStream_wf [OF enc(1) assms(4) _ assms(2), simplified]
  then show ?thesis
    using enc assms(1,6) by (intro that [of enc]) (auto simp: stream_env_def stream_ok_def pool_ok_def)
qed

lemma stream_env_pos: "stream_env env enc d p \<Longrightarrow> 0 < d \<and> 0 < p \<and> rs_wf (st_r enc)"
  by (auto simp: stream_env_def stream_ok_def rs_wf_def)

lemma coded_exists:
  assumes "stream_env env enc d p" "cipher \<noteq> []"
  defines "N \<equiv> per_shard d (length cipher)"
  obtains cw where "coded enc cipher N cw" "take d cw = chunks N d (padded (d * N) cipher)"
proof -
  note e = stream_env_pos [OF assms(1)]
  have N: "0 < N" "length cipher \<le> d * N" using per_shard_bounds [of d "length cipher"] e assms(2) by (auto simp: N_def)
  let ?data = "chunks N d (padded (d * N) cipher)"
  have "d * N \<le> length (padded (d * N) cipher)" by (simp add: padded_def)
  then have lens: "lens_eq N ?data" unfolding lens_eq_def using chunks_lengths by blast
  have r: "rs_wf (st_r enc)" "dataShards (st_r enc) = d" "parityShards (st_r enc) = p"
    using e assms(1) by (simp_all add: stream_env_def)
  obtain cw where "codeword (st_r enc) N cw" "take d cw = ?data"
    using Encode_padded [OF r length_chunks N(1) lens] by blast
  moreover have "concat ?data = padded (d * N) cipher" using N by (simp add: concat_chunks padded_def)
  ultimately have "coded enc cipher N cw" "take d cw = ?data" using r(2) by (simp_all add: coded_def N_def)
  then show ?thesis by (rule that)
qed

lemma written_range:
  assumes "length ws = b - a"
  shows "written_dir (map (shard_name f) [a..<b]) (map Some ws) dir (shard_name f i) =
    (if a \<le> i \<and> i < b then Some (ws ! (i - a)) else dir (shard_name f i))"
proof (cases "a \<le> i \<and> i < b")
  case True
  then show ?thesis
    using written_dir_nth [of "map (shard_name f) [a..<b]" "map Some ws" "i - a" dir] diff_less_mono [of i b a] assms by simp
next
  case False
  then have "shard_name f i \<notin> set (map (shard_name f) [a..<b])" by auto
  from written_dir_other [OF this] False show ?thesis by (simp only: if_False)
qed

lemma written_elsewhere:
  "n \<notin> range (shard_name f) \<Longrightarrow> written_dir (map (shard_name f) is) ws dir n = dir n"
  by (rule written_dir_other) auto

lemma read_data_shards:
  assumes "calm env" "\<forall>i \<in> set is. lf_shards fs (shard_name f i) = Some (cw ! i)"
  shows "sh_map (\<lambda>name. sh_bind (open_shard env 0 name) (\<lambda>data.
      sh_bind (checksum_shard env 1 name) (\<lambda>checksum. sh_return (data, checksum)))) (map (shard_name f) is) fs =
    (Returned (Inr (map (\<lambda>i. (cw ! i, calculateChecksum (cw ! i))) is)), fs)"
  using assms(2)
proof (induction "is")
  case (Cons i "is")
  then have "lf_shards fs (shard_name f i) = Some (cw ! i)" by simp
  note c = open_shard_calm [OF assms(1) this] checksum_shard_calm [OF assms(1) this]
  show ?case using Cons by (simp add: c sh_bind_def sh_return_def)
qed (simp add: sh_return_def)

lemma read_parity_checksums:
  assumes "calm env" "\<forall>i \<in> set is. lf_shards fs (shard_name f i) = Some (cw ! i)"
  shows "sh_map (checksum_shard env time) (map (shard_name f) is) fs = (Returned (Inr (map (\<lambda>i. calculateChecksum (cw ! i)) is)), fs)"
  using assms(2)
proof (induction "is")
  case (Cons i "is")
  then have "lf_shards fs (shard_name f i) = Some (cw ! i)" by simp
  note c = checksum_shard_calm [OF assms(1) this]
  show ?case using Cons by (simp add: c sh_bind_def sh_return_def)
qed (simp add: sh_return_def)

lemma encode_shards_ok:
  assumes env: "stream_env env enc d p" and ne: "cipher \<noteq> []" and d: "1 < d"
  defines "N \<equiv> per_shard d (length cipher)"
  obtains cw dir where "coded enc cipher N cw"
    "encode_shards env enc f cipher d p fs = (Returned (Inr (map calculateChecksum cw, N, d * N - length cipher)), fs\<lparr>lf_shards := dir\<rparr>)"
    "\<forall>i < d + p. dir (shard_name f i) = Some (cw ! i)" "\<forall>n. n \<notin> range (shard_name f) \<longrightarrow> dir n = lf_shards fs n"
proof -
  have c: "calm env" and r: "dataShards (st_r enc) = d" "parityShards (st_r enc) = p" "totalShards (st_r enc) = d + p"
    "stream_ok enc (se_pool env 0)" using env by (simp_all add: stream_env_def)
  note pos = stream_env_pos [OF env]
  obtain cw where cw: "coded enc cipher N cw" "take d cw = chunks N d (padded (d * N) cipher)"
    using coded_exists [OF env ne] unfolding N_def by blast
  have code: "codeword (st_r enc) N cw" using cw(1) unfolding coded_def by blast
  have len: "length cw = d + p" "lens_eq N cw" using codeword_lens [OF _ code] pos r(3) by simp_all
  let ?data = "map (shard_name f) [0..<d]" and ?par = "map (shard_name f) [d..<d + p]"
  have names: "take d (map (shard_name f) [0..<d + p]) = ?data" "drop d (map (shard_name f) [0..<d + p]) = ?par"
    by (simp_all add: take_map drop_map)
  define dir0 where "dir0 = (\<lambda>n. if n \<in> set (map (shard_name f) [0..<d + p]) then Some [] else lf_shards fs n)"
  have create: "sh_each (create_shard env) (map (shard_name f) [0..<d + p]) fs = (Returned (Inr ()), fs\<lparr>lf_shards := dir0\<rparr>)"
    unfolding dir0_def by (rule create_all) (rule create_shard_calm [OF c])
  have split: "stream_Split enc buffer_write (open_reader cipher) (replicate d (Some [])) (length cipher) =
      (map Some (take d cw), d * N - length cipher, None)"
    using stream_Split_files [of enc cipher] pos ne r unfolding cw(2) N_def by simp
  define dir1 where "dir1 = written_dir ?data (map Some (take d cw)) dir0"
  have dir1: "\<forall>i \<in> set [0..<d]. dir1 (shard_name f i) = Some (cw ! i)" using len by (simp add: dir1_def written_range)
  obtain st where st: "stream_Encode enc buffer_write (se_pool env 0) (map (\<lambda>x. Some (open_reader x)) (take d cw)) (replicate p (Some [])) = Some (None, st)"
      "ss_out st = map2 (\<lambda>w c. Some (w @ c)) (replicate p []) (drop d cw)"
    using stream_Encode_files [OF r(4) code, of "replicate p []"] unfolding r map_replicate by auto
  have out: "ss_out st = map Some (drop d cw)" unfolding st(2) using len by (simp add: list_eq_iff_nth_eq)
  have ins: "map (\<lambda>(x, _). Some (open_reader x)) (map (\<lambda>i. (cw ! i, calculateChecksum (cw ! i))) [0..<d]) =
      map (\<lambda>x. Some (open_reader x)) (take d cw)" using len by (simp add: list_eq_iff_nth_eq)
  define dir2 where "dir2 = written_dir ?par (map Some (drop d cw)) dir1"
  have dir2: "\<forall>i < d + p. dir2 (shard_name f i) = Some (cw ! i)" using dir1 len by (auto simp: dir2_def written_range)
  have sums: "map (\<lambda>i. calculateChecksum (cw ! i)) [0..<d] @ map (\<lambda>i. calculateChecksum (cw ! i)) [d..<d + p] = map calculateChecksum cw"
    unfolding map_append [symmetric] using upt_add_eq_append [of 0 d p] map_nth_upt [of calculateChecksum cw] len(1) by simp
  have second: "lf_shards (fs\<lparr>lf_shards := dir1\<rparr>) (map (shard_name f) [0..<d + p] ! 1) = Some (cw ! 1)" "length (cw ! 1) = N"
    using dir1 d len lens_eq_nth [OF len(2), of 1] by simp_all
  have res: "encode_shards env enc f cipher d p fs = (Returned (Inr (map calculateChecksum cw, N, d * N - length cipher)), fs\<lparr>lf_shards := dir2\<rparr>)"
  proof -
    note reads = read_data_shards [OF c, of "[0..<d]" "fs\<lparr>lf_shards := dir1\<rparr>" f cw]
      read_parity_checksums [OF c, of "[d..<d + p]" "fs\<lparr>lf_shards := dir2\<rparr>" f cw 3]
    show ?thesis
      using reads dir1 dir2 open_shard_calm [OF c second(1), of 2] second(2) d ins st(1) out sums
      unfolding encode_shards_def Let_def names split prod.case
      by (simp add: sh_bind_def create store_files_dir dir1_def [symmetric] dir2_def [symmetric] checkErr_def sh_return_def of_stream_def comp_def)
  qed
  have "\<forall>n. n \<notin> range (shard_name f) \<longrightarrow> dir2 n = lf_shards fs n"
    by (auto simp: dir2_def dir1_def dir0_def written_elsewhere)
  with cw(1) res dir2 show ?thesis by (rule that)
qed

lemma ensure_dir:
  assumes "calm env"
  shows "sh_bind (gets (\<lambda>fs. dir \<in> lf_dirs fs)) (\<lambda>exists.
      sh_bind (if exists then sh_return ()
               else sh_bind (checkErr (os_call env (OsMkdir dir))) (\<lambda>_. puts (\<lambda>fs. fs\<lparr>lf_dirs := insert dir (lf_dirs fs)\<rparr>))) k) fs =
    k () (fs\<lparr>lf_dirs := insert dir (lf_dirs fs)\<rparr>)"
proof (cases "dir \<in> lf_dirs fs")
  case True
  then have "fs\<lparr>lf_dirs := insert dir (lf_dirs fs)\<rparr> = fs" by (simp add: insert_absorb)
  then show ?thesis using True by (simp only: sh_bind_simps if_True)
next
  case False
  then show ?thesis using assms by (simp add: sh_bind_def gets_def checkErr_def puts_def)
qed

lemma DoEncode_ok:
  assumes env: "stream_env env enc d p" and d: "1 < d" "d + p \<le> 256"
    and input: "lf_file fs fname = Some content" "shards_num (length content) (lf_data fs) = Some (d, p)"
      "se_encrypt env password content = Inr cipher" "cipher \<noteq> []"
  defines "f \<equiv> path_Base (fname @ fileCryptExtension)" and "N \<equiv> per_shard d (length cipher)"
  obtains cw fs' where "coded enc cipher N cw"
    "DoEncode env fname password fs = (Returned (Inr \<lparr>en_paths = map (\<lambda>i. se_dir env @ ''/'' @ shard_name f i) [0..<d + p],
       en_checksums = map calculateChecksum cw, en_size = N, en_padding = d * N - length cipher, en_shard = d, en_parity = p\<rparr>), fs')"
    "\<forall>i < d + p. lf_shards fs' (shard_name f i) = Some (cw ! i)" "\<forall>n. n \<notin> range (shard_name f) \<longrightarrow> lf_shards fs' n = lf_shards fs n"
    "lf_file fs' = (lf_file fs)(fname @ fileCryptExtension := None)" "lf_data fs' = d" "lf_par fs' = p" "lf_dirs fs' = insert (se_dir env) (lf_dirs fs)"
proof -
  have c: "calm env" and s: "NewStream (se_cpu env) (int d) (int p) [] = Inr enc" using env by (simp_all add: stream_env_def)
  define fs1 where "fs1 = fs\<lparr>lf_dirs := insert (se_dir env) (lf_dirs fs), lf_data := d, lf_par := p,
      lf_file := (lf_file fs)(fname @ fileCryptExtension \<mapsto> cipher)\<rparr>"
  obtain cw dir where cw: "coded enc cipher N cw"
      "encode_shards env enc f cipher d p fs1 = (Returned (Inr (map calculateChecksum cw, N, d * N - length cipher)), fs1\<lparr>lf_shards := dir\<rparr>)"
      "\<forall>i < d + p. dir (shard_name f i) = Some (cw ! i)" "\<forall>n. n \<notin> range (shard_name f) \<longrightarrow> dir n = lf_shards fs1 n"
    using encode_shards_ok [OF env input(4) d(1), of f fs1] unfolding N_def by blast
  have num: "calculateShardsNum env fname fs' = (Returned (Inr ()), fs'\<lparr>lf_data := d, lf_par := p\<rparr>)"
    if "lf_file fs' = lf_file fs" "lf_data fs' = lf_data fs" for fs'
    using c input(1,2) that by (simp add: calculateShardsNum_def puts_def)
  let ?fs' = "fs1\<lparr>lf_shards := dir, lf_file := (lf_file fs)(fname @ fileCryptExtension := None)\<rparr>"
  have "DoEncode env fname password fs = (Returned (Inr \<lparr>en_paths = map (\<lambda>i. se_dir env @ ''/'' @ shard_name f i) [0..<d + p],
       en_checksums = map calculateChecksum cw, en_size = N, en_padding = d * N - length cipher, en_shard = d, en_parity = p\<rparr>), ?fs')"
    unfolding DoEncode_def ensure_dir [OF c]
    using num [of "fs\<lparr>lf_dirs := insert (se_dir env) (lf_dirs fs)\<rparr>"] c s cw(2) input(1,3) d(2)
    by (simp add: sh_bind_def gets_def puts_def checkErr_def sh_return_def Let_def f_def [symmetric] fs1_def)
  then show ?thesis
    by (rule that [OF cw(1)]) (use cw(3,4) in \<open>simp_all add: fs1_def\<close>)
qed

section \<open>What DoDecode restores\<close>

definition present_files :: "string \<Rightarrow> nat \<Rightarrow> shard_dir \<Rightarrow> bytes option list" where
  "present_files f n dir = map (\<lambda>i. if dir (shard_name f i) = Some [] then None else dir (shard_name f i)) [0..<n]"

definition last_size :: "bytes option list \<Rightarrow> nat" where
  "last_size cs = fold (\<lambda>c sz. case c of None \<Rightarrow> sz | Some c \<Rightarrow> length c) cs 0"

lemma openInput_calm:
  "calm env \<Longrightarrow> openInput env time d p f fs =
     (Returned (Inr (present_files f (d + p) (lf_shards fs), last_size (present_files f (d + p) (lf_shards fs)))), fs)"
  by (simp add: openInput_def present_files_def last_size_def Let_def sh_return_def comp_def cong: if_cong)

lemma last_size_const: "shard_files N cs \<Longrightarrow> \<exists>c. Some c \<in> set cs \<Longrightarrow> last_size cs = N"
proof (induction cs rule: rev_induct)
  case (snoc x cs)
  then show ?case by (cases x) (auto simp: shard_files_def last_size_def)
qed simp

text \<open>The comparison of checksums never deletes a shard file: it looks up keys that neither map has.\<close>

definition shard_checksums :: "string \<Rightarrow> (string \<times> string) list \<Rightarrow> bool" where
  "shard_checksums f m \<longleftrightarrow> (\<forall>k \<in> fst ` set m. \<exists>i < 1000. k = shard_name f i)"

lemma checksum_of_key: "shard_checksums f m \<Longrightarrow> checksum_of m (checksum_key f i) = []"
proof -
  assume m: "shard_checksums f m"
  have "checksum_key f i \<notin> fst ` set m"
  proof
    assume "checksum_key f i \<in> fst ` set m"
    then obtain j where "j < 1000" "checksum_key f i = shard_name f j" using m unfolding shard_checksums_def by blast
    then show False using checksum_key_no_shard by blast
  qed
  then have "map_of m (checksum_key f i) = None" by (simp add: map_of_eq_None_iff)
  then show ?thesis by (simp add: checksum_of_def)
qed

lemma compare_loop_id:
  "shard_checksums f server \<Longrightarrow> shard_checksums f conf \<Longrightarrow> compare_loop env server conf f is dir = dir"
  by (induction "is") (simp_all add: checksum_of_key)

lemma trimPadding_padded:
  assumes "cipher \<noteq> []" "length cipher \<le> n"
  shows "(if 0 < n - length cipher then trimPadding (padded n cipher) (n - length cipher) else padded n cipher) = cipher"
  using assms by (auto simp: trimPadding_def padded_def)

text \<open>The shard files of a codeword, some lost or emptied.\<close>

definition shards_left :: "string \<Rightarrow> nat \<Rightarrow> bytes list \<Rightarrow> shard_dir \<Rightarrow> bool" where
  "shards_left f n cw dir \<longleftrightarrow> (\<forall>i < n. dir (shard_name f i) \<in> {None, Some [], Some (cw ! i)})"

lemma present_survivors:
  assumes env: "stream_env env enc d p" and cw: "codeword (st_r enc) N cw" and left: "shards_left f (d + p) cw dir"
    and enough: "d \<le> length (filter (\<lambda>i. dir (shard_name f i) = Some (cw ! i)) [0..<d + p])"
  shows "survivors (st_r enc) cw (present_files f (d + p) dir)" "shard_files N (present_files f (d + p) dir)"
    "\<exists>c. Some c \<in> set (present_files f (d + p) dir)"
proof -
  let ?cs = "present_files f (d + p) dir"
  note pos = stream_env_pos [OF env]
  have r: "dataShards (st_r enc) = d" "totalShards (st_r enc) = d + p" using env by (simp_all add: stream_env_def)
  have ne: "cw ! i \<noteq> [] \<and> length (cw ! i) = N" if "i < d + p" for i
    using codeword_nonempty [OF _ cw] lens_eq_nth [of N cw i] codeword_lens [OF _ cw] pos r that by simp
  have cs: "?cs ! i = (if dir (shard_name f i) = Some (cw ! i) then Some (cw ! i) else None)" if "i < d + p" for i
    using left that ne [OF that] by (auto simp: present_files_def shards_left_def)
  have "filter (\<lambda>i. ?cs ! i \<noteq> None) [0..<d + p] = filter (\<lambda>i. dir (shard_name f i) = Some (cw ! i)) [0..<d + p]"
    using cs by (intro filter_cong) auto
  then show "survivors (st_r enc) cw ?cs"
    using cs enough r by (auto simp: survivors_def present_files_def)
  show "shard_files N ?cs" unfolding shard_files_def
  proof (intro allI impI)
    fix c assume "Some c \<in> set ?cs"
    then obtain i where "i < d + p" "?cs ! i = Some c" by (auto simp: in_set_conv_nth present_files_def)
    then show "length c = N" using cs [of i] ne [of i] by (auto split: if_splits)
  qed
  have "filter (\<lambda>i. dir (shard_name f i) = Some (cw ! i)) [0..<d + p] \<noteq> []" using enough pos by auto
  then obtain i where "i < d + p" "dir (shard_name f i) = Some (cw ! i)" by (auto simp: filter_empty_conv)
  moreover from this have "?cs ! i = Some (cw ! i)" using cs [of i] by simp
  ultimately have "?cs ! i = Some (cw ! i)" "i < length ?cs" by (auto simp: present_files_def)
  then show "\<exists>c. Some c \<in> set ?cs" by (metis nth_mem)
qed

lemma complete_files:
  assumes "stream_env env enc d p" "codeword (st_r enc) N cw" "\<forall>i < d + p. dir (shard_name f i) = Some (cw ! i)"
  shows "present_files f (d + p) dir = map Some cw" "last_size (map Some cw) = N"
proof -
  have left: "shards_left f (d + p) cw dir" using assms(3) by (simp add: shards_left_def)
  have "filter (\<lambda>i. dir (shard_name f i) = Some (cw ! i)) [0..<d + p] = [0..<d + p]" using assms(3) by (intro filter_True) auto
  then have enough: "d \<le> length (filter (\<lambda>i. dir (shard_name f i) = Some (cw ! i)) [0..<d + p])" by simp
  note s = present_survivors [OF assms(1,2) left enough]
  have len: "length cw = d + p" using codeword_lens(1) [OF _ assms(2)] stream_env_pos [OF assms(1)] assms(1) by (simp add: stream_env_def)
  have ne: "cw ! i \<noteq> []" if "i < d + p" for i
    using codeword_nonempty [OF _ assms(2)] stream_env_pos [OF assms(1)] assms(1) that by (simp add: stream_env_def)
  show eq: "present_files f (d + p) dir = map Some cw"
    using assms(3) len ne by (auto simp: present_files_def intro!: nth_equalityI)
  show "last_size (map Some cw) = N" using last_size_const [OF s(2,3)] by (simp add: eq)
qed

lemma repair_ok:
  assumes env: "stream_env env enc d p" and cw: "codeword (st_r enc) N cw" and left: "shards_left f (d + p) cw (lf_shards fs)"
    and enough: "d \<le> length (filter (\<lambda>i. lf_shards fs (shard_name f i) = Some (cw ! i)) [0..<d + p])"
  obtains dir where "repair_shards env enc f d p fs = (Returned (Inr True), fs\<lparr>lf_shards := dir\<rparr>)"
    "\<forall>i < d + p. dir (shard_name f i) = Some (cw ! i)" "\<forall>n. n \<notin> range (shard_name f) \<longrightarrow> dir n = lf_shards fs n"
proof -
  have c: "calm env" and r: "totalShards (st_r enc) = d + p" "default_matrix (st_r enc)" "\<And>k. stream_ok enc (se_pool env k)"
    using env by (simp_all add: stream_env_def)
  have wf: "rs_wf (st_r enc)" using stream_env_pos [OF env] by simp
  have len: "length cw = d + p" "lens_eq N cw" "0 < N" using codeword_lens [OF wf cw] r by simp_all
  let ?dir = "lf_shards fs" let ?cs = "present_files f (d + p) ?dir"
  note s = present_survivors [OF env cw left enough]
  let ?out = "map (\<lambda>c. if c = None then Some [] else None) ?cs"
  let ?missing = "map (shard_name f) (filter (\<lambda>i. ?cs ! i = None) [0..<d + p])"
  have cs: "length ?cs = d + p" "\<forall>i < d + p. ?cs ! i = None \<or> ?cs ! i = Some (cw ! i)"
    using s(1) r by (simp_all add: survivors_def)
  have "fills (st_r enc) ?cs ?out" using cs r by (simp add: fills_def)
  then obtain st where st: "stream_Reconstruct enc buffer_write (se_pool env 2) (files_at 0 ?cs) ?out = Some (None, st)"
      "ss_out st = map2 (\<lambda>f c. map_option (\<lambda>w. w @ c) f) ?out cw"
    using stream_Reconstruct_files [OF r(3,2) cw s(1)] by blast
  define dir0 where "dir0 = (\<lambda>n. if n \<in> set ?missing then Some [] else ?dir n)"
  have create: "sh_each (create_missing env) ?missing fs = (Returned (Inr ()), fs\<lparr>lf_shards := dir0\<rparr>)"
    unfolding dir0_def by (rule create_all) (rule create_missing_calm [OF c])
  define dir1 where "dir1 = written_dir (map (shard_name f) [0..<d + p]) (ss_out st) dir0"
  have dir1: "\<forall>i < d + p. dir1 (shard_name f i) = Some (cw ! i)"
  proof (intro allI impI)
    fix i assume i: "i < d + p"
    have out: "ss_out st ! i = (if ?cs ! i = None then Some (cw ! i) else None)" "length (ss_out st) = d + p"
      using st(2) i len cs by simp_all
    have "?cs ! i \<noteq> None \<Longrightarrow> dir0 (shard_name f i) = Some (cw ! i)"
      using cs i by (auto simp: dir0_def present_files_def split: if_splits)
    then show "dir1 (shard_name f i) = Some (cw ! i)"
      using written_dir_nth [of "map (shard_name f) [0..<d + p]" "ss_out st" i dir0] out i by (auto simp: dir1_def)
  qed
  have ver: "stream_Verify enc (se_pool env 3) (files_at 0 (map Some cw)) = Some (True, None)"
    using stream_Verify_files [OF r(3) _ len(2,3)] len r cw by (simp add: files_at_0)
  have "repair_shards env enc f d p fs = (Returned (Inr True), fs\<lparr>lf_shards := dir1\<rparr>)"
    using create st(1) ver complete_files(1) [OF env cw dir1]
    by (simp add: repair_shards_def Let_def sh_bind_def openInput_calm [OF c] of_stream_def store_files_dir dir1_def [symmetric]
        returning_def sh_return_def)
  moreover have "\<forall>n. n \<notin> range (shard_name f) \<longrightarrow> dir1 n = ?dir n" by (auto simp: dir1_def dir0_def written_elsewhere)
  ultimately show ?thesis using dir1 that by blast
qed

lemma decode_join_ok:
  assumes env: "stream_env env enc d p" and cw: "coded enc cipher N cw" "cipher \<noteq> []"
    and files: "\<forall>i < d + p. lf_shards fs (shard_name (fname @ fileCryptExtension) i) = Some (cw ! i)"
    and out: "outdir \<in> lf_dirs fs" "se_decrypt env password cipher = Inr content"
  shows "decode_join env enc fname outdir (d * N - length cipher) d p password fs =
    (Returned (Inr ()), fs\<lparr>lf_file := (lf_file fs)(in_dir outdir fname \<mapsto> content, in_dir outdir (fname @ fileCryptExtension) := None)\<rparr>)"
proof -
  have c: "calm env" and r: "dataShards (st_r enc) = d" "totalShards (st_r enc) = d + p" using env by (simp_all add: stream_env_def)
  note pos = stream_env_pos [OF env]
  have code: "codeword (st_r enc) N cw" and cat: "concat (take d cw) = padded (d * N) cipher" and N: "N = per_shard d (length cipher)"
    using cw(1) r unfolding coded_def by blast+
  have n: "length cipher \<le> d * N" "0 < d * N" using per_shard_bounds [of d "length cipher"] pos cw(2) unfolding N by auto
  have len: "length cw = d + p" using codeword_lens(1) [OF _ code] pos r by simp
  note all = complete_files [OF env code files]
  have join: "stream_Join enc buffer_write [] (files_at 0 (map Some cw)) (d * N) = (padded (d * N) cipher, None)"
    using stream_Join_files [of enc cw "d * N" "[]"] r len cat n by (simp add: files_at_0 padded_def)
  let ?trim = "if 0 < d * N - length cipher then trimPadding (padded (d * N) cipher) (d * N - length cipher) else padded (d * N) cipher"
  have trim: "?trim = cipher" by (rule trimPadding_padded [OF cw(2) n(1)])
  have ne: "in_dir outdir fname \<noteq> in_dir outdir (fname @ fileCryptExtension)" by simp
  show ?thesis
    unfolding decode_join_def Let_def
    using c out join all ne
    by (simp add: sh_bind_def gets_def puts_def openInput_calm [OF c] returning_def sh_return_def checkErr_def trim [simplified]
        fun_upd_twist del: append_Cons)
qed

lemma server_checksums_ok:
  "n \<le> 1000 \<Longrightarrow> shard_checksums f (map (\<lambda>i. (shard_name f i, g i)) [0..<n])"
  unfolding shard_checksums_def by force

lemma DoDecode_start:
  assumes env: "stream_env env enc d p" and out: "outdir \<in> lf_dirs fs"
    and conf: "shard_checksums (fname @ fileCryptExtension) conf" "length conf \<le> 1000"
    and ver: "stream_Verify enc (se_pool env 1) (files_at 0 (present_files (fname @ fileCryptExtension) (d + p) (lf_shards fs))) = Some (ok, err)"
  shows "DoDecode env fname outdir padding conf d p password fs =
    sh_bind (if ok then sh_return True else repair_shards env enc (fname @ fileCryptExtension) d p) (\<lambda>go.
      if go then decode_join env enc fname outdir padding d p password else sh_return ()) fs"
proof -
  have c: "calm env" and s: "NewStream (se_cpu env) (int d) (int p) [] = Inr enc" using env by (simp_all add: stream_env_def)
  show ?thesis
    unfolding DoDecode_def Let_def compareandDeleteChecksum_def
    using out s ver compare_loop_id [OF server_checksums_ok [OF conf(2)] conf(1)]
    by (simp add: sh_bind_def [of "openInput env 4 d p (fname @ fileCryptExtension)"] openInput_calm [OF c])
qed

lemma decoded_after_repair:
  assumes env: "stream_env env enc d p" and cw: "coded enc cipher N cw" "cipher \<noteq> []"
    and out: "outdir \<in> lf_dirs fs" "se_decrypt env password cipher = Inr content"
    and files: "\<forall>i < d + p. dir (shard_name (fname @ fileCryptExtension) i) = Some (cw ! i)"
  obtains fs' where "decode_join env enc fname outdir (d * N - length cipher) d p password (fs\<lparr>lf_shards := dir\<rparr>) = (Returned (Inr ()), fs')"
    "lf_file fs' = (lf_file fs)(in_dir outdir fname \<mapsto> content, in_dir outdir (fname @ fileCryptExtension) := None)" "lf_shards fs' = dir"
proof -
  let ?fs = "fs\<lparr>lf_shards := dir\<rparr>"
  have files': "\<forall>i < d + p. lf_shards ?fs (shard_name (fname @ fileCryptExtension) i) = Some (cw ! i)" using files by simp
  have out': "outdir \<in> lf_dirs ?fs" using out(1) by simp
  show ?thesis by (rule that, rule decode_join_ok [OF env cw files' out' out(2)]) simp_all
qed

lemma complete_or_missing:
  assumes "shards_left f n cw dir" "None \<notin> set (present_files f n dir)"
  shows "\<forall>i < n. dir (shard_name f i) = Some (cw ! i)"
proof (intro allI impI)
  fix i assume i: "i < n"
  have "i < length (present_files f n dir)" using i by (simp add: present_files_def)
  then have "present_files f n dir ! i \<in> set (present_files f n dir)" by (rule nth_mem)
  then have "present_files f n dir ! i \<noteq> None" using assms(2) by metis
  then show "dir (shard_name f i) = Some (cw ! i)"
    using assms(1) i by (auto simp: present_files_def shards_left_def split: if_splits)
qed

lemma DoDecode_repairs:
  assumes env: "stream_env env enc d p" and cw: "coded enc cipher N cw" "cipher \<noteq> []"
    and left: "shards_left (fname @ fileCryptExtension) (d + p) cw (lf_shards fs)"
    and enough: "d \<le> length (filter (\<lambda>i. lf_shards fs (shard_name (fname @ fileCryptExtension) i) = Some (cw ! i)) [0..<d + p])"
    and out: "outdir \<in> lf_dirs fs" "se_decrypt env password cipher = Inr content"
    and conf: "shard_checksums (fname @ fileCryptExtension) conf" "length conf \<le> 1000"
    and ver: "stream_Verify enc (se_pool env 1) (files_at 0 (present_files (fname @ fileCryptExtension) (d + p) (lf_shards fs))) = Some (False, err)"
  obtains fs' where "DoDecode env fname outdir (d * N - length cipher) conf d p password fs = (Returned (Inr ()), fs')"
    "lf_file fs' = (lf_file fs)(in_dir outdir fname \<mapsto> content, in_dir outdir (fname @ fileCryptExtension) := None)"
    "\<forall>i < d + p. lf_shards fs' (shard_name (fname @ fileCryptExtension) i) = Some (cw ! i)"
proof -
  let ?f = "fname @ fileCryptExtension"
  have code: "codeword (st_r enc) N cw" using cw(1) unfolding coded_def by blast
  obtain dir where rep: "repair_shards env enc ?f d p fs = (Returned (Inr True), fs\<lparr>lf_shards := dir\<rparr>)"
      "\<forall>i < d + p. dir (shard_name ?f i) = Some (cw ! i)" "\<forall>n. n \<notin> range (shard_name ?f) \<longrightarrow> dir n = lf_shards fs n"
    by (rule repair_ok [OF env code left enough])
  obtain fs' where fs': "decode_join env enc fname outdir (d * N - length cipher) d p password (fs\<lparr>lf_shards := dir\<rparr>) = (Returned (Inr ()), fs')"
      "lf_file fs' = (lf_file fs)(in_dir outdir fname \<mapsto> content, in_dir outdir ?f := None)" "lf_shards fs' = dir"
    by (rule decoded_after_repair [OF env cw out rep(2)])
  have "DoDecode env fname outdir (d * N - length cipher) conf d p password fs =
      sh_bind (repair_shards env enc ?f d p) (\<lambda>go. if go then decode_join env enc fname outdir (d * N - length cipher) d p password else sh_return ()) fs"
    unfolding DoDecode_start [OF env out(1) conf ver] by (simp only: if_False)
  also have "\<dots> = (Returned (Inr ()), fs')" by (simp add: sh_bind_def rep(1) fs'(1))
  finally show ?thesis by (rule that [OF _ fs'(2)]) (unfold fs'(3), rule rep(2))
qed

lemma DoDecode_ok:
  assumes env: "stream_env env enc d p" and cw: "coded enc cipher N cw" "cipher \<noteq> []"
    and left: "shards_left (fname @ fileCryptExtension) (d + p) cw (lf_shards fs)"
    and enough: "d \<le> length (filter (\<lambda>i. lf_shards fs (shard_name (fname @ fileCryptExtension) i) = Some (cw ! i)) [0..<d + p])"
    and out: "outdir \<in> lf_dirs fs" "se_decrypt env password cipher = Inr content"
    and conf: "shard_checksums (fname @ fileCryptExtension) conf" "length conf \<le> 1000"
  obtains fs' where "DoDecode env fname outdir (d * N - length cipher) conf d p password fs = (Returned (Inr ()), fs')"
    "lf_file fs' = (lf_file fs)(in_dir outdir fname \<mapsto> content, in_dir outdir (fname @ fileCryptExtension) := None)"
    "\<forall>i < d + p. lf_shards fs' (shard_name (fname @ fileCryptExtension) i) = Some (cw ! i)"
proof -
  let ?f = "fname @ fileCryptExtension" let ?cs = "present_files ?f (d + p) (lf_shards fs)"
  have r: "totalShards (st_r enc) = d + p" "\<And>k. stream_ok enc (se_pool env k)" using env by (simp_all add: stream_env_def)
  have wf: "rs_wf (st_r enc)" using stream_env_pos [OF env] by blast
  have code: "codeword (st_r enc) N cw" using cw(1) unfolding coded_def by blast
  note len = codeword_lens [OF wf code]
  note s = present_survivors [OF env code left enough]
  show ?thesis
  proof (cases "None \<in> set ?cs")
    case True
    have "length ?cs = totalShards (st_r enc)" using s(1) unfolding survivors_def by blast
    then obtain e where ver: "stream_Verify enc (se_pool env 1) (files_at 0 ?cs) = Some (False, Some e)"
      using stream_Verify_missing [OF r(2) s(2) _ True len(3)] by blast
    show ?thesis by (rule DoDecode_repairs [OF env cw left enough out conf ver]) (rule that)
  next
    case False
    note all = complete_or_missing [OF left False]
    have ver: "stream_Verify enc (se_pool env 1) (files_at 0 ?cs) = Some (True, None)"
      unfolding complete_files(1) [OF env code all] files_at_0 using stream_Verify_files [OF r(2) len] code by simp
    have "DoDecode env fname outdir (d * N - length cipher) conf d p password fs =
        (Returned (Inr ()), fs\<lparr>lf_file := (lf_file fs)(in_dir outdir fname \<mapsto> content, in_dir outdir ?f := None)\<rparr>)"
      unfolding DoDecode_start [OF env out(1) conf ver] if_True sh_bind_simps by (rule decode_join_ok [OF env cw all out])
    then show ?thesis by (rule that) (use all in simp_all)
  qed
qed

section \<open>Properties\<close>

lemma path_Base_join: "name \<noteq> [] \<Longrightarrow> CHR ''/'' \<notin> set name \<Longrightarrow> path_Base (parent @ ''/'' @ name) = name"
proof -
  assume n: "name \<noteq> []" "CHR ''/'' \<notin> set name"
  have "last name \<noteq> CHR ''/''" using n last_in_set [of name] by metis
  then have r: "rev name \<noteq> []" "hd (rev name) \<noteq> CHR ''/''" using n by (simp_all add: hd_rev)
  then have "dropWhile (\<lambda>c. c = CHR ''/'') (rev name @ CHR ''/'' # rev parent) = rev name @ CHR ''/'' # rev parent"
    by (cases "rev name") auto
  moreover have "takeWhile (\<lambda>c. c \<noteq> CHR ''/'') (rev name @ CHR ''/'' # rev parent) = rev name"
    using n(2) by (subst takeWhile_append2) auto
  ultimately show ?thesis using n(1) by (simp add: path_Base_def Let_def)
qed

text \<open>C6. The promise of the layer for a file on disk. A file that is encrypted, split and encoded into shard files is
  restored from them, decrypted, under its name in the output directory, even if shard files have been lost or
  emptied, as long as there are as many as data shards; the shard files themselves are repaired. It holds for the
  numbers of shards that \<open>calculateShardsNum\<close> chooses, any content and any encryption that decrypts what it encrypted.\<close>

theorem stored_file_survives:
  assumes "calm env" "1 \<le> GOMAXPROCS (se_cpu env)"
    and "lf_file fs (parent @ ''/'' @ name) = Some content" "name \<noteq> []" "CHR ''/'' \<notin> set name"
    and "shards_num (length content) (lf_data fs) = Some (d, p)" "1 < d" "0 < p" "d + p \<le> 256"
    and "se_encrypt env password content = Inr cipher" "cipher \<noteq> []" "se_decrypt env password cipher = Inr content"
    and "\<And>k. length (se_pool env k) = d + p \<and> (\<forall>mem \<in> set (se_pool env k). length mem = 4194304)"
  shows "\<exists>e fs1. DoEncode env (parent @ ''/'' @ name) password fs = (Returned (Inr e), fs1) \<and> en_shard e = d \<and> en_parity e = p \<and>
    (\<forall>fs2 outdir conf.
       (\<forall>i < d + p. lf_shards fs2 (shard_name (name @ fileCryptExtension) i) \<in>
          {None, Some [], lf_shards fs1 (shard_name (name @ fileCryptExtension) i)}) \<and>
       d \<le> length (filter (\<lambda>i. lf_shards fs2 (shard_name (name @ fileCryptExtension) i) =
                              lf_shards fs1 (shard_name (name @ fileCryptExtension) i)) [0..<d + p]) \<and>
       outdir \<in> lf_dirs fs2 \<and> shard_checksums (name @ fileCryptExtension) conf \<and> length conf \<le> 1000 \<longrightarrow>
       (\<exists>fs3. DoDecode env name outdir (en_padding e) conf d p password fs2 = (Returned (Inr ()), fs3) \<and>
          lf_file fs3 (in_dir outdir name) = Some content \<and>
          (\<forall>i < d + p. lf_shards fs3 (shard_name (name @ fileCryptExtension) i) = lf_shards fs1 (shard_name (name @ fileCryptExtension) i))))"
proof -
  obtain enc where env: "stream_env env enc d p" using stream_envE [OF assms(1,2) _ assms(8,9,13)] assms(7) by auto
  let ?f = "name @ fileCryptExtension" and ?N = "per_shard d (length cipher)"
  have f: "path_Base ((parent @ ''/'' @ name) @ fileCryptExtension) = ?f"
    using path_Base_join [of ?f parent] assms(4,5) by auto
  obtain cw fs1 where cw: "coded enc cipher ?N cw"
      and e: "DoEncode env (parent @ ''/'' @ name) password fs =
        (Returned (Inr \<lparr>en_paths = map (\<lambda>i. se_dir env @ ''/'' @ shard_name ?f i) [0..<d + p], en_checksums = map calculateChecksum cw,
           en_size = ?N, en_padding = d * ?N - length cipher, en_shard = d, en_parity = p\<rparr>), fs1)"
      and fs1: "\<forall>i < d + p. lf_shards fs1 (shard_name ?f i) = Some (cw ! i)"
    using DoEncode_ok [OF env assms(7,9,3,6,10,11)] unfolding f by blast
  have restored: "\<exists>fs3. DoDecode env name outdir (d * ?N - length cipher) conf d p password fs2 = (Returned (Inr ()), fs3) \<and>
      lf_file fs3 (in_dir outdir name) = Some content \<and> (\<forall>i < d + p. lf_shards fs3 (shard_name ?f i) = lf_shards fs1 (shard_name ?f i))"
    if left: "\<forall>i < d + p. lf_shards fs2 (shard_name ?f i) \<in> {None, Some [], lf_shards fs1 (shard_name ?f i)}"
      and enough: "d \<le> length (filter (\<lambda>i. lf_shards fs2 (shard_name ?f i) = lf_shards fs1 (shard_name ?f i)) [0..<d + p])"
      and out: "outdir \<in> lf_dirs fs2" and conf: "shard_checksums ?f conf" "length conf \<le> 1000" for fs2 outdir conf
  proof -
    have left': "shards_left ?f (d + p) cw (lf_shards fs2)" using left fs1 by (simp add: shards_left_def)
    have "filter (\<lambda>i. lf_shards fs2 (shard_name ?f i) = lf_shards fs1 (shard_name ?f i)) [0..<d + p] =
        filter (\<lambda>i. lf_shards fs2 (shard_name ?f i) = Some (cw ! i)) [0..<d + p]"
      using fs1 by (intro filter_cong) auto
    then have enough': "d \<le> length (filter (\<lambda>i. lf_shards fs2 (shard_name ?f i) = Some (cw ! i)) [0..<d + p])" using enough by simp
    obtain fs3 where "DoDecode env name outdir (d * ?N - length cipher) conf d p password fs2 = (Returned (Inr ()), fs3)"
        "lf_file fs3 = (lf_file fs2)(in_dir outdir name \<mapsto> content, in_dir outdir ?f := None)"
        "\<forall>i < d + p. lf_shards fs3 (shard_name ?f i) = Some (cw ! i)"
      by (rule DoDecode_ok [OF env cw assms(11) left' enough' out assms(12) conf])
    then show ?thesis using fs1 by (intro exI [of _ fs3]) simp
  qed
  show ?thesis
  proof (rule exI, rule exI, intro conjI allI impI, rule e)
    fix fs2 :: local and outdir conf
    assume "(\<forall>i < d + p. lf_shards fs2 (shard_name ?f i) \<in> {None, Some [], lf_shards fs1 (shard_name ?f i)}) \<and>
       d \<le> length (filter (\<lambda>i. lf_shards fs2 (shard_name ?f i) = lf_shards fs1 (shard_name ?f i)) [0..<d + p]) \<and>
       outdir \<in> lf_dirs fs2 \<and> shard_checksums ?f conf \<and> length conf \<le> 1000"
    then show "\<exists>fs3. DoDecode env name outdir (en_padding \<lparr>en_paths = map (\<lambda>i. se_dir env @ ''/'' @ shard_name ?f i) [0..<d + p],
          en_checksums = map calculateChecksum cw, en_size = ?N, en_padding = d * ?N - length cipher, en_shard = d, en_parity = p\<rparr>)
          conf d p password fs2 = (Returned (Inr ()), fs3) \<and>
        lf_file fs3 (in_dir outdir name) = Some content \<and> (\<forall>i < d + p. lf_shards fs3 (shard_name ?f i) = lf_shards fs1 (shard_name ?f i))"
      unfolding encoded.simps using restored by blast
  qed simp_all
qed

lemma repair_corrupt:
  assumes env: "stream_env env enc d p" and cs: "length cs = d + p" "lens_eq N cs" "0 < N" "\<not> codeword (st_r enc) N cs"
    and files: "present_files f (d + p) (lf_shards fs) = map Some cs"
  shows "repair_shards env enc f d p fs = (Returned (Inr False), fs)"
proof -
  have c: "calm env" and r: "totalShards (st_r enc) = d + p" "\<And>k. stream_ok enc (se_pool env k)" using env by (simp_all add: stream_env_def)
  obtain st where st: "stream_Reconstruct enc buffer_write (se_pool env 2) (files_at 0 (map Some cs)) (replicate (d + p) None) = Some (None, st)"
      "ss_out st = replicate (d + p) None"
    using stream_Reconstruct_complete [OF r(2) _ cs(2,3)] cs(1) r(1) by auto
  have ver: "stream_Verify enc (se_pool env 3) (files_at 0 (map Some cs)) = Some (False, None)"
    using stream_Verify_files [OF r(2) _ cs(2,3)] cs r(1) by (simp add: files_at_0)
  have missing: "map (shard_name f) (filter (\<lambda>i. map Some cs ! i = None) [0..<d + p]) = []" using cs(1) by (auto simp: filter_empty_conv)
  have out: "map (\<lambda>c. if c = None then Some [] else None) (map Some cs) = replicate (d + p) None"
    using cs(1) by (simp add: list_eq_iff_nth_eq)
  have "written_dir names (replicate n None) dir = dir" for names n and dir :: shard_dir
  proof (induction names arbitrary: n)
    case (Cons name names)
    then show ?case by (cases n) (simp_all add: written_dir_def)
  qed (simp add: written_dir_def)
  then have store: "store_files names (replicate n None) fs = (Returned (Inr ()), fs)" for names n by (simp add: store_files_dir)
  show ?thesis
    unfolding repair_shards_def Let_def
    by (simp add: sh_bind_def openInput_calm [OF c] files missing [simplified] out [simplified] of_stream_def st ver store sh_return_def returning_def
        cong: if_cong)
qed

text \<open>C17. Two ways in which a download reports success and writes no file. When the output directory does not exist,
  \<open>DoDecode\<close> creates it and returns the error of that call, which is nil. When all shard files are there with the
  same length but their content has been damaged, the comparison of checksums does not find it (it looks up keys
  built with \<open>Sprint\<close>), there is nothing to reconstruct, the second verification fails without an error, and that
  nil error is returned: the recorded checksums, which name the damaged shard, are not used.\<close>

theorem decode_reports_success_without_output:
  assumes "calm env" "1 \<le> GOMAXPROCS (se_cpu env)" "0 < d" "0 < p" "d + p \<le> 256"
    and "\<And>k. length (se_pool env k) = d + p \<and> (\<forall>mem \<in> set (se_pool env k). length mem = 4194304)"
    and "0 < N" "\<forall>i < d + p. \<exists>c. lf_shards fs (shard_name (name @ fileCryptExtension) i) = Some c \<and> length c = N"
    and "NewStream (se_cpu env) (int d) (int p) [] = Inr enc"
      "Verify (st_r enc) (map (\<lambda>i. the (lf_shards fs (shard_name (name @ fileCryptExtension) i))) [0..<d + p]) = Inr False"
    and "shard_checksums (name @ fileCryptExtension) conf" "length conf \<le> 1000"
  shows "(outdir \<in> lf_dirs fs \<longrightarrow> DoDecode env name outdir padding conf d p password fs = (Returned (Inr ()), fs)) \<and>
    (outdir \<notin> lf_dirs fs \<and> lf_file fs outdir = None \<longrightarrow>
       DoDecode env name outdir padding conf d p password fs = (Returned (Inr ()), fs\<lparr>lf_dirs := insert outdir (lf_dirs fs)\<rparr>))"
proof -
  obtain enc' where "stream_env env enc' d p" using stream_envE [OF assms(1-6)] by auto
  then have env: "stream_env env enc d p" using assms(9) by (simp add: stream_env_def)
  have r: "totalShards (st_r enc) = d + p" "\<And>k. stream_ok enc (se_pool env k)" using env by (simp_all add: stream_env_def)
  let ?f = "name @ fileCryptExtension"
  let ?cs = "map (\<lambda>i. the (lf_shards fs (shard_name ?f i))) [0..<d + p]"
  have lens: "lens_eq N ?cs" "length ?cs = d + p" using assms(8) by (force simp: lens_eq_def)+
  have files: "present_files ?f (d + p) (lf_shards fs) = map Some ?cs"
    using assms(7,8) by (auto simp: present_files_def)
  have bad: "\<not> codeword (st_r enc) N ?cs"
    using Verify_codeword [of "st_r enc" ?cs N] stream_env_pos [OF env] lens assms(7,10) r(1) by simp
  have ver: "stream_Verify enc (se_pool env 1) (files_at 0 (present_files ?f (d + p) (lf_shards fs))) = Some (False, None)"
    unfolding files files_at_0 using stream_Verify_files [OF r(2) _ lens(1) assms(7)] lens(2) r(1) bad by simp
  have "DoDecode env name outdir padding conf d p password fs = (Returned (Inr ()), fs)" if "outdir \<in> lf_dirs fs"
    unfolding DoDecode_start [OF env that assms(11,12) ver] if_False sh_bind_def repair_corrupt [OF env lens(2,1) assms(7) bad files]
    by (simp add: sh_return_def)
  moreover have "DoDecode env name outdir padding conf d p password fs = (Returned (Inr ()), fs\<lparr>lf_dirs := insert outdir (lf_dirs fs)\<rparr>)"
    if "outdir \<notin> lf_dirs fs" "lf_file fs outdir = None"
    using that assms(1) by (simp add: DoDecode_def Let_def puts_def)
  ultimately show ?thesis by blast
qed

lemma shards_loop_range:
  "d = 5 \<or> 10 \<le> d \<and> d \<le> 170 \<and> 10 dvd d \<Longrightarrow>
     (d = 5 \<longrightarrow> shards_loop n d = 5) \<and> (d \<noteq> 5 \<longrightarrow> 10 \<le> shards_loop n d \<and> shards_loop n d \<le> d \<and> 10 dvd shards_loop n d)"
proof (induction n d rule: shards_loop.induct)
  case (1 n d)
  show ?case
  proof (cases "n div d < minSize \<and> 10 < d")
    case True
    then have d: "d \<noteq> 5" "10 \<le> d - 10" "d - 10 \<le> 170" "10 dvd d - 10"
      using "1.prems" dvd_diff_nat [of 10 d 10] by (auto elim!: dvdE)
    have "shards_loop n d = shards_loop n (d - 10)" using True by (subst shards_loop.simps) (simp only: simp_thms if_True)
    then show ?thesis using "1.IH" [OF True] d by auto
  next
    case False
    then have "shards_loop n d = d" by (subst shards_loop.simps) (simp only: simp_thms if_False)
    then show ?thesis using "1.prems" by auto
  qed
qed

text \<open>The number of data and parity shards after a sequence of files, given by their sizes, in one process.\<close>

definition flags_after :: "nat list \<Rightarrow> nat \<times> nat" where
  "flags_after sizes = fold (\<lambda>n (d, p). case shards_num n d of None \<Rightarrow> (d, p) | Some dp \<Rightarrow> dp) sizes (170, 85)"

definition flags_ok :: "nat \<times> nat \<Rightarrow> bool" where
  "flags_ok = (\<lambda>(d, p). (d = 5 \<and> (p = 2 \<or> p = 3)) \<or> (10 \<le> d \<and> d \<le> 170 \<and> 10 dvd d \<and> p = d div 2))"

lemma flags_step:
  assumes "flags_ok (d, p)"
  obtains d' p' where "shards_num n d = Some (d', p')" "flags_ok (d', p')" "d = 5 \<longrightarrow> d' = 5" "n < minSize \<longrightarrow> d' = 5"
proof (cases "n < minSize")
  case True
  then show ?thesis by (intro that [of 5 3]) (simp_all add: shards_num_def flags_ok_def)
next
  case False
  have "d = 5 \<or> 10 \<le> d \<and> d \<le> 170 \<and> 10 dvd d" using assms by (auto simp: flags_ok_def)
  note l = shards_loop_range [OF this, of n]
  show ?thesis
    using False assms l by (intro that [of "shards_loop n d" "shards_loop n d div 2"]) (auto simp: shards_num_def flags_ok_def Let_def)
qed

text \<open>C36. The numbers of shards are always in range: whatever files a process encodes, one after the other, the next
  file has a number of data shards (no division by zero) with 1 < d, 0 < p and d + p < 256, so the guard of
  \<open>DoEncode\<close> never ends the process. A file below 10 MiB gets five data and three parity shards, a larger one half as many parity
  shards as data shards, rounded down. But the number of data shards is kept: once a file below 10 MiB has been encoded, every later
  file, however large, is split into five data shards, and one of 10 MiB or more then has only two parity shards.\<close>

theorem shard_counts_bounded:
  "\<exists>d p. shards_num n (fst (flags_after sizes)) = Some (d, p) \<and> 1 < d \<and> 0 < p \<and> d + p < 256 \<and>
     (if n < 10 * 1024 * 1024 then d = 5 \<and> p = 3 else p = d div 2) \<and>
     ((\<exists>m \<in> set sizes. m < 10 * 1024 * 1024) \<longrightarrow> d = 5 \<and> p = (if n < 10 * 1024 * 1024 then 3 else 2))"
proof -
  have inv: "flags_ok (flags_after sizes) \<and> ((\<exists>m \<in> set sizes. m < minSize) \<longrightarrow> fst (flags_after sizes) = 5)"
  proof (induction sizes rule: rev_induct)
    case Nil
    show ?case by (simp add: flags_after_def flags_ok_def)
  next
    case (snoc m sizes)
    obtain d p where dp: "flags_after sizes = (d, p)" by fastforce
    then have "flags_ok (d, p)" using snoc by simp
    then obtain d' p' where "shards_num m d = Some (d', p')" "flags_ok (d', p')" "d = 5 \<longrightarrow> d' = 5" "m < minSize \<longrightarrow> d' = 5"
      by (rule flags_step)
    moreover from this(1) dp have "flags_after (sizes @ [m]) = (d', p')" by (simp add: flags_after_def)
    ultimately show ?case using snoc dp by auto
  qed
  obtain d p where dp: "flags_after sizes = (d, p)" by fastforce
  have "flags_ok (d, p)" using inv dp by simp
  then obtain d' p' where s: "shards_num n d = Some (d', p')" "flags_ok (d', p')" "d = 5 \<longrightarrow> d' = 5" "n < minSize \<longrightarrow> d' = 5"
    by (rule flags_step)
  have "1 < d' \<and> 0 < p' \<and> d' + p' < 256" using s(2) by (auto simp: flags_ok_def)
  moreover have "if n < minSize then d' = 5 \<and> p' = 3 else p' = d' div 2"
    using s(1) by (auto simp: shards_num_def Let_def split: if_splits)
  ultimately show ?thesis using s inv dp by (auto simp: minSize_def)
qed

section \<open>Witnesses\<close>

text \<open>An environment in which nothing fails; the encryption puts a byte in front.\<close>

definition sample_shard_env :: "nat \<Rightarrow> shard_env" where
  "sample_shard_env t = \<lparr>se_cpu = plain_cpu 4, se_dir = ''/shard'', se_fails = (\<lambda>_. False), se_encrypt = (\<lambda>_ x. Inr (7 # x)),
     se_decrypt = (\<lambda>_ x. Inr (tl x)), se_pool = (\<lambda>_. replicate t (replicate 4194304 5))\<rparr>"

definition sample_local :: local where
  "sample_local = \<lparr>lf_file = [''/home/a'' \<mapsto> [1, 2, 3]], lf_dirs = {''/shard'', ''/out''}, lf_shards = Map.empty, lf_data = 170, lf_par = 85\<rparr>"

lemma sample_shard_env_simps [simp]:
  "calm (sample_shard_env t)" "se_cpu (sample_shard_env t) = plain_cpu 4" "se_encrypt (sample_shard_env t) pw x = Inr (7 # x)"
  "se_decrypt (sample_shard_env t) pw x = Inr (tl x)" "se_pool (sample_shard_env t) k = replicate t (replicate 4194304 5)"
  by (simp_all add: sample_shard_env_def calm_def)

theorem stored_file_survives_witness:
  "\<exists>e fs1 fs3. DoEncode (sample_shard_env 8) ''/home/a'' ''pw'' sample_local = (Returned (Inr e), fs1) \<and>
     DoDecode (sample_shard_env 8) ''a'' ''/out'' (en_padding e) [] 5 3 ''pw''
       (sample_local\<lparr>lf_shards := (lf_shards fs1)(shard_name ''a.fcef'' 0 := None, shard_name ''a.fcef'' 3 := Some [], shard_name ''a.fcef'' 7 := None)\<rparr>) =
       (Returned (Inr ()), fs3) \<and> lf_file fs3 ''/out/a'' = Some [1, 2, 3]"
proof -
  have "\<exists>e fs1. DoEncode (sample_shard_env 8) (''/home'' @ ''/'' @ ''a'') ''pw'' sample_local = (Returned (Inr e), fs1) \<and> en_shard e = 5 \<and> en_parity e = 3 \<and>
    (\<forall>fs2 outdir conf.
       (\<forall>i < 5 + 3. lf_shards fs2 (shard_name (''a'' @ fileCryptExtension) i) \<in>
          {None, Some [], lf_shards fs1 (shard_name (''a'' @ fileCryptExtension) i)}) \<and>
       5 \<le> length (filter (\<lambda>i. lf_shards fs2 (shard_name (''a'' @ fileCryptExtension) i) =
                              lf_shards fs1 (shard_name (''a'' @ fileCryptExtension) i)) [0..<5 + 3]) \<and>
       outdir \<in> lf_dirs fs2 \<and> shard_checksums (''a'' @ fileCryptExtension) conf \<and> length conf \<le> 1000 \<longrightarrow>
       (\<exists>fs3. DoDecode (sample_shard_env 8) ''a'' outdir (en_padding e) conf 5 3 ''pw'' fs2 = (Returned (Inr ()), fs3) \<and>
          lf_file fs3 (in_dir outdir ''a'') = Some [1, 2, 3] \<and>
          (\<forall>i < 5 + 3. lf_shards fs3 (shard_name (''a'' @ fileCryptExtension) i) = lf_shards fs1 (shard_name (''a'' @ fileCryptExtension) i))))"
    by (rule stored_file_survives [where cipher = "[7, 1, 2, 3]"])
      (simp_all add: sample_local_def plain_cpu_def shards_num_def minSize_def)
  then obtain e fs1 where e: "DoEncode (sample_shard_env 8) (''/home'' @ ''/'' @ ''a'') ''pw'' sample_local = (Returned (Inr e), fs1)"
    and all: "\<forall>fs2 outdir conf.
       (\<forall>i < 5 + 3. lf_shards fs2 (shard_name (''a'' @ fileCryptExtension) i) \<in>
          {None, Some [], lf_shards fs1 (shard_name (''a'' @ fileCryptExtension) i)}) \<and>
       5 \<le> length (filter (\<lambda>i. lf_shards fs2 (shard_name (''a'' @ fileCryptExtension) i) =
                              lf_shards fs1 (shard_name (''a'' @ fileCryptExtension) i)) [0..<5 + 3]) \<and>
       outdir \<in> lf_dirs fs2 \<and> shard_checksums (''a'' @ fileCryptExtension) conf \<and> length conf \<le> 1000 \<longrightarrow>
       (\<exists>fs3. DoDecode (sample_shard_env 8) ''a'' outdir (en_padding e) conf 5 3 ''pw'' fs2 = (Returned (Inr ()), fs3) \<and>
          lf_file fs3 (in_dir outdir ''a'') = Some [1, 2, 3] \<and>
          (\<forall>i < 5 + 3. lf_shards fs3 (shard_name (''a'' @ fileCryptExtension) i) = lf_shards fs1 (shard_name (''a'' @ fileCryptExtension) i)))"
    by (elim exE conjE)
  let ?fs2 = "sample_local\<lparr>lf_shards := (lf_shards fs1)(shard_name ''a.fcef'' 0 := None, shard_name ''a.fcef'' 3 := Some [], shard_name ''a.fcef'' 7 := None)\<rparr>"
  have name: "''a'' @ fileCryptExtension = ''a.fcef''" by simp
  have "5 \<le> length (filter (\<lambda>i. lf_shards ?fs2 (shard_name ''a.fcef'' i) = lf_shards fs1 (shard_name ''a.fcef'' i)) [0..<5 + 3])"
    by (simp add: upt_rec)
  moreover have "\<forall>i < 5 + 3. lf_shards ?fs2 (shard_name ''a.fcef'' i) \<in> {None, Some [], lf_shards fs1 (shard_name ''a.fcef'' i)}" by simp
  moreover have "''/out'' \<in> lf_dirs ?fs2" "shard_checksums ''a.fcef'' []" "length ([] :: (string \<times> string) list) \<le> 1000"
    by (simp_all add: sample_local_def shard_checksums_def)
  ultimately have "\<exists>fs3. DoDecode (sample_shard_env 8) ''a'' ''/out'' (en_padding e) [] 5 3 ''pw'' ?fs2 = (Returned (Inr ()), fs3) \<and>
      lf_file fs3 (in_dir ''/out'' ''a'') = Some [1, 2, 3]"
    using all [unfolded name, THEN spec, of ?fs2, THEN spec, of "''/out''", THEN spec, of "[]"] by blast
  then show ?thesis using e by (auto simp: in_dir_def)
qed

theorem decode_reports_success_without_output_witness:
  "\<exists>b. DoDecode (sample_shard_env 4) ''a'' ''/out'' 0 [] 2 2 ''pw''
       (sample_local\<lparr>lf_shards := [shard_name ''a.fcef'' 0 \<mapsto> [1], shard_name ''a.fcef'' 1 \<mapsto> [2], shard_name ''a.fcef'' 2 \<mapsto> [9],
          shard_name ''a.fcef'' 3 \<mapsto> [b]]\<rparr>) =
     (Returned (Inr ()), sample_local\<lparr>lf_shards := [shard_name ''a.fcef'' 0 \<mapsto> [1], shard_name ''a.fcef'' 1 \<mapsto> [2], shard_name ''a.fcef'' 2 \<mapsto> [9],
          shard_name ''a.fcef'' 3 \<mapsto> [b]]\<rparr>)"
proof -
  obtain s where s: "NewStream (plain_cpu 4) 2 2 [] = Inr s" "rs_wf (st_r s)" "dataShards (st_r s) = 2" "parityShards (st_r s) = 2"
    using sample_stream by metis
  have t: "totalShards (st_r s) = 4" using s by (simp add: rs_wf_def)
  have ver: "Verify (st_r s) [[1], [2], [9], [b]] = Inr (codeword (st_r s) 1 [[1], [2], [9], [b]])" for b
    using Verify_codeword [OF s(2), of "[[1], [2], [9], [b]]" 1] t by (simp add: lens_eq_def)
  have "\<not> codeword (st_r s) 1 [[1], [2], [9], [8]] \<or> \<not> codeword (st_r s) 1 [[1], [2], [9], [9]]"
    using codeword_unique [of "st_r s" 1 "[[1], [2], [9], [8]]" "[[1], [2], [9], [9]]"] s(3) by auto
  then obtain b where b: "Verify (st_r s) [[1], [2], [9], [b]] = Inr False" using ver by metis
  let ?fs = "sample_local\<lparr>lf_shards := [shard_name ''a.fcef'' 0 \<mapsto> [1], shard_name ''a.fcef'' 1 \<mapsto> [2], shard_name ''a.fcef'' 2 \<mapsto> [9],
          shard_name ''a.fcef'' 3 \<mapsto> [b]]\<rparr>"
  have files: "\<forall>i < 2 + 2. \<exists>c. lf_shards ?fs (shard_name (''a'' @ fileCryptExtension) i) = Some c \<and> length c = 1"
    by (auto simp: less_Suc_eq numeral_eq_Suc)
  have cs: "map (\<lambda>i. the (lf_shards ?fs (shard_name (''a'' @ fileCryptExtension) i))) [0..<2 + 2] = [[1], [2], [9], [b]]"
    by (simp add: upt_rec)
  show ?thesis
    using decode_reports_success_without_output [of "sample_shard_env 4" 2 2 1 ?fs "''a''" s "[]" "''/out''" 0 "''pw''"]
      s(1) b files cs by (auto simp: plain_cpu_def shard_checksums_def sample_local_def)
qed

theorem shard_counts_bounded_witness:
  "\<exists>d p. shards_num (2 ^ 40) (fst (flags_after [5, 2 ^ 40])) = Some (d, p) \<and> d = 5 \<and> p = 2"
  using shard_counts_bounded [of "2 ^ 40" "[5, 2 ^ 40]"] by auto

end
