(* ===== verification/Keyed_Store.thy ===== *)
theory Keyed_Store
  imports Metadata
begin

text \<open>
  The contract the concurrent jobs of the distributed layer rely on: a store that is read and updated
  one entry at a time under a lock. The data map (an entry per shard of a file) and the load
  balancer's statistics (an entry per remote) both provide it.
\<close>

section \<open>Interface\<close>

text \<open>\<open>modify r f s\<close> replaces the entry of \<open>r\<close> by its image under \<open>f\<close>; \<open>key\<close> says under which key an
  entry is kept, and \<open>keys\<close> which keys can be updated.\<close>

locale keyed_store =
  fixes get :: "'s \<Rightarrow> 'k \<Rightarrow> 'v"
    and modify :: "'r \<Rightarrow> ('v \<Rightarrow> 'v) \<Rightarrow> 's \<Rightarrow> 's"
    and key :: "'r \<Rightarrow> 'k"
    and keys :: "'s \<Rightarrow> 'k set"
  assumes get_modify: "key r \<in> keys s \<Longrightarrow> get (modify r f s) k = (if k = key r then f (get s k) else get s k)"
    and keys_modify: "key r \<in> keys s \<Longrightarrow> keys (modify r f s) = keys s"
begin

definition run :: "('r \<times> ('v \<Rightarrow> 'v)) list \<Rightarrow> 's \<Rightarrow> 's" where
  "run us s = fold (\<lambda>(r, f). modify r f) us s"

lemma run_simps [simp]:
  "run [] s = s"
  "run (u # us) s = run us (modify (fst u) (snd u) s)"
  by (simp_all add: run_def split: prod.split)

lemma keys_run: "key ` fst ` set us \<subseteq> keys s \<Longrightarrow> keys (run us s) = keys s"
  by (induction us arbitrary: s) (simp_all add: keys_modify)

text \<open>After a sequence of updates an entry has seen exactly its own, in their order.\<close>

lemma get_run:
  "key ` fst ` set us \<subseteq> keys s \<Longrightarrow>
   get (run us s) k = fold (\<lambda>u v. snd u v) (filter (\<lambda>u. key (fst u) = k) us) (get s k)"
  by (induction us arbitrary: s) (auto simp: keys_modify get_modify)

lemma get_run_same_filters:
  assumes "key ` fst ` set us \<subseteq> keys s" "key ` fst ` set vs \<subseteq> keys s"
    and "\<And>k. filter (\<lambda>u. key (fst u) = k) us = filter (\<lambda>u. key (fst u) = k) vs"
  shows "get (run us s) = get (run vs s)"
  using assms by (simp add: fun_eq_iff get_run)

lemma get_run_one:
  assumes "key ` fst ` set us \<subseteq> keys s" "distinct (map (\<lambda>u. key (fst u)) us)" "u \<in> set us"
  shows "get (run us s) (key (fst u)) = snd u (get s (key (fst u)))"
proof -
  have "filter (\<lambda>u'. key (fst u') = key (fst u)) us = [u]"
    using assms(2,3) by (induction us) (auto simp: filter_empty_conv image_iff)
  then show ?thesis using assms(1) by (simp add: get_run)
qed

lemma get_run_none:
  assumes "key ` fst ` set us \<subseteq> keys s" "k \<notin> key ` fst ` set us"
  shows "get (run us s) k = get s k"
proof -
  have "filter (\<lambda>u. key (fst u) = k) us = []" using assms(2) by (auto simp: filter_empty_conv)
  then show ?thesis using assms(1) by (simp add: get_run)
qed

text \<open>Updates of different entries give the same store in every order.\<close>

lemma get_run_permuted:
  assumes "mset us = mset vs" "distinct (map (\<lambda>u. key (fst u)) us)" "key ` fst ` set us \<subseteq> keys s"
  shows "get (run us s) = get (run vs s)"
proof
  fix k
  have same: "set us = set vs" using assms(1) by (rule mset_eq_setD)
  have distinct: "distinct (map (\<lambda>u. key (fst u)) vs)"
    using assms(1,2) by (metis mset_eq_imp_distinct_iff mset_map)
  show "get (run us s) k = get (run vs s) k"
  proof (cases "k \<in> key ` fst ` set us")
    case True
    then obtain u where "u \<in> set us" "k = key (fst u)" by auto
    then show ?thesis using assms distinct same by (simp add: get_run_one)
  next
    case False
    then show ?thesis using assms same by (simp add: get_run_none)
  qed
qed

end

end
