(* ===== verification/Datamap.thy ===== *)
theory Datamap
  imports Hashing Keyed_Store
begin

text \<open>
  \<open>fs/dis_operations/datamap.go\<close>: the data map, the JSON file that records for every uploaded file its
  shards, their remotes and the state of an unfinished command. Every operation reads the whole
  file and, when it changes it, writes the whole file back; the state here is that file. JSON
  encoding and decoding of the structures is the identity on the model's values (names are valid
  UTF-8). The outcome of a write is an argument (\<open>write_end\<close>), since the operating system decides it.
  Messages printed by the operations are not modelled.
\<close>

type_synonym datamap = "FilesMap json_file"
type_synonym 'a datamap_op = "datamap \<Rightarrow> 'a dis_result \<times> datamap"

section \<open>The file\<close>

definition readJsonFile :: "datamap \<Rightarrow> FilesMap dis_result" where
  "readJsonFile file =
     (case file of
        NoFile \<Rightarrow> Inr []
      | NoAccess \<Rightarrow> Inl OpenFailed
      | EmptyFile \<Rightarrow> Inr []
      | BadJson \<Rightarrow> Inl DecodeFailed
      | JsonNull \<Rightarrow> Inr []
      | Json filesMap \<Rightarrow> Inr filesMap)"

definition writeJsonFile :: "FilesMap write_end \<Rightarrow> FilesMap \<Rightarrow> unit datamap_op" where
  "writeJsonFile we data file =
     (case we of
        Wrote \<Rightarrow> (Inr (), Json data)
      | MkdirFailed \<Rightarrow> (Inl DirFailed, file)
      | WriteFailed left \<Rightarrow> (Inl WriteError, left))"

section \<open>Recording a file\<close>

definition GetDistributedInfo :: "string \<Rightarrow> Remote \<Rightarrow> string \<Rightarrow> DistributedFile dis_result" where
  "GetDistributedInfo fileName remote checksum =
     (if fileName = [] then Inl EmptyFileName
      else Inr \<lparr> df_DistributedFile = fileName, df_Remote = remote, df_Checksum = checksum, df_Check = False \<rparr>)"

definition dFileMap :: "DistributedFile list \<Rightarrow> (string \<times> DistributedFile) list" where
  "dFileMap distributedFiles = fold (\<lambda>dFile. AList.update (df_DistributedFile dFile) dFile) distributedFiles []"

text \<open>\<open>stat\<close> is the size \<open>os.Stat\<close> reports, \<open>content\<close> what reading the file gives; \<open>None\<close> when the call fails.\<close>

definition MakeDataMap ::
  "FilesMap write_end \<Rightarrow> int option \<Rightarrow> bytes option \<Rightarrow> string \<Rightarrow> DistributedFile list \<Rightarrow> int \<Rightarrow> int \<Rightarrow> int \<Rightarrow> int
    \<Rightarrow> unit datamap_op" where
  "MakeDataMap we stat content originalFilePath distributedFiles disFileSize paddingAmount shard parity file =
     (if originalFilePath = [] then (Inl EmptyFileName, file)
      else case stat of
        None \<Rightarrow> (Inl (StatFailed originalFilePath), file)
      | Some fileSize \<Rightarrow> (case content of
          None \<Rightarrow> (Inl (ChecksumFailed originalFilePath), file)
        | Some bs \<Rightarrow>
            let originalFileName = path_Base originalFilePath;
                newFileInfo =
                  \<lparr> fi_FileName = originalFileName, fi_FileSize = fileSize, fi_DisFileSize = disFileSize,
                    fi_Shard = shard, fi_Parity = parity, fi_Flag = True, fi_State = ''upload'',
                    fi_Checksum = calculateChecksum bs, fi_Padding = paddingAmount,
                    fi_DistributedFileInfos = dFileMap distributedFiles \<rparr>
            in case readJsonFile file of
                 Inl e \<Rightarrow> (Inl e, file)
               | Inr filesMap \<Rightarrow> writeJsonFile we (AList.update originalFileName newFileInfo filesMap) file))"

definition RemoveFileFromMetadata :: "FilesMap write_end \<Rightarrow> string \<Rightarrow> unit datamap_op" where
  "RemoveFileFromMetadata we fileName file =
     (case readJsonFile file of
        Inl e \<Rightarrow> (Inl e, file)
      | Inr filesMap \<Rightarrow> writeJsonFile we (AList.delete fileName filesMap) file)"

section \<open>Lookups\<close>

definition GetFileInfoStruct :: "string \<Rightarrow> datamap \<Rightarrow> FileInfo dis_result" where
  "GetFileInfoStruct fileName file =
     (case readJsonFile file of
        Inl e \<Rightarrow> Inl e
      | Inr filesMap \<Rightarrow> (case map_of filesMap fileName of
          Some fileInfo \<Rightarrow> Inr fileInfo
        | None \<Rightarrow> Inl (FileNotFound fileName)))"

definition DoesFileStructExist :: "string \<Rightarrow> datamap \<Rightarrow> bool dis_result" where
  "DoesFileStructExist fileName file =
     (case readJsonFile file of
        Inl e \<Rightarrow> Inl e
      | Inr filesMap \<Rightarrow> Inr (map_of filesMap fileName \<noteq> None))"

type_synonym shard_order = "(string \<times> DistributedFile) list \<Rightarrow> (string \<times> DistributedFile) list"

definition GetDistributedFileStruct :: "shard_order \<Rightarrow> string \<Rightarrow> datamap \<Rightarrow> DistributedFile list dis_result" where
  "GetDistributedFileStruct ro fileName file =
     (case readJsonFile file of
        Inl e \<Rightarrow> Inl e
      | Inr filesMap \<Rightarrow> (case map_of filesMap fileName of
          None \<Rightarrow> Inl (FileNotFound fileName)
        | Some fileInfo \<Rightarrow> Inr (map snd (ro (fi_DistributedFileInfos fileInfo)))))"

definition GetChecksum :: "string \<Rightarrow> datamap \<Rightarrow> string" where
  "GetChecksum fileName file =
     (case GetFileInfoStruct fileName file of Inl _ \<Rightarrow> [] | Inr fileInfo \<Rightarrow> fi_Checksum fileInfo)"

definition GetChecksumList :: "shard_order \<Rightarrow> string \<Rightarrow> datamap \<Rightarrow> string list" where
  "GetChecksumList ro name file =
     (case GetDistributedFileStruct ro name file of
        Inl _ \<Rightarrow> []
      | Inr disFiles \<Rightarrow> map df_Checksum disFiles)"

primrec removeFileByName :: "FileInfo list \<Rightarrow> string \<Rightarrow> FileInfo list" where
  "removeFileByName [] fileName = []"
| "removeFileByName (file # files) fileName =
     (if fi_FileName file \<noteq> fileName then file # removeFileByName files fileName
      else removeFileByName files fileName)"

fun first_flagged :: "(string \<times> FileInfo) list \<Rightarrow> bool \<times> string \<times> string" where
  "first_flagged [] = (False, [], [])"
| "first_flagged ((_, info) # rest) =
     (if fi_Flag info then (fi_Flag info, fi_State info, fi_FileName info) else first_flagged rest)"

definition CheckFlagAndState :: "(FilesMap \<Rightarrow> FilesMap) \<Rightarrow> datamap \<Rightarrow> bool \<times> string \<times> string" where
  "CheckFlagAndState ro file =
     (case readJsonFile file of
        Inl _ \<Rightarrow> first_flagged []
      | Inr filesMap \<Rightarrow> first_flagged (ro filesMap))"

section \<open>Flags and shards\<close>

definition UpdateFileFlag :: "FilesMap write_end \<Rightarrow> string \<Rightarrow> string \<Rightarrow> unit datamap_op" where
  "UpdateFileFlag we originalFileName state file =
     (case readJsonFile file of
        Inl e \<Rightarrow> (Inl e, file)
      | Inr filesMap \<Rightarrow> (case map_of filesMap originalFileName of
          None \<Rightarrow> (Inl (FileNotFound originalFileName), file)
        | Some fileInfo \<Rightarrow>
            writeJsonFile we
              (AList.update originalFileName (fileInfo\<lparr>fi_Flag := True, fi_State := state\<rparr>) filesMap) file))"

definition updateDistributedFile ::
  "FilesMap write_end \<Rightarrow> string \<Rightarrow> string \<Rightarrow> (DistributedFile \<Rightarrow> DistributedFile dis_result) \<Rightarrow> unit datamap_op" where
  "updateDistributedFile we originalFileName distributedFileName updateFunc file =
     (case readJsonFile file of
        Inl e \<Rightarrow> (Inl e, file)
      | Inr filesMap \<Rightarrow> (case map_of filesMap originalFileName of
          None \<Rightarrow> (Inl (FileNotFound originalFileName), file)
        | Some fileInfo \<Rightarrow> (case map_of (fi_DistributedFileInfos fileInfo) distributedFileName of
            None \<Rightarrow> (Inl (ShardNotFound distributedFileName originalFileName), file)
          | Some dFile \<Rightarrow> (case updateFunc dFile of
              Inl e \<Rightarrow> (Inl e, file)
            | Inr dFile \<Rightarrow>
                writeJsonFile we
                  (AList.update originalFileName
                     (fileInfo\<lparr>fi_DistributedFileInfos :=
                        AList.update distributedFileName dFile (fi_DistributedFileInfos fileInfo)\<rparr>) filesMap) file))))"

definition UpdateDistributedFile_CheckFlag :: "FilesMap write_end \<Rightarrow> string \<Rightarrow> string \<Rightarrow> bool \<Rightarrow> unit datamap_op" where
  "UpdateDistributedFile_CheckFlag we originalFileName distributedFileName newCheck =
     updateDistributedFile we originalFileName distributedFileName (\<lambda>dFile. Inr (dFile\<lparr>df_Check := newCheck\<rparr>))"

definition UpdateDistributedFile_CheckFlagAndRemote ::
  "FilesMap write_end \<Rightarrow> string \<Rightarrow> string \<Rightarrow> bool \<Rightarrow> Remote \<Rightarrow> unit datamap_op" where
  "UpdateDistributedFile_CheckFlagAndRemote we originalFileName distributedFileName newCheck remote =
     updateDistributedFile we originalFileName distributedFileName
       (\<lambda>dFile. Inr (dFile\<lparr>df_Check := newCheck, df_Remote := remote\<rparr>))"

definition ResetCheckFlag :: "FilesMap write_end \<Rightarrow> string \<Rightarrow> unit datamap_op" where
  "ResetCheckFlag we originalFileName file =
     (case readJsonFile file of
        Inl e \<Rightarrow> (Inl e, file)
      | Inr filesMap \<Rightarrow> (case map_of filesMap originalFileName of
          None \<Rightarrow> (Inl (FileNotFound originalFileName), file)
        | Some fileInfo \<Rightarrow>
            let infos = map (\<lambda>(key, dFile). (key, dFile\<lparr>df_Check := False\<rparr>)) (fi_DistributedFileInfos fileInfo)
            in writeJsonFile we
                 (AList.update originalFileName
                    (fileInfo\<lparr>fi_Flag := False, fi_DistributedFileInfos := infos\<rparr>) filesMap) file))"

definition GetOriginalFileNameList :: "shard_order \<Rightarrow> string \<Rightarrow> string list \<Rightarrow> datamap \<Rightarrow> string list dis_result" where
  "GetOriginalFileNameList ro originalFileName hashedFileNameList file =
     (case readJsonFile file of
        Inl e \<Rightarrow> Inl e
      | Inr filesMap \<Rightarrow> (case map_of filesMap originalFileName of
          None \<Rightarrow> Inl (FileNotFound originalFileName)
        | Some fileInfo \<Rightarrow>
            let hashToDistributed =
                  fold (\<lambda>(_, dFile). AList.update (CalculateHash (df_DistributedFile dFile)) (df_DistributedFile dFile))
                    (ro (fi_DistributedFileInfos fileInfo)) []
            in Inr (List.map_filter (map_of hashToDistributed) hashedFileNameList)))"

definition GetUncompletedFileInfo :: "shard_order \<Rightarrow> string \<Rightarrow> datamap \<Rightarrow> DistributedFile list dis_result" where
  "GetUncompletedFileInfo ro originalFileName file =
     (case readJsonFile file of
        Inl e \<Rightarrow> Inl e
      | Inr filesMap \<Rightarrow> (case map_of filesMap originalFileName of
          None \<Rightarrow> Inl (FileNotFound originalFileName)
        | Some fileInfo \<Rightarrow>
            Inr (filter (\<lambda>dFile. \<not> df_Check dFile \<and> Remote_String (df_Remote dFile) \<noteq> ''|'')
                   (map snd (ro (fi_DistributedFileInfos fileInfo))))))"

text \<open>\<open>Dis_ls\<close> decodes the file on its own and, unlike \<open>readJsonFile\<close>, fails when it is missing or empty.\<close>

definition Dis_ls :: "(FilesMap \<Rightarrow> FilesMap) \<Rightarrow> datamap \<Rightarrow> string list dis_result" where
  "Dis_ls ro file =
     (case file of
        NoFile \<Rightarrow> Inl OpenFailed
      | NoAccess \<Rightarrow> Inl OpenFailed
      | EmptyFile \<Rightarrow> Inl DecodeFailed
      | BadJson \<Rightarrow> Inl DecodeFailed
      | JsonNull \<Rightarrow> Inr []
      | Json filesMap \<Rightarrow> Inr (map fst (ro filesMap)))"

section \<open>What the file says\<close>

definition readable :: "datamap \<Rightarrow> bool" where
  "readable file \<longleftrightarrow> (case file of NoAccess \<Rightarrow> False | BadJson \<Rightarrow> False | _ \<Rightarrow> True)"

definition files :: "datamap \<Rightarrow> string \<rightharpoonup> FileInfo" where
  "files file = (case readJsonFile file of Inl _ \<Rightarrow> Map.empty | Inr filesMap \<Rightarrow> map_of filesMap)"

definition shard_at :: "datamap \<Rightarrow> string \<times> string \<Rightarrow> DistributedFile option" where
  "shard_at file k = Option.bind (files file (fst k)) (\<lambda>info. map_of (fi_DistributedFileInfos info) (snd k))"

lemma readable_cases:
  obtains (unreadable) e where "\<not> readable file" "readJsonFile file = Inl e" "files file = Map.empty"
    | (readable) filesMap where "readable file" "readJsonFile file = Inr filesMap" "files file = map_of filesMap"
  by (cases "file") (auto simp: readable_def readJsonFile_def files_def)

lemma files_Json [simp]: "files (Json m) = map_of m" "readable (Json m)" "readJsonFile (Json m) = Inr m"
  by (simp_all add: files_def readable_def readJsonFile_def)

lemma files_SomeD: "files file f = Some info \<Longrightarrow> \<exists>m. readable file \<and> readJsonFile file = Inr m \<and> files file = map_of m \<and> map_of m f = Some info"
  by (cases "file" rule: readable_cases) auto

lemma writeJsonFile_Wrote [simp]: "writeJsonFile Wrote data file = (Inr (), Json data)"
  by (simp add: writeJsonFile_def)

text \<open>The lookups, over \<open>files\<close>.\<close>

lemma GetFileInfoStruct_iff [store_simps]: "GetFileInfoStruct f file = Inr info \<longleftrightarrow> files file f = Some info"
  by (cases "file" rule: readable_cases) (auto simp: GetFileInfoStruct_def split: option.split)

lemma DoesFileStructExist_iff [store_simps]: "readable file \<Longrightarrow> DoesFileStructExist f file = Inr (files file f \<noteq> None)"
  by (cases "file" rule: readable_cases) (auto simp: DoesFileStructExist_def)

lemma GetDistributedFileStruct_files [store_simps]:
  "files file f = Some info \<Longrightarrow> GetDistributedFileStruct ro f file = Inr (map snd (ro (fi_DistributedFileInfos info)))"
  by (drule files_SomeD) (auto simp: GetDistributedFileStruct_def)

lemma GetUncompletedFileInfo_files [store_simps]:
  "files file f = Some info \<Longrightarrow> GetUncompletedFileInfo ro f file =
     Inr (filter (\<lambda>dFile. \<not> df_Check dFile \<and> Remote_String (df_Remote dFile) \<noteq> ''|'')
            (map snd (ro (fi_DistributedFileInfos info))))"
  by (drule files_SomeD) (auto simp: GetUncompletedFileInfo_def)

text \<open>The updates, over \<open>files\<close>, when the write succeeds.\<close>

lemma RemoveFileFromMetadata_files [store_simps]:
  "readable file \<Longrightarrow>
   fst (RemoveFileFromMetadata Wrote f file) = Inr () \<and> readable (snd (RemoveFileFromMetadata Wrote f file))
   \<and> files (snd (RemoveFileFromMetadata Wrote f file)) = (files file)(f := None)"
  by (cases "file" rule: readable_cases) (auto simp: RemoveFileFromMetadata_def delete_conv)

lemma UpdateFileFlag_files [store_simps]:
  "files file f = Some info \<Longrightarrow>
   fst (UpdateFileFlag Wrote f st file) = Inr () \<and> readable (snd (UpdateFileFlag Wrote f st file))
   \<and> files (snd (UpdateFileFlag Wrote f st file)) = (files file)(f \<mapsto> info\<lparr>fi_Flag := True, fi_State := st\<rparr>)"
  by (drule files_SomeD) (auto simp: UpdateFileFlag_def update_conv)

definition reset_info :: "FileInfo \<Rightarrow> FileInfo" where
  "reset_info info = info\<lparr>fi_Flag := False, fi_DistributedFileInfos :=
     map (\<lambda>(key, dFile). (key, dFile\<lparr>df_Check := False\<rparr>)) (fi_DistributedFileInfos info)\<rparr>"

lemma ResetCheckFlag_files [store_simps]:
  "files file f = Some info \<Longrightarrow>
   fst (ResetCheckFlag Wrote f file) = Inr () \<and> readable (snd (ResetCheckFlag Wrote f file))
   \<and> files (snd (ResetCheckFlag Wrote f file)) = (files file)(f \<mapsto> reset_info info)"
  by (drule files_SomeD) (auto simp: ResetCheckFlag_def update_conv reset_info_def Let_def)

lemma updateDistributedFile_files [store_simps]:
  "files file f = Some info \<Longrightarrow> map_of (fi_DistributedFileInfos info) d = Some df \<Longrightarrow> upd df = Inr df' \<Longrightarrow>
   fst (updateDistributedFile Wrote f d upd file) = Inr () \<and> readable (snd (updateDistributedFile Wrote f d upd file))
   \<and> files (snd (updateDistributedFile Wrote f d upd file)) =
       (files file)(f \<mapsto> info\<lparr>fi_DistributedFileInfos := AList.update d df' (fi_DistributedFileInfos info)\<rparr>)"
  by (drule files_SomeD) (auto simp: updateDistributedFile_def update_conv)

lemma shard_at_Some:
  "shard_at file (f, d) = Some df \<longleftrightarrow>
     (\<exists>info. files file f = Some info \<and> map_of (fi_DistributedFileInfos info) d = Some df)"
  by (auto simp: shard_at_def bind_eq_Some_conv)

lemma shard_at_update:
  "shard_at file (f, d) = Some df \<Longrightarrow> upd df = Inr df' \<Longrightarrow>
   shard_at (snd (updateDistributedFile Wrote f d upd file)) k = (if k = (f, d) then Some df' else shard_at file k)"
  unfolding shard_at_Some by (cases k) (auto simp: shard_at_def store_simps update_conv)

text \<open>The entries of the shards are a keyed store: \<open>updateDistributedFile\<close> changes one entry.\<close>

definition modify_shard :: "string \<times> string \<Rightarrow> (DistributedFile \<Rightarrow> DistributedFile) \<Rightarrow> datamap \<Rightarrow> datamap" where
  "modify_shard k g file = snd (updateDistributedFile Wrote (fst k) (snd k) (\<lambda>df. Inr (g df)) file)"

interpretation shards: keyed_store "\<lambda>file k. the (shard_at file k)" modify_shard "\<lambda>k. k" "\<lambda>file. dom (shard_at file)"
proof unfold_locales
  fix r :: "string \<times> string" and s g k
  assume "r \<in> dom (shard_at s)"
  then obtain df where df: "shard_at s (fst r, snd r) = Some df" by auto
  show "the (shard_at (modify_shard r g s) k) = (if k = r then g (the (shard_at s k)) else the (shard_at s k))"
    using df by (auto simp: modify_shard_def shard_at_update [OF df])
  show "dom (shard_at (modify_shard r g s)) = dom (shard_at s)"
    using df by (auto simp: modify_shard_def shard_at_update [OF df] dom_def)
qed

section \<open>Well-formed data maps\<close>

text \<open>A file is recorded under its name, a shard under its name, and no name is recorded twice.\<close>

definition info_wf :: "string \<Rightarrow> FileInfo \<Rightarrow> bool" where
  "info_wf f info \<longleftrightarrow> fi_FileName info = f \<and> distinct (map fst (fi_DistributedFileInfos info))
     \<and> list_all (\<lambda>(d, df). df_DistributedFile df = d) (fi_DistributedFileInfos info)"

definition map_wf :: "FilesMap \<Rightarrow> bool" where
  "map_wf m \<longleftrightarrow> distinct (map fst m) \<and> list_all (\<lambda>(f, info). info_wf f info) m"

definition datamap_wf :: "datamap \<Rightarrow> bool" where
  "datamap_wf file \<longleftrightarrow> (case readJsonFile file of Inl _ \<Rightarrow> True | Inr m \<Rightarrow> map_wf m)"

text \<open>A write that fails leaves the old file when it could not be opened, and a proper prefix of the new
  text otherwise, which is empty or does not decode.\<close>

definition possible_end :: "datamap \<Rightarrow> FilesMap write_end \<Rightarrow> bool" where
  "possible_end file we \<longleftrightarrow>
     (case we of WriteFailed left \<Rightarrow> left = file \<or> left = EmptyFile \<or> left = BadJson | _ \<Rightarrow> True)"

text \<open>The steps the commands take on the data map.\<close>

inductive datamap_step :: "datamap \<Rightarrow> datamap \<Rightarrow> bool" where
  make: "possible_end file we \<Longrightarrow>
    datamap_step file (snd (MakeDataMap we stat content path dfs dsize pad shard parity file))"
| remove: "possible_end file we \<Longrightarrow> datamap_step file (snd (RemoveFileFromMetadata we f file))"
| flag: "possible_end file we \<Longrightarrow> datamap_step file (snd (UpdateFileFlag we f st file))"
| check: "possible_end file we \<Longrightarrow> datamap_step file (snd (UpdateDistributedFile_CheckFlag we f d c file))"
| check_remote: "possible_end file we \<Longrightarrow>
    datamap_step file (snd (UpdateDistributedFile_CheckFlagAndRemote we f d c r file))"
| reset: "possible_end file we \<Longrightarrow> datamap_step file (snd (ResetCheckFlag we f file))"

inductive_cases datamap_stepE: "datamap_step file file'"

lemma distinct_fst_update [simp]: "distinct (map fst al) \<Longrightarrow> distinct (map fst (AList.update k v al))"
  by (rule distinct_update)

lemma list_all_update:
  "list_all P al \<Longrightarrow> P (k, v) \<Longrightarrow> list_all P (AList.update k v al)"
  by (induction al) auto

lemma list_all_delete: "list_all P al \<Longrightarrow> list_all P (AList.delete k al)"
  by (induction al) auto

lemma list_all_map_of: "list_all P al \<Longrightarrow> map_of al k = Some v \<Longrightarrow> P (k, v)"
  by (auto simp: list_all_iff dest: map_of_SomeD)

lemma map_wf_update: "map_wf m \<Longrightarrow> info_wf f info \<Longrightarrow> map_wf (AList.update f info m)"
  by (simp add: map_wf_def list_all_update)

lemma map_wf_delete: "map_wf m \<Longrightarrow> map_wf (AList.delete f m)"
  by (simp add: map_wf_def list_all_delete)

lemma map_wf_info: "map_wf m \<Longrightarrow> map_of m f = Some info \<Longrightarrow> info_wf f info"
  unfolding map_wf_def by (auto dest: list_all_map_of)

lemma dFileMap_wf: "distinct (map fst (dFileMap dfs)) \<and> list_all (\<lambda>(d, df). df_DistributedFile df = d) (dFileMap dfs)"
proof -
  have "distinct (map fst al) \<and> list_all (\<lambda>(d, df). df_DistributedFile df = d) al \<Longrightarrow>
     distinct (map fst (fold (\<lambda>df. AList.update (df_DistributedFile df) df) dfs al))
     \<and> list_all (\<lambda>(d, df). df_DistributedFile df = d) (fold (\<lambda>df. AList.update (df_DistributedFile df) df) dfs al)" for al
    by (induction dfs arbitrary: al) (simp_all add: list_all_update)
  then show ?thesis by (simp add: dFileMap_def)
qed

lemma info_wf_updates:
  assumes "info_wf f info"
  shows "info_wf f (info\<lparr>fi_Flag := b, fi_State := st\<rparr>)" "info_wf f (reset_info info)"
    and "df_DistributedFile df = d \<Longrightarrow>
      info_wf f (info\<lparr>fi_DistributedFileInfos := AList.update d df (fi_DistributedFileInfos info)\<rparr>)"
proof -
  show "info_wf f (info\<lparr>fi_Flag := b, fi_State := st\<rparr>)" using assms by (simp add: info_wf_def)
  show "info_wf f (reset_info info)"
    using assms by (auto simp: info_wf_def reset_info_def comp_def case_prod_beta list_all_iff)
  show "info_wf f (info\<lparr>fi_DistributedFileInfos := AList.update d df (fi_DistributedFileInfos info)\<rparr>)"
    if "df_DistributedFile df = d"
    using assms that by (simp add: info_wf_def list_all_update)
qed

lemma write_wf: "datamap_wf file \<Longrightarrow> possible_end file we \<Longrightarrow> map_wf m \<Longrightarrow> datamap_wf (snd (writeJsonFile we m file))"
  by (auto simp: writeJsonFile_def possible_end_def datamap_wf_def readJsonFile_def map_wf_def split: write_end.split)

lemma datamap_wf_read: "datamap_wf file \<Longrightarrow> readJsonFile file = Inr m \<Longrightarrow> map_wf m"
  by (simp add: datamap_wf_def)

lemma updateDistributedFile_wf:
  assumes "datamap_wf file" "possible_end file we"
    and "\<And>df df'. upd df = Inr df' \<Longrightarrow> df_DistributedFile df' = df_DistributedFile df"
  shows "datamap_wf (snd (updateDistributedFile we f d upd file))"
proof -
  have "datamap_wf (snd (writeJsonFile we (AList.update f (info\<lparr>fi_DistributedFileInfos :=
          AList.update d df' (fi_DistributedFileInfos info)\<rparr>) m) file))"
    if m: "readJsonFile file = Inr m" and info: "map_of m f = Some info"
      and df: "map_of (fi_DistributedFileInfos info) d = Some df" "upd df = Inr df'" for m info df df'
  proof -
    have wf: "map_wf m" "info_wf f info" using assms m info by (auto dest: datamap_wf_read map_wf_info)
    then have "df_DistributedFile df' = d"
      using df assms(3) by (auto simp: info_wf_def dest: list_all_map_of)
    then show ?thesis using assms wf by (intro write_wf map_wf_update info_wf_updates(3)) auto
  qed
  then show ?thesis using assms(1) by (auto simp: updateDistributedFile_def split: sum.split option.split)
qed

lemma reset_info_eq:
  "info\<lparr>fi_Flag := False, fi_DistributedFileInfos :=
     map (\<lambda>(key, dFile). (key, dFile\<lparr>df_Check := False\<rparr>)) (fi_DistributedFileInfos info)\<rparr> = reset_info info"
  by (simp add: reset_info_def)

lemma datamap_step_wf:
  assumes "datamap_step file file'" "datamap_wf file"
  shows "datamap_wf file'"
  using assms
proof cases
  case (make we stat content path dfs dsize pad shard parity)
  then show ?thesis using assms(2)
    by (auto simp: MakeDataMap_def Let_def info_wf_def dFileMap_wf
        intro!: write_wf map_wf_update split: option.split sum.split dest: datamap_wf_read)
next
  case (remove we f)
  then show ?thesis using assms(2)
    by (auto simp: RemoveFileFromMetadata_def intro!: write_wf map_wf_delete split: sum.split dest: datamap_wf_read)
next
  case (flag we f st)
  then show ?thesis using assms(2)
    by (auto simp: UpdateFileFlag_def split: sum.split option.split
        intro!: write_wf map_wf_update info_wf_updates(1) dest: datamap_wf_read map_wf_info)
next
  case (check we f d c)
  then show ?thesis using assms(2)
    by (auto simp: UpdateDistributedFile_CheckFlag_def intro: updateDistributedFile_wf)
next
  case (check_remote we f d c r)
  then show ?thesis using assms(2)
    by (auto simp: UpdateDistributedFile_CheckFlagAndRemote_def intro: updateDistributedFile_wf)
next
  case (reset we f)
  then show ?thesis using assms(2)
    by (auto simp: ResetCheckFlag_def Let_def reset_info_eq split: sum.split option.split
        intro!: write_wf map_wf_update info_wf_updates(2) dest: datamap_wf_read map_wf_info)
qed

text \<open>C14. Whatever commands have run on the data map since it did not exist, and whichever of their
  writes failed, it records every file and every shard under its own name and none twice.\<close>

theorem datamap_invariant: "datamap_step\<^sup>*\<^sup>* NoFile file \<Longrightarrow> datamap_wf file"
proof (induction rule: rtranclp_induct)
  case base
  show ?case by (simp add: datamap_wf_def readJsonFile_def map_wf_def)
next
  case (step mid final)
  then show ?case by (blast intro: datamap_step_wf)
qed

theorem datamap_invariant_witness:
  "datamap_wf (snd (MakeDataMap Wrote (Some 1) (Some [7]) ''/a'' [] 1 0 1 1 NoFile))"
  by (rule datamap_invariant) (auto intro!: r_into_rtranclp datamap_step.make simp: possible_end_def)

section \<open>What the operations promise\<close>

lemma map_of_fold_update:
  "map_of (fold (\<lambda>x. AList.update (k x) (v x)) xs al) = map_of al ++ map_of (rev (map (\<lambda>x. (k x, v x)) xs))"
  by (induction xs arbitrary: al) (simp_all add: update_conv map_add_def fun_eq_iff split: option.split)

lemma map_of_dFileMap:
  "distinct (map df_DistributedFile dfs) \<Longrightarrow> df \<in> set dfs \<Longrightarrow> map_of (dFileMap dfs) (df_DistributedFile df) = Some df"
proof -
  assume dfs: "distinct (map df_DistributedFile dfs)" "df \<in> set dfs"
  have "distinct (map fst (rev (map (\<lambda>x. (df_DistributedFile x, x)) dfs)))"
    using dfs(1) by (simp add: rev_map [symmetric] comp_def)
  then show ?thesis using dfs(2)
    unfolding dFileMap_def by (simp add: map_of_fold_update map_of_eq_Some_iff image_iff)
qed

lemma MakeDataMap_result:
  assumes "MakeDataMap we stat content path dfs dsize pad shard parity file = (Inr (), file')"
  obtains fsize bs m where "stat = Some fsize" "content = Some bs" "files file = map_of m" "readJsonFile file = Inr m"
    "file' = Json (AList.update (path_Base path)
       \<lparr> fi_FileName = path_Base path, fi_FileSize = fsize, fi_DisFileSize = dsize, fi_Shard = shard, fi_Parity = parity,
         fi_Flag = True, fi_State = ''upload'', fi_Checksum = calculateChecksum bs, fi_Padding = pad,
         fi_DistributedFileInfos = dFileMap dfs \<rparr> m)"
proof -
  obtain fsize bs m where io: "stat = Some fsize" "content = Some bs" "readJsonFile file = Inr m" "files file = map_of m"
    using assms by (cases "file" rule: readable_cases)
      (auto simp: MakeDataMap_def Let_def split: if_splits option.splits)
  moreover have "we = Wrote"
    using assms io by (cases we) (auto simp: MakeDataMap_def Let_def writeJsonFile_def split: if_splits)
  ultimately show ?thesis using assms by (intro that) (auto simp: MakeDataMap_def Let_def split: if_splits)
qed

text \<open>When \<open>MakeDataMap\<close> succeeds, the data map can be read, it finds the file under its base name with
  the flag set, state \<open>upload\<close>, the sizes, the SHA-256 of the contents and every shard as given, and
  every other file is as it was.\<close>

theorem recorded_file_found:
  assumes "MakeDataMap we stat content path dfs dsize pad shard parity file = (Inr (), file')"
    and "distinct (map df_DistributedFile dfs)"
  shows "\<exists>info fsize bs. stat = Some fsize \<and> content = Some bs
     \<and> GetFileInfoStruct (path_Base path) file' = Inr info
     \<and> fi_Flag info \<and> fi_State info = ''upload'' \<and> fi_FileSize info = fsize \<and> fi_DisFileSize info = dsize
     \<and> fi_Shard info = shard \<and> fi_Parity info = parity \<and> fi_Padding info = pad
     \<and> fi_Checksum info = calculateChecksum bs
     \<and> (\<forall>df \<in> set dfs. shard_at file' (path_Base path, df_DistributedFile df) = Some df)
     \<and> (\<forall>f. f \<noteq> path_Base path \<longrightarrow> files file' f = files file f)"
proof -
  obtain fsize bs m where io: "stat = Some fsize" "content = Some bs" "files file = map_of m"
    and file': "file' = Json (AList.update (path_Base path)
       \<lparr> fi_FileName = path_Base path, fi_FileSize = fsize, fi_DisFileSize = dsize, fi_Shard = shard, fi_Parity = parity,
         fi_Flag = True, fi_State = ''upload'', fi_Checksum = calculateChecksum bs, fi_Padding = pad,
         fi_DistributedFileInfos = dFileMap dfs \<rparr> m)" (is "_ = Json (AList.update _ ?info _)")
    using MakeDataMap_result [OF assms(1)] by metis
  have found: "files file' (path_Base path) = Some ?info" unfolding file' by (simp add: update_conv)
  then have "\<forall>df \<in> set dfs. shard_at file' (path_Base path, df_DistributedFile df) = Some df"
    using assms(2) by (simp add: shard_at_Some map_of_dFileMap)
  moreover have "\<forall>f. f \<noteq> path_Base path \<longrightarrow> files file' f = files file f"
    using io by (simp add: file' update_conv)
  ultimately show ?thesis using io found by (simp add: GetFileInfoStruct_iff)
qed

definition sample_shard :: "string \<Rightarrow> DistributedFile" where
  "sample_shard d = \<lparr> df_DistributedFile = d, df_Remote = no_remote, df_Checksum = ''c'', df_Check = False \<rparr>"

definition sample_map :: datamap where
  "sample_map = snd (MakeDataMap Wrote (Some 2) (Some [7, 8]) ''/a'' [sample_shard ''a.0'', sample_shard ''a.1''] 1 0 1 1 NoFile)"

lemma sample_base: "path_Base ''/a'' = ''a''"
  by code_simp

lemma sample_shards: "shard_at sample_map (''a'', ''a.0'') = Some (sample_shard ''a.0'')"
    "shard_at sample_map (''a'', ''a.1'') = Some (sample_shard ''a.1'')"
  by (simp_all add: sample_map_def MakeDataMap_def Let_def shard_at_Some sample_base readJsonFile_def
      dFileMap_def sample_shard_def update_conv)

theorem recorded_file_found_witness:
  "\<exists>info. GetFileInfoStruct ''a'' sample_map = Inr info \<and> fi_Flag info
     \<and> shard_at sample_map (''a'', ''a.1'') = Some (sample_shard ''a.1'')"
proof -
  have run: "MakeDataMap Wrote (Some 2) (Some [7, 8]) ''/a'' [sample_shard ''a.0'', sample_shard ''a.1''] 1 0 1 1 NoFile
      = (Inr (), sample_map)"
    by (simp add: sample_map_def MakeDataMap_def Let_def readJsonFile_def)
  show ?thesis
    using recorded_file_found [OF run] unfolding sample_base by (fastforce simp: sample_shard_def)
qed

text \<open>The updates a run of upload jobs makes: one per shard, marking it done on its remote.\<close>

definition mark_uploaded :: "string \<Rightarrow> string \<times> Remote \<Rightarrow> datamap \<Rightarrow> datamap" where
  "mark_uploaded f job file = snd (UpdateDistributedFile_CheckFlagAndRemote Wrote f (fst job) True (snd job) file)"

lemma mark_uploaded_modify:
  "mark_uploaded f job = modify_shard (f, fst job) (\<lambda>df. df\<lparr>df_Check := True, df_Remote := snd job\<rparr>)"
  by (simp add: fun_eq_iff mark_uploaded_def modify_shard_def UpdateDistributedFile_CheckFlagAndRemote_def)

lemma mark_uploaded_run:
  "fold (mark_uploaded f) jobs file =
     shards.run (map (\<lambda>job. ((f, fst job), \<lambda>df. df\<lparr>df_Check := True, df_Remote := snd job\<rparr>)) jobs) file"
  by (induction jobs arbitrary: "file") (simp_all add: mark_uploaded_modify)

text \<open>Jobs that record different shards of a file give the same data map entries in whatever order
  they get the lock: each shard is marked done on the remote of its job and otherwise as it was,
  and no other entry, of this file or another, has changed.\<close>

theorem shard_updates_any_order:
  assumes "mset jobs = mset plan" "distinct (map fst plan)"
    and "\<forall>job \<in> set plan. shard_at file (f, fst job) = Some (entry (fst job))"
  shows "(\<forall>(d, r) \<in> set plan. shard_at (fold (mark_uploaded f) jobs file) (f, d)
                                = Some ((entry d)\<lparr>df_Check := True, df_Remote := r\<rparr>))
       \<and> (\<forall>k. k \<notin> (\<lambda>(d, _). (f, d)) ` set plan \<longrightarrow>
                shard_at (fold (mark_uploaded f) jobs file) k = shard_at file k)"
proof -
  let ?us = "map (\<lambda>job. ((f, fst job), \<lambda>df. df\<lparr>df_Check := True, df_Remote := snd job\<rparr>)) jobs"
  let ?fin = "fold (mark_uploaded f) jobs file"
  have same: "set jobs = set plan" using assms(1) by (rule mset_eq_setD)
  have "distinct (map fst jobs)" using assms(1,2) by (metis mset_eq_imp_distinct_iff mset_map)
  then have dist: "distinct (map (\<lambda>u. fst u) ?us)" by (simp add: distinct_map comp_def inj_on_def)
  have keys: "(\<lambda>k. k) ` fst ` set ?us \<subseteq> dom (shard_at file)" using assms(3) same by auto
  have dom: "dom (shard_at ?fin) = dom (shard_at file)"
    using shards.keys_run [OF keys] by (simp add: mark_uploaded_run)
  have "shard_at ?fin (f, d) = Some ((entry d)\<lparr>df_Check := True, df_Remote := r\<rparr>)" if job: "(d, r) \<in> set plan" for d r
  proof -
    have at: "shard_at file (f, d) = Some (entry d)" using assms(3) job by force
    then have "the (shard_at ?fin (f, d)) = (entry d)\<lparr>df_Check := True, df_Remote := r\<rparr>"
      using shards.get_run_one [OF keys, of "((f, d), \<lambda>df. df\<lparr>df_Check := True, df_Remote := r\<rparr>)"] dist same job
      by (force simp: mark_uploaded_run)
    then show ?thesis using at dom by (metis domIff option.collapse option.distinct(1))
  qed
  moreover have "shard_at ?fin k = shard_at file k" if "k \<notin> (\<lambda>(d, _). (f, d)) ` set plan" for k
  proof -
    have "k \<notin> (\<lambda>k. k) ` fst ` set ?us" using same that by (auto simp: image_iff split: prod.splits)
    then have "the (shard_at ?fin k) = the (shard_at file k)"
      using shards.get_run_none [OF keys] by (simp add: mark_uploaded_run)
    then show ?thesis using dom by (metis domIff option.expand)
  qed
  ultimately show ?thesis by auto
qed

theorem shard_updates_any_order_witness:
  "shard_at (fold (mark_uploaded ''a'') [(''a.1'', \<lparr>Remote_Name = ''r'', Remote_Type = ''t''\<rparr>), (''a.0'', no_remote)] sample_map)
     (''a'', ''a.1'') = Some ((sample_shard ''a.1'')\<lparr>df_Check := True, df_Remote := \<lparr>Remote_Name = ''r'', Remote_Type = ''t''\<rparr>\<rparr>)"
  using shard_updates_any_order [of "[(''a.1'', \<lparr>Remote_Name = ''r'', Remote_Type = ''t''\<rparr>), (''a.0'', no_remote)]"
      "[(''a.0'', no_remote), (''a.1'', \<lparr>Remote_Name = ''r'', Remote_Type = ''t''\<rparr>)]"
      "sample_map" "''a''" sample_shard]
  by (auto simp: sample_shards)

text \<open>\<open>ResetCheckFlag\<close> on a recorded file ends its unfinished state: the flag is down, every shard is
  unchecked, and the rest of the data map, including what else is recorded of the file and its
  shards, is as it was. On a file that is not recorded it fails and changes nothing.\<close>

theorem ResetCheckFlag_spec:
  assumes "readable file"
  shows "case files file f of
      None \<Rightarrow> ResetCheckFlag Wrote f file = (Inl (FileNotFound f), file)
    | Some info \<Rightarrow> \<exists>file'. ResetCheckFlag Wrote f file = (Inr (), file') \<and> readable file'
        \<and> (\<forall>g. g \<noteq> f \<longrightarrow> files file' g = files file g)
        \<and> (\<exists>info'. files file' f = Some info' \<and> \<not> fi_Flag info'
            \<and> info'\<lparr>fi_Flag := fi_Flag info, fi_DistributedFileInfos := fi_DistributedFileInfos info\<rparr> = info)
        \<and> (\<forall>d. shard_at file' (f, d) = map_option (\<lambda>df. df\<lparr>df_Check := False\<rparr>) (shard_at file (f, d)))"
proof (cases "files file f")
  case None
  then show ?thesis using assms by (cases "file" rule: readable_cases) (auto simp: ResetCheckFlag_def)
next
  case (Some info)
  have "files (snd (ResetCheckFlag Wrote f file)) f = Some (reset_info info)" using Some by (simp add: store_simps)
  then have "shard_at (snd (ResetCheckFlag Wrote f file)) (f, d) = map_option (\<lambda>df. df\<lparr>df_Check := False\<rparr>) (shard_at file (f, d))" for d
    using Some by (simp add: shard_at_def reset_info_def map_of_map)
  then show ?thesis
    using Some ResetCheckFlag_files [OF Some]
    by (auto intro!: exI [of _ "snd (ResetCheckFlag Wrote f file)"] simp: prod_eq_iff reset_info_def)
qed

theorem ResetCheckFlag_spec_witness:
  "\<exists>file'. ResetCheckFlag Wrote ''a'' sample_map = (Inr (), file')
      \<and> shard_at file' (''a'', ''a.0'') = Some (sample_shard ''a.0'')"
proof -
  have "readable sample_map" "files sample_map ''a'' \<noteq> None"
    using sample_shards(1) by (auto simp: shard_at_Some dest: files_SomeD)
  then show ?thesis
    using ResetCheckFlag_spec [of sample_map "''a''"] by (auto simp: sample_shards sample_shard_def)
qed

lemma map_of_uniqueI: "(\<And>w. (k, w) \<in> set al \<Longrightarrow> w = v) \<Longrightarrow> (k, v) \<in> set al \<Longrightarrow> map_of al k = Some v"
  by (metis map_of_SomeD weak_map_of_SomeI)

text \<open>The hashed names under which the shards of a file travel lead back to the shards: for shards of
  the file whose hashes do not collide, \<open>GetOriginalFileNameList\<close> maps the list of their hashed names
  to the list of their names, whatever the order in which the map of shards is visited.\<close>

theorem hashed_names_roundtrip:
  assumes "datamap_wf file" "files file f = Some info" "range_order ro"
    and "set names \<subseteq> fst ` set (fi_DistributedFileInfos info)"
    and "inj_on CalculateHash (fst ` set (fi_DistributedFileInfos info))"
  shows "GetOriginalFileNameList ro f (map CalculateHash names) file = Inr names"
proof -
  let ?infos = "fi_DistributedFileInfos info" and ?name = "\<lambda>e. df_DistributedFile (snd e)"
  let ?table = "fold (\<lambda>(_, df). AList.update (CalculateHash (df_DistributedFile df)) (df_DistributedFile df)) (ro ?infos) []"
  obtain m where m: "readJsonFile file = Inr m" "map_of m f = Some info" using assms(2) files_SomeD by blast
  then have wf: "distinct (map fst ?infos)" "\<And>e. e \<in> set ?infos \<Longrightarrow> ?name e = fst e"
    using assms(1) by (auto simp: info_wf_def list_all_iff dest!: datamap_wf_read map_wf_info)
  have set_ro: "set (ro ?infos) = set ?infos" using assms(3) by (rule range_orderD)
  have table: "map_of ?table = map_of (rev (map (\<lambda>e. (CalculateHash (?name e), ?name e)) (ro ?infos)))"
    using map_of_fold_update [of "\<lambda>e. CalculateHash (?name e)" ?name "ro ?infos" "[]"]
    by (simp add: case_prod_unfold)
  have "map_of ?table (CalculateHash d) = Some d" if "d \<in> set names" for d
  proof -
    have d: "d \<in> ?name ` set (ro ?infos)" using that assms(4) wf(2) by (force simp: set_ro)
    have names: "e \<in> set (ro ?infos) \<Longrightarrow> ?name e \<in> fst ` set ?infos" for e using wf(2) by (auto simp: set_ro)
    show ?thesis unfolding table
    proof (rule map_of_uniqueI)
      show "\<And>v. (CalculateHash d, v) \<in> set (rev (map (\<lambda>e. (CalculateHash (?name e), ?name e)) (ro ?infos))) \<Longrightarrow> v = d"
        using d by (auto dest!: names intro: inj_onD [OF assms(5)])
      show "(CalculateHash d, d) \<in> set (rev (map (\<lambda>e. (CalculateHash (?name e), ?name e)) (ro ?infos)))"
        using d by auto
    qed
  qed
  then have "List.map_filter (map_of ?table) (map CalculateHash names) = names"
    by (induction names) (auto simp: List.map_filter_simps)
  then show ?thesis using m by (simp add: GetOriginalFileNameList_def Let_def)
qed

theorem hashed_names_roundtrip_witness:
  "GetOriginalFileNameList rev ''a'' [CalculateHash ''a.0'']
     (snd (MakeDataMap Wrote (Some 1) (Some [7]) ''/a'' [sample_shard ''a.0''] 1 0 1 0 NoFile)) = Inr [''a.0'']"
proof -
  let ?file = "snd (MakeDataMap Wrote (Some 1) (Some [7]) ''/a'' [sample_shard ''a.0''] 1 0 1 0 NoFile)"
  have "datamap_wf ?file"
    by (rule datamap_step_wf [OF datamap_step.make])
      (simp_all add: possible_end_def datamap_wf_def readJsonFile_def map_wf_def)
  moreover obtain info where "files ?file ''a'' = Some info" "fi_DistributedFileInfos info = [(''a.0'', sample_shard ''a.0'')]"
    by (simp add: MakeDataMap_def Let_def sample_base readJsonFile_def dFileMap_def sample_shard_def)
  ultimately show ?thesis
    using hashed_names_roundtrip [of ?file "''a''" info rev "[''a.0'']"] by (simp add: range_order_rev)
qed

text \<open>The data map is not replaced atomically: when the write of an update stops after the file
  has been emptied, the update reports an error, and from then on every file is unknown, without
  an error being reported to the commands that look one up.\<close>

theorem torn_write_forgets:
  assumes "files file f = Some info"
  shows "fst (UpdateFileFlag (WriteFailed EmptyFile) f st file) = Inl WriteError
       \<and> (\<forall>g. DoesFileStructExist g (snd (UpdateFileFlag (WriteFailed EmptyFile) f st file)) = Inr False)"
  using files_SomeD [OF assms]
  by (auto simp: UpdateFileFlag_def writeJsonFile_def DoesFileStructExist_def readJsonFile_def)

theorem torn_write_forgets_witness:
  "DoesFileStructExist ''a'' (snd (UpdateFileFlag (WriteFailed EmptyFile) ''a'' ''rm'' sample_map)) = Inr False"
  using torn_write_forgets [of sample_map "''a''"] sample_shards(1) by (auto simp: shard_at_Some)

end
