(* ===== verification/Load_Balancer.thy ===== *)
theory Load_Balancer
  imports Keyed_Store
begin

text \<open>
  \<open>fs/dis_operations/dis_loadbalance.go\<close> and the allocation of \<open>dis_metadata.go\<close>: the four strategies that
  choose the remote of a shard, and the JSON file that keeps the round-robin counter and the
  throughput statistics. The configured remotes (\<open>config.GetRemotes\<close>), the replies of the
  remotes to \<open>about\<close>, the order in which replies arrive and map entries are visited and the outcome
  of file operations are arguments. The counter is a 64-bit integer and wraps.
\<close>

type_synonym lb_file = "LoadBalancerInfo json_file"
type_synonym lb_end = "LoadBalancerInfo write_end"
type_synonym LoadBalancerType = string

definition RoundRobin :: LoadBalancerType where
  "RoundRobin = ''RoundRobin''"

definition DownloadOptima :: LoadBalancerType where
  "DownloadOptima = ''DownloadOptima''"

definition UploadOptima :: LoadBalancerType where
  "UploadOptima = ''UploadOptima''"

definition ResourceBased :: LoadBalancerType where
  "ResourceBased = ''ResourceBased''"

definition IsValid :: "LoadBalancerType \<Rightarrow> bool" where
  "IsValid lb \<longleftrightarrow> lb = RoundRobin \<or> lb = DownloadOptima \<or> lb = UploadOptima \<or> lb = ResourceBased"

section \<open>The statistics file\<close>

definition no_lb_info :: LoadBalancerInfo where
  "no_lb_info = \<lparr> RoundRobinCounter = 0, RemoteInfos = [] \<rparr>"

text \<open>The path of the file, which is created when it is missing: the flag says whether a path is
  returned (the source returns the empty string when the creation fails).\<close>

definition getLoadBalancerJsonFilePath :: "lb_end \<Rightarrow> lb_file \<Rightarrow> bool \<times> lb_file" where
  "getLoadBalancerJsonFilePath created file =
     (if file = NoFile
      then (case created of
              Wrote \<Rightarrow> (True, Json no_lb_info)
            | MkdirFailed \<Rightarrow> (False, NoFile)
            | WriteFailed left \<Rightarrow> (False, left))
      else (True, file))"

definition readJSON :: "bool \<Rightarrow> lb_file \<Rightarrow> LoadBalancerInfo dis_result" where
  "readJSON path file =
     (if \<not> path then Inl OpenFailed
      else case file of
        NoFile \<Rightarrow> Inl OpenFailed
      | NoAccess \<Rightarrow> Inl OpenFailed
      | EmptyFile \<Rightarrow> Inl DecodeFailed
      | BadJson \<Rightarrow> Inl DecodeFailed
      | JsonNull \<Rightarrow> Inr no_lb_info
      | Json lbInfo \<Rightarrow> Inr lbInfo)"

definition writeJSON :: "lb_end \<Rightarrow> bool \<Rightarrow> LoadBalancerInfo \<Rightarrow> lb_file \<Rightarrow> unit dis_result \<times> lb_file" where
  "writeJSON we path lbInfo file =
     (if \<not> path then (Inl WriteError, file)
      else case we of
        Wrote \<Rightarrow> (Inr (), Json lbInfo)
      | MkdirFailed \<Rightarrow> (Inl WriteError, file)
      | WriteFailed left \<Rightarrow> (Inl WriteError, left))"

definition getLoadBalancerInfo :: "bool \<Rightarrow> lb_file \<Rightarrow> LoadBalancerInfo dis_result" where
  "getLoadBalancerInfo path file = readJSON path file"

definition getRemoteInfo :: "Remote \<Rightarrow> LoadBalancerInfo \<Rightarrow> RemoteInfo \<times> LoadBalancerInfo" where
  "getRemoteInfo remote lbInfo =
     (let remoteInfo = (case map_of (RemoteInfos lbInfo) (Remote_String remote) of
                          Some info \<Rightarrow> info | None \<Rightarrow> no_remote_info)
      in (remoteInfo, lbInfo\<lparr>RemoteInfos := AList.update (Remote_String remote) remoteInfo (RemoteInfos lbInfo)\<rparr>))"

definition UpdateRemoteInfo ::
  "lb_end \<Rightarrow> lb_end \<Rightarrow> Remote \<Rightarrow> (RemoteInfo \<Rightarrow> RemoteInfo) \<Rightarrow> lb_file \<Rightarrow> unit dis_result \<times> lb_file" where
  "UpdateRemoteInfo created we remote updateFunc file =
     (let (path, file) = getLoadBalancerJsonFilePath created file
      in case getLoadBalancerInfo path file of
           Inl e \<Rightarrow> (Inl e, file)
         | Inr lbInfo \<Rightarrow>
             let (remoteInfo, lbInfo) = getRemoteInfo remote lbInfo;
                 lbInfo = lbInfo\<lparr>RemoteInfos := AList.update (Remote_String remote) (updateFunc remoteInfo) (RemoteInfos lbInfo)\<rparr>
             in writeJSON we path lbInfo file)"

section \<open>Round robin\<close>

definition int64 :: "int \<Rightarrow> int" where
  "int64 x = (x + 2 ^ 63) mod 2 ^ 64 - 2 ^ 63"

text \<open>The remainder of Go has the sign of the dividend.\<close>

definition go_rem :: "int \<Rightarrow> int \<Rightarrow> int" where
  "go_rem a b = (if 0 \<le> a then a mod b else - ((- a) mod b))"

definition IncrementRoundRobinCounter :: "lb_end \<Rightarrow> lb_end \<Rightarrow> lb_file \<Rightarrow> unit dis_result \<times> lb_file" where
  "IncrementRoundRobinCounter created we file =
     (let (path, file) = getLoadBalancerJsonFilePath created file
      in case readJSON path file of
           Inl e \<Rightarrow> (Inl e, file)
         | Inr lbInfo \<Rightarrow> writeJSON we path (lbInfo\<lparr>RoundRobinCounter := int64 (RoundRobinCounter lbInfo + 1)\<rparr>) file)"

text \<open>The error of the increment is dropped. An index below zero is a run-time panic.\<close>

definition LoadBalancer_RoundRobin :: "lb_end \<Rightarrow> lb_end \<Rightarrow> Remote list \<Rightarrow> lb_file \<Rightarrow> Remote dis_result \<times> lb_file" where
  "LoadBalancer_RoundRobin created we remotes file =
     (let (path, file) = getLoadBalancerJsonFilePath created file
      in case readJSON path file of
           Inl e \<Rightarrow> (Inl e, file)
         | Inr lbInfo \<Rightarrow>
             if remotes = [] then (Inl NoRemotes, file)
             else let i = go_rem (RoundRobinCounter lbInfo) (int (length remotes))
                  in if i < 0 then (Inl IndexPanic, file)
                     else (Inr (remotes ! nat i), snd (IncrementRoundRobinCounter created we file)))"

section \<open>Best throughput\<close>

fun go_split :: "char \<Rightarrow> string \<Rightarrow> string list" where
  "go_split sep [] = [[]]"
| "go_split sep (c # s) =
     (if c = sep then [] # go_split sep s
      else case go_split sep s of [] \<Rightarrow> [[c]] | w # ws \<Rightarrow> (c # w) # ws)"

text \<open>The loop over the entries: the key and value of the best so far, and whether there is none yet.\<close>

fun highest :: "(RemoteInfo \<Rightarrow> rat) \<Rightarrow> (string \<times> RemoteInfo) list \<Rightarrow> string \<times> rat \<times> bool \<Rightarrow> string \<times> rat \<times> bool" where
  "highest selector [] best = best"
| "highest selector ((key, info) # rest) (maxKey, maxValue, firstIteration) =
     (let currentVal = selector info
      in if currentVal = 0 then highest selector rest (maxKey, maxValue, firstIteration)
         else if firstIteration \<or> maxValue < currentVal then highest selector rest (key, currentVal, False)
         else highest selector rest (maxKey, maxValue, firstIteration))"

definition getRemoteOfHighestThroughput ::
  "((string \<times> RemoteInfo) list \<Rightarrow> (string \<times> RemoteInfo) list) \<Rightarrow> (RemoteInfo \<Rightarrow> rat)
    \<Rightarrow> lb_end \<Rightarrow> lb_end \<Rightarrow> Remote list \<Rightarrow> lb_file \<Rightarrow> Remote dis_result \<times> lb_file" where
  "getRemoteOfHighestThroughput ro selector created we remotes file =
     (let (path, file) = getLoadBalancerJsonFilePath created file
      in case readJSON path file of
           Inl _ \<Rightarrow> LoadBalancer_RoundRobin created we remotes file
         | Inr lbInfo \<Rightarrow>
             let (maxKey, _, _) = highest selector (ro (RemoteInfos lbInfo)) ([], 0, True);
                 parts = go_split (CHR ''|'') maxKey
             in if maxKey = [] then LoadBalancer_RoundRobin created we remotes file
                else if length parts \<noteq> 2 then LoadBalancer_RoundRobin created we remotes file
                else (Inr \<lparr> Remote_Name = parts ! 0, Remote_Type = parts ! 1 \<rparr>, file))"

definition getRemoteOfHighestUpThroughput where
  "getRemoteOfHighestUpThroughput ro = getRemoteOfHighestThroughput ro AvgUpThroughput"

definition getRemoteOfHighestDownThroughput where
  "getRemoteOfHighestDownThroughput ro = getRemoteOfHighestThroughput ro AvgDownThroughput"

definition LoadBalancer_DownloadOptima where
  "LoadBalancer_DownloadOptima ro created we remotes file =
     (case getRemoteOfHighestDownThroughput ro created we remotes file of
        (Inl e, file) \<Rightarrow> (Inl e, file)
      | (Inr remote, file) \<Rightarrow> (Inr remote, file))"

definition LoadBalancer_UploadOptima where
  "LoadBalancer_UploadOptima ro created we remotes file =
     (case getRemoteOfHighestUpThroughput ro created we remotes file of
        (Inl e, file) \<Rightarrow> (Inl e, file)
      | (Inr remote, file) \<Rightarrow> (Inr remote, file))"

section \<open>Most free storage\<close>

text \<open>What a remote has to say about its storage: it does not support \<open>about\<close>, the call fails, it returns no
  usage, or a usage with or without a figure for the free bytes.\<close>

datatype about_reply = NoAbout | AboutError | NilUsage | Usage "int option"

definition getFreeStorage :: "about_reply \<Rightarrow> int dis_result" where
  "getFreeStorage reply =
     (case reply of
        NoAbout \<Rightarrow> Inl NoAboutSupport
      | AboutError \<Rightarrow> Inl AboutFailed
      | NilUsage \<Rightarrow> Inl NilUsageReturned
      | Usage None \<Rightarrow> Inl NilPanic
      | Usage (Some free) \<Rightarrow> Inr free)"

text \<open>One goroutine per remote; \<open>arrived\<close> lists the remotes in the order in which their goroutines get the lock.\<close>

fun most_free :: "(string \<Rightarrow> about_reply) \<Rightarrow> Remote list \<Rightarrow> Remote \<times> int \<times> nat \<Rightarrow> Remote \<times> int \<times> nat" where
  "most_free about [] best = best"
| "most_free about (remote # rest) (bestRemote, maxFreeStorage, errs) =
     (case getFreeStorage (about (Remote_Name remote)) of
        Inl _ \<Rightarrow> most_free about rest (bestRemote, maxFreeStorage, errs + 1)
      | Inr val \<Rightarrow>
          if maxFreeStorage < val then most_free about rest (remote, val, errs)
          else most_free about rest (bestRemote, maxFreeStorage, errs))"

definition LoadBalancer_ResourceBased ::
  "(Remote list \<Rightarrow> Remote list) \<Rightarrow> (string \<Rightarrow> about_reply) \<Rightarrow> Remote list \<Rightarrow> Remote \<Rightarrow> Remote dis_result \<times> Remote" where
  "LoadBalancer_ResourceBased arrived about remotes bestRemote_save =
     (if Remote_Name bestRemote_save \<noteq> [] \<and> Remote_Type bestRemote_save \<noteq> []
      then (Inr bestRemote_save, bestRemote_save)
      else if \<exists>remote \<in> set remotes. getFreeStorage (about (Remote_Name remote)) = Inl NilPanic
      then (Inl NilPanic, bestRemote_save)
      else let (bestRemote, _, errs) = most_free about (arrived remotes) (no_remote, 0, 0)
           in if errs = length remotes then (Inl AllRemotesFailed, bestRemote_save)
              else (Inr bestRemote, bestRemote))"

section \<open>Allocation\<close>

text \<open>What the environment decides in one allocation.\<close>

record lb_env =
  le_remotes :: "Remote list"
  le_created :: lb_end
  le_write :: lb_end
  le_order :: "(string \<times> RemoteInfo) list \<Rightarrow> (string \<times> RemoteInfo) list"
  le_arrived :: "Remote list \<Rightarrow> Remote list"
  le_about :: "string \<Rightarrow> about_reply"

record lb_state =
  lb_json :: lb_file
  lb_best :: Remote

definition AllocateRemote :: "lb_env \<Rightarrow> LoadBalancerType \<Rightarrow> DistributedFile \<Rightarrow> lb_state \<Rightarrow> DistributedFile dis_result \<times> lb_state" where
  "AllocateRemote env loadbalancer dFile st =
     (let rr = LoadBalancer_RoundRobin (le_created env) (le_write env) (le_remotes env) (lb_json st);
          on_file = (\<lambda>(res, file). (res, st\<lparr>lb_json := file\<rparr>));
          (remote, st) =
            (if loadbalancer = RoundRobin then on_file rr
             else if loadbalancer = DownloadOptima
             then on_file (LoadBalancer_DownloadOptima (le_order env) (le_created env) (le_write env) (le_remotes env) (lb_json st))
             else if loadbalancer = UploadOptima
             then on_file (LoadBalancer_UploadOptima (le_order env) (le_created env) (le_write env) (le_remotes env) (lb_json st))
             else if loadbalancer = ResourceBased
             then (case LoadBalancer_ResourceBased (le_arrived env) (le_about env) (le_remotes env) (lb_best st) of
                     (res, best) \<Rightarrow> (res, st\<lparr>lb_best := best\<rparr>))
             else on_file rr)
      in case remote of
           Inl e \<Rightarrow> (Inl e, st)
         | Inr r \<Rightarrow> (Inr (dFile\<lparr>df_Remote := r\<rparr>), st))"

section \<open>Reading and updating the statistics\<close>

definition lb_info :: "lb_file \<Rightarrow> LoadBalancerInfo option" where
  "lb_info file = (case file of NoFile \<Rightarrow> Some no_lb_info | JsonNull \<Rightarrow> Some no_lb_info | Json i \<Rightarrow> Some i | _ \<Rightarrow> None)"

definition remote_info :: "lb_file \<Rightarrow> string \<Rightarrow> RemoteInfo" where
  "remote_info file k =
     (case Option.bind (lb_info file) (\<lambda>i. map_of (RemoteInfos i) k) of Some info \<Rightarrow> info | None \<Rightarrow> no_remote_info)"

lemma lb_info_Json [simp]: "lb_info (Json i) = Some i"
  by (simp add: lb_info_def)

text \<open>Every reader opens the file the same way.\<close>

lemma open_lb:
  assumes "lb_info file = Some i"
  shows "\<exists>file'. getLoadBalancerJsonFilePath Wrote file = (True, file') \<and> readJSON True file' = Inr i
           \<and> lb_info file' = Some i \<and> file' \<noteq> NoFile"
  using assms by (cases "file") (auto simp: lb_info_def getLoadBalancerJsonFilePath_def readJSON_def)

lemma reopen_lb: "file \<noteq> NoFile \<Longrightarrow> getLoadBalancerJsonFilePath c file = (True, file)"
  by (simp add: getLoadBalancerJsonFilePath_def)

lemma UpdateRemoteInfo_ok:
  assumes "lb_info file = Some i"
  shows "UpdateRemoteInfo Wrote Wrote remote f file =
     (Inr (), Json (i\<lparr>RemoteInfos := AList.update (Remote_String remote) (f (remote_info file (Remote_String remote)))
        (AList.update (Remote_String remote) (remote_info file (Remote_String remote)) (RemoteInfos i))\<rparr>))"
  using open_lb [OF assms] assms
  by (auto simp: UpdateRemoteInfo_def getLoadBalancerInfo_def getRemoteInfo_def writeJSON_def Let_def remote_info_def
      split: option.split)

definition modify_remote :: "Remote \<Rightarrow> (RemoteInfo \<Rightarrow> RemoteInfo) \<Rightarrow> lb_file \<Rightarrow> lb_file" where
  "modify_remote remote f file = snd (UpdateRemoteInfo Wrote Wrote remote f file)"

definition lb_keys :: "lb_file \<Rightarrow> string set" where
  "lb_keys file = (if lb_info file = None then {} else UNIV)"

interpretation stats: keyed_store remote_info modify_remote Remote_String lb_keys
proof unfold_locales
  fix r s f k
  assume "Remote_String r \<in> lb_keys s"
  then obtain i where i: "lb_info s = Some i" by (auto simp: lb_keys_def split: if_splits)
  show "remote_info (modify_remote r f s) k = (if k = Remote_String r then f (remote_info s k) else remote_info s k)"
    using i by (auto simp: modify_remote_def UpdateRemoteInfo_ok [OF i] remote_info_def [of "Json _"] update_conv)
      (simp add: remote_info_def)
  show "lb_keys (modify_remote r f s) = lb_keys s"
    using i by (simp add: modify_remote_def UpdateRemoteInfo_ok [OF i] lb_keys_def)
qed

section \<open>Round robin\<close>

lemma int64_id: "0 \<le> x \<Longrightarrow> x < 2 ^ 63 \<Longrightarrow> int64 x = x"
  by (simp add: int64_def)

lemma round_robin_step:
  assumes "lb_info file = Some i" "0 \<le> RoundRobinCounter i" "RoundRobinCounter i + 1 < 2 ^ 63" "remotes \<noteq> []"
  shows "LoadBalancer_RoundRobin Wrote Wrote remotes file =
     (Inr (remotes ! (nat (RoundRobinCounter i) mod length remotes)),
      Json (i\<lparr>RoundRobinCounter := RoundRobinCounter i + 1\<rparr>))"
proof -
  obtain file' where f: "getLoadBalancerJsonFilePath Wrote file = (True, file')" "readJSON True file' = Inr i"
      "file' \<noteq> NoFile"
    using open_lb [OF assms(1)] by auto
  have "nat (RoundRobinCounter i mod int (length remotes)) = nat (RoundRobinCounter i) mod length remotes"
    using assms(2) by (simp add: nat_mod_distrib)
  moreover have "\<not> RoundRobinCounter i mod int (length remotes) < 0" using assms(4) by (simp add: not_less)
  ultimately show ?thesis
    using f assms by (simp add: LoadBalancer_RoundRobin_def IncrementRoundRobinCounter_def Let_def go_rem_def
        reopen_lb writeJSON_def int64_id)
qed

text \<open>A run of allocations, each finding the file the one before left.\<close>

primrec allocations :: "nat \<Rightarrow> Remote list \<Rightarrow> lb_file \<Rightarrow> Remote dis_result list \<times> lb_file" where
  "allocations 0 remotes file = ([], file)"
| "allocations (Suc n) remotes file =
     (let (r, file) = LoadBalancer_RoundRobin Wrote Wrote remotes file;
          (rs, file) = allocations n remotes file
      in (r # rs, file))"

lemma allocations_eq:
  assumes "lb_info file = Some i" "0 \<le> RoundRobinCounter i" "RoundRobinCounter i + int n < 2 ^ 63" "remotes \<noteq> []"
  shows "fst (allocations n remotes file) =
     map (\<lambda>j. Inr (remotes ! ((nat (RoundRobinCounter i) + j) mod length remotes))) [0..<n]"
  using assms
proof (induction n arbitrary: "file" i)
  case (Suc n)
  let ?i = "i\<lparr>RoundRobinCounter := RoundRobinCounter i + 1\<rparr>"
  have step: "LoadBalancer_RoundRobin Wrote Wrote remotes file =
     (Inr (remotes ! (nat (RoundRobinCounter i) mod length remotes)), Json ?i)"
    using Suc.prems by (intro round_robin_step) auto
  have next_counter: "nat (RoundRobinCounter i + 1) = Suc (nat (RoundRobinCounter i))"
    using Suc.prems(2) by (simp add: nat_add_distrib)
  have "fst (allocations n remotes (Json ?i)) =
      map (\<lambda>j. Inr (remotes ! ((nat (RoundRobinCounter i) + Suc j) mod length remotes))) [0..<n]"
    using Suc.IH [of "Json ?i" ?i] Suc.prems by (simp add: next_counter)
  then show ?case
    by (simp add: step upt_conv_Cons map_Suc_upt [symmetric] comp_def case_prod_beta Let_def del: upt_Suc)
qed simp

lemma rotation_mset: "mset (map (\<lambda>j. xs ! ((c + j) mod length xs)) [0..<length xs]) = mset xs"
proof (cases "xs = []")
  case False
  have "map (\<lambda>j. xs ! ((c + j) mod length xs)) [0..<length xs] = rotate (c mod length xs) xs"
    using False by (intro nth_equalityI) (simp_all add: nth_rotate mod_add_left_eq)
  then show ?thesis by (metis mset_rev mset_append add.commute append_take_drop_id rotate_drop_take)
qed simp

text \<open>C35. Round robin is fair: as long as the counter does not overflow and the file can be written, any
  run of as many allocations as there are remotes gives every remote exactly once.\<close>

theorem round_robin_fair:
  assumes "lb_info file = Some i" "0 \<le> RoundRobinCounter i" "RoundRobinCounter i + int (length remotes) < 2 ^ 63"
  shows "mset (fst (allocations (length remotes) remotes file)) = mset (map Inr remotes)"
proof (cases "remotes = []")
  case False
  have "mset (fst (allocations (length remotes) remotes file)) =
      image_mset Inr (mset (map (\<lambda>j. remotes ! ((nat (RoundRobinCounter i) + j) mod length remotes)) [0..<length remotes]))"
    by (simp add: allocations_eq [OF assms False] multiset.map_comp comp_def)
  then show ?thesis by (simp only: rotation_mset) simp
qed simp

theorem round_robin_fair_witness:
  "mset (fst (allocations 2 [no_remote, no_remote\<lparr>Remote_Name := ''r''\<rparr>] NoFile)) =
   mset (map Inr [no_remote, no_remote\<lparr>Remote_Name := ''r''\<rparr>])"
  using round_robin_fair [of NoFile no_lb_info "[no_remote, no_remote\<lparr>Remote_Name := ''r''\<rparr>]"]
  by (simp add: lb_info_def no_lb_info_def numeral_2_eq_2)

section \<open>Throughput\<close>

lemma push_history_snoc: "fold push_history ss [] = drop (length ss - maxEntries) ss"
proof (induction ss rule: rev_induct)
  case (snoc s ss)
  let ?kept = "drop (length ss - maxEntries) ss"
  have kept: "fold push_history (ss @ [s]) [] = drop (length ?kept + 1 - maxEntries) (?kept @ [s])"
    using push_history_spec(1) [of s ?kept] by (simp only: fold_append comp_apply snoc.IH fold_simps)
  show ?case
  proof (cases "length ss < maxEntries")
    case True
    then show ?thesis unfolding kept by simp
  next
    case False
    then have "length ?kept + 1 - maxEntries = 1" "?kept \<noteq> []" "length ss + 1 - maxEntries = Suc (length ss - maxEntries)"
      by (auto simp: maxEntries_def)
    then show ?thesis unfolding kept by (simp add: drop_Suc tl_drop)
  qed
qed simp

definition upload_infos :: "rat list \<Rightarrow> RemoteInfo" where
  "upload_infos ss = fold (\<lambda>s. UpdateThroughput s Upload) ss no_remote_info"

lemma upload_infos_snoc: "upload_infos (ss @ [s]) = UpdateThroughput s Upload (upload_infos ss)"
  by (simp add: upload_infos_def)

lemma upload_infos_history: "UpThroughputHistory (upload_infos ss) = fold push_history ss []"
  by (induction ss rule: rev_induct) (simp_all add: upload_infos_def UpdateThroughput_def Let_def no_remote_info_def)

lemma upload_infos_avg: "ss \<noteq> [] \<Longrightarrow> AvgUpThroughput (upload_infos ss) = maxSpeed (fold push_history ss [])"
proof (induction ss rule: rev_induct)
  case (snoc s ss)
  have "AvgUpThroughput (upload_infos (ss @ [s])) = maxSpeed (UpThroughputHistory (upload_infos (ss @ [s])))"
    by (simp add: upload_infos_snoc UpdateThroughput_def Let_def)
  then show ?case by (simp only: upload_infos_history)
qed simp

text \<open>The statistics after a sequence of uploads, each recorded for its remote.\<close>

definition record_uploads :: "(Remote \<times> rat) list \<Rightarrow> lb_file \<Rightarrow> lb_file" where
  "record_uploads us file = fold (\<lambda>(r, s) file. snd (UpdateRemoteInfo Wrote Wrote r (UpdateThroughput s Upload) file)) us file"

lemma record_uploads_run: "record_uploads us file = stats.run (map (\<lambda>(r, s). (r, UpdateThroughput s Upload)) us) file"
  unfolding record_uploads_def by (induction us arbitrary: "file") (auto simp: modify_remote_def)

lemma record_uploads_info:
  "remote_info (record_uploads us NoFile) k = upload_infos (map snd (filter (\<lambda>u. Remote_String (fst u) = k) us))"
proof -
  let ?us = "map (\<lambda>(r, s). (r, UpdateThroughput s Upload)) us"
  have "lb_keys NoFile = UNIV" by (simp add: lb_keys_def lb_info_def)
  then have "remote_info (stats.run ?us NoFile) k =
      fold (\<lambda>u v. snd u v) (filter (\<lambda>u. Remote_String (fst u) = k) ?us) (remote_info NoFile k)"
    by (intro stats.get_run) simp
  moreover have "remote_info NoFile k = no_remote_info" by (simp add: remote_info_def lb_info_def no_lb_info_def)
  moreover have "filter (\<lambda>u. Remote_String (fst u) = k) ?us =
      map (\<lambda>(r, s). (r, UpdateThroughput s Upload)) (filter (\<lambda>u. Remote_String (fst u) = k) us)"
    by (simp add: filter_map comp_def case_prod_beta)
  ultimately show ?thesis
    by (simp add: record_uploads_run upload_infos_def fold_map comp_def case_prod_unfold)
qed

text \<open>What the statistics say of a remote after any sequence of recorded uploads: its history is the
  speeds of its own last ten uploads, and the value kept as its average is their maximum.\<close>

theorem upload_statistics:
  assumes "speeds = map snd (filter (\<lambda>u. Remote_String (fst u) = Remote_String r) us)" "speeds \<noteq> []"
  shows "UpThroughputHistory (remote_info (record_uploads us NoFile) (Remote_String r)) = drop (length speeds - 10) speeds
       \<and> AvgUpThroughput (remote_info (record_uploads us NoFile) (Remote_String r)) = Max (set (drop (length speeds - 10) speeds))"
proof -
  have "drop (length speeds - 10) speeds \<noteq> []" using assms(2) by (cases speeds) auto
  then show ?thesis
    using assms by (simp add: record_uploads_info upload_infos_history upload_infos_avg push_history_snoc
        maxSpeed_Max maxEntries_def)
qed

theorem upload_statistics_witness:
  "AvgUpThroughput (remote_info (record_uploads [(no_remote, 3), (no_remote, 1)] NoFile) ''|'') = 3"
  using upload_statistics [of "[3, 1]" no_remote "[(no_remote, 3), (no_remote, 1)]"]
  by (simp add: Remote_String_def no_remote_def max_def)

section \<open>The best remote\<close>

lemma highest_spec:
  assumes "highest selector es (k0, v0, first0) = (k, v, first)"
  shows "(k, v, first) = (k0, v0, first0) \<and> (\<forall>e \<in> set es. selector (snd e) \<noteq> 0 \<longrightarrow> \<not> first0 \<and> selector (snd e) \<le> v0)
      \<or> (\<exists>info. (k, info) \<in> set es \<and> selector info = v \<and> v \<noteq> 0 \<and> \<not> first
            \<and> (\<not> first0 \<longrightarrow> v0 < v) \<and> (\<forall>e \<in> set es. selector (snd e) \<noteq> 0 \<longrightarrow> selector (snd e) \<le> v))"
  using assms
proof (induction selector es "(k0, v0, first0)" arbitrary: k0 v0 first0 rule: highest.induct)
  case (2 selector key info rest maxKey maxValue firstIteration)
  let ?c = "selector info"
  consider (skip) "?c = 0" | (better) "?c \<noteq> 0" "firstIteration \<or> maxValue < ?c"
    | (worse) "?c \<noteq> 0" "\<not> (firstIteration \<or> maxValue < ?c)" by blast
  then show ?case
  proof cases
    case skip
    then have "highest selector rest (maxKey, maxValue, firstIteration) = (k, v, first)" using 2(4) by (simp add: Let_def)
    from 2(1) [OF refl skip this] skip show ?thesis by auto
  next
    case better
    then have "highest selector rest (key, ?c, False) = (k, v, first)" using 2(4) by (simp add: Let_def)
    from 2(2) [OF refl better this] better show ?thesis by auto
  next
    case worse
    then have "highest selector rest (maxKey, maxValue, firstIteration) = (k, v, first)" using 2(4) by (simp add: Let_def)
    from 2(3) [OF refl worse this] worse show ?thesis by auto
  qed
qed auto

lemma go_split_no_sep: "sep \<notin> set s \<Longrightarrow> go_split sep s = [s]"
  by (induction s) auto

lemma go_split_two: "sep \<notin> set a \<Longrightarrow> sep \<notin> set b \<Longrightarrow> go_split sep (a @ sep # b) = [a, b]"
  by (induction a) (auto simp: go_split_no_sep)

lemma Remote_String_split:
  "go_split (CHR ''|'') k = [n, t] \<Longrightarrow> Remote_String \<lparr>Remote_Name = n, Remote_Type = t\<rparr> = k"
proof -
  have join: "go_split c s \<noteq> [] \<and> concat (map ((#) c) (go_split c s)) = c # s" for c s
    by (induction c s rule: go_split.induct) (auto split: list.split)
  assume "go_split (CHR ''|'') k = [n, t]"
  then show ?thesis using join [of "CHR ''|''" k] by (simp add: Remote_String_def)
qed

definition clean_key :: "string \<Rightarrow> bool" where
  "clean_key k \<longleftrightarrow> length (go_split (CHR ''|'') k) = 2"

text \<open>The throughput strategies choose a best remote: when some remote has a recorded throughput, they
  return a remote whose recorded value is the greatest, in whatever order the entries are visited,
  and leave the statistics alone. The configured remotes play no part, so a remote that has been
  removed from the configuration is still chosen.\<close>

theorem best_throughput_chosen:
  assumes "lb_info file = Some i" "range_order ro"
    and "\<exists>e \<in> set (RemoteInfos i). selector (snd e) \<noteq> 0" "\<forall>e \<in> set (RemoteInfos i). clean_key (fst e)"
  shows "\<exists>r info file'. getRemoteOfHighestThroughput ro selector Wrote we remotes file = (Inr r, file')
     \<and> lb_info file' = Some i \<and> (Remote_String r, info) \<in> set (RemoteInfos i)
     \<and> (\<forall>e \<in> set (RemoteInfos i). selector (snd e) \<noteq> 0 \<longrightarrow> selector (snd e) \<le> selector info)"
proof -
  obtain file' where f: "getLoadBalancerJsonFilePath Wrote file = (True, file')" "readJSON True file' = Inr i"
      "lb_info file' = Some i"
    using open_lb [OF assms(1)] by auto
  obtain k v first where best: "highest selector (ro (RemoteInfos i)) ([], 0, True) = (k, v, first)"
    by (metis prod_cases3)
  obtain info where info: "(k, info) \<in> set (RemoteInfos i)"
      "\<forall>e \<in> set (RemoteInfos i). selector (snd e) \<noteq> 0 \<longrightarrow> selector (snd e) \<le> selector info"
    using highest_spec [OF best] assms(3) by (auto simp: range_orderD(1) [OF assms(2)])
  have "clean_key k" using assms(4) info(1) by force
  then obtain n t where nt: "go_split (CHR ''|'') k = [n, t]"
    by (auto simp: clean_key_def length_Suc_conv numeral_2_eq_2)
  then have "k \<noteq> []" by auto
  then have "getRemoteOfHighestThroughput ro selector Wrote we remotes file = (Inr \<lparr>Remote_Name = n, Remote_Type = t\<rparr>, file')"
    using f best nt by (simp add: getRemoteOfHighestThroughput_def Let_def)
  then show ?thesis using info f(3) Remote_String_split [OF nt] by blast
qed

theorem best_throughput_chosen_witness:
  "\<exists>r file'. getRemoteOfHighestThroughput rev AvgUpThroughput Wrote Wrote []
       (Json \<lparr>RoundRobinCounter = 0, RemoteInfos = [(''a|t'', no_remote_info\<lparr>AvgUpThroughput := 2\<rparr>)]\<rparr>) = (Inr r, file')
     \<and> Remote_String r = ''a|t''"
proof -
  let ?i = "\<lparr>RoundRobinCounter = 0, RemoteInfos = [(''a|t'', no_remote_info\<lparr>AvgUpThroughput := 2\<rparr>)]\<rparr>"
  have "clean_key ''a|t''" by code_simp
  then show ?thesis
    using best_throughput_chosen [of "Json ?i" ?i rev AvgUpThroughput Wrote "[]"] by (auto simp: range_order_rev)
qed

lemma most_free_spec:
  assumes "most_free about rs (b0, m0, e0) = (b, m, errs)"
  shows "errs = e0 + length (filter (\<lambda>r. \<exists>e. getFreeStorage (about (Remote_Name r)) = Inl e) rs)
      \<and> m0 \<le> m \<and> (\<forall>r \<in> set rs. \<forall>val. getFreeStorage (about (Remote_Name r)) = Inr val \<longrightarrow> val \<le> m)
      \<and> (b = b0 \<and> m = m0 \<or> b \<in> set rs \<and> m0 < m \<and> getFreeStorage (about (Remote_Name b)) = Inr m)"
  using assms
proof (induction rs arbitrary: b0 m0 e0)
  case (Cons r rs)
  show ?case
  proof (cases "getFreeStorage (about (Remote_Name r))")
    case (Inl e)
    then show ?thesis using Cons.IH [of b0 m0 "e0 + 1"] Cons.prems by auto
  next
    case (Inr val)
    then show ?thesis
      using Cons.IH [of "if m0 < val then r else b0" "max m0 val" e0] Cons.prems
      by (cases "m0 < val") (auto simp: max_def)
  qed
qed simp

lemma length_filter_all: "length (filter P xs) = length xs \<longleftrightarrow> (\<forall>x \<in> set xs. P x)"
proof (induction xs)
  case (Cons x xs)
  have "length (filter P xs) \<noteq> Suc (length xs)" by (metis Suc_n_not_le_n length_filter_le)
  then show ?case using Cons by (cases "P x") simp_all
qed simp

text \<open>The storage strategy: unless a remote reports a usage without a figure (a nil dereference), it
  fails exactly when every remote fails; otherwise it returns, and remembers, a remote with the most free
  storage among those that answer, whatever the order of the answers, and, when none of them has a
  free byte, the empty remote. A remembered remote is returned by every later call, whatever has
  become of its storage.\<close>

theorem resource_based_choice:
  assumes "Remote_Name saved = []" "range_order arrived"
    and "\<forall>r \<in> set remotes. getFreeStorage (about (Remote_Name r)) \<noteq> Inl NilPanic"
  shows "case LoadBalancer_ResourceBased arrived about remotes saved of
      (Inl e, saved') \<Rightarrow> e = AllRemotesFailed \<and> saved' = saved
        \<and> (\<forall>r \<in> set remotes. \<exists>e. getFreeStorage (about (Remote_Name r)) = Inl e)
    | (Inr b, saved') \<Rightarrow> saved' = b
        \<and> (\<exists>r \<in> set remotes. \<exists>free. getFreeStorage (about (Remote_Name r)) = Inr free)
        \<and> (\<forall>r \<in> set remotes. \<forall>free. getFreeStorage (about (Remote_Name r)) = Inr free \<longrightarrow>
             (if 0 < free then b \<in> set remotes \<and> (\<exists>most. getFreeStorage (about (Remote_Name b)) = Inr most \<and> free \<le> most)
              else b = no_remote \<or> b \<in> set remotes))
        \<and> (Remote_Name b \<noteq> [] \<and> Remote_Type b \<noteq> [] \<longrightarrow>
             (\<forall>arrived' about' remotes'. LoadBalancer_ResourceBased arrived' about' remotes' saved' = (Inr b, b)))"
proof -
  let ?free = "\<lambda>r. getFreeStorage (about (Remote_Name r))"
  obtain b m errs where best: "most_free about (arrived remotes) (no_remote, 0, 0) = (b, m, errs)" by (metis prod_cases3)
  note perm = range_orderD [OF assms(2), of remotes]
  have spec: "errs = length (filter (\<lambda>r. \<exists>e. ?free r = Inl e) (arrived remotes))"
      "\<And>r val. r \<in> set remotes \<Longrightarrow> ?free r = Inr val \<Longrightarrow> val \<le> m"
      "b = no_remote \<and> m = 0 \<or> b \<in> set remotes \<and> 0 < m \<and> ?free b = Inr m"
    using most_free_spec [OF best] by (auto simp: perm)
  have all: "errs = length remotes \<longleftrightarrow> (\<forall>r \<in> set remotes. \<exists>e. ?free r = Inl e)"
    using length_filter_all [of "\<lambda>r. \<exists>e. ?free r = Inl e" "arrived remotes"] unfolding spec(1) perm(1,2) .
  have run: "LoadBalancer_ResourceBased arrived about remotes saved =
      (if errs = length remotes then (Inl AllRemotesFailed, saved) else (Inr b, b))"
    using assms(1,3) best by (simp add: LoadBalancer_ResourceBased_def)
  have val: "if 0 < val then b \<in> set remotes \<and> (\<exists>most. ?free b = Inr most \<and> val \<le> most) else b = no_remote \<or> b \<in> set remotes"
    if "r \<in> set remotes" "?free r = Inr val" for r val
    using spec(2) [OF that] spec(3) by auto
  show ?thesis
  proof (cases "errs = length remotes")
    case True
    then show ?thesis using all by (simp add: run)
  next
    case False
    then obtain r free where "r \<in> set remotes" "?free r = Inr free" using all by (metis sumE)
    moreover have "LoadBalancer_ResourceBased arrived' about' remotes' b = (Inr b, b)"
      if "Remote_Name b \<noteq> []" "Remote_Type b \<noteq> []" for arrived' about' remotes'
      using that by (simp add: LoadBalancer_ResourceBased_def)
    ultimately show ?thesis using False val by (simp add: run) blast
  qed
qed

theorem resource_based_choice_witness:
  "fst (LoadBalancer_ResourceBased rev (\<lambda>_. Usage (Some 5)) [\<lparr>Remote_Name = ''a'', Remote_Type = ''t''\<rparr>] no_remote)
     = Inr \<lparr>Remote_Name = ''a'', Remote_Type = ''t''\<rparr>"
  using resource_based_choice [of no_remote rev "[\<lparr>Remote_Name = ''a'', Remote_Type = ''t''\<rparr>]" "\<lambda>_. Usage (Some 5)"]
  by (auto simp: no_remote_def range_order_rev getFreeStorage_def split: prod.splits sum.splits)

end
