(* ===== verification/Removal.thy ===== *)
theory Removal
  imports Datamap Load_Balancer
begin

text \<open>
  \<open>fs/dis_operations/dis_rm.go\<close>: the removal of a distributed file. One goroutine per shard deletes the
  shard's object on its remote and then marks the shard in the data map. The goroutines are lists of
  steps; a run is a schedule, an interleaving of these lists that a scheduler chooses. A step either
  touches a remote (one object) or runs under the lock of the data map, so a step is atomic.
  How a call on a remote ends is an argument: it takes effect (\<open>Did\<close>); it fails in a way the command
  runner reports to nobody (\<open>Silent\<close>, see \<open>Commands.uncategorised_error_swallowed\<close>, or because the
  object is not found); its command line is refused (\<open>CallError\<close>); or it ends the process (\<open>Ended\<close>).
\<close>

section \<open>The state of the distributed layer\<close>

text \<open>The objects in the directory \<open>Distribution\<close> of the remotes, by the name of the remote and of the object.\<close>

type_synonym cloud = "string \<times> string \<rightharpoonup> bytes"

record world =
  w_datamap :: datamap
  w_lb :: lb_state
  w_shards :: shard_dir
  w_cloud :: cloud

datatype call_end = Did | Silent | CallError | Ended nat

text \<open>How an operation of the layer ends: with a result, with the end of the process, or never.\<close>

datatype 'a run_end = Finished "'a dis_result" | Exited nat | Hangs

section \<open>The goroutines\<close>

datatype rm_act = DeleteShard DistributedFile call_end | MarkShard DistributedFile "FilesMap write_end"

text \<open>The state of a run: the world, the errors in the channel, the shards whose goroutine waits for room in
  the channel, and the exit code once the process has ended. Nobody reads the channel while a
  goroutine runs, so one that waits waits for ever.\<close>

record rm_run =
  rr_world :: world
  rr_errs :: nat
  rr_stuck :: "string list"
  rr_exit :: "nat option"

definition send_err :: "nat \<Rightarrow> DistributedFile \<Rightarrow> rm_run \<Rightarrow> rm_run" where
  "send_err capacity info rr =
     (if rr_errs rr < capacity then rr\<lparr>rr_errs := rr_errs rr + 1\<rparr>
      else rr\<lparr>rr_stuck := df_DistributedFile info # rr_stuck rr\<rparr>)"

definition object_key :: "DistributedFile \<Rightarrow> string \<times> string" where
  "object_key info = (Remote_Name (df_Remote info), CalculateHash (df_DistributedFile info))"

definition remoteCallDeleteFile :: "call_end \<Rightarrow> DistributedFile \<Rightarrow> world \<Rightarrow> world" where
  "remoteCallDeleteFile ending info w =
     (if ending = Did then w\<lparr>w_cloud := (w_cloud w)(object_key info := None)\<rparr> else w)"

definition no_remote_yet :: "DistributedFile \<Rightarrow> bool" where
  "no_remote_yet info \<longleftrightarrow> Remote_String (df_Remote info) = ''|''"

fun rm_exec :: "string \<Rightarrow> nat \<Rightarrow> rm_act \<Rightarrow> rm_run \<Rightarrow> rm_run" where
  "rm_exec f capacity (DeleteShard info ending) rr =
     (if rr_exit rr \<noteq> None then rr
      else let rr = rr\<lparr>rr_world := remoteCallDeleteFile ending info (rr_world rr)\<rparr>
           in case ending of
                Ended code \<Rightarrow> rr\<lparr>rr_exit := Some code\<rparr>
              | CallError \<Rightarrow> send_err capacity info rr
              | _ \<Rightarrow> rr)"
| "rm_exec f capacity (MarkShard info we) rr =
     (if rr_exit rr \<noteq> None \<or> df_DistributedFile info \<in> set (rr_stuck rr) then rr
      else let (res, dm) = UpdateDistributedFile_CheckFlag we f (df_DistributedFile info) True (w_datamap (rr_world rr));
               rr = rr\<lparr>rr_world := (rr_world rr)\<lparr>w_datamap := dm\<rparr>\<rparr>
           in case res of
                Inr _ \<Rightarrow> rr
              | Inl _ \<Rightarrow> if no_remote_yet info then rr else send_err capacity info rr)"

definition rm_goroutine :: "(string \<Rightarrow> call_end) \<Rightarrow> (string \<Rightarrow> FilesMap write_end) \<Rightarrow> DistributedFile \<Rightarrow> rm_act list" where
  "rm_goroutine ends marks info =
     (let mark = MarkShard info (marks (df_DistributedFile info))
      in if no_remote_yet info then [mark]
         else [DeleteShard info (ends (df_DistributedFile info)), mark])"

section \<open>Removal\<close>

text \<open>What the environment decides in one removal.\<close>

record rm_env =
  re_order :: shard_order
  re_flag :: "FilesMap write_end"
  re_ends :: "string \<Rightarrow> call_end"
  re_marks :: "string \<Rightarrow> FilesMap write_end"
  re_sched :: "rm_act list list \<Rightarrow> rm_act list"
  re_reset :: "FilesMap write_end"
  re_remove :: "FilesMap write_end"

definition scheduler :: "('a list list \<Rightarrow> 'a list) \<Rightarrow> bool" where
  "scheduler sched \<longleftrightarrow> (\<forall>xss. sched xss \<in> interleavings xss)"

definition startRmFileGoroutine :: "rm_env \<Rightarrow> string \<Rightarrow> DistributedFile list \<Rightarrow> world \<Rightarrow> unit run_end \<times> world" where
  "startRmFileGoroutine env f distributedFileArray w =
     (let sched = re_sched env (map (rm_goroutine (re_ends env) (re_marks env)) distributedFileArray);
          rr = fold (rm_exec f (length distributedFileArray)) sched
                 \<lparr>rr_world = w, rr_errs = 0, rr_stuck = [], rr_exit = None\<rparr>
      in (case rr_exit rr of
            Some code \<Rightarrow> Exited code
          | None \<Rightarrow>
              if rr_stuck rr \<noteq> [] then Hangs
              else if 0 < rr_errs rr then Finished (Inl (Errors (replicate (rr_errs rr) WriteError)))
              else Finished (Inr ()), rr_world rr))"

definition on_datamap :: "unit datamap_op \<Rightarrow> world \<Rightarrow> unit dis_result \<times> world" where
  "on_datamap oper w = (case oper (w_datamap w) of (res, dm) \<Rightarrow> (res, w\<lparr>w_datamap := dm\<rparr>))"

definition Dis_rm :: "rm_env \<Rightarrow> string list \<Rightarrow> bool \<Rightarrow> world \<Rightarrow> unit run_end \<times> world" where
  "Dis_rm env arg reSignal w =
     (case arg of
        [] \<Rightarrow> (Finished (Inl IndexPanic), w)
      | originalFileName # _ \<Rightarrow>
     (case GetFileInfoStruct originalFileName (w_datamap w) of
        Inl e \<Rightarrow> (Finished (Inl e), w)
      | Inr _ \<Rightarrow>
          let (picked, w) =
            (if reSignal then (GetUncompletedFileInfo (re_order env) originalFileName (w_datamap w), w)
             else case on_datamap (UpdateFileFlag (re_flag env) originalFileName ''rm'') w of
                    (Inl e, w) \<Rightarrow> (Inl e, w)
                  | (Inr _, w) \<Rightarrow> (GetDistributedFileStruct (re_order env) originalFileName (w_datamap w), w))
          in case picked of
               Inl e \<Rightarrow> (Finished (Inl e), w)
             | Inr distributedFileArray \<Rightarrow>
                 (case startRmFileGoroutine env originalFileName distributedFileArray w of
                    (Finished (Inr _), w) \<Rightarrow>
                      (case on_datamap (ResetCheckFlag (re_reset env) originalFileName) w of
                         (Inl e, w) \<Rightarrow> (Finished (Inl e), w)
                       | (Inr _, w) \<Rightarrow>
                           (case on_datamap (RemoveFileFromMetadata (re_remove env) originalFileName) w of
                              (res, w) \<Rightarrow> (Finished res, w)))
                  | (ended, w) \<Rightarrow> (ended, w))))"

section \<open>A removal that is killed\<close>

text \<open>The moments at which a removal can be killed: after some number of steps of the goroutines (a deletion on a remote and
  a write of the data map each take effect at once), or between the two writes that finish it.\<close>

datatype rm_moment = Deleting nat | AfterReset

definition rm_steps :: "rm_env \<Rightarrow> string \<Rightarrow> DistributedFile list \<Rightarrow> nat \<Rightarrow> world \<Rightarrow> rm_run" where
  "rm_steps env f distributedFileArray n w =
     fold (rm_exec f (length distributedFileArray))
       (take n (re_sched env (map (rm_goroutine (re_ends env) (re_marks env)) distributedFileArray)))
       \<lparr>rr_world = w, rr_errs = 0, rr_stuck = [], rr_exit = None\<rparr>"

definition killed_removal :: "rm_env \<Rightarrow> string \<Rightarrow> rm_moment \<Rightarrow> world \<Rightarrow> world" where
  "killed_removal env f moment w =
     (let w = snd (on_datamap (UpdateFileFlag (re_flag env) f ''rm'') w)
      in case GetDistributedFileStruct (re_order env) f (w_datamap w) of
           Inl _ \<Rightarrow> w
         | Inr distributedFileArray \<Rightarrow>
             (case moment of
                Deleting n \<Rightarrow> rr_world (rm_steps env f distributedFileArray n w)
              | AfterReset \<Rightarrow>
                  (case startRmFileGoroutine env f distributedFileArray w of
                     (Finished (Inr _), w) \<Rightarrow> snd (on_datamap (ResetCheckFlag (re_reset env) f) w)
                   | (_, w) \<Rightarrow> w)))"

section \<open>What marking does\<close>

text \<open>\<open>marked f ds dm dm'\<close>: the data map \<open>dm'\<close> is \<open>dm\<close> with the shards \<open>ds\<close> of the file \<open>f\<close> marked.\<close>

definition marked :: "string \<Rightarrow> string set \<Rightarrow> datamap \<Rightarrow> datamap \<Rightarrow> bool" where
  "marked f ds dm dm' \<longleftrightarrow> datamap_wf dm' \<and> (\<forall>g. g \<noteq> f \<longrightarrow> files dm' g = files dm g)
     \<and> (\<exists>info info'. files dm f = Some info \<and> files dm' f = Some info'
          \<and> info'\<lparr>fi_DistributedFileInfos := fi_DistributedFileInfos info\<rparr> = info
          \<and> map fst (fi_DistributedFileInfos info') = map fst (fi_DistributedFileInfos info))
     \<and> (\<forall>d. shard_at dm' (f, d) =
            (if d \<in> ds then map_option (\<lambda>df. df\<lparr>df_Check := True\<rparr>) (shard_at dm (f, d)) else shard_at dm (f, d)))"

lemma marked_refl: "datamap_wf dm \<Longrightarrow> files dm f = Some info \<Longrightarrow> marked f {} dm dm"
  by (simp add: marked_def)

lemma marked_info:
  assumes "marked f ds dm dm'" "files dm f = Some info"
  shows "\<exists>info'. files dm' f = Some info' \<and> fi_Flag info' = fi_Flag info \<and> fi_State info' = fi_State info"
proof -
  obtain info' where "files dm' f = Some info'" "info'\<lparr>fi_DistributedFileInfos := fi_DistributedFileInfos info\<rparr> = info"
    using assms unfolding marked_def by auto
  then show ?thesis by (metis FileInfo.select_convs(6,7) FileInfo.surjective FileInfo.update_convs(10))
qed

lemma update_keys_same: "map_of al k \<noteq> None \<Longrightarrow> map fst (AList.update k v al) = map fst al"
  by (induction al) auto

lemma marked_step:
  assumes m: "marked f ds dm dm'" and d: "shard_at dm (f, d) \<noteq> None"
  shows "\<exists>dm''. UpdateDistributedFile_CheckFlag Wrote f d True dm' = (Inr (), dm'') \<and> marked f (insert d ds) dm dm''"
proof -
  let ?check = "\<lambda>df. df\<lparr>df_Check := True\<rparr>"
  obtain info info' where info: "files dm f = Some info" "files dm' f = Some info'"
      "info'\<lparr>fi_DistributedFileInfos := fi_DistributedFileInfos info\<rparr> = info"
      "map fst (fi_DistributedFileInfos info') = map fst (fi_DistributedFileInfos info)"
    using m unfolding marked_def by blast
  obtain df where df: "shard_at dm' (f, d) = Some df" using m d unfolding marked_def by fastforce
  then have at: "map_of (fi_DistributedFileInfos info') d = Some df" using info(2) by (simp add: shard_at_Some)
  let ?upd = "\<lambda>df. Inr (?check df)" and ?dm = "snd (UpdateDistributedFile_CheckFlag Wrote f d True dm')"
  let ?info = "info'\<lparr>fi_DistributedFileInfos := AList.update d (?check df) (fi_DistributedFileInfos info')\<rparr>"
  have run: "fst (UpdateDistributedFile_CheckFlag Wrote f d True dm') = Inr ()" "files ?dm = (files dm')(f \<mapsto> ?info)"
    using updateDistributedFile_files [OF info(2) at, of ?upd] by (simp_all add: UpdateDistributedFile_CheckFlag_def)
  have wf: "datamap_wf ?dm"
    using m unfolding UpdateDistributedFile_CheckFlag_def
    by (intro updateDistributedFile_wf) (auto simp: marked_def possible_end_def)
  have shards: "shard_at ?dm k = (if k = (f, d) then Some (?check df) else shard_at dm' k)" for k
    unfolding UpdateDistributedFile_CheckFlag_def by (rule shard_at_update [OF df]) simp
  have "marked f (insert d ds) dm ?dm"
    unfolding marked_def
  proof (intro conjI allI impI exI)
    show "files ?dm g = files dm g" if "g \<noteq> f" for g using m that by (simp add: run(2) marked_def)
    show "files ?dm f = Some ?info" by (simp add: run(2))
    show "map fst (fi_DistributedFileInfos ?info) = map fst (fi_DistributedFileInfos info)"
      using info(4) at by (simp add: update_keys_same)
    show "shard_at ?dm (f, e) = (if e \<in> insert d ds then map_option ?check (shard_at dm (f, e)) else shard_at dm (f, e))" for e
    proof (cases "e = d")
      case True
      have "map_option ?check (shard_at dm (f, d)) = Some (?check df)" using m df by (auto simp: marked_def split: if_splits)
      then show ?thesis using True by (auto simp: shards)
    next
      case False
      then show ?thesis using m by (simp add: shards marked_def)
    qed
  qed (use wf info in simp_all)
  then show ?thesis using run(1) by (metis prod.collapse)
qed

section \<open>Runs without errors\<close>

definition quiet_act :: "datamap \<Rightarrow> string \<Rightarrow> rm_act \<Rightarrow> bool" where
  "quiet_act dm f act = (case act of
      DeleteShard info ending \<Rightarrow> ending = Did \<or> ending = Silent
    | MarkShard info we \<Rightarrow> we = Wrote \<and> shard_at dm (f, df_DistributedFile info) \<noteq> None)"

definition act_marks :: "rm_act list \<Rightarrow> string set" where
  "act_marks acts = {df_DistributedFile info | info we. MarkShard info we \<in> set acts}"

definition act_deletes :: "rm_act list \<Rightarrow> (string \<times> string) set" where
  "act_deletes acts = {object_key info | info. DeleteShard info Did \<in> set acts}"

lemma act_simps [simp]:
  "act_marks [] = {}" "act_deletes [] = {}"
  "act_marks (DeleteShard info e # acts) = act_marks acts"
  "act_marks (MarkShard info we # acts) = insert (df_DistributedFile info) (act_marks acts)"
  "act_deletes (MarkShard info we # acts) = act_deletes acts"
  "act_deletes (DeleteShard info e # acts) = (if e = Did then insert (object_key info) (act_deletes acts) else act_deletes acts)"
  by (auto simp: act_marks_def act_deletes_def)

definition quiet_run :: "datamap \<Rightarrow> string \<Rightarrow> world \<Rightarrow> string set \<Rightarrow> (string \<times> string) set \<Rightarrow> rm_run \<Rightarrow> bool" where
  "quiet_run dm f w ds ks rr \<longleftrightarrow> rr_exit rr = None \<and> rr_stuck rr = [] \<and> rr_errs rr = 0
     \<and> marked f ds dm (w_datamap (rr_world rr))
     \<and> (\<forall>k. w_cloud (rr_world rr) k = (if k \<in> ks then None else w_cloud w k))
     \<and> w_lb (rr_world rr) = w_lb w \<and> w_shards (rr_world rr) = w_shards w"

lemma quiet_exec:
  assumes "quiet_act dm f act" "quiet_run dm f w ds ks rr"
  shows "quiet_run dm f w (ds \<union> act_marks [act]) (ks \<union> act_deletes [act]) (rm_exec f n act rr)"
proof (cases act)
  case (DeleteShard info e)
  then show ?thesis
    using assms by (auto simp: quiet_act_def quiet_run_def remoteCallDeleteFile_def Let_def)
next
  case (MarkShard info we)
  then obtain dm'' where "UpdateDistributedFile_CheckFlag Wrote f (df_DistributedFile info) True (w_datamap (rr_world rr)) = (Inr (), dm'')"
      "marked f (insert (df_DistributedFile info) ds) dm dm''"
    using assms marked_step [of f ds dm "w_datamap (rr_world rr)" "df_DistributedFile info"]
    by (auto simp: quiet_act_def quiet_run_def)
  then show ?thesis using assms MarkShard by (simp add: quiet_act_def quiet_run_def Let_def)
qed

lemma quiet_fold:
  assumes "list_all (quiet_act dm f) acts" "quiet_run dm f w ds ks rr"
  shows "quiet_run dm f w (ds \<union> act_marks acts) (ks \<union> act_deletes acts) (fold (rm_exec f n) acts rr)"
  using assms
proof (induction acts arbitrary: ds ks rr)
  case (Cons act acts)
  then have "quiet_run dm f w (ds \<union> act_marks [act] \<union> act_marks acts) (ks \<union> act_deletes [act] \<union> act_deletes acts)
      (fold (rm_exec f n) acts (rm_exec f n act rr))"
    by (intro Cons.IH quiet_exec) auto
  moreover have "act_marks [act] \<union> act_marks acts = act_marks (act # acts)" "act_deletes [act] \<union> act_deletes acts = act_deletes (act # acts)"
    by (auto simp: act_marks_def act_deletes_def)
  ultimately show ?case by (simp add: Un_assoc)
qed simp

lemma quiet_start:
  "datamap_wf (w_datamap w) \<Longrightarrow> files (w_datamap w) f = Some info \<Longrightarrow>
   quiet_run (w_datamap w) f w {} {} \<lparr>rr_world = w, rr_errs = 0, rr_stuck = [], rr_exit = None\<rparr>"
  by (simp add: quiet_run_def marked_refl)

section \<open>Removing a file\<close>

text \<open>The objects of a recorded file on the remotes whose call takes effect.\<close>

definition file_objects :: "(string \<Rightarrow> call_end) \<Rightarrow> FileInfo \<Rightarrow> (string \<times> string) set" where
  "file_objects ends info = {object_key df | d df. (d, df) \<in> set (fi_DistributedFileInfos info) \<and> \<not> no_remote_yet df \<and> ends d = Did}"

lemma goroutine_acts:
  assumes "scheduler sched" "acts = sched (map (rm_goroutine ends marks) dfs)"
  shows "set acts = (\<Union>df \<in> set dfs. set (rm_goroutine ends marks df))"
proof -
  have "acts \<in> interleavings (map (rm_goroutine ends marks) dfs)" using assms by (simp add: scheduler_def)
  then show ?thesis using interleavings_set by force
qed

lemma goroutines_spec:
  assumes "scheduler sched" "acts = sched (map (rm_goroutine ends marks) dfs)"
  shows "MarkShard df we \<in> set acts \<longleftrightarrow> df \<in> set dfs \<and> we = marks (df_DistributedFile df)"
    and "DeleteShard df e \<in> set acts \<longleftrightarrow> df \<in> set dfs \<and> \<not> no_remote_yet df \<and> e = ends (df_DistributedFile df)"
  by (auto simp: goroutine_acts [OF assms] rm_goroutine_def Let_def)

lemma startRm_quiet:
  assumes "scheduler (re_sched env)" "datamap_wf (w_datamap w)" "files (w_datamap w) f = Some info"
    and "\<And>df. df \<in> set dfs \<Longrightarrow> shard_at (w_datamap w) (f, df_DistributedFile df) \<noteq> None"
    and "\<And>df. df \<in> set dfs \<Longrightarrow> re_marks env (df_DistributedFile df) = Wrote \<and> re_ends env (df_DistributedFile df) \<in> {Did, Silent}"
  shows "\<exists>w'. startRmFileGoroutine env f dfs w = (Finished (Inr ()), w')
     \<and> marked f (df_DistributedFile ` set dfs) (w_datamap w) (w_datamap w')
     \<and> (\<forall>k. w_cloud w' k = (if k \<in> object_key ` {df \<in> set dfs. \<not> no_remote_yet df \<and> re_ends env (df_DistributedFile df) = Did}
                             then None else w_cloud w k))
     \<and> w_lb w' = w_lb w \<and> w_shards w' = w_shards w"
proof -
  let ?acts = "re_sched env (map (rm_goroutine (re_ends env) (re_marks env)) dfs)"
  let ?rr = "fold (rm_exec f (length dfs)) ?acts \<lparr>rr_world = w, rr_errs = 0, rr_stuck = [], rr_exit = None\<rparr>"
  note spec = goroutines_spec [OF assms(1) refl, where ends = "re_ends env" and marks = "re_marks env" and dfs = dfs]
  have "quiet_act (w_datamap w) f act" if "act \<in> set ?acts" for act
    using that assms(4,5) by (fastforce simp: quiet_act_def spec split: rm_act.split)
  then have "list_all (quiet_act (w_datamap w) f) ?acts" by (simp add: list_all_iff)
  then have q: "quiet_run (w_datamap w) f w (act_marks ?acts) (act_deletes ?acts) ?rr"
    using quiet_fold [OF _ quiet_start [OF assms(2,3)]] by simp
  have "act_marks ?acts = df_DistributedFile ` set dfs" by (auto simp: act_marks_def spec)
  moreover have "act_deletes ?acts = object_key ` {df \<in> set dfs. \<not> no_remote_yet df \<and> re_ends env (df_DistributedFile df) = Did}"
    by (auto simp: act_deletes_def spec)
  ultimately show ?thesis
    using q by (simp add: quiet_run_def startRmFileGoroutine_def Let_def)
qed

lemma finish_rm:
  assumes "files (w_datamap w) f = Some info" "re_reset env = Wrote" "re_remove env = Wrote"
  shows "\<exists>dm w1. on_datamap (ResetCheckFlag (re_reset env) f) w = (Inr (), w1)
     \<and> on_datamap (RemoveFileFromMetadata (re_remove env) f) w1 = (Inr (), w\<lparr>w_datamap := dm\<rparr>)
     \<and> readable dm \<and> files dm = (files (w_datamap w))(f := None)"
proof -
  let ?dm = "snd (ResetCheckFlag Wrote f (w_datamap w))"
  have reset: "fst (ResetCheckFlag Wrote f (w_datamap w)) = Inr ()" "readable ?dm"
      "files ?dm = (files (w_datamap w))(f \<mapsto> reset_info info)"
    using ResetCheckFlag_files [OF assms(1)] by auto
  then show ?thesis
    using RemoveFileFromMetadata_files [OF reset(2), of f] assms(2,3)
    by (auto simp: on_datamap_def split: prod.splits)
qed

lemma recorded_shards:
  assumes "datamap_wf dm" "files dm f = Some info" "(d, df) \<in> set (fi_DistributedFileInfos info)"
  shows "shard_at dm (f, d) = Some df" "df_DistributedFile df = d"
proof -
  obtain m where "readJsonFile dm = Inr m" "map_of m f = Some info" using files_SomeD [OF assms(2)] by auto
  then have wf: "info_wf f info" using assms(1) by (auto dest: datamap_wf_read map_wf_info)
  then show "shard_at dm (f, d) = Some df" using assms(2,3) by (simp add: shard_at_Some info_wf_def)
  show "df_DistributedFile df = d" using wf assms(3) by (auto simp: info_wf_def list_all_iff)
qed

lemma listed_shard:
  assumes "datamap_wf dm" "files dm f = Some info" "range_order ro" "df \<in> set (map snd (ro (fi_DistributedFileInfos info)))"
  shows "shard_at dm (f, df_DistributedFile df) = Some df"
proof -
  have "df \<in> snd ` set (fi_DistributedFileInfos info)" using assms(4) range_orderD(1) [OF assms(3)] by simp
  then obtain d where "(d, df) \<in> set (fi_DistributedFileInfos info)" by (metis imageE prod.collapse)
  from recorded_shards [OF assms(1,2) this] show ?thesis by simp
qed

lemma flag_file:
  assumes "datamap_wf dm" "files dm f = Some info"
  shows "\<exists>dm'. UpdateFileFlag Wrote f st dm = (Inr (), dm') \<and> datamap_wf dm'
     \<and> files dm' = (files dm)(f \<mapsto> info\<lparr>fi_Flag := True, fi_State := st\<rparr>)"
proof -
  have "datamap_step dm (snd (UpdateFileFlag Wrote f st dm))"
    by (rule datamap_step.flag) (simp add: possible_end_def)
  then have "datamap_wf (snd (UpdateFileFlag Wrote f st dm))" using assms(1) by (rule datamap_step_wf)
  then show ?thesis using UpdateFileFlag_files [OF assms(2), of st] by (metis prod.collapse)
qed

lemma rm_outcome:
  assumes "datamap_wf (w_datamap w)" "files (w_datamap w) f = Some info"
    and "scheduler (re_sched env)" "range_order (re_order env)"
    and "re_flag env = Wrote" "re_reset env = Wrote" "re_remove env = Wrote"
    and "\<forall>d. re_marks env d = Wrote \<and> re_ends env d \<in> {Did, Silent}"
  shows "\<exists>w'. Dis_rm env [f] False w = (Finished (Inr ()), w')
     \<and> files (w_datamap w') = (files (w_datamap w))(f := None)
     \<and> (\<forall>k. w_cloud w' k = (if k \<in> file_objects (re_ends env) info then None else w_cloud w k))
     \<and> w_lb w' = w_lb w \<and> w_shards w' = w_shards w"
proof -
  let ?info = "info\<lparr>fi_Flag := True, fi_State := ''rm''\<rparr>"
  let ?dfs = "map snd (re_order env (fi_DistributedFileInfos info))"
  obtain dm where dm: "UpdateFileFlag Wrote f ''rm'' (w_datamap w) = (Inr (), dm)" "datamap_wf dm"
      "files dm = (files (w_datamap w))(f \<mapsto> ?info)"
    using flag_file [OF assms(1,2)] by blast
  let ?w = "w\<lparr>w_datamap := dm\<rparr>"
  have at: "files (w_datamap ?w) f = Some ?info" by (simp add: dm(3))
  have set: "set ?dfs = snd ` set (fi_DistributedFileInfos info)" using range_orderD(1) [OF assms(4)] by simp
  have names: "shard_at dm (f, d) = Some df" "df_DistributedFile df = d" if "(d, df) \<in> set (fi_DistributedFileInfos info)" for d df
    using recorded_shards [of dm f ?info d df] at dm(2) that by auto
  then have shards: "shard_at (w_datamap ?w) (f, df_DistributedFile df) \<noteq> None" if "df \<in> set ?dfs" for df
    using that unfolding set by auto
  obtain w1 where w1: "startRmFileGoroutine env f ?dfs ?w = (Finished (Inr ()), w1)"
      "marked f (df_DistributedFile ` set ?dfs) dm (w_datamap w1)"
      "\<And>k. w_cloud w1 k = (if k \<in> object_key ` {df \<in> set ?dfs. \<not> no_remote_yet df \<and> re_ends env (df_DistributedFile df) = Did}
                             then None else w_cloud w k)"
      "w_lb w1 = w_lb w" "w_shards w1 = w_shards w"
    using startRm_quiet [where env = env and w = ?w and f = f and info = ?info and dfs = ?dfs, OF assms(3) _ at shards]
      assms(8) dm(2) by (auto simp del: split_paired_All)
  have objects: "object_key ` {df \<in> set ?dfs. \<not> no_remote_yet df \<and> re_ends env (df_DistributedFile df) = Did}
      = file_objects (re_ends env) info"
    unfolding set file_objects_def using names(2) by force
  obtain info1 where "files (w_datamap w1) f = Some info1" using w1(2) by (auto simp: marked_def)
  then obtain dm2 w2 where w2: "on_datamap (ResetCheckFlag (re_reset env) f) w1 = (Inr (), w2)"
      "on_datamap (RemoveFileFromMetadata (re_remove env) f) w2 = (Inr (), w1\<lparr>w_datamap := dm2\<rparr>)"
      "files dm2 = (files (w_datamap w1))(f := None)"
    using finish_rm assms(6,7) by blast
  have "files dm2 = (files (w_datamap w))(f := None)"
    using w1(2) unfolding w2(3) by (auto simp: fun_eq_iff marked_def dm(3))
  moreover have "Dis_rm env [f] False w = (Finished (Inr ()), w1\<lparr>w_datamap := dm2\<rparr>)"
    using assms(2,5) dm(1) at w1(1) w2(1,2)
    by (simp add: Dis_rm_def on_datamap_def GetFileInfoStruct_iff [THEN iffD2] GetDistributedFileStruct_files)
  moreover have "w_cloud w1 k = (if k \<in> file_objects (re_ends env) info then None else w_cloud w k)" for k
    using w1(3) [of k] unfolding objects .
  ultimately show ?thesis using w1(4,5) by (simp del: split_paired_All)
qed

text \<open>C12. Removing a recorded file, when the writes of the data map succeed and no call ends the process: under
  every schedule of the goroutines and every order of the shards the removal reports success, the
  file is no longer recorded and every other record is as before, and exactly the objects whose
  deletion took effect are gone. A deletion that failed silently leaves its object on the remote with
  no record of it.\<close>

theorem Dis_rm_outcome:
  assumes "datamap_wf (w_datamap w)" "files (w_datamap w) f = Some info"
    and "scheduler (re_sched env)" "range_order (re_order env)"
    and "re_flag env = Wrote" "re_reset env = Wrote" "re_remove env = Wrote"
    and "\<forall>d. re_marks env d = Wrote \<and> re_ends env d \<in> {Did, Silent}"
  shows "\<exists>w'. Dis_rm env [f] False w = (Finished (Inr ()), w')
     \<and> files (w_datamap w') = (files (w_datamap w))(f := None)
     \<and> (\<forall>k. w_cloud w' k = (if k \<in> file_objects (re_ends env) info then None else w_cloud w k))
     \<and> w_lb w' = w_lb w \<and> w_shards w' = w_shards w"
  by (rule rm_outcome [OF assms])

lemma scheduler_concat: "scheduler concat"
  by (simp add: scheduler_def concat_interleavings)

definition sample_remote :: Remote where
  "sample_remote = \<lparr>Remote_Name = ''r'', Remote_Type = ''t''\<rparr>"

definition sample_world :: "bool \<Rightarrow> world" where
  "sample_world check =
     \<lparr> w_datamap = snd (MakeDataMap Wrote (Some 1) (Some [7]) ''/a''
          [(sample_shard ''a.0'')\<lparr>df_Remote := sample_remote, df_Check := check\<rparr>] 1 0 1 0 NoFile),
       w_lb = \<lparr>lb_json = NoFile, lb_best = no_remote\<rparr>, w_shards = Map.empty,
       w_cloud = [(''r'', CalculateHash ''a.0'') \<mapsto> [7]] \<rparr>"

definition sample_env :: "(string \<Rightarrow> call_end) \<Rightarrow> rm_env" where
  "sample_env ends = \<lparr> re_order = (\<lambda>xs. xs), re_flag = Wrote, re_ends = ends, re_marks = (\<lambda>_. Wrote), re_sched = concat,
     re_reset = Wrote, re_remove = Wrote \<rparr>"

lemma sample_world_wf: "datamap_wf (w_datamap (sample_world check))"
proof -
  have "datamap_wf NoFile" by (simp add: datamap_wf_def readJsonFile_def map_wf_def)
  then show ?thesis
    unfolding sample_world_def
    by (simp, intro datamap_step_wf [OF datamap_step.make]) (simp_all add: possible_end_def)
qed

lemma sample_world_files:
  "\<exists>info. files (w_datamap (sample_world check)) = [''a'' \<mapsto> info] \<and> fi_Flag info
     \<and> fi_DistributedFileInfos info = [(''a.0'', (sample_shard ''a.0'')\<lparr>df_Remote := sample_remote, df_Check := check\<rparr>)]"
  by (simp add: sample_world_def MakeDataMap_def Let_def sample_base readJsonFile_def dFileMap_def sample_shard_def)
    (intro exI conjI, rule refl, simp_all)

theorem Dis_rm_outcome_witness:
  "\<exists>w'. Dis_rm (sample_env (\<lambda>_. Did)) [''a''] False (sample_world False) = (Finished (Inr ()), w')
     \<and> files (w_datamap w') = Map.empty \<and> w_cloud w' (''r'', CalculateHash ''a.0'') = None"
proof -
  obtain info where info: "files (w_datamap (sample_world False)) = [''a'' \<mapsto> info]"
      "fi_DistributedFileInfos info = [(''a.0'', (sample_shard ''a.0'')\<lparr>df_Remote := sample_remote, df_Check := False\<rparr>)]"
    using sample_world_files by blast
  have "(''r'', CalculateHash ''a.0'') \<in> file_objects (\<lambda>_. Did) info"
    by (simp add: file_objects_def info(2) object_key_def sample_remote_def sample_shard_def no_remote_yet_def Remote_String_def)
  then show ?thesis
    using Dis_rm_outcome [where env = "sample_env (\<lambda>_. Did)" and f = "''a''" and w = "sample_world False" and info = info]
      sample_world_wf info(1) by (auto simp: sample_env_def scheduler_concat range_order_id)
qed

section \<open>Recovery from a crash\<close>

text \<open>A step that ends the process changes nothing, and nothing runs after it.\<close>

definition ends_process :: "rm_act \<Rightarrow> bool" where
  "ends_process act = (case act of DeleteShard _ (Ended _) \<Rightarrow> True | _ \<Rightarrow> False)"

lemma exec_after_exit: "rr_exit rr \<noteq> None \<Longrightarrow> fold (rm_exec f n) acts rr = rr"
proof (induction acts)
  case (Cons act acts)
  then show ?case by (cases act) simp_all
qed simp

lemma run_to_exit: "rr_world (fold (rm_exec f n) acts rr) = rr_world (fold (rm_exec f n) (takeWhile (\<lambda>a. \<not> ends_process a) acts) rr)"
proof (induction acts arbitrary: rr)
  case (Cons a acts)
  show ?case
  proof (cases "ends_process a")
    case True
    then obtain df code where a: "a = DeleteShard df (Ended code)"
      by (auto simp: ends_process_def split: rm_act.splits call_end.splits)
    have "rm_exec f n a rr = (if rr_exit rr = None then rr\<lparr>rr_exit := Some code\<rparr> else rr)"
      by (simp add: a remoteCallDeleteFile_def)
    then show ?thesis using True by (auto simp: exec_after_exit)
  next
    case False
    from Cons.IH [of "rm_exec f n a rr"] False show ?thesis by simp
  qed
qed simp

text \<open>Without such a step the run marks some of the shards it should and deletes the objects whose deletion takes effect; a
  goroutine that waits for room in the channel marks nothing any more.\<close>

definition steady_act :: "datamap \<Rightarrow> string \<Rightarrow> rm_act \<Rightarrow> bool" where
  "steady_act dm f act \<longleftrightarrow> \<not> ends_process act \<and>
     (\<forall>info we. act = MarkShard info we \<longrightarrow> we = Wrote \<and> shard_at dm (f, df_DistributedFile info) \<noteq> None)"

definition steady_run :: "datamap \<Rightarrow> string \<Rightarrow> world \<Rightarrow> string set \<Rightarrow> (string \<times> string) set \<Rightarrow> rm_run \<Rightarrow> bool" where
  "steady_run dm f w ds ks rr \<longleftrightarrow> rr_exit rr = None \<and> (\<exists>ds' \<subseteq> ds. marked f ds' dm (w_datamap (rr_world rr)))
     \<and> w_cloud (rr_world rr) = (\<lambda>k. if k \<in> ks then None else w_cloud w k)"

lemma send_err_kept [simp]:
  "rr_exit (send_err n df rr) = rr_exit rr" "rr_world (send_err n df rr) = rr_world rr"
  by (simp_all add: send_err_def)

lemma steady_exec:
  assumes "steady_act dm f act" "steady_run dm f w ds ks rr"
  shows "steady_run dm f w (ds \<union> act_marks [act]) (ks \<union> act_deletes [act]) (rm_exec f n act rr)"
proof (cases act)
  case (DeleteShard info e)
  have "\<exists>ds' \<subseteq> ds. marked f ds' dm (w_datamap (rr_world rr))" using assms(2) by (simp add: steady_run_def)
  then show ?thesis
    using assms DeleteShard by (cases e) (auto simp: steady_act_def ends_process_def steady_run_def remoteCallDeleteFile_def Let_def)
next
  case (MarkShard info we)
  obtain ds' where ds': "ds' \<subseteq> ds" "marked f ds' dm (w_datamap (rr_world rr))" using assms(2) by (auto simp: steady_run_def)
  obtain dm'' where "UpdateDistributedFile_CheckFlag Wrote f (df_DistributedFile info) True (w_datamap (rr_world rr)) = (Inr (), dm'')"
      "marked f (insert (df_DistributedFile info) ds') dm dm''"
    using assms(1) MarkShard marked_step [OF ds'(2), of "df_DistributedFile info"] by (auto simp: steady_act_def)
  moreover have "\<exists>ds' \<subseteq> insert (df_DistributedFile info) ds. marked f ds' dm (w_datamap (rr_world rr))"
    "\<exists>ds' \<subseteq> insert (df_DistributedFile info) ds. marked f ds' dm dm''"
    using ds' calculation(2) by (meson subset_insertI2 insert_mono)+
  ultimately show ?thesis
    using assms MarkShard by (simp add: steady_act_def steady_run_def Let_def del: split_paired_All split_paired_Ex)
qed

lemma steady_fold:
  assumes "list_all (steady_act dm f) acts" "steady_run dm f w ds ks rr"
  shows "steady_run dm f w (ds \<union> act_marks acts) (ks \<union> act_deletes acts) (fold (rm_exec f n) acts rr)"
  using assms
proof (induction acts arbitrary: ds ks rr)
  case (Cons act acts)
  then have "steady_run dm f w (ds \<union> act_marks [act] \<union> act_marks acts) (ks \<union> act_deletes [act] \<union> act_deletes acts)
      (fold (rm_exec f n) acts (rm_exec f n act rr))"
    by (intro Cons.IH steady_exec) auto
  moreover have "act_marks [act] \<union> act_marks acts = act_marks (act # acts)" "act_deletes [act] \<union> act_deletes acts = act_deletes (act # acts)"
    by (auto simp: act_marks_def act_deletes_def)
  ultimately show ?case by (simp add: Un_assoc)
qed simp

fun act_file :: "rm_act \<Rightarrow> DistributedFile" where
  "act_file (DeleteShard df _) = df"
| "act_file (MarkShard df _) = df"

text \<open>A goroutine deletes before it marks, under every schedule and up to every point of it.\<close>

lemma delete_before_mark:
  assumes "scheduler sched" "sched (map (rm_goroutine ends marks) dfs) = ys @ zs" "distinct dfs"
    and "MarkShard df we \<in> set ys" "\<not> no_remote_yet df"
  shows "DeleteShard df (ends (df_DistributedFile df)) \<in> set ys"
proof -
  let ?xss = "map (rm_goroutine ends marks) dfs" and ?P = "\<lambda>a. act_file a = df"
  let ?del = "DeleteShard df (ends (df_DistributedFile df))" and ?mark = "MarkShard df (marks (df_DistributedFile df))"
  have acts: "ys @ zs \<in> interleavings ?xss" using assms(1,2) by (metis scheduler_def)
  have "df \<in> set dfs" using goroutines_spec(1) [OF assms(1) assms(2) [symmetric]] assms(4) by auto
  then obtain j where j: "j < length dfs" "dfs ! j = df" by (auto simp: in_set_conv_nth)
  have "filter ?P (?xss ! i) = []" if "i < length ?xss" "i \<noteq> j" for i
    using that j assms(3) by (auto simp: rm_goroutine_def Let_def nth_eq_iff_index_eq)
  then have "filter ?P (ys @ zs) = filter ?P (?xss ! j)" using j filter_interleavings [OF acts, of j ?P] by simp
  also have "\<dots> = [?del, ?mark]" using j assms(5) by (simp add: rm_goroutine_def Let_def)
  finally have "filter ?P ys @ filter ?P zs = [?del, ?mark]" by simp
  moreover have "MarkShard df we \<in> set (filter ?P ys)" using assms(4) by simp
  ultimately have "?del \<in> set (filter ?P ys)" by (cases "filter ?P ys") auto
  then show ?thesis by simp
qed

text \<open>A deletion that fails leaves its object, and its shard is marked all the same.\<close>

definition failed_delete :: "rm_env \<Rightarrow> DistributedFile \<Rightarrow> bool" where
  "failed_delete env df \<longleftrightarrow> re_ends env (df_DistributedFile df) \<in> {Silent, CallError}"

text \<open>What a crash leaves: some shards are marked, some objects of the file are gone, and the object of a
  marked shard is gone unless its deletion failed.\<close>

definition half_removed :: "rm_env \<Rightarrow> string \<Rightarrow> DistributedFile list \<Rightarrow> world \<Rightarrow> string set \<Rightarrow> (string \<times> string) set \<Rightarrow> world \<Rightarrow> bool" where
  "half_removed env f dfs w ds ks w1 \<longleftrightarrow> marked f ds (w_datamap w) (w_datamap w1)
     \<and> w_cloud w1 = (\<lambda>k. if k \<in> ks then None else w_cloud w k)
     \<and> ks \<subseteq> object_key ` {df \<in> set dfs. \<not> no_remote_yet df}
     \<and> (\<forall>df \<in> set dfs. df_DistributedFile df \<in> ds \<longrightarrow> no_remote_yet df \<or> object_key df \<in> ks \<or> failed_delete env df)"

lemma killed_run:
  assumes "scheduler (re_sched env)" "datamap_wf (w_datamap w)" "files (w_datamap w) f = Some info"
    and "\<And>df. df \<in> set dfs \<Longrightarrow> shard_at (w_datamap w) (f, df_DistributedFile df) \<noteq> None"
    and "\<And>df. df \<in> set dfs \<Longrightarrow> re_marks env (df_DistributedFile df) = Wrote"
    and "distinct (map df_DistributedFile dfs)"
  shows "\<exists>ds ks. half_removed env f dfs w ds ks (rr_world (rm_steps env f dfs n w))"
proof -
  let ?acts = "re_sched env (map (rm_goroutine (re_ends env) (re_marks env)) dfs)"
  let ?ys = "takeWhile (\<lambda>a. \<not> ends_process a) (take n ?acts)" and ?zs = "dropWhile (\<lambda>a. \<not> ends_process a) (take n ?acts) @ drop n ?acts"
  let ?rr0 = "\<lparr>rr_world = w, rr_errs = 0, rr_stuck = [], rr_exit = None\<rparr>"
  let ?w1 = "rr_world (rm_steps env f dfs n w)"
  note spec = goroutines_spec [OF assms(1) refl, where ends = "re_ends env" and marks = "re_marks env" and dfs = dfs]
  have split: "?acts = ?ys @ ?zs" by (metis append_take_drop_id takeWhile_dropWhile_id append_assoc)
  have sub: "act \<in> set ?ys \<Longrightarrow> act \<in> set ?acts \<and> \<not> ends_process act" for act
    by (auto dest: set_takeWhileD intro: in_set_takeD)
  have "steady_act (w_datamap w) f act" if "act \<in> set ?ys" for act
    using sub [OF that] assms(4,5) unfolding steady_act_def by (auto simp: spec)
  moreover have "marked f {} (w_datamap w) (w_datamap w)" by (rule marked_refl [OF assms(2,3)])
  ultimately have q: "steady_run (w_datamap w) f w (act_marks ?ys) (act_deletes ?ys) (fold (rm_exec f (length dfs)) ?ys ?rr0)"
    using steady_fold [of "w_datamap w" f ?ys w "{}" "{}" ?rr0] by (auto simp: list_all_iff steady_run_def)
  have w1: "?w1 = rr_world (fold (rm_exec f (length dfs)) ?ys ?rr0)" unfolding rm_steps_def by (rule run_to_exit)
  obtain ds where ds: "ds \<subseteq> act_marks ?ys" "marked f ds (w_datamap w) (w_datamap ?w1)" using q unfolding steady_run_def w1 by blast
  have dist: "distinct dfs" using assms(6) by (simp add: distinct_map)
  have "w_cloud ?w1 = (\<lambda>k. if k \<in> act_deletes ?ys then None else w_cloud w k)" using q unfolding steady_run_def w1 by blast
  moreover have "act_deletes ?ys \<subseteq> object_key ` {df \<in> set dfs. \<not> no_remote_yet df}"
    using sub spec(2) by (force simp: act_deletes_def)
  moreover have "object_key df \<in> act_deletes ?ys \<or> failed_delete env df"
    if df: "df \<in> set dfs" and remote: "\<not> no_remote_yet df" and d: "df_DistributedFile df \<in> act_marks ?ys" for df
  proof -
    obtain df' we where m: "MarkShard df' we \<in> set ?ys" "df_DistributedFile df' = df_DistributedFile df"
      using d by (auto simp: act_marks_def)
    then have "df' \<in> set dfs" using sub spec(1) by blast
    then have "df' = df" using m(2) df assms(6) by (auto simp: distinct_map inj_on_def)
    then have del: "DeleteShard df (re_ends env (df_DistributedFile df)) \<in> set ?ys"
      using delete_before_mark [OF assms(1) split dist] m(1) remote by blast
    then have "\<not> ends_process (DeleteShard df (re_ends env (df_DistributedFile df)))" using sub by blast
    then have "re_ends env (df_DistributedFile df) = Did \<or> failed_delete env df"
      by (auto simp: failed_delete_def ends_process_def split: call_end.splits)
    then show ?thesis using del by (auto simp: act_deletes_def)
  qed
  ultimately have "half_removed env f dfs w ds (act_deletes ?ys) ?w1" using ds unfolding half_removed_def by blast
  then show ?thesis by blast
qed

lemma shard_entries:
  assumes "datamap_wf dm" "files dm f = Some info"
  shows "(d, df) \<in> set (fi_DistributedFileInfos info) \<longleftrightarrow> shard_at dm (f, d) = Some df"
  using recorded_shards(1) [OF assms] assms(2) by (auto simp: shard_at_Some dest: map_of_SomeD)

lemma distinct_names:
  assumes "datamap_wf dm" "files dm f = Some info" "range_order ro"
  shows "distinct (map df_DistributedFile (map snd (ro (fi_DistributedFileInfos info))))"
proof -
  obtain m where "readJsonFile dm = Inr m" "map_of m f = Some info" using files_SomeD [OF assms(2)] by auto
  then have "distinct (map fst (fi_DistributedFileInfos info))"
    using assms(1) by (auto simp: info_wf_def dest!: datamap_wf_read map_wf_info)
  then have "distinct (map fst (ro (fi_DistributedFileInfos info)))"
    using range_orderD(3) [OF assms(3)] by (metis mset_eq_imp_distinct_iff mset_map)
  moreover have "map df_DistributedFile (map snd (ro (fi_DistributedFileInfos info))) = map fst (ro (fi_DistributedFileInfos info))"
    using recorded_shards(2) [OF assms(1,2)] by (auto simp: range_orderD(1) [OF assms(3)])
  ultimately show ?thesis by (simp only:)
qed

text \<open>The shards a resumed removal takes up: those with a remote that are not marked.\<close>

lemma unmarked_shards:
  assumes "marked f ds dm dm1" "datamap_wf dm" "files dm f = Some info" "files dm1 f = Some info1" "range_order ro"
    and "\<forall>(d, df) \<in> set (fi_DistributedFileInfos info). \<not> df_Check df"
  shows "\<exists>dfs. GetUncompletedFileInfo ro f dm1 = Inr dfs
     \<and> set dfs = {df \<in> snd ` set (fi_DistributedFileInfos info). df_DistributedFile df \<notin> ds \<and> \<not> no_remote_yet df}"
proof -
  let ?dfs = "filter (\<lambda>df. \<not> df_Check df \<and> Remote_String (df_Remote df) \<noteq> ''|'') (map snd (ro (fi_DistributedFileInfos info1)))"
  have wf1: "datamap_wf dm1" using assms(1) by (simp add: marked_def)
  have e1: "(d, df) \<in> set (fi_DistributedFileInfos info1) \<longleftrightarrow>
      (if d \<in> ds then map_option (\<lambda>df. df\<lparr>df_Check := True\<rparr>) (shard_at dm (f, d)) else shard_at dm (f, d)) = Some df" for d df
    using assms(1) unfolding shard_entries [OF wf1 assms(4)] marked_def by simp
  have e: "(d, df) \<in> set (fi_DistributedFileInfos info) \<longleftrightarrow> shard_at dm (f, d) = Some df" for d df
    by (rule shard_entries [OF assms(2,3)])
  have "df \<in> set ?dfs \<longleftrightarrow> df \<in> snd ` set (fi_DistributedFileInfos info) \<and> df_DistributedFile df \<notin> ds \<and> \<not> no_remote_yet df" for df
  proof
    assume "df \<in> set ?dfs"
    then obtain d where d: "(d, df) \<in> set (fi_DistributedFileInfos info1)" "\<not> df_Check df" "\<not> no_remote_yet df"
      by (auto simp: range_orderD(1) [OF assms(5)] no_remote_yet_def)
    then have "d \<notin> ds" "(d, df) \<in> set (fi_DistributedFileInfos info)" by (auto simp: e1 e split: if_splits)
    moreover from this have "df_DistributedFile df = d" using recorded_shards(2) [OF assms(2,3)] by blast
    ultimately show "df \<in> snd ` set (fi_DistributedFileInfos info) \<and> df_DistributedFile df \<notin> ds \<and> \<not> no_remote_yet df"
      using d by force
  next
    assume right: "df \<in> snd ` set (fi_DistributedFileInfos info) \<and> df_DistributedFile df \<notin> ds \<and> \<not> no_remote_yet df"
    then obtain d where d: "(d, df) \<in> set (fi_DistributedFileInfos info)" by auto
    then have "df_DistributedFile df = d" "\<not> df_Check df" using recorded_shards(2) [OF assms(2,3)] assms(6) by auto
    then have "(d, df) \<in> set (fi_DistributedFileInfos info1)" using d right by (simp add: e1 e)
    then show "df \<in> set ?dfs" using right \<open>\<not> df_Check df\<close> by (force simp: range_orderD(1) [OF assms(5)] no_remote_yet_def)
  qed
  then show ?thesis using assms(4) by (auto simp: GetUncompletedFileInfo_files)
qed

lemma resumed_run:
  assumes "half_removed killed f dfs w ds ks w1" "datamap_wf (w_datamap w)" "files (w_datamap w) f = Some info"
    and "set dfs = snd ` set (fi_DistributedFileInfos info)" "\<forall>(d, df) \<in> set (fi_DistributedFileInfos info). \<not> df_Check df"
    and "scheduler (re_sched env)" "range_order (re_order env)" "re_reset env = Wrote" "re_remove env = Wrote"
    and "\<forall>d. re_marks env d = Wrote \<and> re_ends env d = Did"
  shows "\<exists>w2. Dis_rm env [f] True w1 = (Finished (Inr ()), w2) \<and> files (w_datamap w2) = (files (w_datamap w))(f := None)
     \<and> (\<forall>k. k \<notin> file_objects (\<lambda>_. Did) info \<longrightarrow> w_cloud w2 k = w_cloud w k)
     \<and> (\<forall>df \<in> set dfs. \<not> no_remote_yet df \<and> \<not> failed_delete killed df \<longrightarrow> w_cloud w2 (object_key df) = None)"
proof -
  have m: "marked f ds (w_datamap w) (w_datamap w1)" using assms(1) by (simp add: half_removed_def)
  obtain info1 where info1: "files (w_datamap w1) f = Some info1" using marked_info [OF m assms(3)] by blast
  obtain dfs2 where dfs2: "GetUncompletedFileInfo (re_order env) f (w_datamap w1) = Inr dfs2"
      "set dfs2 = {df \<in> set dfs. df_DistributedFile df \<notin> ds \<and> \<not> no_remote_yet df}"
    using unmarked_shards [OF m assms(2,3) info1 assms(7,5)] unfolding assms(4) by blast
  have wf1: "datamap_wf (w_datamap w1)" using m by (simp add: marked_def)
  have shards: "shard_at (w_datamap w1) (f, df_DistributedFile df) \<noteq> None" if member: "df \<in> set dfs2" for df
  proof -
    obtain d where d: "(d, df) \<in> set (fi_DistributedFileInfos info)" using member unfolding dfs2(2) assms(4) by auto
    then have "shard_at (w_datamap w) (f, df_DistributedFile df) = Some df" using recorded_shards [OF assms(2,3)] by metis
    then show ?thesis using m by (auto simp: marked_def)
  qed
  obtain w2 where w2: "startRmFileGoroutine env f dfs2 w1 = (Finished (Inr ()), w2)"
      "marked f (df_DistributedFile ` set dfs2) (w_datamap w1) (w_datamap w2)"
      "\<And>k. w_cloud w2 k = (if k \<in> object_key ` {df \<in> set dfs2. \<not> no_remote_yet df \<and> re_ends env (df_DistributedFile df) = Did}
                             then None else w_cloud w1 k)"
    using startRm_quiet [where env = env and w = w1 and f = f and info = info1 and dfs = dfs2, OF assms(6) wf1 info1 shards]
      assms(10) by (auto simp del: split_paired_All)
  obtain info2 where "files (w_datamap w2) f = Some info2" using marked_info [OF w2(2) info1] by blast
  then obtain dm3 w3 where w3: "on_datamap (ResetCheckFlag (re_reset env) f) w2 = (Inr (), w3)"
      "on_datamap (RemoveFileFromMetadata (re_remove env) f) w3 = (Inr (), w2\<lparr>w_datamap := dm3\<rparr>)"
      "files dm3 = (files (w_datamap w2))(f := None)"
    using finish_rm assms(8,9) by blast
  have "Dis_rm env [f] True w1 = (Finished (Inr ()), w2\<lparr>w_datamap := dm3\<rparr>)"
    using info1 dfs2(1) w2(1) w3(1,2) by (simp add: Dis_rm_def GetFileInfoStruct_iff [THEN iffD2])
  moreover have "files dm3 = (files (w_datamap w))(f := None)"
    using m w2(2) unfolding w3(3) by (auto simp: fun_eq_iff marked_def)
  moreover have "(k \<notin> file_objects (\<lambda>_. Did) info \<longrightarrow> w_cloud w2 k = w_cloud w k)
      \<and> (df \<in> set dfs \<and> \<not> no_remote_yet df \<and> \<not> failed_delete killed df \<longrightarrow> w_cloud w2 (object_key df) = None)" for k df
  proof -
    let ?deleted = "object_key ` {df \<in> set dfs2. \<not> no_remote_yet df \<and> re_ends env (df_DistributedFile df) = Did}"
    have all: "file_objects (\<lambda>_. Did) info = object_key ` {df \<in> set dfs. \<not> no_remote_yet df}"
      unfolding file_objects_def assms(4) by force
    have gone: "?deleted \<union> ks \<subseteq> file_objects (\<lambda>_. Did) info"
      using assms(1) unfolding all dfs2(2) half_removed_def by auto
    have here: "object_key df \<in> ?deleted \<union> ks" if "df \<in> set dfs" "\<not> no_remote_yet df" "\<not> failed_delete killed df"
      using assms(1,10) that unfolding dfs2(2) half_removed_def by auto
    have "w_cloud w2 k = (if k \<in> ?deleted \<union> ks then None else w_cloud w k)" for k
      using assms(1) w2(3) [of k] by (simp add: half_removed_def)
    then show ?thesis using gone here by auto
  qed
  ultimately show ?thesis by auto
qed

text \<open>A removal that does not succeed has stopped while deleting.\<close>

lemma unsuccessful_removal:
  assumes "datamap_wf (w_datamap w)" "files (w_datamap w) f = Some info" "re_flag env = Wrote" "re_reset env = Wrote" "re_remove env = Wrote"
    and "scheduler (re_sched env)" "range_order (re_order env)" "\<forall>d. re_marks env d = Wrote"
    and "Dis_rm env [f] False w = (ended, w1)" "ended \<noteq> Finished (Inr ())"
  shows "\<exists>n. w1 = killed_removal env f (Deleting n) w"
proof -
  let ?info = "info\<lparr>fi_Flag := True, fi_State := ''rm''\<rparr>"
  let ?dfs = "map snd (re_order env (fi_DistributedFileInfos info))"
  obtain dm where dm: "UpdateFileFlag Wrote f ''rm'' (w_datamap w) = (Inr (), dm)" "datamap_wf dm"
      "files dm = (files (w_datamap w))(f \<mapsto> ?info)"
    using flag_file [OF assms(1,2)] by blast
  let ?w = "w\<lparr>w_datamap := dm\<rparr>"
  have at: "files (w_datamap ?w) f = Some ?info" by (simp add: dm(3))
  have get: "GetDistributedFileStruct (re_order env) f dm = Inr ?dfs" using at by (simp add: GetDistributedFileStruct_files)
  let ?acts = "re_sched env (map (rm_goroutine (re_ends env) (re_marks env)) ?dfs)"
  have world: "snd (startRmFileGoroutine env f ?dfs ?w) = rr_world (rm_steps env f ?dfs (length ?acts) ?w)"
    by (simp add: startRmFileGoroutine_def rm_steps_def Let_def)
  have killed: "killed_removal env f (Deleting (length ?acts)) w = rr_world (rm_steps env f ?dfs (length ?acts) ?w)"
    using assms(3) dm(1) get by (simp add: killed_removal_def on_datamap_def)
  have shards: "shard_at (w_datamap ?w) (f, df_DistributedFile df) \<noteq> None" if "df \<in> set ?dfs" for df
    using listed_shard [OF _ at assms(7)] dm(2) that by simp
  have "\<exists>ds ks. half_removed env f ?dfs ?w ds ks (rr_world (rm_steps env f ?dfs (length ?acts) ?w))"
    using distinct_names [OF assms(1,2,7)] assms(8) dm(2) by (intro killed_run [OF assms(6) _ at shards]) simp_all
  then obtain ds where "marked f ds dm (w_datamap (snd (startRmFileGoroutine env f ?dfs ?w)))"
    unfolding world half_removed_def by auto
  then obtain info1 where info1: "files (w_datamap (snd (startRmFileGoroutine env f ?dfs ?w))) f = Some info1" by (auto simp: marked_def)
  have run: "Dis_rm env [f] False w = (case startRmFileGoroutine env f ?dfs ?w of
      (Finished (Inr _), w) \<Rightarrow>
        (case on_datamap (ResetCheckFlag (re_reset env) f) w of
           (Inl e, w) \<Rightarrow> (Finished (Inl e), w)
         | (Inr _, w) \<Rightarrow> (case on_datamap (RemoveFileFromMetadata (re_remove env) f) w of (res, w) \<Rightarrow> (Finished res, w)))
    | (ended, w) \<Rightarrow> (ended, w))"
    using assms(2,3) dm(1) get by (simp add: Dis_rm_def on_datamap_def GetFileInfoStruct_iff [THEN iffD2])
  show ?thesis
  proof (cases "fst (startRmFileGoroutine env f ?dfs ?w) = Finished (Inr ())")
    case True
    obtain dm2 w2 where "on_datamap (ResetCheckFlag (re_reset env) f) (snd (startRmFileGoroutine env f ?dfs ?w)) = (Inr (), w2)"
      "on_datamap (RemoveFileFromMetadata (re_remove env) f) w2 = (Inr (), dm2)"
      using finish_rm [OF info1 assms(4,5)] by blast
    then show ?thesis using True run assms(9,10) by (auto split: prod.splits)
  next
    case False
    then have "w1 = snd (startRmFileGoroutine env f ?dfs ?w)"
      using run assms(9) by (cases "startRmFileGoroutine env f ?dfs ?w") (auto split: run_end.splits sum.splits)
    then show ?thesis using world killed by metis
  qed
qed

lemma killed_while_deleting:
  assumes "datamap_wf (w_datamap w)" "files (w_datamap w) f = Some info" "\<forall>(d, df) \<in> set (fi_DistributedFileInfos info). \<not> df_Check df"
    and "scheduler (re_sched env)" "range_order (re_order env)" "re_flag env = Wrote" "\<forall>d. re_marks env d = Wrote"
    and "scheduler (re_sched env')" "range_order (re_order env')" "re_reset env' = Wrote" "re_remove env' = Wrote"
    and "\<forall>d. re_marks env' d = Wrote \<and> re_ends env' d = Did"
  shows "\<exists>info1 w2. files (w_datamap (killed_removal env f (Deleting n) w)) f = Some info1 \<and> fi_Flag info1 \<and> fi_State info1 = ''rm''
     \<and> Dis_rm env' [f] True (killed_removal env f (Deleting n) w) = (Finished (Inr ()), w2)
     \<and> files (w_datamap w2) = (files (w_datamap w))(f := None)
     \<and> (\<forall>k. k \<notin> file_objects (\<lambda>_. Did) info \<longrightarrow> w_cloud w2 k = w_cloud w k)
     \<and> (\<forall>(d, df) \<in> set (fi_DistributedFileInfos info). \<not> no_remote_yet df \<and> \<not> failed_delete env df \<longrightarrow> w_cloud w2 (object_key df) = None)"
proof -
  let ?info = "info\<lparr>fi_Flag := True, fi_State := ''rm''\<rparr>"
  let ?dfs = "map snd (re_order env (fi_DistributedFileInfos info))"
  obtain dm where dm: "UpdateFileFlag Wrote f ''rm'' (w_datamap w) = (Inr (), dm)" "datamap_wf dm"
      "files dm = (files (w_datamap w))(f \<mapsto> ?info)"
    using flag_file [OF assms(1,2)] by blast
  let ?w = "w\<lparr>w_datamap := dm\<rparr>"
  have at: "files (w_datamap ?w) f = Some ?info" and wf: "datamap_wf (w_datamap ?w)" by (simp_all add: dm)
  have set: "set ?dfs = snd ` set (fi_DistributedFileInfos ?info)" using range_orderD(1) [OF assms(5)] by simp
  have shards: "shard_at (w_datamap ?w) (f, df_DistributedFile df) \<noteq> None" if "df \<in> set ?dfs" for df
    using listed_shard [OF wf at assms(5)] that by simp
  have w1: "killed_removal env f (Deleting n) w = rr_world (rm_steps env f ?dfs n ?w)"
    using assms(6) dm(1) at by (simp add: killed_removal_def on_datamap_def GetDistributedFileStruct_files)
  obtain ds ks where half: "half_removed env f ?dfs ?w ds ks (killed_removal env f (Deleting n) w)"
    using killed_run [OF assms(4) wf at shards _ distinct_names [OF assms(1,2,5)]] assms(7) unfolding w1 by blast
  obtain info1 where "files (w_datamap (killed_removal env f (Deleting n) w)) f = Some info1" "fi_Flag info1" "fi_State info1 = ''rm''"
    using marked_info [OF _ at] half by (force simp: half_removed_def)
  moreover obtain w2 where "Dis_rm env' [f] True (killed_removal env f (Deleting n) w) = (Finished (Inr ()), w2)"
      "files (w_datamap w2) = (files (w_datamap ?w))(f := None)"
      "\<forall>k. k \<notin> file_objects (\<lambda>_. Did) ?info \<longrightarrow> w_cloud w2 k = w_cloud ?w k"
      "\<forall>df \<in> set ?dfs. \<not> no_remote_yet df \<and> \<not> failed_delete env df \<longrightarrow> w_cloud w2 (object_key df) = None"
    using resumed_run [OF half wf at set _ assms(8-12)] assms(3) by auto
  ultimately show ?thesis unfolding set by (fastforce simp: dm(3) file_objects_def)
qed

text \<open>After all objects have been deleted the marks and the flag are reset before the record is dropped.\<close>

lemma killed_after_reset:
  assumes "datamap_wf (w_datamap w)" "files (w_datamap w) f = Some info"
    and "scheduler (re_sched env)" "range_order (re_order env)" "re_flag env = Wrote" "re_reset env = Wrote"
    and "\<forall>d. re_marks env d = Wrote \<and> re_ends env d = Did"
  shows "\<exists>info1. files (w_datamap (killed_removal env f AfterReset w)) f = Some info1 \<and> \<not> fi_Flag info1
     \<and> w_cloud (killed_removal env f AfterReset w) = (\<lambda>k. if k \<in> file_objects (\<lambda>_. Did) info then None else w_cloud w k)"
proof -
  let ?info = "info\<lparr>fi_Flag := True, fi_State := ''rm''\<rparr>"
  let ?dfs = "map snd (re_order env (fi_DistributedFileInfos info))"
  obtain dm where dm: "UpdateFileFlag Wrote f ''rm'' (w_datamap w) = (Inr (), dm)" "datamap_wf dm"
      "files dm = (files (w_datamap w))(f \<mapsto> ?info)"
    using flag_file [OF assms(1,2)] by blast
  let ?w = "w\<lparr>w_datamap := dm\<rparr>"
  have at: "files (w_datamap ?w) f = Some ?info" and wf: "datamap_wf (w_datamap ?w)" by (simp_all add: dm)
  have set: "set ?dfs = snd ` set (fi_DistributedFileInfos ?info)" using range_orderD(1) [OF assms(4)] by simp
  have shards: "shard_at (w_datamap ?w) (f, df_DistributedFile df) \<noteq> None" if "df \<in> set ?dfs" for df
    using listed_shard [OF wf at assms(4)] that by simp
  obtain w1 where w1: "startRmFileGoroutine env f ?dfs ?w = (Finished (Inr ()), w1)"
      "marked f (df_DistributedFile ` set ?dfs) dm (w_datamap w1)"
      "\<And>k. w_cloud w1 k = (if k \<in> object_key ` {df \<in> set ?dfs. \<not> no_remote_yet df \<and> re_ends env (df_DistributedFile df) = Did}
                             then None else w_cloud w k)"
    using startRm_quiet [where env = env and w = ?w and f = f and info = ?info and dfs = ?dfs, OF assms(3) wf at shards]
      assms(7) by (auto simp del: split_paired_All)
  have objects: "object_key ` {df \<in> set ?dfs. \<not> no_remote_yet df \<and> re_ends env (df_DistributedFile df) = Did} = file_objects (\<lambda>_. Did) info"
    unfolding set file_objects_def using assms(7) by force
  obtain info1 where info1: "files (w_datamap w1) f = Some info1" using w1(2) by (auto simp: marked_def)
  obtain dm2 where dm2: "ResetCheckFlag Wrote f (w_datamap w1) = (Inr (), dm2)" "files dm2 = (files (w_datamap w1))(f \<mapsto> reset_info info1)"
    using ResetCheckFlag_files [OF info1] by (metis prod.collapse)
  have "killed_removal env f AfterReset w = w1\<lparr>w_datamap := dm2\<rparr>"
    using assms(5,6) dm(1) at w1(1) dm2(1) by (simp add: killed_removal_def on_datamap_def GetDistributedFileStruct_files)
  then show ?thesis using dm2(2) w1(3) [unfolded objects] by (simp add: reset_info_def fun_eq_iff)
qed

text \<open>C11. A removal that is killed, of a recorded file with no shard marked, where the writes of the data map succeed and each
  call on a remote ends in any way. Killed after any number of steps of its goroutines, under any schedule, the file is
  still recorded with its flag set and the state \<open>rm\<close>, which is what the next command looks for; and the removal
  that then resumes, if its own calls take effect, succeeds and drops the record, touches nothing else, and every
  object is gone whose first deletion did not fail (one that failed is not tried again). A removal that ends without success by itself has
  stopped at one of these moments. But killed between its last two writes, after every object has been deleted,
  it leaves a record that is not flagged, so no later command takes it up.\<close>

theorem rm_recovers:
  assumes "datamap_wf (w_datamap w)" "files (w_datamap w) f = Some info" "\<forall>(d, df) \<in> set (fi_DistributedFileInfos info). \<not> df_Check df"
    and "scheduler (re_sched env)" "range_order (re_order env)" "re_flag env = Wrote" "\<forall>d. re_marks env d = Wrote"
    and "re_reset env = Wrote" "re_remove env = Wrote"
    and "scheduler (re_sched env')" "range_order (re_order env')" "re_reset env' = Wrote" "re_remove env' = Wrote"
    and "\<forall>d. re_marks env' d = Wrote \<and> re_ends env' d = Did"
  shows "(\<forall>n. \<exists>info1 w2. files (w_datamap (killed_removal env f (Deleting n) w)) f = Some info1 \<and> fi_Flag info1 \<and> fi_State info1 = ''rm''
        \<and> Dis_rm env' [f] True (killed_removal env f (Deleting n) w) = (Finished (Inr ()), w2)
        \<and> files (w_datamap w2) = (files (w_datamap w))(f := None)
        \<and> (\<forall>k. k \<notin> file_objects (\<lambda>_. Did) info \<longrightarrow> w_cloud w2 k = w_cloud w k)
        \<and> (\<forall>(d, df) \<in> set (fi_DistributedFileInfos info). \<not> no_remote_yet df \<and> \<not> failed_delete env df \<longrightarrow> w_cloud w2 (object_key df) = None))
     \<and> (\<forall>ended w1. Dis_rm env [f] False w = (ended, w1) \<and> ended \<noteq> Finished (Inr ()) \<longrightarrow> (\<exists>n. w1 = killed_removal env f (Deleting n) w))
     \<and> ((\<forall>d. re_ends env d = Did) \<longrightarrow> (\<exists>info1. files (w_datamap (killed_removal env f AfterReset w)) f = Some info1 \<and> \<not> fi_Flag info1
        \<and> w_cloud (killed_removal env f AfterReset w) = (\<lambda>k. if k \<in> file_objects (\<lambda>_. Did) info then None else w_cloud w k)))"
proof (intro conjI allI impI)
  fix n
  show "\<exists>info1 w2. files (w_datamap (killed_removal env f (Deleting n) w)) f = Some info1 \<and> fi_Flag info1 \<and> fi_State info1 = ''rm''
     \<and> Dis_rm env' [f] True (killed_removal env f (Deleting n) w) = (Finished (Inr ()), w2)
     \<and> files (w_datamap w2) = (files (w_datamap w))(f := None)
     \<and> (\<forall>k. k \<notin> file_objects (\<lambda>_. Did) info \<longrightarrow> w_cloud w2 k = w_cloud w k)
     \<and> (\<forall>(d, df) \<in> set (fi_DistributedFileInfos info). \<not> no_remote_yet df \<and> \<not> failed_delete env df \<longrightarrow> w_cloud w2 (object_key df) = None)"
    by (rule killed_while_deleting [OF assms(1-7,10-14)])
next
  fix ended w1 assume "Dis_rm env [f] False w = (ended, w1) \<and> ended \<noteq> Finished (Inr ())"
  then show "\<exists>n. w1 = killed_removal env f (Deleting n) w"
    using unsuccessful_removal [OF assms(1,2,6,8,9,4,5,7)] by blast
next
  assume "\<forall>d. re_ends env d = Did"
  then show "\<exists>info1. files (w_datamap (killed_removal env f AfterReset w)) f = Some info1 \<and> \<not> fi_Flag info1
     \<and> w_cloud (killed_removal env f AfterReset w) = (\<lambda>k. if k \<in> file_objects (\<lambda>_. Did) info then None else w_cloud w k)"
    using killed_after_reset [OF assms(1,2,4-6,8)] assms(7) by blast
qed

text \<open>The removal ends the process in its only deletion and is resumed.\<close>

theorem rm_recovers_witness:
  "\<exists>w2. Dis_rm (sample_env (\<lambda>_. Did)) [''a''] True (killed_removal (sample_env (\<lambda>_. Ended 5)) ''a'' (Deleting 1) (sample_world False)) = (Finished (Inr ()), w2)
     \<and> files (w_datamap w2) = Map.empty \<and> w_cloud w2 (''r'', CalculateHash ''a.0'') = None"
proof -
  let ?w = "sample_world False"
  obtain info where info: "files (w_datamap ?w) = [''a'' \<mapsto> info]"
      "fi_DistributedFileInfos info = [(''a.0'', (sample_shard ''a.0'')\<lparr>df_Remote := sample_remote, df_Check := False\<rparr>)]"
    using sample_world_files by blast
  have "object_key ((sample_shard ''a.0'')\<lparr>df_Remote := sample_remote, df_Check := False\<rparr>) = (''r'', CalculateHash ''a.0'')"
    "\<not> no_remote_yet ((sample_shard ''a.0'')\<lparr>df_Remote := sample_remote, df_Check := False\<rparr>)"
    "\<not> failed_delete (sample_env (\<lambda>_. Ended 5)) ((sample_shard ''a.0'')\<lparr>df_Remote := sample_remote, df_Check := False\<rparr>)"
    by (simp_all add: object_key_def sample_remote_def sample_shard_def no_remote_yet_def Remote_String_def failed_delete_def sample_env_def)
  then show ?thesis
    using rm_recovers [where w = ?w and f = "''a''" and info = info and env = "sample_env (\<lambda>_. Ended 5)" and env' = "sample_env (\<lambda>_. Did)"]
      sample_world_wf info by (fastforce simp: sample_env_def scheduler_concat range_order_id sample_shard_def)
qed

text \<open>C33. A resumed removal takes a marked shard for a deleted one. The marks of an interrupted upload stand for
  uploaded shards, so when the removal that clears up after it is itself cut short, the resumed
  removal of a file whose shards are all marked reports success and drops the record, and no object is
  deleted: every uploaded shard stays on its remote, unknown to the layer.\<close>

theorem resumed_removal_orphans:
  assumes "files (w_datamap w) f = Some info" "scheduler (re_sched env)" "range_order (re_order env)"
    and "\<forall>(d, df) \<in> set (fi_DistributedFileInfos info). df_Check df"
    and "re_reset env = Wrote" "re_remove env = Wrote"
  shows "\<exists>w'. Dis_rm env [f] True w = (Finished (Inr ()), w')
     \<and> files (w_datamap w') = (files (w_datamap w))(f := None) \<and> w_cloud w' = w_cloud w"
proof -
  obtain dm w1 where fin: "on_datamap (ResetCheckFlag (re_reset env) f) w = (Inr (), w1)"
      "on_datamap (RemoveFileFromMetadata (re_remove env) f) w1 = (Inr (), w\<lparr>w_datamap := dm\<rparr>)"
      "files dm = (files (w_datamap w))(f := None)"
    using finish_rm [OF assms(1,5,6)] by blast
  have none: "GetUncompletedFileInfo (re_order env) f (w_datamap w) = Inr []"
    using assms(4) by (auto simp: GetUncompletedFileInfo_files [OF assms(1)] filter_empty_conv range_orderD(1) [OF assms(3)])
  have "re_sched env [] = []" using assms(2) by (metis scheduler_def interleavings.simps(1) singletonD)
  then have "startRmFileGoroutine env f [] w = (Finished (Inr ()), w)" by (simp add: startRmFileGoroutine_def)
  then show ?thesis
    using assms(1) none fin by (simp add: Dis_rm_def GetFileInfoStruct_iff [THEN iffD2])
qed

theorem resumed_removal_orphans_witness:
  "\<exists>w'. Dis_rm (sample_env (\<lambda>_. Did)) [''a''] True (sample_world True) = (Finished (Inr ()), w')
     \<and> files (w_datamap w') = Map.empty \<and> w_cloud w' (''r'', CalculateHash ''a.0'') = Some [7]"
proof -
  obtain info where "files (w_datamap (sample_world True)) = [''a'' \<mapsto> info]"
      "fi_DistributedFileInfos info = [(''a.0'', (sample_shard ''a.0'')\<lparr>df_Remote := sample_remote, df_Check := True\<rparr>)]"
    using sample_world_files by blast
  then show ?thesis
    using resumed_removal_orphans [where w = "sample_world True" and f = "''a''" and info = info and env = "sample_env (\<lambda>_. Did)"]
    by (auto simp: sample_env_def scheduler_concat range_order_id) (auto simp: sample_world_def)
qed

end
