(* ===== verification/Machine.thy ===== *)
theory Machine
  imports Shard_Files Removal
begin

text \<open>
  The machine a command of the layer runs on: the state of the distributed layer (\<open>world\<close>), the local file system
  and the package variables of the encoder (\<open>local\<close>), and the file that holds the password of the encryption. The
  shard directory is part of both records; the one of \<open>world\<close> counts. Also what the commands use beside the shards:
  the resolution of paths (\<open>getAbsolutePath\<close> in \<open>dis_download.go\<close>, \<open>dis_init\<close> in \<open>dis_upload.go\<close>), the password
  (\<open>dis_password.go\<close>) and the questions to the user (\<open>dis_interaction.go\<close> and \<open>CommandDefault\<close> in
  \<open>fs/config/ui.go\<close>).
\<close>

section \<open>State\<close>

record machine =
  mc_world :: world
  mc_local :: local
  mc_password :: "string option"

definition run_local :: "'a sh \<Rightarrow> machine \<Rightarrow> 'a shard_end \<times> machine" where
  "run_local oper mc =
     (case oper ((mc_local mc)\<lparr>lf_shards := w_shards (mc_world mc)\<rparr>) of
        (ended, fs) \<Rightarrow> (ended, mc\<lparr>mc_local := fs, mc_world := (mc_world mc)\<lparr>w_shards := lf_shards fs\<rparr>\<rparr>))"

definition argument :: "string list \<Rightarrow> nat \<Rightarrow> string dis_result" where
  "argument args i = (if i < length args then Inr (args ! i) else Inl IndexPanic)"

section \<open>Paths\<close>

text \<open>\<open>filepath.Clean\<close> and \<open>filepath.Join\<close> of the Go library on slash-separated paths: the components are pushed on a
  stack, and a \<open>..\<close> takes the last one off.\<close>

fun clean_step :: "bool \<Rightarrow> string \<Rightarrow> string list \<Rightarrow> string list" where
  "clean_step rooted c stack =
     (if c = [] \<or> c = ''.'' then stack
      else if c = ''..''
      then (case stack of
              [] \<Rightarrow> if rooted then [] else [c]
            | prev # rest \<Rightarrow> if prev = ''..'' then c # stack else rest)
      else c # stack)"

declare clean_step.simps [simp del]

fun slashed :: "string list \<Rightarrow> string" where
  "slashed [] = []"
| "slashed [c] = c"
| "slashed (c # cs) = c @ ''/'' @ slashed cs"

definition IsAbs :: "string \<Rightarrow> bool" where
  "IsAbs path \<longleftrightarrow> path \<noteq> [] \<and> hd path = CHR ''/''"

definition path_Clean :: "string \<Rightarrow> string" where
  "path_Clean path =
     (let stack = fold (clean_step (IsAbs path)) (go_split (CHR ''/'') path) []
      in if IsAbs path then ''/'' @ slashed (rev stack) else if stack = [] then ''.'' else slashed (rev stack))"

definition path_Join :: "string \<Rightarrow> string \<Rightarrow> string" where
  "path_Join dir path = (if dir = [] \<and> path = [] then [] else path_Clean (if dir = [] then path else dir @ ''/'' @ path))"

definition getAbsolutePath :: "string option \<Rightarrow> string \<Rightarrow> string dis_result" where
  "getAbsolutePath cwd arg =
     (if IsAbs arg then Inr (path_Clean arg)
      else case cwd of
        None \<Rightarrow> Inl CwdFailed
      | Some cwd \<Rightarrow> Inr (path_Clean (path_Join cwd arg)))"

definition dis_init :: "shard_env \<Rightarrow> string option \<Rightarrow> string \<Rightarrow> machine \<Rightarrow> string dis_result" where
  "dis_init env cwd arg mc =
     (case getAbsolutePath cwd arg of
        Inl e \<Rightarrow> Inl e
      | Inr absolutePath \<Rightarrow>
          if lf_file (mc_local mc) absolutePath = None \<and> absolutePath \<notin> lf_dirs (mc_local mc) then Inl (NoSuchFile absolutePath)
          else if se_fails env (OsStat absolutePath) then Inl (StatFailed absolutePath)
          else Inr absolutePath)"

section \<open>The password\<close>

text \<open>\<open>base64.URLEncoding\<close> with padding.\<close>

definition b64_char :: "nat \<Rightarrow> char" where
  "b64_char n = ''ABCDEFGHIJKLMNOPQRSTUVWXYZabcdefghijklmnopqrstuvwxyz0123456789-_'' ! n"

definition b64_digit :: "nat \<Rightarrow> nat \<Rightarrow> char" where
  "b64_digit n k = b64_char (n div 64 ^ k mod 64)"

fun b64_encode :: "byte list \<Rightarrow> string" where
  "b64_encode [] = []"
| "b64_encode [a] = (let n = unat a * 65536 in [b64_digit n 3, b64_digit n 2, CHR ''='', CHR ''=''])"
| "b64_encode [a, b] = (let n = unat a * 65536 + unat b * 256 in [b64_digit n 3, b64_digit n 2, b64_digit n 1, CHR ''=''])"
| "b64_encode (a # b # c # rest) =
     (let n = unat a * 65536 + unat b * 256 + unat c
      in [b64_digit n 3, b64_digit n 2, b64_digit n 1, b64_digit n 0] @ b64_encode rest)"

text \<open>What \<open>rand.Read\<close> delivers is an argument. The slice of the encoding is in range: the encoding is longer.\<close>

definition generateRandomPassword :: "(nat \<Rightarrow> byte list option) \<Rightarrow> nat \<Rightarrow> string option" where
  "generateRandomPassword rand n = (case rand n of None \<Rightarrow> None | Some bs \<Rightarrow> Some (take n (b64_encode bs)))"

text \<open>Which calls on the password file succeed; a write that fails says what is left of the file.\<close>

record password_env =
  pe_stat :: bool
  pe_read :: bool
  pe_mkdir :: bool
  pe_rand :: "nat \<Rightarrow> byte list option"
  pe_write :: "string option option"

definition tryGetPassword :: "password_env \<Rightarrow> machine \<Rightarrow> string \<times> machine" where
  "tryGetPassword env mc =
     (case (if pe_stat env then mc_password mc else None) of
        Some data \<Rightarrow> (if pe_read env then data else [], mc)
      | None \<Rightarrow>
          if \<not> pe_mkdir env then ([], mc)
          else case generateRandomPassword (pe_rand env) 16 of
            None \<Rightarrow> ([], mc)
          | Some randomPassword \<Rightarrow>
              (case pe_write env of
                 None \<Rightarrow> (randomPassword, mc\<lparr>mc_password := Some randomPassword\<rparr>)
               | Some left \<Rightarrow> ([], mc\<lparr>mc_password := left\<rparr>)))"

section \<open>Questions to the user\<close>

text \<open>\<open>strings.TrimSpace\<close> and \<open>strings.ToLower\<close> on ASCII text.\<close>

definition is_space :: "char \<Rightarrow> bool" where
  "is_space c \<longleftrightarrow> c \<in> {CHR '' '', CHR 0x09, CHR 0x0A, CHR 0x0B, CHR 0x0C, CHR 0x0D}"

definition TrimSpace :: "string \<Rightarrow> string" where
  "TrimSpace s = rev (dropWhile is_space (rev (dropWhile is_space s)))"

definition lower :: "char \<Rightarrow> char" where
  "lower c = (let n = (of_char c :: nat) in if 65 \<le> n \<and> n \<le> 90 then char_of (n + 32) else c)"

text \<open>The lines are what the user types. When there are no more, reading fails and the process ends: no answer.\<close>

fun CommandDefault :: "string list \<Rightarrow> int \<Rightarrow> string list \<Rightarrow> (char \<times> string list) option" where
  "CommandDefault commands defaultIndex [] = None"
| "CommandDefault commands defaultIndex (line # rest) =
     (let optString = map hd commands; result = map lower (TrimSpace line)
      in case result of
           [] \<Rightarrow> if 0 \<le> defaultIndex then Some (optString ! nat defaultIndex, rest) else CommandDefault commands defaultIndex rest
         | [c] \<Rightarrow> if c \<in> set optString then Some (c, rest) else CommandDefault commands defaultIndex rest
         | _ \<Rightarrow> CommandDefault commands defaultIndex rest)"

lemma CommandDefault_shorter: "CommandDefault commands i input = Some (c, rest) \<Longrightarrow> length rest < length input"
proof (induction commands i input arbitrary: c rest rule: CommandDefault.induct)
  case (2 commands i line rest')
  then show ?case
    by (cases "map lower (TrimSpace line)" rule: remdups_adj.cases) (auto simp: Let_def split: if_splits intro: less_SucI)
qed simp

function GetUserConfirmation :: "string list \<Rightarrow> int \<Rightarrow> string list \<Rightarrow> (bool \<times> string list) option" where
  "GetUserConfirmation options defaultIndex input =
     (case CommandDefault options defaultIndex input of
        None \<Rightarrow> None
      | Some (c, rest) \<Rightarrow>
          if c = CHR ''y'' then Some (True, rest)
          else if c = CHR ''n'' then Some (False, rest)
          else GetUserConfirmation options defaultIndex rest)"
  by pat_completeness auto
termination
  by (relation "measure (\<lambda>(_, _, input). length input)") (auto simp: CommandDefault_shorter)

declare GetUserConfirmation.simps [simp del]

definition DoRemove :: "string list \<Rightarrow> (bool \<times> string list) option" where
  "DoRemove input = GetUserConfirmation [''yYes remove this file'', ''nNo keep the file''] 0 input"

definition ShowDescription_RemoveFile :: "string list \<Rightarrow> (bool \<times> string list) option" where
  "ShowDescription_RemoveFile input = DoRemove input"

section \<open>Clean paths\<close>

definition clean_part :: "string \<Rightarrow> bool" where
  "clean_part c \<longleftrightarrow> c \<noteq> [] \<and> CHR ''/'' \<notin> set c \<and> c \<noteq> ''.'' \<and> c \<noteq> ''..''"

lemma go_split_parts: "\<forall>c \<in> set (go_split sep s). sep \<notin> set c"
proof (induction s)
  case (Cons c s)
  then show ?case by (cases "go_split sep s") simp_all
qed simp

lemma clean_step_parts:
  assumes "CHR ''/'' \<notin> set c" "\<forall>c \<in> set stack. clean_part c"
  shows "\<forall>x \<in> set (clean_step True c stack). clean_part x"
proof (cases "c = [] \<or> c = ''.'' \<or> c = ''..''")
  case True
  then show ?thesis using assms(2) by (cases stack) (auto simp: clean_step.simps clean_part_def)
next
  case False
  then have "clean_step True c stack = c # stack" "clean_part c" using assms(1) by (simp_all add: clean_step.simps clean_part_def)
  then show ?thesis using assms(2) by simp
qed

lemma clean_fold:
  "\<forall>c \<in> set cs. CHR ''/'' \<notin> set c \<Longrightarrow> \<forall>c \<in> set stack. clean_part c \<Longrightarrow> \<forall>c \<in> set (fold (clean_step True) cs stack). clean_part c"
proof (induction cs arbitrary: stack)
  case (Cons c cs)
  have "CHR ''/'' \<notin> set c" using Cons.prems(1) by simp
  then have "\<forall>x \<in> set (clean_step True c stack). clean_part x"
    by (rule clean_step_parts) (rule Cons.prems(2))
  then show ?case using Cons.IH [of "clean_step True c stack"] Cons.prems by simp
qed simp

lemma clean_fold_id: "\<forall>c \<in> set cs. clean_part c \<Longrightarrow> fold (clean_step True) cs stack = rev cs @ stack"
  by (induction cs arbitrary: stack) (auto simp: clean_step.simps clean_part_def)

lemma go_split_append: "sep \<notin> set c \<Longrightarrow> go_split sep (c @ sep # s) = c # go_split sep s"
  by (induction c) auto

lemma go_split_slashed: "cs \<noteq> [] \<Longrightarrow> \<forall>c \<in> set cs. CHR ''/'' \<notin> set c \<Longrightarrow> go_split (CHR ''/'') (slashed cs) = cs"
  by (induction cs rule: slashed.induct) (simp_all add: go_split_no_sep go_split_append)

lemma path_Clean_rooted:
  assumes "IsAbs path"
  obtains cs where "path_Clean path = ''/'' @ slashed cs" "\<forall>c \<in> set cs. clean_part c"
proof -
  let ?cs = "fold (clean_step True) (go_split (CHR ''/'') path) []"
  have "\<forall>c \<in> set ?cs. clean_part c" by (rule clean_fold) (use go_split_parts in auto)
  then show ?thesis using assms by (intro that [of "rev ?cs"]) (simp_all add: path_Clean_def)
qed

lemma path_Clean_clean: "\<forall>c \<in> set cs. clean_part c \<Longrightarrow> path_Clean (''/'' @ slashed cs) = ''/'' @ slashed cs"
proof -
  assume cs: "\<forall>c \<in> set cs. clean_part c"
  have "fold (clean_step True) (go_split (CHR ''/'') (''/'' @ slashed cs)) [] = rev cs"
  proof (cases "cs = []")
    case False
    then have "go_split (CHR ''/'') (slashed cs) = cs" using cs by (intro go_split_slashed) (simp_all add: clean_part_def)
    then show ?thesis using clean_fold_id [OF cs, of "[]"] by (simp add: clean_step.simps [of _ "[]"])
  qed (simp add: clean_step.simps)
  then show ?thesis by (simp add: path_Clean_def IsAbs_def)
qed

text \<open>C38. The destination of a download and the source of an upload are resolved to a path in normal form: it is rooted,
  and none of its components is empty, \<open>.\<close> or \<open>..\<close>; cleaning it again changes nothing.\<close>

theorem getAbsolutePath_clean:
  assumes "\<forall>dir. cwd = Some dir \<longrightarrow> IsAbs dir" "getAbsolutePath cwd arg = Inr path"
  shows "\<exists>cs. path = ''/'' @ slashed cs \<and> (\<forall>c \<in> set cs. clean_part c) \<and> path_Clean path = path \<and>
    getAbsolutePath cwd path = Inr path"
proof -
  obtain q where q: "path = path_Clean q" "IsAbs q"
  proof (cases "IsAbs arg")
    case True
    then show ?thesis using assms(2) by (intro that [of arg]) (simp_all add: getAbsolutePath_def)
  next
    case False
    then obtain dir where dir: "cwd = Some dir" "IsAbs dir" "path = path_Clean (path_Join dir arg)"
      using assms by (auto simp: getAbsolutePath_def split: option.splits)
    then have "IsAbs (dir @ ''/'' @ arg)" by (simp add: IsAbs_def)
    then have "IsAbs (path_Clean (dir @ ''/'' @ arg))" by (rule path_Clean_rooted) (simp add: IsAbs_def)
    moreover have "dir \<noteq> []" using dir(2) by (auto simp: IsAbs_def)
    ultimately show ?thesis using that dir(3) by (simp add: path_Join_def)
  qed
  obtain cs where cs: "path = ''/'' @ slashed cs" "\<forall>c \<in> set cs. clean_part c"
    using path_Clean_rooted [OF q(2)] q(1) by metis
  then have "path_Clean path = path" using path_Clean_clean by blast
  moreover have "IsAbs path" using cs(1) by (simp add: IsAbs_def)
  ultimately show ?thesis using cs by (auto simp: getAbsolutePath_def)
qed

theorem getAbsolutePath_clean_witness:
  "getAbsolutePath (Some ''/home/u'') ''../v/./w//x'' = Inr ''/home/v/w/x'' \<and> path_Clean ''/home/v/w/x'' = ''/home/v/w/x''"
proof -
  have run: "getAbsolutePath (Some ''/home/u'') ''../v/./w//x'' = Inr ''/home/v/w/x''" by code_simp
  then show ?thesis using getAbsolutePath_clean [OF _ run] by (auto simp: IsAbs_def)
qed

section \<open>Passwords\<close>

lemma b64_encode_longer: "length bs \<le> length (b64_encode bs)"
  by (induction bs rule: b64_encode.induct) (simp_all add: Let_def)

definition b64_alphabet :: "char set" where
  "b64_alphabet = insert (CHR ''='') (set ''ABCDEFGHIJKLMNOPQRSTUVWXYZabcdefghijklmnopqrstuvwxyz0123456789-_'')"

lemma b64_digit_alphabet: "b64_digit n k \<in> b64_alphabet"
proof -
  have "b64_char m \<in> b64_alphabet" if "m < 64" for m
    unfolding b64_char_def b64_alphabet_def by (rule insertI2, rule nth_mem) (use that in simp)
  then show ?thesis by (simp add: b64_digit_def)
qed

lemma b64_equals: "CHR ''='' \<in> b64_alphabet"
  by (simp add: b64_alphabet_def)

lemma b64_encode_alphabet: "set (b64_encode bs) \<subseteq> b64_alphabet"
  by (induction bs rule: b64_encode.induct) (auto simp: Let_def b64_digit_alphabet b64_equals)

lemma generateRandomPassword_form:
  assumes "generateRandomPassword rand n = Some pw" "\<forall>bs. rand n = Some bs \<longrightarrow> length bs = n"
  shows "length pw = n \<and> set pw \<subseteq> b64_alphabet"
proof -
  obtain bs where "rand n = Some bs" "pw = take n (b64_encode bs)"
    using assms(1) by (auto simp: generateRandomPassword_def split: option.splits)
  then show ?thesis using assms(2) b64_encode_longer [of bs] b64_encode_alphabet [of bs] set_take_subset by fastforce
qed

text \<open>The password that files are encrypted with stays the same: a password that is not empty is the one on file, and
  every later call that can read the file returns it again and changes nothing; on a new machine it has 16 characters
  of the base64 alphabet. But a failure is not reported: when the file cannot be read, or a new one not be written,
  the password is the empty string, and what is encrypted with it is not decrypted with the password on file.\<close>

theorem password_stable:
  assumes "tryGetPassword env mc = (pw, mc')" "\<forall>bs. pe_rand env 16 = Some bs \<longrightarrow> length bs = 16"
  shows "(pw \<noteq> [] \<longrightarrow> mc_password mc' = Some pw \<and> mc_world mc' = mc_world mc \<and> mc_local mc' = mc_local mc \<and>
      (\<forall>env'. pe_stat env' \<and> pe_read env' \<longrightarrow> tryGetPassword env' mc' = (pw, mc')))
    \<and> (mc_password mc = None \<and> pw \<noteq> [] \<longrightarrow> length pw = 16 \<and> set pw \<subseteq> b64_alphabet)
    \<and> (pe_stat env \<and> \<not> pe_read env \<and> mc_password mc \<noteq> None \<longrightarrow> pw = [] \<and> mc' = mc)"
  using assms(1) generateRandomPassword_form [where rand = "pe_rand env" and n = 16] assms(2)
  by (auto simp: tryGetPassword_def split: option.splits if_splits)

theorem password_stable_witness:
  "\<exists>pw mc'. tryGetPassword \<lparr>pe_stat = True, pe_read = True, pe_mkdir = True, pe_rand = (\<lambda>n. Some (replicate n 255)), pe_write = None\<rparr>
       \<lparr>mc_world = sample_world False, mc_local = sample_local, mc_password = None\<rparr> = (pw, mc') \<and> length pw = 16 \<and> mc_password mc' = Some pw"
proof -
  let ?env = "\<lparr>pe_stat = True, pe_read = True, pe_mkdir = True, pe_rand = (\<lambda>n. Some (replicate n 255)), pe_write = None\<rparr> :: password_env"
  let ?mc = "\<lparr>mc_world = sample_world False, mc_local = sample_local, mc_password = None\<rparr>"
  obtain pw mc' where run: "tryGetPassword ?env ?mc = (pw, mc')" by fastforce
  have "length (take 16 (b64_encode (replicate 16 255))) = 16" using b64_encode_longer [of "replicate 16 255"] by simp
  then have "pw \<noteq> []" using run by (auto simp: tryGetPassword_def generateRandomPassword_def)
  then show ?thesis using password_stable [OF run] run by auto
qed

section \<open>Answers\<close>

text \<open>The question of \<open>DoRemove\<close> reads lines until one is empty, \<open>y\<close> or \<open>n\<close> up to case and space around it. An empty
  line removes the file.\<close>

lemma DoRemove_simps [simp]:
  "DoRemove [] = None"
  "DoRemove (line # rest) =
     (if TrimSpace line = [] then Some (True, rest)
      else if map lower (TrimSpace line) = ''y'' then Some (True, rest)
      else if map lower (TrimSpace line) = ''n'' then Some (False, rest)
      else DoRemove rest)"
proof -
  show "DoRemove [] = None" by (simp add: DoRemove_def GetUserConfirmation.simps)
  let ?o = "[''yYes remove this file'', ''nNo keep the file'']"
  have skip: "GetUserConfirmation ?o 0 (line # rest) = GetUserConfirmation ?o 0 rest"
    if "CommandDefault ?o 0 (line # rest) = CommandDefault ?o 0 rest"
    by (subst (1 2) GetUserConfirmation.simps) (simp only: that)
  show "DoRemove (line # rest) =
     (if TrimSpace line = [] then Some (True, rest)
      else if map lower (TrimSpace line) = ''y'' then Some (True, rest)
      else if map lower (TrimSpace line) = ''n'' then Some (False, rest)
      else DoRemove rest)"
    unfolding DoRemove_def
    by (cases "map lower (TrimSpace line)" rule: remdups_adj.cases)
      (auto simp: GetUserConfirmation.simps [of _ _ "line # rest"] GetUserConfirmation.simps [of _ _ rest, symmetric] Let_def intro: skip)
qed

end
