(* ===== verification/Worker_Pool.thy ===== *)
theory Worker_Pool
  imports Main "HOL-Library.Multiset"
begin

text \<open>
  The worker pool of the uploads and downloads (\<open>startUploadFileGoroutine_Worker\<close> in \<open>dis_upload.go\<close>,
  \<open>startDownloadFileGoroutine_Worker\<close> in \<open>dis_download.go\<close>): the main goroutine adds the workers and the jobs to
  a wait group, sends the jobs into a buffered channel, closes it and waits; every worker takes jobs
  from the channel until it is closed and empty. One step of the relation is one step of one goroutine.
  What a worker does with a job is a parameter: \<open>start\<close> gives the progress of a job that has been taken,
  \<open>work\<close> the steps on the shared state, and \<open>over\<close> says that the job is over and whether the worker
  calls \<open>wg.Done\<close> for it (the upload has a path that does not). \<open>dead\<close> says that the process has ended.
\<close>

section \<open>The pool\<close>

datatype 'p worker = Idle | Busy 'p | Stopped

text \<open>The main goroutine: workers still to start and jobs still to send, jobs still to send, waiting, returned.\<close>

datatype 'j main = Spawning nat "'j list" | Sending "'j list" | Waiting | Returned

text \<open>\<open>p_over\<close> records the jobs that are over; nothing depends on it.\<close>

record ('j, 'p, 's) pool =
  p_main :: "'j main"
  p_queue :: "'j list"
  p_workers :: "'p worker list"
  p_wg :: int
  p_over :: "'p list"
  p_state :: 's

definition pool_start :: "nat \<Rightarrow> 'j list \<Rightarrow> 's \<Rightarrow> ('j, 'p, 's) pool" where
  "pool_start workerCount jobs s =
     \<lparr> p_main = Spawning workerCount jobs, p_queue = [], p_workers = [], p_wg = 0, p_over = [], p_state = s \<rparr>"

inductive pool_step ::
  "('j \<Rightarrow> 'p) \<Rightarrow> ('p \<Rightarrow> 's \<Rightarrow> 'p \<Rightarrow> 's \<Rightarrow> bool) \<Rightarrow> ('p \<Rightarrow> bool option) \<Rightarrow> ('s \<Rightarrow> bool)
     \<Rightarrow> ('j, 'p, 's) pool \<Rightarrow> ('j, 'p, 's) pool \<Rightarrow> bool"
  for start work over dead where
  spawn: "\<not> dead (p_state c) \<Longrightarrow> p_main c = Spawning (Suc n) jobs \<Longrightarrow>
    pool_step start work over dead c
      (c\<lparr>p_main := Spawning n jobs, p_workers := p_workers c @ [Idle], p_wg := p_wg c + 1\<rparr>)"
| spawned: "\<not> dead (p_state c) \<Longrightarrow> p_main c = Spawning 0 jobs \<Longrightarrow>
    pool_step start work over dead c (c\<lparr>p_main := Sending jobs\<rparr>)"
| send: "\<not> dead (p_state c) \<Longrightarrow> p_main c = Sending (j # jobs) \<Longrightarrow>
    pool_step start work over dead c (c\<lparr>p_main := Sending jobs, p_queue := p_queue c @ [j], p_wg := p_wg c + 1\<rparr>)"
| close: "\<not> dead (p_state c) \<Longrightarrow> p_main c = Sending [] \<Longrightarrow>
    pool_step start work over dead c (c\<lparr>p_main := Waiting\<rparr>)"
| wait: "\<not> dead (p_state c) \<Longrightarrow> p_main c = Waiting \<Longrightarrow> p_wg c = 0 \<Longrightarrow>
    pool_step start work over dead c (c\<lparr>p_main := Returned\<rparr>)"
| take: "\<not> dead (p_state c) \<Longrightarrow> i < length (p_workers c) \<Longrightarrow> p_workers c ! i = Idle \<Longrightarrow> p_queue c = j # q \<Longrightarrow>
    pool_step start work over dead c (c\<lparr>p_workers := (p_workers c)[i := Busy (start j)], p_queue := q\<rparr>)"
| work: "\<not> dead (p_state c) \<Longrightarrow> i < length (p_workers c) \<Longrightarrow> p_workers c ! i = Busy p \<Longrightarrow> over p = None \<Longrightarrow>
    work p (p_state c) p' s' \<Longrightarrow>
    pool_step start work over dead c (c\<lparr>p_workers := (p_workers c)[i := Busy p'], p_state := s'\<rparr>)"
| finish: "\<not> dead (p_state c) \<Longrightarrow> i < length (p_workers c) \<Longrightarrow> p_workers c ! i = Busy p \<Longrightarrow> over p = Some called \<Longrightarrow>
    pool_step start work over dead c
      (c\<lparr>p_workers := (p_workers c)[i := Idle], p_over := p # p_over c, p_wg := (if called then p_wg c - 1 else p_wg c)\<rparr>)"
| stop: "\<not> dead (p_state c) \<Longrightarrow> i < length (p_workers c) \<Longrightarrow> p_workers c ! i = Idle \<Longrightarrow> p_queue c = [] \<Longrightarrow>
    p_main c = Waiting \<or> p_main c = Returned \<Longrightarrow>
    pool_step start work over dead c (c\<lparr>p_workers := (p_workers c)[i := Stopped], p_wg := p_wg c - 1\<rparr>)"

definition pool_reach where
  "pool_reach start work over dead n jobs s c \<longleftrightarrow> (pool_step start work over dead)\<^sup>*\<^sup>* (pool_start n jobs s) c"

text \<open>More ways to do the work give more runs.\<close>

lemma pool_reach_mono:
  assumes "pool_reach start work over dead n jobs s c" "\<And>p s p' s'. work p s p' s' \<Longrightarrow> work' p s p' s'"
  shows "pool_reach start work' over dead n jobs s c"
proof -
  have "pool_step start work' over dead c c'" if "pool_step start work over dead c c'" for c c'
    using that
  proof cases
    case (work i p p' s')
    then show ?thesis unfolding work(1) by (intro pool_step.work) (rule assms(2) | assumption)+
  next
    case (finish i p called)
    then show ?thesis unfolding finish(1) by (intro pool_step.finish)
  qed (auto intro: pool_step.intros)
  then have "pool_step start work over dead \<le> pool_step start work' over dead" by blast
  then show ?thesis using assms(1) unfolding pool_reach_def by (blast dest: rtranclp_mono)
qed

section \<open>The wait group\<close>

definition busy :: "'p worker list \<Rightarrow> 'p list" where
  "busy ws = concat (map (\<lambda>w. case w of Busy p \<Rightarrow> [p] | _ \<Rightarrow> []) ws)"

definition alive :: "'p worker list \<Rightarrow> nat" where
  "alive ws = length (filter (\<lambda>w. w \<noteq> Stopped) ws)"

lemma worker_lists [simp]:
  "busy [] = []" "busy (Busy p # ws) = p # busy ws" "busy (Idle # ws) = busy ws" "busy (Stopped # ws) = busy ws"
  "busy (us @ ws) = busy us @ busy ws"
  "alive [] = 0" "alive (w # ws) = (if w = Stopped then alive ws else Suc (alive ws))" "alive (us @ ws) = alive us + alive ws"
  by (simp_all add: busy_def alive_def)

lemma worker_update:
  assumes "i < length ws" "ws ! i = w"
  shows "\<exists>us vs. ws = us @ w # vs \<and> (\<forall>x. ws[i := x] = us @ x # vs)"
  using id_take_nth_drop [OF assms(1)] upd_conv_take_nth_drop [OF assms(1)] assms(2) by metis

text \<open>The jobs that are over without a call of \<open>wg.Done\<close>.\<close>

definition leaked :: "('p \<Rightarrow> bool option) \<Rightarrow> ('j, 'p, 's) pool \<Rightarrow> nat" where
  "leaked over c = length (filter (\<lambda>p. over p = Some False) (p_over c))"

definition unsent :: "('j, 'p, 's) pool \<Rightarrow> 'j list" where
  "unsent c = (case p_main c of Spawning _ js \<Rightarrow> js | Sending js \<Rightarrow> js | _ \<Rightarrow> [])"

definition wg_inv :: "('p \<Rightarrow> bool option) \<Rightarrow> ('j, 'p, 's) pool \<Rightarrow> bool" where
  "wg_inv over c \<longleftrightarrow> p_wg c = int (alive (p_workers c) + length (p_queue c) + length (busy (p_workers c)) + leaked over c)
     \<and> (p_main c = Returned \<longrightarrow> p_wg c = 0)"

lemma wg_inv_step:
  assumes "pool_step start work over dead c c'" "wg_inv over c"
  shows "wg_inv over c'"
  using assms
proof cases
  case (take i j q)
  then show ?thesis using assms(2) worker_update [OF take(3,4)] by (auto simp: wg_inv_def leaked_def)
next
  case (work i p p' s')
  then show ?thesis using assms(2) worker_update [OF work(3,4)] by (auto simp: wg_inv_def leaked_def)
next
  case (finish i p called)
  then show ?thesis using assms(2) worker_update [OF finish(3,4)] by (auto simp: wg_inv_def leaked_def)
next
  case (stop i)
  then show ?thesis using assms(2) worker_update [OF stop(3,4)] by (auto simp: wg_inv_def leaked_def)
qed (auto simp: wg_inv_def leaked_def)

lemma wg_inv_reach: "pool_reach start work over dead n jobs s c \<Longrightarrow> wg_inv over c"
  unfolding pool_reach_def
proof (induction rule: rtranclp_induct)
  case base
  show ?case by (simp add: wg_inv_def pool_start_def leaked_def)
next
  case (step c c')
  then show ?case by (blast intro: wg_inv_step)
qed

text \<open>The wait group never goes below zero, and the main goroutine returns only when every job is over, every
  worker has stopped and no job has been leaked.\<close>

lemma pool_returned:
  assumes "pool_reach start work over dead n jobs s c" "p_main c = Returned"
  shows "alive (p_workers c) = 0" "p_queue c = []" "busy (p_workers c) = []" "leaked over c = 0"
proof -
  have "int (alive (p_workers c) + length (p_queue c) + length (busy (p_workers c)) + leaked over c) = 0"
    using wg_inv_reach [OF assms(1)] assms(2) unfolding wg_inv_def by metis
  then have "alive (p_workers c) + length (p_queue c) + length (busy (p_workers c)) + leaked over c = 0" by linarith
  then show "alive (p_workers c) = 0" "p_queue c = []" "busy (p_workers c) = []" "leaked over c = 0" by simp_all
qed

lemma pool_wg_nonneg: "pool_reach start work over dead n jobs s c \<Longrightarrow> 0 \<le> p_wg c"
  using wg_inv_reach by (fastforce simp: wg_inv_def)

lemma over_reach:
  assumes "pool_reach start work over dead n jobs s c"
  shows "\<forall>p \<in> set (p_over c). over p \<noteq> None"
  using assms unfolding pool_reach_def
proof (induction rule: rtranclp_induct)
  case base
  show ?case by (simp add: pool_start_def)
next
  case (step c c')
  show ?case using step(2,3) by cases auto
qed

text \<open>No job is lost, and what holds of a started job and is kept by its steps holds of all of them.\<close>

lemma jobs_conserved:
  assumes "pool_reach start work over dead n jobs s c"
  shows "length (unsent c) + length (p_queue c) + length (busy (p_workers c)) + length (p_over c) = length jobs"
  using assms unfolding pool_reach_def
proof (induction rule: rtranclp_induct)
  case base
  show ?case by (simp add: pool_start_def unsent_def)
next
  case (step c c')
  show ?case using step(2)
  proof cases
    case (take i j q)
    then show ?thesis using step(3) worker_update [OF take(3,4)] by (auto simp: unsent_def)
  next
    case (work i p p' s')
    then show ?thesis using step(3) worker_update [OF work(3,4)] by (auto simp: unsent_def)
  next
    case (finish i p called)
    then show ?thesis using step(3) worker_update [OF finish(3,4)] by (auto simp: unsent_def)
  next
    case (stop i)
    then show ?thesis using step(3) worker_update [OF stop(3,4)] by (auto simp: unsent_def)
  qed (use step(3) in \<open>auto simp: unsent_def\<close>)
qed

lemma all_jobs:
  assumes "pool_reach start work over dead n jobs s c" "\<And>j. P (start j)" "Q s"
    and "\<And>p s p' s'. work p s p' s' \<Longrightarrow> P p \<Longrightarrow> Q s \<Longrightarrow> P p' \<and> Q s'"
  shows "(\<forall>p \<in> set (busy (p_workers c)) \<union> set (p_over c). P p) \<and> Q (p_state c)"
  using assms(1) unfolding pool_reach_def
proof (induction rule: rtranclp_induct)
  case base
  show ?case using assms(3) by (simp add: pool_start_def)
next
  case (step c c')
  show ?case using step(2)
  proof cases
    case (take i j q)
    then show ?thesis using step(3) worker_update [OF take(3,4)] assms(2) by auto
  next
    case (work i p p' s')
    obtain us vs where "p_workers c = us @ Busy p # vs" "(p_workers c)[i := Busy p'] = us @ Busy p' # vs"
      using worker_update [OF work(3,4)] by blast
    then show ?thesis using work step(3) assms(4) [OF work(6)] by auto
  next
    case (finish i p called)
    then show ?thesis using step(3) worker_update [OF finish(3,4)] by auto
  next
    case (stop i)
    then show ?thesis using step(3) worker_update [OF stop(3,4)] by auto
  qed (use step(3) in auto)
qed

text \<open>A worker stops only once everything has been sent and taken, and there are as many workers as asked for.\<close>

definition stop_inv :: "nat \<Rightarrow> ('j, 'p, 's) pool \<Rightarrow> bool" where
  "stop_inv n c \<longleftrightarrow>
     (case p_main c of
        Spawning m js \<Rightarrow> length (p_workers c) + m = n \<and> Stopped \<notin> set (p_workers c)
      | Sending js \<Rightarrow> length (p_workers c) = n \<and> Stopped \<notin> set (p_workers c)
      | _ \<Rightarrow> length (p_workers c) = n \<and> (Stopped \<in> set (p_workers c) \<longrightarrow> p_queue c = []))"

lemma stop_inv_step:
  assumes "pool_step start work over dead c c'" "stop_inv n c"
  shows "stop_inv n c'"
  using assms
proof cases
  case (take i j q)
  then show ?thesis using assms(2) worker_update [OF take(3,4)] by (auto simp: stop_inv_def split: main.splits)
next
  case (work i p p' s')
  then show ?thesis using assms(2) worker_update [OF work(3,4)] by (auto simp: stop_inv_def split: main.splits)
next
  case (finish i p called)
  then show ?thesis using assms(2) worker_update [OF finish(3,4)] by (auto simp: stop_inv_def split: main.splits)
qed (auto simp: stop_inv_def split: main.splits)

lemma stop_inv_reach: "pool_reach start work over dead n jobs s c \<Longrightarrow> stop_inv n c"
  unfolding pool_reach_def
proof (induction rule: rtranclp_induct)
  case base
  show ?case by (simp add: stop_inv_def pool_start_def)
next
  case (step c c')
  then show ?case by (blast intro: stop_inv_step)
qed

lemma all_stopped: "set ws \<subseteq> {Stopped} \<Longrightarrow> busy ws = [] \<and> alive ws = 0"
  by (induction ws) auto

section \<open>Jobs\<close>

text \<open>Every job is in one place: not sent, in the channel, with a worker, or over.\<close>

definition places :: "('j \<Rightarrow> 'k) \<Rightarrow> ('p \<Rightarrow> 'k) \<Rightarrow> ('j, 'p, 's) pool \<Rightarrow> 'k multiset" where
  "places jkey pkey c = mset (map jkey (unsent c)) + mset (map jkey (p_queue c))
     + mset (map pkey (busy (p_workers c))) + mset (map pkey (p_over c))"

text \<open>What a client of the pool proves about its jobs: a job that has not been started is \<open>fresh\<close>, the
  progress of a started job is \<open>fine\<close>, its own steps keep it so, and the steps of jobs with another key do
  not disturb it. A step lowers the rank of the progress, and there is a step until the job is over.\<close>

locale pool_client =
  fixes start :: "'j \<Rightarrow> 'p" and work :: "'p \<Rightarrow> 's \<Rightarrow> 'p \<Rightarrow> 's \<Rightarrow> bool" and over :: "'p \<Rightarrow> bool option" and dead :: "'s \<Rightarrow> bool"
    and jkey :: "'j \<Rightarrow> 'k" and pkey :: "'p \<Rightarrow> 'k" and rank :: "'p \<Rightarrow> nat"
    and fresh :: "'j \<Rightarrow> 's \<Rightarrow> bool" and fine :: "'p \<Rightarrow> 's \<Rightarrow> bool"
  assumes start_key: "pkey (start j) = jkey j"
    and work_key: "work p s p' s' \<Longrightarrow> pkey p' = pkey p"
    and start_fine: "fresh j s \<Longrightarrow> fine (start j) s"
    and work_fine: "work p s p' s' \<Longrightarrow> fine p s \<Longrightarrow> fine p' s'"
    and fresh_frame: "work p s p' s' \<Longrightarrow> fine p s \<Longrightarrow> pkey p \<noteq> jkey j \<Longrightarrow> fresh j s \<Longrightarrow> fresh j s'"
    and fine_frame: "work p s p' s' \<Longrightarrow> fine p s \<Longrightarrow> pkey p \<noteq> pkey q \<Longrightarrow> fine q s \<Longrightarrow> fine q s'"
    and work_rank: "work p s p' s' \<Longrightarrow> rank p' < rank p"
    and progress: "over p = None \<Longrightarrow> \<exists>p' s'. work p s p' s'"
begin

definition client_inv :: "'k multiset \<Rightarrow> ('j, 'p, 's) pool \<Rightarrow> bool" where
  "client_inv ks c \<longleftrightarrow> places jkey pkey c = ks
     \<and> (\<forall>j \<in> set (unsent c) \<union> set (p_queue c). fresh j (p_state c))
     \<and> (\<forall>p \<in> set (busy (p_workers c)) \<union> set (p_over c). fine p (p_state c))"

lemma client_inv_start:
  "(\<forall>j \<in> set jobs. fresh j s) \<Longrightarrow> client_inv (mset (map jkey jobs)) (pool_start n jobs s)"
  by (simp add: client_inv_def places_def pool_start_def unsent_def)

lemma other_keys:
  assumes "\<forall>k. count (places jkey pkey c) k \<le> 1" "p_workers c = us @ Busy p # vs"
  shows "\<forall>j \<in> set (unsent c) \<union> set (p_queue c). pkey p \<noteq> jkey j"
    and "\<forall>q \<in> set (busy us) \<union> set (busy vs) \<union> set (p_over c). pkey p \<noteq> pkey q"
proof -
  have "count (mset (map jkey (unsent c)) + mset (map jkey (p_queue c)) + mset (map pkey (busy us)) + mset (map pkey (busy vs))
      + mset (map pkey (p_over c))) (pkey p) = 0"
    using assms(1) [rule_format, of "pkey p"] by (simp add: places_def assms(2))
  then show "\<forall>j \<in> set (unsent c) \<union> set (p_queue c). pkey p \<noteq> jkey j"
    "\<forall>q \<in> set (busy us) \<union> set (busy vs) \<union> set (p_over c). pkey p \<noteq> pkey q"
    by (auto simp: count_eq_zero_iff)
qed

lemma client_inv_work:
  assumes "client_inv ks c" "\<forall>k. count ks k \<le> 1" "p_workers c = us @ Busy p # vs" "work p (p_state c) p' s'"
  shows "client_inv ks (c\<lparr>p_workers := us @ Busy p' # vs, p_state := s'\<rparr>)"
proof -
  have places: "places jkey pkey c = ks" using assms(1) by (simp add: client_inv_def)
  note others = other_keys [OF assms(2) [folded places] assms(3)]
  have p: "fine p (p_state c)" using assms(1,3) by (simp add: client_inv_def)
  have "fresh j s'" if "j \<in> set (unsent c) \<union> set (p_queue c)" for j
    using fresh_frame [OF assms(4) p] others(1) that assms(1) by (auto simp: client_inv_def)
  moreover have "fine q s'" if "q \<in> set (busy us) \<union> set (busy vs) \<union> set (p_over c)" for q
    using fine_frame [OF assms(4) p] others(2) that assms(1,3) by (auto simp: client_inv_def)
  moreover have "places jkey pkey (c\<lparr>p_workers := us @ Busy p' # vs, p_state := s'\<rparr>) = ks"
    using places assms(3) work_key [OF assms(4)] by (simp add: places_def unsent_def)
  ultimately show ?thesis using work_fine [OF assms(4) p] by (auto simp: client_inv_def unsent_def)
qed

lemma client_inv_step:
  assumes "pool_step start work over dead c c'" "client_inv ks c" "\<forall>k. count ks k \<le> 1"
  shows "client_inv ks c'"
  using assms(1)
proof cases
  case (take i j q)
  obtain us vs where "p_workers c = us @ Idle # vs" "\<And>x. (p_workers c)[i := x] = us @ x # vs"
    using worker_update [OF take(3,4)] by blast
  then show ?thesis
    using assms(2) take by (auto simp: client_inv_def places_def unsent_def start_key intro: start_fine)
next
  case (work i p p' s')
  obtain us vs where "p_workers c = us @ Busy p # vs" "\<And>x. (p_workers c)[i := x] = us @ x # vs"
    using worker_update [OF work(3,4)] by blast
  then show ?thesis using client_inv_work [OF assms(2,3)] work by simp
next
  case (finish i p called)
  obtain us vs where "p_workers c = us @ Busy p # vs" "\<And>x. (p_workers c)[i := x] = us @ x # vs"
    using worker_update [OF finish(3,4)] by blast
  then show ?thesis using assms(2) finish by (auto simp: client_inv_def places_def unsent_def)
next
  case (stop i)
  obtain us vs where "p_workers c = us @ Idle # vs" "\<And>x. (p_workers c)[i := x] = us @ x # vs"
    using worker_update [OF stop(3,4)] by blast
  then show ?thesis using assms(2) stop by (auto simp: client_inv_def places_def unsent_def)
qed (use assms(2) in \<open>auto simp: client_inv_def places_def unsent_def\<close>)

lemma client_inv_reach:
  assumes "pool_reach start work over dead n jobs s c" "\<forall>j \<in> set jobs. fresh j s" "distinct (map jkey jobs)"
  shows "client_inv (mset (map jkey jobs)) c"
  using assms(1) unfolding pool_reach_def
proof (induction rule: rtranclp_induct)
  case base
  show ?case using assms(2) by (rule client_inv_start)
next
  case (step c c')
  have "\<forall>k. count (mset (map jkey jobs)) k \<le> 1" using assms(3) by (simp add: distinct_count_atmost_1)
  then show ?case using client_inv_step [OF step(2,3)] by blast
qed

text \<open>When the pool returns, every job is over, each once, and its final progress is fine.\<close>

lemma returned_jobs:
  assumes "pool_reach start work over dead n jobs s c" "\<forall>j \<in> set jobs. fresh j s" "distinct (map jkey jobs)"
    and "p_main c = Returned"
  shows "mset (map pkey (p_over c)) = mset (map jkey jobs)" "\<forall>p \<in> set (p_over c). fine p (p_state c)"
proof -
  have "client_inv (mset (map jkey jobs)) c" using assms(1-3) by (rule client_inv_reach)
  then show "mset (map pkey (p_over c)) = mset (map jkey jobs)" "\<forall>p \<in> set (p_over c). fine p (p_state c)"
    using pool_returned(2,3) [OF assms(1,4)] assms(4) by (auto simp: client_inv_def places_def unsent_def)
qed

text \<open>Every run ends: a step lowers this measure.\<close>

definition measure_of :: "('j, 'p, 's) pool \<Rightarrow> nat" where
  "measure_of c =
     (case p_main c of Spawning n js \<Rightarrow> 2 * n + 3 | Sending js \<Rightarrow> 2 | Waiting \<Rightarrow> 1 | Returned \<Rightarrow> 0)
     + sum_list (map (\<lambda>j. rank (start j) + 3) (unsent c)) + sum_list (map (\<lambda>j. rank (start j) + 2) (p_queue c))
     + sum_list (map (\<lambda>p. rank p + 1) (busy (p_workers c))) + alive (p_workers c)"

lemma measure_step:
  assumes "pool_step start work over dead c c'"
  shows "measure_of c' < measure_of c"
  using assms
proof cases
  case (take i j q)
  obtain us vs where "p_workers c = us @ Idle # vs" "\<And>x. (p_workers c)[i := x] = us @ x # vs"
    using worker_update [OF take(3,4)] by blast
  then show ?thesis using take by (auto simp: measure_of_def unsent_def)
next
  case (work i p p' s')
  obtain us vs where "p_workers c = us @ Busy p # vs" "\<And>x. (p_workers c)[i := x] = us @ x # vs"
    using worker_update [OF work(3,4)] by blast
  then show ?thesis using work work_rank [OF work(6)] by (auto simp: measure_of_def unsent_def)
next
  case (finish i p called)
  obtain us vs where "p_workers c = us @ Busy p # vs" "\<And>x. (p_workers c)[i := x] = us @ x # vs"
    using worker_update [OF finish(3,4)] by blast
  then show ?thesis using finish by (auto simp: measure_of_def unsent_def)
next
  case (stop i)
  obtain us vs where "p_workers c = us @ Idle # vs" "\<And>x. (p_workers c)[i := x] = us @ x # vs"
    using worker_update [OF stop(3,4)] by blast
  then show ?thesis using stop by (auto simp: measure_of_def unsent_def)
qed (auto simp: measure_of_def unsent_def)

lemma runs_end: "wfp (\<lambda>c' c. pool_step start work over dead c c')"
proof -
  have "wf {(c', c). pool_step start work over dead c c'}"
    by (rule wf_subset [OF wf_measure [of measure_of]]) (auto dest: measure_step)
  then show ?thesis by (simp add: wfp_def)
qed

lemma final_exists: "\<exists>c. pool_reach start work over dead n jobs s c \<and> (\<nexists>c'. pool_step start work over dead c c')"
proof -
  let ?reach = "pool_reach start work over dead n jobs s"
  have wf: "wf (measure measure_of)" by simp
  have "?reach (pool_start n jobs s)" by (simp add: pool_reach_def)
  then have "pool_start n jobs s \<in> Collect ?reach" by simp
  from wfE_min [OF wf this] obtain c where c: "?reach c" "\<And>c'. measure_of c' < measure_of c \<Longrightarrow> \<not> ?reach c'"
    by auto
  have "?reach c'" if "pool_step start work over dead c c'" for c'
    using c(1) that unfolding pool_reach_def by (rule rtranclp.rtrancl_into_rtrancl)
  then show ?thesis using c measure_step by blast
qed

text \<open>A pool that can go no further although the process is alive has stopped all its workers; it has
  returned or, when a job has been leaked, waits for ever.\<close>

lemma step_exists:
  assumes "\<not> dead (p_state c)" "w \<in> set (p_workers c)" "w \<noteq> Stopped" "p_main c = Waiting \<or> p_main c = Returned"
  shows "\<exists>c'. pool_step start work over dead c c'"
proof -
  obtain i where i: "i < length (p_workers c)" "p_workers c ! i = w" using assms(2) by (auto simp: in_set_conv_nth)
  show ?thesis
  proof (cases w)
    case Idle
    then show ?thesis
      using assms(1,4) i by (cases "p_queue c") (blast intro: pool_step.take pool_step.stop)+
  next
    case (Busy p)
    then show ?thesis
      using assms(1) i progress [of p] by (cases "over p") (blast intro: pool_step.work pool_step.finish)+
  qed (use assms(3) in simp)
qed

lemma final_state:
  assumes reach: "pool_reach start work over dead n jobs s c" and stuck: "\<nexists>c'. pool_step start work over dead c c'"
    and alive: "\<not> dead (p_state c)" and workers: "0 < n"
  shows "p_queue c = [] \<and> busy (p_workers c) = [] \<and> unsent c = []
     \<and> p_main c = (if leaked over c = 0 then Returned else Waiting)"
proof -
  have main: "p_main c = Waiting \<or> p_main c = Returned"
  proof (cases "p_main c")
    case (Spawning m js)
    then show ?thesis using stuck alive by (cases m) (blast intro: pool_step.spawn pool_step.spawned)+
  next
    case (Sending js)
    then show ?thesis using stuck alive by (cases js) (blast intro: pool_step.send pool_step.close)+
  qed simp_all
  then have "set (p_workers c) \<subseteq> {Stopped}" using step_exists [OF alive] stuck by blast
  moreover have "length (p_workers c) = n" "Stopped \<in> set (p_workers c) \<Longrightarrow> p_queue c = []"
    using stop_inv_reach [OF reach] main by (auto simp: stop_inv_def)
  moreover have "p_workers c \<noteq> []" using workers calculation(2) by auto
  ultimately have ends: "p_queue c = []" "busy (p_workers c) = []" "alive (p_workers c) = 0"
    using all_stopped [of "p_workers c"] by (auto simp: neq_Nil_conv)
  then have wg: "p_wg c = int (leaked over c)" "p_main c = Returned \<Longrightarrow> p_wg c = 0"
    using wg_inv_reach [OF reach] by (simp_all add: wg_inv_def)
  have "p_main c \<noteq> Waiting" if "leaked over c = 0"
    using stuck alive wg(1) that by (metis pool_step.wait of_nat_0)
  then have "p_main c = (if leaked over c = 0 then Returned else Waiting)" using main wg by auto
  then show ?thesis using ends main by (auto simp: unsent_def)
qed

end

end
