(* ===== verification/Upload.thy ===== *)
theory Upload
  imports Removal Worker_Pool
begin

text \<open>
  \<open>fs/dis_operations/dis_upload.go\<close>: the upload of the shards of a file by a pool of workers. A worker takes
  a shard through the phases of the source: choose a remote (under the lock), look at the shard file and
  copy it to the remote, record the copy in the data map and the statistics (under the lock), erase the
  shard file. One phase is one step of the pool; what it finds in the environment is an argument
  (\<open>up_out\<close>). An error of a phase is appended to the list of errors in the same step: the list is read only
  when all workers are done. A throughput is a rational number.
\<close>

section \<open>State and environment\<close>

record up_state =
  us_world :: world
  us_errs :: nat
  us_total :: rat
  us_count :: nat
  us_exit :: "nat option"

text \<open>What is fixed for one upload: the name of the file, the hashed names of its shards, the strategy, the
  configured remotes.\<close>

record up_conf =
  uc_file :: string
  uc_hashes :: "(string \<times> string) list"
  uc_lb :: LoadBalancerType
  uc_remotes :: "Remote list"

record up_out =
  uo_lb :: lb_env
  uo_copy :: call_end
  uo_speed :: rat
  uo_mark :: "FilesMap write_end"
  uo_created :: lb_end
  uo_stats :: lb_end
  uo_removed :: bool

datatype up_phase =
    UAlloc DistributedFile
  | UCopy DistributedFile
  | URecord DistributedFile rat
  | UErase DistributedFile
  | UOver DistributedFile bool

definition hashed :: "up_conf \<Rightarrow> DistributedFile \<Rightarrow> string" where
  "hashed conf shardInfo = (case map_of (uc_hashes conf) (df_DistributedFile shardInfo) of Some h \<Rightarrow> h | None \<Rightarrow> [])"

section \<open>Phases\<close>

text \<open>\<open>reedsolomon.DeleteShardWithFileNames\<close>: a file that cannot be removed is reported and skipped.\<close>

definition DeleteShardWithFileNames :: "(string \<Rightarrow> bool) \<Rightarrow> string list \<Rightarrow> shard_dir \<Rightarrow> shard_dir" where
  "DeleteShardWithFileNames removed fileNames dir =
     fold (\<lambda>fileName dir. if dir fileName \<noteq> None \<and> removed fileName then dir(fileName := None) else dir) fileNames dir"

text \<open>The worker leaves the job without \<open>wg.Done\<close> when no remote is allocated. A panic ends the process (code 2).\<close>

definition up_allocate :: "up_conf \<Rightarrow> up_out \<Rightarrow> DistributedFile \<Rightarrow> up_state \<Rightarrow> up_phase \<times> up_state" where
  "up_allocate conf out shardInfo st =
     (let w = us_world st;
          (res, lb) = AllocateRemote ((uo_lb out)\<lparr>le_remotes := uc_remotes conf\<rparr>) (uc_lb conf) shardInfo (w_lb w);
          st = st\<lparr>us_world := w\<lparr>w_lb := lb\<rparr>\<rparr>
      in case res of
           Inr shardInfo \<Rightarrow> (UCopy shardInfo, st)
         | Inl e \<Rightarrow>
             if e = NilPanic \<or> e = IndexPanic then (UOver shardInfo False, st\<lparr>us_exit := Some 2\<rparr>)
             else (UOver shardInfo False, st\<lparr>us_errs := us_errs st + 1\<rparr>))"

definition remoteCallCopy :: "call_end \<Rightarrow> string \<times> string \<Rightarrow> bytes \<Rightarrow> world \<Rightarrow> world" where
  "remoteCallCopy ending dest content w =
     (if ending = Did then w\<lparr>w_cloud := (w_cloud w)(dest \<mapsto> content)\<rparr> else w)"

text \<open>The first part of \<open>uploadFile\<close>, up to the copy. An error is appended there and again by the worker.\<close>

definition up_copy :: "up_conf \<Rightarrow> up_out \<Rightarrow> DistributedFile \<Rightarrow> up_state \<Rightarrow> up_phase \<times> up_state" where
  "up_copy conf out shardInfo st =
     (let w = us_world st; source = hashed conf shardInfo
      in case w_shards w source of
           None \<Rightarrow> (UOver shardInfo True, st\<lparr>us_errs := us_errs st + 2\<rparr>)
         | Some content \<Rightarrow>
             let st = st\<lparr>us_world := remoteCallCopy (uo_copy out) (Remote_Name (df_Remote shardInfo), source) content w\<rparr>
             in case uo_copy out of
                  CallError \<Rightarrow> (UOver shardInfo True, st\<lparr>us_errs := us_errs st + 2\<rparr>)
                | Ended code \<Rightarrow> (UOver shardInfo True, st\<lparr>us_exit := Some code\<rparr>)
                | _ \<Rightarrow> (URecord shardInfo (uo_speed out),
                         st\<lparr>us_total := us_total st + uo_speed out, us_count := us_count st + 1\<rparr>))"

definition updateRemoteInfo_Up ::
  "up_out \<Rightarrow> string \<Rightarrow> DistributedFile \<Rightarrow> rat \<Rightarrow> world \<Rightarrow> unit dis_result \<times> world" where
  "updateRemoteInfo_Up out originalFileName shardInfo throughputKbps w =
     (case UpdateDistributedFile_CheckFlagAndRemote (uo_mark out) originalFileName (df_DistributedFile shardInfo) True
             (df_Remote shardInfo) (w_datamap w) of
        (Inl e, dm) \<Rightarrow> (Inl e, w\<lparr>w_datamap := dm\<rparr>)
      | (Inr _, dm) \<Rightarrow>
          (case UpdateRemoteInfo (uo_created out) (uo_stats out) (df_Remote shardInfo) (UpdateThroughput throughputKbps Upload)
                  (lb_json (w_lb w)) of
             (res, lb) \<Rightarrow> (res, w\<lparr>w_datamap := dm, w_lb := (w_lb w)\<lparr>lb_json := lb\<rparr>\<rparr>)))"

definition up_record :: "up_conf \<Rightarrow> up_out \<Rightarrow> DistributedFile \<Rightarrow> rat \<Rightarrow> up_state \<Rightarrow> up_phase \<times> up_state" where
  "up_record conf out shardInfo throughputKbps st =
     (case updateRemoteInfo_Up out (uc_file conf) shardInfo throughputKbps (us_world st) of
        (Inl e, w) \<Rightarrow> (UOver shardInfo True, st\<lparr>us_world := w, us_errs := us_errs st + 1\<rparr>)
      | (Inr _, w) \<Rightarrow> (UErase shardInfo, st\<lparr>us_world := w\<rparr>))"

definition up_erase :: "up_conf \<Rightarrow> up_out \<Rightarrow> DistributedFile \<Rightarrow> up_state \<Rightarrow> up_phase \<times> up_state" where
  "up_erase conf out shardInfo st =
     (let w = us_world st
      in (UOver shardInfo True,
          st\<lparr>us_world := w\<lparr>w_shards := DeleteShardWithFileNames (\<lambda>_. uo_removed out) [hashed conf shardInfo] (w_shards w)\<rparr>\<rparr>))"

text \<open>One phase of a job, and \<open>uploadFile\<close> as the source composes it from the last three.\<close>

fun up_do :: "up_conf \<Rightarrow> up_out \<Rightarrow> up_phase \<Rightarrow> up_state \<Rightarrow> up_phase \<times> up_state" where
  "up_do conf out (UAlloc df) st = up_allocate conf out df st"
| "up_do conf out (UCopy df) st = up_copy conf out df st"
| "up_do conf out (URecord df speed) st = up_record conf out df speed st"
| "up_do conf out (UErase df) st = up_erase conf out df st"
| "up_do conf out (UOver df called) st = (UOver df called, st)"

definition uploadFile :: "up_conf \<Rightarrow> up_out \<Rightarrow> DistributedFile \<Rightarrow> up_state \<Rightarrow> up_phase \<times> up_state" where
  "uploadFile conf out shardInfo st =
     (let (p, st) = up_copy conf out shardInfo st; (p, st) = up_do conf out p st in up_do conf out p st)"

section \<open>The pool\<close>

fun up_over :: "up_phase \<Rightarrow> bool option" where
  "up_over (UOver _ called) = Some called"
| "up_over _ = None"

definition up_dead :: "up_state \<Rightarrow> bool" where
  "up_dead st \<longleftrightarrow> us_exit st \<noteq> None"

fun up_df :: "up_phase \<Rightarrow> DistributedFile" where
  "up_df (UAlloc df) = df"
| "up_df (UCopy df) = df"
| "up_df (URecord df _) = df"
| "up_df (UErase df) = df"
| "up_df (UOver df _) = df"

text \<open>What is assumed of the calls of a run: nothing; that the copy of a shard and the removal of its shard file end as a script
  says, by hashed name (a job makes each of these calls at most once); the same, and no write fails. In a smooth run no call fails.\<close>

record up_script =
  cs_copy :: "string \<Rightarrow> call_end"
  cs_removed :: "string \<Rightarrow> bool"

datatype upload_calls = AnyCalls | Scripted up_script | QuietCalls up_script

fun calls_ok :: "upload_calls \<Rightarrow> string \<Rightarrow> up_out \<Rightarrow> bool" where
  "calls_ok AnyCalls h out = True"
| "calls_ok (Scripted s) h out = (uo_copy out = cs_copy s h \<and> uo_removed out = cs_removed s h)"
| "calls_ok (QuietCalls s) h out = (uo_copy out = cs_copy s h \<and> uo_removed out = cs_removed s h \<and> uo_mark out = Wrote
     \<and> uo_created out = Wrote \<and> uo_stats out = Wrote \<and> le_created (uo_lb out) = Wrote \<and> le_write (uo_lb out) = Wrote)"

definition smooth_script :: up_script where
  "smooth_script = \<lparr>cs_copy = (\<lambda>_. Did), cs_removed = (\<lambda>_. True)\<rparr>"

abbreviation SmoothCalls :: upload_calls where
  "SmoothCalls \<equiv> QuietCalls smooth_script"

fun script_of :: "upload_calls \<Rightarrow> up_script option" where
  "script_of AnyCalls = None"
| "script_of (Scripted s) = Some s"
| "script_of (QuietCalls s) = Some s"

definition up_work :: "upload_calls \<Rightarrow> up_conf \<Rightarrow> up_phase \<Rightarrow> up_state \<Rightarrow> up_phase \<Rightarrow> up_state \<Rightarrow> bool" where
  "up_work calls conf p st p' st' \<longleftrightarrow> up_over p = None
     \<and> (\<exists>out. calls_ok calls (hashed conf (up_df p)) out \<and> up_do conf out p st = (p', st'))"

definition startUploadFileGoroutine_Worker ::
  "upload_calls \<Rightarrow> up_conf \<Rightarrow> DistributedFile list \<Rightarrow> nat \<Rightarrow> up_state \<Rightarrow> (DistributedFile, up_phase, up_state) pool \<Rightarrow> bool" where
  "startUploadFileGoroutine_Worker calls conf distributedFileArray workerCount st c \<longleftrightarrow>
     pool_reach UAlloc (up_work calls conf) up_over up_dead workerCount distributedFileArray st c"

definition up_result :: "(DistributedFile, up_phase, up_state) pool \<Rightarrow> unit dis_result" where
  "up_result c = (if 0 < us_errs (p_state c) then Inl (Errors (replicate (us_errs (p_state c)) WriteError)) else Inr ())"

section \<open>What every phase keeps\<close>

fun up_rank :: "up_phase \<Rightarrow> nat" where
  "up_rank (UAlloc _) = 4"
| "up_rank (UCopy _) = 3"
| "up_rank (URecord _ _) = 2"
| "up_rank (UErase _) = 1"
| "up_rank (UOver _ _) = 0"

definition staged :: "(string \<Rightarrow> bytes) \<Rightarrow> up_conf \<Rightarrow> DistributedFile \<Rightarrow> world \<Rightarrow> bool" where
  "staged content conf df w \<longleftrightarrow> shard_at (w_datamap w) (uc_file conf, df_DistributedFile df) \<noteq> None
     \<and> w_shards w (hashed conf df) = Some (content (hashed conf df))"

definition recorded :: "up_conf \<Rightarrow> DistributedFile \<Rightarrow> world \<Rightarrow> bool" where
  "recorded conf df w \<longleftrightarrow> (\<exists>e. shard_at (w_datamap w) (uc_file conf, df_DistributedFile df) = Some e
     \<and> df_Check e \<and> df_Remote e = df_Remote df)"

text \<open>Where a script has put a shard: on its remote when the copy takes effect, nowhere when it fails silently; \<open>old\<close> are the
  objects before the upload. And whether its shard file is left.\<close>

definition untouched :: "up_script option \<Rightarrow> cloud \<Rightarrow> up_conf \<Rightarrow> DistributedFile \<Rightarrow> world \<Rightarrow> bool" where
  "untouched script old conf df w \<longleftrightarrow> (script \<noteq> None \<longrightarrow> (\<forall>r. w_cloud w (r, hashed conf df) = old (r, hashed conf df)))"

definition placed :: "up_script option \<Rightarrow> (string \<Rightarrow> bytes) \<Rightarrow> cloud \<Rightarrow> up_conf \<Rightarrow> DistributedFile \<Rightarrow> world \<Rightarrow> bool" where
  "placed script content old conf df w \<longleftrightarrow> (\<forall>s. script = Some s \<longrightarrow> cs_copy s (hashed conf df) \<in> {Did, Silent}
     \<and> (\<forall>r. w_cloud w (r, hashed conf df) =
          (if cs_copy s (hashed conf df) = Did \<and> r = Remote_Name (df_Remote df) then Some (content (hashed conf df)) else old (r, hashed conf df))))"

definition file_erased :: "up_script option \<Rightarrow> (string \<Rightarrow> bytes) \<Rightarrow> up_conf \<Rightarrow> DistributedFile \<Rightarrow> world \<Rightarrow> bool" where
  "file_erased script content conf df w \<longleftrightarrow> (\<forall>s. script = Some s \<longrightarrow>
     w_shards w (hashed conf df) = (if cs_removed s (hashed conf df) then None else Some (content (hashed conf df))))"

lemmas placement = untouched_def placed_def file_erased_def

text \<open>\<open>names\<close> gives the shard a hashed name belongs to. Where a job stands: an error or the end of the process leaves nothing to say.\<close>

fun up_good :: "up_script option \<Rightarrow> (string \<Rightarrow> bytes) \<Rightarrow> cloud \<Rightarrow> up_conf \<Rightarrow> up_phase \<Rightarrow> world \<Rightarrow> bool" where
  "up_good script content old conf (UAlloc df) w = (staged content conf df w \<and> untouched script old conf df w)"
| "up_good script content old conf (UCopy df) w = (staged content conf df w \<and> untouched script old conf df w)"
| "up_good script content old conf (URecord df _) w = (staged content conf df w \<and> placed script content old conf df w)"
| "up_good script content old conf (UErase df) w = (staged content conf df w \<and> recorded conf df w \<and> placed script content old conf df w)"
| "up_good script content old conf (UOver df called) w =
     (called \<and> recorded conf df w \<and> placed script content old conf df w \<and> file_erased script content conf df w)"

definition up_fine ::
  "up_script option \<Rightarrow> (string \<Rightarrow> string) \<Rightarrow> (string \<Rightarrow> bytes) \<Rightarrow> cloud \<Rightarrow> up_conf \<Rightarrow> up_phase \<Rightarrow> up_state \<Rightarrow> bool" where
  "up_fine script names content old conf p st \<longleftrightarrow> df_DistributedFile (up_df p) = names (hashed conf (up_df p))
     \<and> (0 < us_errs st \<or> us_exit st \<noteq> None \<or> up_good script content old conf p (us_world st))"

lemma AllocateRemote_name:
  "AllocateRemote env lb df st = (Inr df', st') \<Longrightarrow> df_DistributedFile df' = df_DistributedFile df"
  by (auto simp: AllocateRemote_def Let_def split: prod.splits sum.splits)

lemma hashed_name: "df_DistributedFile df' = df_DistributedFile df \<Longrightarrow> hashed conf df' = hashed conf df"
  by (simp add: hashed_def)

lemma delete_one: "DeleteShardWithFileNames removed [h] dir = (if removed h then dir(h := None) else dir)"
  by (auto simp: DeleteShardWithFileNames_def)

lemma updateRemoteInfo_Up_marks:
  assumes "updateRemoteInfo_Up out f df speed w = (Inr (), w')"
  obtains e where "shard_at (w_datamap w) (f, df_DistributedFile df) = Some e"
    "updateDistributedFile Wrote f (df_DistributedFile df) (\<lambda>e. Inr (e\<lparr>df_Check := True, df_Remote := df_Remote df\<rparr>)) (w_datamap w)
       = (Inr (), w_datamap w')"
    "w_cloud w' = w_cloud w" "w_shards w' = w_shards w"
proof -
  let ?upd = "\<lambda>e. Inr (e\<lparr>df_Check := True, df_Remote := df_Remote df\<rparr>)"
  obtain dm where dm: "updateDistributedFile (uo_mark out) f (df_DistributedFile df) ?upd (w_datamap w) = (Inr (), dm)"
      "w_datamap w' = dm" "w_cloud w' = w_cloud w" "w_shards w' = w_shards w"
    using assms by (auto simp: updateRemoteInfo_Up_def UpdateDistributedFile_CheckFlagAndRemote_def split: prod.splits sum.splits)
  then have "uo_mark out = Wrote"
    by (auto simp: updateDistributedFile_def writeJsonFile_def split: sum.splits option.splits write_end.splits)
  moreover obtain e where "shard_at (w_datamap w) (f, df_DistributedFile df) = Some e"
    using dm(1) by (cases "w_datamap w" rule: readable_cases)
      (auto simp: updateDistributedFile_def shard_at_def split: option.splits)
  ultimately show ?thesis using dm by (intro that) simp_all
qed

lemma updateRemoteInfo_Up_ok:
  assumes "updateRemoteInfo_Up out f df speed w = (Inr (), w')"
  shows "w_cloud w' = w_cloud w \<and> w_shards w' = w_shards w
     \<and> (\<exists>e. shard_at (w_datamap w) (f, df_DistributedFile df) = Some e
          \<and> shard_at (w_datamap w') = (shard_at (w_datamap w))((f, df_DistributedFile df) \<mapsto> e\<lparr>df_Check := True, df_Remote := df_Remote df\<rparr>))"
  using assms
proof (rule updateRemoteInfo_Up_marks)
  fix e
  let ?upd = "\<lambda>e. Inr (e\<lparr>df_Check := True, df_Remote := df_Remote df\<rparr>)"
  assume at: "shard_at (w_datamap w) (f, df_DistributedFile df) = Some e"
    and run: "updateDistributedFile Wrote f (df_DistributedFile df) ?upd (w_datamap w) = (Inr (), w_datamap w')"
    and "w_cloud w' = w_cloud w" "w_shards w' = w_shards w"
  then show ?thesis using shard_at_update [OF at, of ?upd "e\<lparr>df_Check := True, df_Remote := df_Remote df\<rparr>"] by (auto simp: fun_eq_iff)
qed

text \<open>The effect of a phase: nobody else's entry, object or shard file changes unless an error is recorded or
  the process ends.\<close>

definition frame :: "up_conf \<Rightarrow> DistributedFile \<Rightarrow> up_state \<Rightarrow> up_state \<Rightarrow> bool" where
  "frame conf df st st' \<longleftrightarrow>
     (\<forall>d. d \<noteq> df_DistributedFile df \<longrightarrow>
        shard_at (w_datamap (us_world st')) (uc_file conf, d) = shard_at (w_datamap (us_world st)) (uc_file conf, d))
     \<and> (\<forall>r h. h \<noteq> hashed conf df \<longrightarrow> w_cloud (us_world st') (r, h) = w_cloud (us_world st) (r, h)
          \<and> w_shards (us_world st') h = w_shards (us_world st) h)"

lemma up_do_effect:
  assumes "up_do conf out p st = (p', st')" "up_over p = None"
  shows "df_DistributedFile (up_df p') = df_DistributedFile (up_df p) \<and> up_rank p' < up_rank p \<and> us_errs st \<le> us_errs st'
     \<and> (0 < us_errs st' \<or> us_exit st' \<noteq> None \<or> frame conf (up_df p) st st')
     \<and> (us_exit st \<noteq> None \<longrightarrow> us_exit st' \<noteq> None)"
proof (cases p)
  case (UAlloc df)
  obtain res lb where a: "AllocateRemote ((uo_lb out)\<lparr>le_remotes := uc_remotes conf\<rparr>) (uc_lb conf) df (w_lb (us_world st)) = (res, lb)"
    by fastforce
  then show ?thesis
    using UAlloc assms(1) by (auto simp: up_allocate_def frame_def Let_def split: sum.splits if_splits dest: AllocateRemote_name)
next
  case (UCopy df)
  then show ?thesis
    using assms(1) by (auto simp: up_copy_def remoteCallCopy_def frame_def Let_def split: option.splits call_end.splits if_splits)
next
  case (URecord df speed)
  obtain res w where u: "updateRemoteInfo_Up out (uc_file conf) df speed (us_world st) = (res, w)" by fastforce
  show ?thesis
  proof (cases res)
    case (Inl e)
    then show ?thesis using URecord assms(1) u by (auto simp: up_record_def)
  next
    case (Inr x)
    then have "updateRemoteInfo_Up out (uc_file conf) df speed (us_world st) = (Inr (), w)" using u by simp
    from updateRemoteInfo_Up_ok [OF this] show ?thesis using URecord assms(1) u Inr by (auto simp: up_record_def frame_def)
  qed
next
  case (UErase df)
  then show ?thesis using assms(1) by (auto simp: up_erase_def frame_def Let_def delete_one)
qed (use assms(2) in simp)

lemma up_good_frame:
  assumes "frame conf df st st'" "hashed conf df \<noteq> hashed conf (up_df q)" "up_good script content old conf q (us_world st)"
  shows "up_good script content old conf q (us_world st')"
proof -
  have name: "df_DistributedFile (up_df q) \<noteq> df_DistributedFile df" using assms(2) hashed_name by metis
  show ?thesis
    using assms name by (cases q) (simp_all add: frame_def staged_def recorded_def placement)
qed

definition script_calls :: "up_script option \<Rightarrow> string \<Rightarrow> up_out \<Rightarrow> bool" where
  "script_calls script h out \<longleftrightarrow> (\<forall>s. script = Some s \<longrightarrow> uo_copy out = cs_copy s h \<and> uo_removed out = cs_removed s h)"

lemma calls_ok_script: "calls_ok calls h out \<Longrightarrow> script_calls (script_of calls) h out"
  by (cases calls) (simp_all add: script_calls_def)

lemma up_good_step:
  assumes "up_do conf out p st = (p', st')" "up_over p = None" "script_calls script (hashed conf (up_df p)) out"
    and "up_good script content old conf p (us_world st)"
  shows "0 < us_errs st' \<or> us_exit st' \<noteq> None \<or> up_good script content old conf p' (us_world st')"
proof (cases p)
  case (UAlloc df)
  obtain res lb where a: "AllocateRemote ((uo_lb out)\<lparr>le_remotes := uc_remotes conf\<rparr>) (uc_lb conf) df (w_lb (us_world st)) = (res, lb)"
    by fastforce
  show ?thesis
  proof (cases res)
    case (Inl e)
    then show ?thesis using UAlloc a assms(1) by (auto simp: up_allocate_def Let_def split: if_splits)
  next
    case (Inr df')
    then have name: "df_DistributedFile df' = df_DistributedFile df" using a AllocateRemote_name by blast
    then show ?thesis
      using UAlloc Inr a assms(1,4) hashed_name [OF name] by (auto simp: up_allocate_def Let_def staged_def placement)
  qed
next
  case (UCopy df)
  then show ?thesis using assms
    by (auto simp: up_copy_def remoteCallCopy_def Let_def staged_def placement script_calls_def split: option.splits call_end.splits if_splits)
next
  case (URecord df speed)
  obtain res w where u: "updateRemoteInfo_Up out (uc_file conf) df speed (us_world st) = (res, w)" by fastforce
  show ?thesis
  proof (cases res)
    case (Inl e)
    then show ?thesis using URecord assms(1) u by (auto simp: up_record_def)
  next
    case (Inr x)
    then have "updateRemoteInfo_Up out (uc_file conf) df speed (us_world st) = (Inr (), w)" using u by simp
    from updateRemoteInfo_Up_ok [OF this] show ?thesis
      using URecord assms(1,4) u Inr by (auto simp: up_record_def staged_def recorded_def placement)
  qed
next
  case (UErase df)
  then show ?thesis using assms by (auto simp: up_erase_def Let_def delete_one staged_def recorded_def placement script_calls_def)
qed (use assms(2) in simp)

lemma up_workE:
  assumes "up_work calls conf p st p' st'"
  obtains out where "up_do conf out p st = (p', st')" "up_over p = None" "script_calls (script_of calls) (hashed conf (up_df p)) out"
  using assms calls_ok_script unfolding up_work_def by blast

definition smooth_out :: up_out where
  "smooth_out = \<lparr>uo_lb = \<lparr>le_remotes = [], le_created = Wrote, le_write = Wrote, le_order = (\<lambda>xs. xs), le_arrived = (\<lambda>xs. xs), le_about = (\<lambda>_. NoAbout)\<rparr>,
     uo_copy = Did, uo_speed = 1, uo_mark = Wrote, uo_created = Wrote, uo_stats = Wrote, uo_removed = True\<rparr>"

lemma up_progress: "up_over p = None \<Longrightarrow> \<exists>p' st'. up_work calls conf p st p' st'"
proof -
  assume p: "up_over p = None"
  define out_of where "out_of s h = smooth_out\<lparr>uo_copy := cs_copy s h, uo_removed := cs_removed s h\<rparr>" for s :: up_script and h
  have "calls_ok (Scripted s) h (out_of s h)" "calls_ok (QuietCalls s) h (out_of s h)" for s :: up_script and h by (simp_all add: smooth_out_def out_of_def)
  then have "\<exists>out. calls_ok calls h out" for h by (cases calls) (simp, blast, blast)
  then obtain out where "calls_ok calls (hashed conf (up_df p)) out" by blast
  then have "up_work calls conf p st (fst (up_do conf out p st)) (snd (up_do conf out p st))"
    using p unfolding up_work_def by (metis prod.collapse)
  then show ?thesis by blast
qed

lemma up_work_frame:
  assumes "up_work calls conf p st p' st'" "hashed conf (up_df p) \<noteq> hashed conf (up_df q)" "up_fine (script_of calls) names content old conf q st"
  shows "up_fine (script_of calls) names content old conf q st'"
  using assms(1)
proof (rule up_workE)
  fix out assume "up_do conf out p st = (p', st')" "up_over p = None"
  note effect = up_do_effect [OF this]
  consider "0 < us_errs st'" | "us_exit st' \<noteq> None" | "up_good (script_of calls) content old conf q (us_world st)" "frame conf (up_df p) st st'"
    using effect assms(3) unfolding up_fine_def by (metis order_less_le_trans)
  then show ?thesis
    using up_good_frame [OF _ assms(2)] assms(3) unfolding up_fine_def by cases blast+
qed

lemma up_work_own:
  assumes "up_work calls conf p st p' st'"
  shows "hashed conf (up_df p') = hashed conf (up_df p)" "up_rank p' < up_rank p"
    and "up_fine (script_of calls) names content old conf p st \<Longrightarrow> up_fine (script_of calls) names content old conf p' st'"
proof -
  obtain out where out: "up_do conf out p st = (p', st')" "up_over p = None" "script_calls (script_of calls) (hashed conf (up_df p)) out"
    using assms by (rule up_workE)
  note effect = up_do_effect [OF out(1,2)]
  have mono: "us_errs st \<le> us_errs st' \<and> (us_exit st \<noteq> None \<longrightarrow> us_exit st' \<noteq> None)"
    using effect by (elim conjE) (intro conjI)
  show "hashed conf (up_df p') = hashed conf (up_df p)" using effect by (intro hashed_name) simp
  show "up_rank p' < up_rank p" using effect by simp
  show "up_fine (script_of calls) names content old conf p' st'" if fine: "up_fine (script_of calls) names content old conf p st"
  proof -
    have same: "df_DistributedFile (up_df p') = df_DistributedFile (up_df p)" using effect by blast
    have name: "df_DistributedFile (up_df p') = names (hashed conf (up_df p'))"
      using fine unfolding up_fine_def same hashed_name [OF same] by blast
    show ?thesis
  proof (cases "0 < us_errs st \<or> us_exit st \<noteq> None")
    case True
    then show ?thesis using mono name by (auto simp: up_fine_def)
  next
    case False
    then have "up_good (script_of calls) content old conf p (us_world st)" using fine by (simp add: up_fine_def)
    from up_good_step [OF out this] show ?thesis using name by (simp add: up_fine_def)
    qed
  qed
qed

interpretation up: pool_client UAlloc "up_work calls conf" up_over up_dead "hashed conf" "\<lambda>p. hashed conf (up_df p)" up_rank
  "\<lambda>df. up_fine (script_of calls) names content old conf (UAlloc df)" "up_fine (script_of calls) names content old conf" for calls names content old conf
  apply unfold_locales
  subgoal by simp
  subgoal by (rule up_work_own(1))
  subgoal by simp
  subgoal by (rule up_work_own(3))
  subgoal for p s p' s' j using up_work_frame [of calls conf p s p' s' "UAlloc j" names content old] by simp
  subgoal by (rule up_work_frame)
  subgoal by (rule up_work_own(2))
  subgoal by (rule up_progress)
  done

section \<open>What the upload promises\<close>

lemma fresh_jobs:
  assumes "distinct (map (hashed conf) dfs)" "\<forall>df \<in> set dfs. staged content conf df (us_world st)"
  obtains names where "\<forall>df \<in> set dfs. df_DistributedFile df = names (hashed conf df)"
    "\<forall>df \<in> set dfs. up_fine script names content (w_cloud (us_world st)) conf (UAlloc df) st"
proof -
  define names where "names h = df_DistributedFile (SOME df. df \<in> set dfs \<and> hashed conf df = h)" for h
  have "df_DistributedFile df = names (hashed conf df)" if "df \<in> set dfs" for df
  proof -
    have "(SOME df'. df' \<in> set dfs \<and> hashed conf df' = hashed conf df) = df"
      using that assms(1) by (intro some_equality) (auto simp: distinct_map inj_on_def)
    then show ?thesis by (simp add: names_def)
  qed
  then show ?thesis using assms(2) by (intro that [of names]) (simp_all add: up_fine_def untouched_def)
qed

text \<open>Every job of a pool that returned without an error has come to a good end.\<close>

lemma upload_job_done:
  assumes "startUploadFileGoroutine_Worker calls conf dfs workerCount st c"
    and "distinct (map (hashed conf) dfs)" "\<forall>df \<in> set dfs. staged content conf df (us_world st)"
    and "p_main c = Returned" "up_result c = Inr ()" "us_exit (p_state c) = None" "df \<in> set dfs"
  obtains df' where "df_DistributedFile df' = df_DistributedFile df"
    "up_good (script_of calls) content (w_cloud (us_world st)) conf (UOver df' True) (us_world (p_state c))"
proof -
  obtain names where names: "\<forall>df \<in> set dfs. df_DistributedFile df = names (hashed conf df)"
    and fresh: "\<forall>df \<in> set dfs. up_fine (script_of calls) names content (w_cloud (us_world st)) conf (UAlloc df) st"
    using fresh_jobs [OF assms(2,3)] by blast
  note over = up.returned_jobs [OF assms(1) [unfolded startUploadFileGoroutine_Worker_def] fresh assms(2,4)]
  have "hashed conf df \<in> set (map (\<lambda>p. hashed conf (up_df p)) (p_over c))"
    using mset_eq_setD [OF over(1)] assms(7) by force
  then obtain p where p: "p \<in> set (p_over c)" "hashed conf (up_df p) = hashed conf df" by auto
  have "us_errs (p_state c) = 0" using assms(5) by (auto simp: up_result_def split: if_splits)
  then have good: "up_good (script_of calls) content (w_cloud (us_world st)) conf p (us_world (p_state c))"
      "df_DistributedFile (up_df p) = names (hashed conf df)"
    using over(2) p assms(6) by (auto simp: up_fine_def)
  have "up_over p \<noteq> None" using over_reach [OF assms(1) [unfolded startUploadFileGoroutine_Worker_def]] p(1) by blast
  then show ?thesis using good names assms(7) by (cases p) (auto intro!: that [of "up_df p"])
qed

text \<open>C8. What an upload that returns without an error has done. Take shards recorded in the data map, each with its file in the
  shard directory under a hashed name of its own, any number of workers in any interleaving, and a script that says for every
  shard how its copy ends and whether its file can be removed; everything else may fail in any way. When the pool returns and no
  error was collected, every copy has taken effect or failed silently (see C34), and every shard is marked in the data map with a remote.
  That remote holds its contents under the hashed name exactly when the copy took effect, no other remote has got an object, and the
  temporary file is gone exactly when it could be removed. So a shard whose copy failed silently is marked as uploaded and is lost.\<close>

theorem upload_complete:
  assumes "startUploadFileGoroutine_Worker (Scripted s) conf dfs workerCount st c"
    and "distinct (map (hashed conf) dfs)" "\<forall>df \<in> set dfs. staged content conf df (us_world st)"
    and "p_main c = Returned" "up_result c = Inr ()" "us_exit (p_state c) = None"
  shows "\<forall>df \<in> set dfs. cs_copy s (hashed conf df) \<in> {Did, Silent} \<and>
     (\<exists>e. shard_at (w_datamap (us_world (p_state c))) (uc_file conf, df_DistributedFile df) = Some e \<and> df_Check e
        \<and> (\<forall>r. w_cloud (us_world (p_state c)) (r, hashed conf df) =
             (if cs_copy s (hashed conf df) = Did \<and> r = Remote_Name (df_Remote e) then Some (content (hashed conf df))
              else w_cloud (us_world st) (r, hashed conf df)))
        \<and> w_shards (us_world (p_state c)) (hashed conf df) =
             (if cs_removed s (hashed conf df) then None else Some (content (hashed conf df))))"
proof
  fix df assume "df \<in> set dfs"
  from upload_job_done [OF assms this] obtain df' where df': "df_DistributedFile df' = df_DistributedFile df"
      "up_good (Some s) content (w_cloud (us_world st)) conf (UOver df' True) (us_world (p_state c))" by auto
  then show "cs_copy s (hashed conf df) \<in> {Did, Silent} \<and>
     (\<exists>e. shard_at (w_datamap (us_world (p_state c))) (uc_file conf, df_DistributedFile df) = Some e \<and> df_Check e
        \<and> (\<forall>r. w_cloud (us_world (p_state c)) (r, hashed conf df) =
             (if cs_copy s (hashed conf df) = Did \<and> r = Remote_Name (df_Remote e) then Some (content (hashed conf df))
              else w_cloud (us_world st) (r, hashed conf df)))
        \<and> w_shards (us_world (p_state c)) (hashed conf df) =
             (if cs_removed s (hashed conf df) then None else Some (content (hashed conf df))))"
    using hashed_name [OF df'(1)] by (auto simp: recorded_def placement)
qed

text \<open>C30. Every run of the upload pool ends, whatever the environment does: there is no infinite sequence of steps.\<close>

theorem upload_runs_end: "wfp (\<lambda>c' c. pool_step UAlloc (up_work calls conf) up_over up_dead c c')"
  by (rule up.runs_end)

text \<open>C31. How a run of the upload pool ends while the process lives: no job is left behind, and the main goroutine has
  returned exactly when every job told the wait group that it is over; otherwise it waits for ever.\<close>

theorem upload_pool_final:
  assumes "startUploadFileGoroutine_Worker calls conf dfs workerCount st c" "0 < workerCount"
    and "\<nexists>c'. pool_step UAlloc (up_work calls conf) up_over up_dead c c'" "us_exit (p_state c) = None"
  shows "p_queue c = [] \<and> busy (p_workers c) = [] \<and> unsent c = []
     \<and> p_main c = (if leaked up_over c = 0 then Returned else Waiting)"
  using up.final_state [OF assms(1) [unfolded startUploadFileGoroutine_Worker_def] assms(3)] assms(2,4) by (simp add: up_dead_def)

section \<open>An upload without remotes\<close>

definition no_remotes :: "up_conf \<Rightarrow> up_conf" where
  "no_remotes conf = conf\<lparr>uc_lb := RoundRobin, uc_remotes := []\<rparr>"

text \<open>No remote can be allocated, so every job ends without telling the wait group.\<close>

fun unallocated :: "up_phase \<Rightarrow> bool" where
  "unallocated (UAlloc _) = True"
| "unallocated (UOver _ called) = (\<not> called)"
| "unallocated _ = False"

lemma RoundRobin_no_remotes: "\<exists>e. fst (LoadBalancer_RoundRobin created we [] file) = Inl e \<and> e \<noteq> NilPanic \<and> e \<noteq> IndexPanic"
  by (auto simp: LoadBalancer_RoundRobin_def readJSON_def Let_def split: prod.splits sum.splits json_file.splits)

lemma allocate_no_remotes:
  "\<exists>e lb. AllocateRemote (env\<lparr>le_remotes := []\<rparr>) RoundRobin df st = (Inl e, lb) \<and> e \<noteq> NilPanic \<and> e \<noteq> IndexPanic"
  using RoundRobin_no_remotes [of "le_created env" "le_write env" "lb_json st"]
  by (auto simp: AllocateRemote_def Let_def split: prod.splits sum.splits)

lemma unallocated_step:
  assumes "up_work calls (no_remotes conf) p st p' st'" "unallocated p"
  shows "unallocated p' \<and> us_exit st' = us_exit st"
proof -
  obtain out where out: "up_do (no_remotes conf) out p st = (p', st')" "up_over p = None" using assms(1) by (rule up_workE)
  then obtain df where p: "p = UAlloc df" using assms(2) by (cases p) auto
  obtain e lb where "AllocateRemote ((uo_lb out)\<lparr>le_remotes := []\<rparr>) RoundRobin df (w_lb (us_world st)) = (Inl e, lb)"
      "e \<noteq> NilPanic" "e \<noteq> IndexPanic"
    using allocate_no_remotes by blast
  then show ?thesis using out(1) by (auto simp: p up_allocate_def no_remotes_def Let_def)
qed

text \<open>C32. When no remote is configured, an upload under the round-robin strategy never returns: in every run that
  has come to its end the main goroutine is still waiting, although no worker has a job and none will come.\<close>

theorem upload_without_remotes_hangs:
  assumes "startUploadFileGoroutine_Worker calls (no_remotes conf) dfs workerCount st c" "0 < workerCount" "dfs \<noteq> []"
    and "us_exit st = None" "\<nexists>c'. pool_step UAlloc (up_work calls (no_remotes conf)) up_over up_dead c c'"
  shows "p_main c = Waiting \<and> us_exit (p_state c) = None \<and> length (p_over c) = length dfs"
proof -
  note reach = assms(1) [unfolded startUploadFileGoroutine_Worker_def]
  have all: "(\<forall>p \<in> set (busy (p_workers c)) \<union> set (p_over c). unallocated p) \<and> us_exit (p_state c) = None"
    by (rule all_jobs [OF reach]) (use assms(4) unallocated_step in auto)
  then have fin: "p_queue c = []" "busy (p_workers c) = []" "unsent c = []"
      "p_main c = (if leaked up_over c = 0 then Returned else Waiting)"
    using up.final_state [OF reach assms(5)] assms(2) by (auto simp: up_dead_def)
  then have n: "length (p_over c) = length dfs" using jobs_conserved [OF reach] by simp
  then obtain p where p: "p \<in> set (p_over c)" using assms(3) by (cases "p_over c") auto
  then have "unallocated p" "up_over p \<noteq> None" using all over_reach [OF reach] by auto
  then have "up_over p = Some False" by (cases p) auto
  then have "leaked up_over c \<noteq> 0" using p by (auto simp: leaked_def filter_empty_conv)
  then show ?thesis using fin(4) n all by simp
qed

section \<open>An upload without failures\<close>

text \<open>The next number of the round robin, when the file of the load balancer can be read.\<close>

definition rr_counter :: "up_state \<Rightarrow> int option" where
  "rr_counter st = map_option RoundRobinCounter (lb_info (lb_json (w_lb (us_world st))))"

definition no_failure :: "up_state \<Rightarrow> bool" where
  "no_failure st \<longleftrightarrow> us_exit st = None \<and> us_errs st = 0"

text \<open>When no call fails, every phase succeeds, and only the choice of a remote moves the counter.\<close>

lemma smooth_allocate:
  assumes "le_created env = Wrote" "le_write env = Wrote" "lb_info (lb_json lb) = Some i" "0 \<le> RoundRobinCounter i"
    and "RoundRobinCounter i + 1 < 2 ^ 63" "remotes \<noteq> []"
  shows "\<exists>df' lb'. AllocateRemote (env\<lparr>le_remotes := remotes\<rparr>) RoundRobin df lb = (Inr df', lb')
    \<and> lb_info (lb_json lb') = Some (i\<lparr>RoundRobinCounter := RoundRobinCounter i + 1\<rparr>)"
  using assms round_robin_step [OF assms(3-6)] by (simp add: AllocateRemote_def Let_def)

lemma smooth_record:
  assumes "calls_ok (QuietCalls s) h out" "shard_at (w_datamap w) (f, df_DistributedFile df) \<noteq> None" "lb_info (lb_json (w_lb w)) = Some i"
  shows "\<exists>w' i'. updateRemoteInfo_Up out f df speed w = (Inr (), w') \<and> lb_info (lb_json (w_lb w')) = Some i'
    \<and> RoundRobinCounter i' = RoundRobinCounter i"
proof -
  obtain e where "shard_at (w_datamap w) (f, df_DistributedFile df) = Some e" using assms(2) by auto
  then obtain info where "files (w_datamap w) f = Some info" "map_of (fi_DistributedFileInfos info) (df_DistributedFile df) = Some e"
    by (auto simp: shard_at_Some)
  note upd = updateDistributedFile_files [OF this, of "\<lambda>e. Inr (e\<lparr>df_Check := True, df_Remote := df_Remote df\<rparr>)"]
  show ?thesis
    using upd assms(1) UpdateRemoteInfo_ok [OF assms(3)]
    by (cases "updateDistributedFile Wrote f (df_DistributedFile df)
          (\<lambda>e. Inr (e\<lparr>df_Check := True, df_Remote := df_Remote df\<rparr>)) (w_datamap w)")
      (auto simp: updateRemoteInfo_Up_def UpdateDistributedFile_CheckFlagAndRemote_def)
qed

fun allocating :: "up_phase \<Rightarrow> bool" where
  "allocating (UAlloc _) = True"
| "allocating _ = False"

text \<open>Copies that report nothing.\<close>

definition quiet :: "up_script \<Rightarrow> bool" where
  "quiet s \<longleftrightarrow> (\<forall>h. cs_copy s h = Did \<or> cs_copy s h = Silent)"

lemma smooth_is_quiet [simp]: "quiet smooth_script"
  by (simp add: quiet_def smooth_script_def)

lemma smooth_step:
  assumes "up_work (QuietCalls s) conf p st p' st'" "quiet s" "uc_lb conf = RoundRobin" "uc_remotes conf \<noteq> []" "no_failure st"
    and "up_good (Some s) content old conf p (us_world st)" "rr_counter st = Some n" "0 \<le> n" "allocating p \<Longrightarrow> n + 1 < 2 ^ 63"
  shows "no_failure st' \<and> rr_counter st' = Some (if allocating p then n + 1 else n) \<and> \<not> allocating p'"
proof -
  obtain out where out: "up_do conf out p st = (p', st')" "up_over p = None" "calls_ok (QuietCalls s) (hashed conf (up_df p)) out"
    using assms(1) by (auto simp: up_work_def)
  obtain i where i: "lb_info (lb_json (w_lb (us_world st))) = Some i" "RoundRobinCounter i = n"
    using assms(7) by (auto simp: rr_counter_def)
  show ?thesis
  proof (cases p)
    case (UAlloc df)
    show ?thesis
      using out smooth_allocate [of "uo_lb out" "w_lb (us_world st)" i "uc_remotes conf" df] assms(3-5,8,9) i
      by (auto simp: UAlloc up_allocate_def no_failure_def rr_counter_def)
  next
    case (UCopy df)
    have "uo_copy out = Did \<or> uo_copy out = Silent" using out(3) assms(2) by (auto simp: quiet_def)
    then show ?thesis using UCopy out assms(5,6,7)
      by (auto simp: up_copy_def staged_def no_failure_def rr_counter_def remoteCallCopy_def Let_def)
  next
    case (URecord df speed)
    then have "shard_at (w_datamap (us_world st)) (uc_file conf, df_DistributedFile df) \<noteq> None"
      using assms(6) by (simp add: staged_def)
    from smooth_record [OF out(3) this i(1), of speed] show ?thesis
      using out(1) assms(5) i(2) by (auto simp: URecord up_record_def no_failure_def rr_counter_def)
  next
    case (UErase df)
    then show ?thesis using out assms(5,7) by (auto simp: up_erase_def no_failure_def rr_counter_def Let_def)
  qed (use out(2) in simp)
qed

text \<open>The jobs that are still to be allocated are counted: the counter does not overflow.\<close>

definition to_allocate :: "(DistributedFile, up_phase, up_state) pool \<Rightarrow> nat" where
  "to_allocate c = length (unsent c) + length (p_queue c) + length (filter allocating (busy (p_workers c)))"

definition smooth_inv :: "int \<Rightarrow> (DistributedFile, up_phase, up_state) pool \<Rightarrow> bool" where
  "smooth_inv bound c \<longleftrightarrow> no_failure (p_state c)
     \<and> (\<exists>n. rr_counter (p_state c) = Some n \<and> 0 \<le> n \<and> n + int (to_allocate c) \<le> bound)"

lemma smooth_inv_step:
  assumes "pool_step UAlloc (up_work (QuietCalls s) conf) up_over up_dead c c'" "smooth_inv bound c" "bound < 2 ^ 63" "quiet s"
    and "uc_lb conf = RoundRobin" "uc_remotes conf \<noteq> []"
    and "\<forall>p \<in> set (busy (p_workers c)). up_fine (Some s) names content old conf p (p_state c)"
  shows "smooth_inv bound c'"
  using assms(1)
proof cases
  case (take i j q)
  then show ?thesis using assms(2) worker_update [OF take(3,4)] by (auto simp: smooth_inv_def to_allocate_def unsent_def)
next
  case (work i p p' s')
  obtain us vs where ws: "p_workers c = us @ Busy p # vs" "(p_workers c)[i := Busy p'] = us @ Busy p' # vs"
    using worker_update [OF work(3,4)] by blast
  obtain n where n: "no_failure (p_state c)" "rr_counter (p_state c) = Some n" "0 \<le> n" "n + int (to_allocate c) \<le> bound"
    using assms(2) by (auto simp: smooth_inv_def)
  have "up_good (Some s) content old conf p (us_world (p_state c))"
    using assms(7) ws(1) n(1) by (simp add: up_fine_def no_failure_def)
  moreover have "n + 1 < 2 ^ 63" if "allocating p" using n(4) assms(3) that by (simp add: to_allocate_def ws(1))
  ultimately have "no_failure s' \<and> rr_counter s' = Some (if allocating p then n + 1 else n) \<and> \<not> allocating p'"
    by (intro smooth_step [OF work(6) assms(4-6) n(1) _ n(2,3)])
  then show ?thesis using n ws work(1) by (auto simp: smooth_inv_def to_allocate_def unsent_def)
next
  case (finish i p called)
  then have "\<not> allocating p" by (cases p) simp_all
  then show ?thesis using finish assms(2) worker_update [OF finish(3,4)] by (auto simp: smooth_inv_def to_allocate_def unsent_def)
next
  case (stop i)
  then show ?thesis using assms(2) worker_update [OF stop(3,4)] by (auto simp: smooth_inv_def to_allocate_def unsent_def)
qed (use assms(2) in \<open>auto simp: smooth_inv_def to_allocate_def unsent_def\<close>)

text \<open>An upload of staged shards to at least one remote, in which no write fails and no copy reports a failure, succeeds, however it is scheduled: a run that
  can go no further has returned without an error.\<close>

lemma smooth_upload:
  assumes "startUploadFileGoroutine_Worker (QuietCalls s) conf dfs workerCount st c" "quiet s" "uc_lb conf = RoundRobin" "uc_remotes conf \<noteq> []"
    and "distinct (map (hashed conf) dfs)" "\<forall>df \<in> set dfs. staged content conf df (us_world st)" "no_failure st"
    and "rr_counter st = Some n" "0 \<le> n" "n + int (length dfs) < 2 ^ 63"
  shows "up_result c = Inr ()" "us_exit (p_state c) = None"
    "\<lbrakk>0 < workerCount; \<nexists>c'. pool_step UAlloc (up_work (QuietCalls s) conf) up_over up_dead c c'\<rbrakk> \<Longrightarrow> p_main c = Returned"
proof -
  let ?old = "w_cloud (us_world st)"
  obtain names where "\<forall>df \<in> set dfs. up_fine (Some s) names content ?old conf (UAlloc df) st" using fresh_jobs [OF assms(5,6)] by blast
  note inv = up.client_inv_reach [of "QuietCalls s", unfolded up.client_inv_def, unfolded script_of.simps, OF _ this assms(5)]
  note reach = assms(1) [unfolded startUploadFileGoroutine_Worker_def]
  have "smooth_inv (n + int (length dfs)) c"
    using reach unfolding pool_reach_def
  proof (induction rule: rtranclp_induct)
    case base
    show ?case using assms(7-9) by (auto simp: smooth_inv_def pool_start_def to_allocate_def unsent_def)
  next
    case (step c c')
    have "\<forall>p \<in> set (busy (p_workers c)). up_fine (Some s) names content ?old conf p (p_state c)"
      using inv [unfolded pool_reach_def, OF step(1)] by blast
    with step(2,3) assms(10,2-4) show ?case by (rule smooth_inv_step)
  qed
  then have fin: "us_exit (p_state c) = None" "us_errs (p_state c) = 0" by (simp_all add: smooth_inv_def no_failure_def)
  then show "up_result c = Inr ()" "us_exit (p_state c) = None" by (simp_all add: up_result_def)
  have "up_over p \<noteq> Some False" if "p \<in> set (p_over c)" for p
  proof -
    have "up_good (Some s) content ?old conf p (us_world (p_state c))" using inv [OF reach] that fin unfolding up_fine_def by auto
    then show ?thesis by (cases p) simp_all
  qed
  then have "leaked up_over c = 0" by (simp add: leaked_def filter_empty_conv)
  then show "p_main c = Returned" if "0 < workerCount" "\<nexists>c'. pool_step UAlloc (up_work (QuietCalls s) conf) up_over up_dead c c'"
    using up.final_state [OF reach that(2)] that(1) fin by (simp add: up_dead_def)
qed

text \<open>The kinds of calls are nested.\<close>

lemma quiet_is_scripted:
  assumes "startUploadFileGoroutine_Worker (QuietCalls s) conf dfs n st c"
  shows "startUploadFileGoroutine_Worker (Scripted s) conf dfs n st c"
proof -
  have "up_work (Scripted s) conf p st p' st'" if "up_work (QuietCalls s) conf p st p' st'" for p st p' st'
    using that unfolding up_work_def calls_ok.simps by metis
  then show ?thesis
    using assms unfolding startUploadFileGoroutine_Worker_def by (rule pool_reach_mono [rotated])
qed

section \<open>Runs of the pool\<close>

definition sample_conf :: up_conf where
  "sample_conf = \<lparr>uc_file = ''a'', uc_hashes = [(''a.0'', CalculateHash ''a.0'')], uc_lb = RoundRobin, uc_remotes = [sample_remote]\<rparr>"

definition sample_state :: up_state where
  "sample_state = \<lparr>us_world = (sample_world False)\<lparr>w_shards := [CalculateHash ''a.0'' \<mapsto> [7]]\<rparr>, us_errs = 0, us_total = 0, us_count = 0, us_exit = None\<rparr>"

lemma sample_hashed: "hashed sample_conf df = CalculateHash ''a.0''" if "df_DistributedFile df = ''a.0''"
  using that by (simp add: hashed_def sample_conf_def)

lemma sample_staged: "staged (\<lambda>_. [7]) sample_conf (sample_shard ''a.0'') (us_world sample_state)"
proof -
  obtain info where "files (w_datamap (sample_world False)) ''a'' = Some info"
      "fi_DistributedFileInfos info = [(''a.0'', (sample_shard ''a.0'')\<lparr>df_Remote := sample_remote, df_Check := False\<rparr>)]"
    using sample_world_files [of False] by auto
  then have "shard_at (w_datamap (sample_world False)) (''a'', ''a.0'') \<noteq> None" by (simp add: shard_at_def)
  moreover have "hashed sample_conf (sample_shard ''a.0'') = CalculateHash ''a.0''" by (simp add: sample_hashed sample_shard_def)
  ultimately show ?thesis by (simp add: staged_def sample_state_def) (simp add: sample_conf_def sample_shard_def)
qed

text \<open>A copy that fails silently: the upload ends without an error, the shard is marked, and its contents are on no remote and in no file.\<close>

definition lossy_script :: up_script where
  "lossy_script = \<lparr>cs_copy = (\<lambda>_. Silent), cs_removed = (\<lambda>_. True)\<rparr>"

definition empty_cloud_state :: up_state where
  "empty_cloud_state = sample_state\<lparr>us_world := (us_world sample_state)\<lparr>w_cloud := Map.empty\<rparr>\<rparr>"

theorem upload_complete_witness:
  "\<exists>c e. startUploadFileGoroutine_Worker (Scripted lossy_script) sample_conf [sample_shard ''a.0''] 1 empty_cloud_state c \<and> up_result c = Inr ()
     \<and> p_main c = Returned \<and> shard_at (w_datamap (us_world (p_state c))) (''a'', ''a.0'') = Some e \<and> df_Check e
     \<and> (\<forall>r. w_cloud (us_world (p_state c)) (r, CalculateHash ''a.0'') = None) \<and> w_shards (us_world (p_state c)) (CalculateHash ''a.0'') = None"
proof -
  let ?df = "sample_shard ''a.0''"
  have st: "no_failure empty_cloud_state" "rr_counter empty_cloud_state = Some 0" "w_cloud (us_world empty_cloud_state) = Map.empty"
    by (simp_all add: empty_cloud_state_def sample_state_def no_failure_def rr_counter_def sample_world_def lb_info_def no_lb_info_def)
  have conf: "quiet lossy_script" "uc_lb sample_conf = RoundRobin" "uc_remotes sample_conf \<noteq> []"
    by (simp_all add: sample_conf_def lossy_script_def quiet_def)
  obtain c where c: "startUploadFileGoroutine_Worker (QuietCalls lossy_script) sample_conf [?df] 1 empty_cloud_state c"
      "\<nexists>c'. pool_step UAlloc (up_work (QuietCalls lossy_script) sample_conf) up_over up_dead c c'"
    unfolding startUploadFileGoroutine_Worker_def
    using up.final_exists [of "QuietCalls lossy_script" sample_conf 1 "[?df]" empty_cloud_state] by blast
  have fresh: "distinct (map (hashed sample_conf) [?df])" "\<forall>df \<in> set [?df]. staged (\<lambda>_. [7]) sample_conf df (us_world empty_cloud_state)"
    using sample_staged by (simp_all add: staged_def empty_cloud_state_def)
  note good = smooth_upload [OF c(1) conf fresh st(1,2)] c(2)
  have "hashed sample_conf ?df = CalculateHash ''a.0''" "df_DistributedFile ?df = ''a.0''" "uc_file sample_conf = ''a''"
    by (simp_all add: sample_hashed sample_shard_def) (simp add: sample_conf_def)
  then show ?thesis
    using upload_complete [OF quiet_is_scripted [OF c(1)] fresh] good quiet_is_scripted [OF c(1)] st(3)
    by (auto simp: lossy_script_def)
qed

theorem upload_without_remotes_hangs_witness:
  "\<exists>c. startUploadFileGoroutine_Worker AnyCalls (no_remotes sample_conf) [sample_shard ''a.0''] 32 sample_state c \<and> p_main c = Waiting
     \<and> (\<nexists>c'. pool_step UAlloc (up_work AnyCalls (no_remotes sample_conf)) up_over up_dead c c')"
proof -
  obtain c where c: "startUploadFileGoroutine_Worker AnyCalls (no_remotes sample_conf) [sample_shard ''a.0''] 32 sample_state c"
      "\<nexists>c'. pool_step UAlloc (up_work AnyCalls (no_remotes sample_conf)) up_over up_dead c c'"
    unfolding startUploadFileGoroutine_Worker_def
    using up.final_exists [of AnyCalls "no_remotes sample_conf" 32 "[sample_shard ''a.0'']" sample_state] by blast
  then have "p_main c = Waiting"
    using upload_without_remotes_hangs [OF c(1) _ _ _ c(2)] by (simp add: sample_state_def)
  then show ?thesis using c by blast
qed

theorem upload_pool_final_witness:
  "\<exists>c. startUploadFileGoroutine_Worker AnyCalls (no_remotes sample_conf) [] 32 sample_state c \<and> p_main c = Returned"
proof -
  obtain c where c: "startUploadFileGoroutine_Worker AnyCalls (no_remotes sample_conf) [] 32 sample_state c"
      "\<nexists>c'. pool_step UAlloc (up_work AnyCalls (no_remotes sample_conf)) up_over up_dead c c'"
    unfolding startUploadFileGoroutine_Worker_def
    using up.final_exists [of AnyCalls "no_remotes sample_conf" 32 "[]" sample_state] by blast
  note reach = c(1) [unfolded startUploadFileGoroutine_Worker_def]
  have "us_exit (p_state c) = None"
    using all_jobs [OF reach, where P = unallocated and Q = "\<lambda>st. us_exit st = None"] unallocated_step
    by (auto simp: sample_state_def)
  moreover have "p_over c = []" using jobs_conserved [OF reach] by simp
  ultimately show ?thesis using upload_pool_final [OF c(1) _ c(2)] c(1) by (auto simp: leaked_def)
qed

end
