(* ===== verification/Hash_Vectors.thy ===== *)
theory Hash_Vectors
  imports Hashing
begin

text \<open>
  Values of the hash. SHA-256 is written out in \<open>Hashing\<close>; here its constants are computed and the hashed names of two
  shards, which can be compared with what any implementation of SHA-256 gives. They show that two shard names
  do not collide, a hypothesis of the properties of downloads.
\<close>

unbundle bit_operations_syntax

section \<open>The constants\<close>

lemma iroot_fold:
  fixes n r :: int
  assumes "0 < k" "0 \<le> r" "r ^ k \<le> n" "n < (r + 2 ^ b) ^ k"
  defines "s \<equiv> fold (\<lambda>i r. if (r + 2 ^ i) ^ k \<le> n then r + 2 ^ i else r) (rev [0..<b]) r"
  shows "0 \<le> s \<and> s ^ k \<le> n \<and> n < (s + 1) ^ k"
  unfolding s_def using assms(1-4)
proof (induction b arbitrary: r)
  case (Suc b)
  show ?case
  proof (cases "(r + 2 ^ b) ^ k \<le> n")
    case True
    then show ?thesis using Suc.IH [of "r + 2 ^ b"] Suc.prems by (simp add: add.assoc)
  next
    case False
    then show ?thesis using Suc.IH [of r] Suc.prems by simp
  qed
qed simp

text \<open>\<open>iroot\<close> is the integer root: it is the one number whose power is below \<open>n\<close> and the power of whose successor is above.\<close>

lemma iroot_eq:
  assumes "0 < k" "0 \<le> r" "r ^ k \<le> n" "n < (r + 1) ^ k" "r < 2 ^ b"
  shows "iroot k n b = r"
proof -
  have "(r + 1) ^ k \<le> (0 + 2 ^ b) ^ k" by (rule power_mono) (use assms(2,5) in simp_all)
  then have up: "n < (0 + 2 ^ b) ^ k" using assms(4) by linarith
  have "0 \<le> r ^ k" using assms(2) by (rule zero_le_power)
  then have "0 ^ k \<le> n" using assms(1,3) by (simp add: zero_power)
  from iroot_fold [OF assms(1) order_refl this up]
  have s: "0 \<le> iroot k n b" "iroot k n b ^ k \<le> n" "n < (iroot k n b + 1) ^ k" by (simp_all add: iroot_def)
  have "iroot k n b ^ k < (r + 1) ^ k" using s(2) assms(4) by linarith
  then have "iroot k n b < r + 1" by (rule power_less_imp_less_base) (use assms(2) in simp)
  moreover have "r ^ k < (iroot k n b + 1) ^ k" using s(3) assms(3) by linarith
  then have "r < iroot k n b + 1" by (rule power_less_imp_less_base) (use s(1) in simp)
  ultimately show ?thesis by simp
qed

lemma sha_primes_eq: "sha_primes =
    [2, 3, 5, 7, 11, 13, 17, 19,
     23, 29, 31, 37, 41, 43, 47, 53,
     59, 61, 67, 71, 73, 79, 83, 89,
     97, 101, 103, 107, 109, 113, 127, 131,
     137, 139, 149, 151, 157, 163, 167, 173,
     179, 181, 191, 193, 197, 199, 211, 223,
     227, 229, 233, 239, 241, 251, 257, 263,
     269, 271, 277, 281, 283, 293, 307, 311]"
  by code_simp

lemma cube_roots:
  "iroot 3 (2 * 2 ^ 96) 35 = 5411319704"
  "iroot 3 (3 * 2 ^ 96) 35 = 6194414737"
  "iroot 3 (5 * 2 ^ 96) 35 = 7344290767"
  "iroot 3 (7 * 2 ^ 96) 35 = 8215976869"
  "iroot 3 (11 * 2 ^ 96) 35 = 9551921755"
  "iroot 3 (13 * 2 ^ 96) 35 = 10098905585"
  "iroot 3 (17 * 2 ^ 96) 35 = 11043570340"
  "iroot 3 (19 * 2 ^ 96) 35 = 11460697813"
  "iroot 3 (23 * 2 ^ 96) 35 = 12214315672"
  "iroot 3 (29 * 2 ^ 96) 35 = 13195500289"
  "iroot 3 (31 * 2 ^ 96) 35 = 13492127166"
  "iroot 3 (37 * 2 ^ 96) 35 = 14311783875"
  "iroot 3 (41 * 2 ^ 96) 35 = 14809980276"
  "iroot 3 (43 * 2 ^ 96) 35 = 15046980094"
  "iroot 3 (47 * 2 ^ 96) 35 = 15499789991"
  "iroot 3 (53 * 2 ^ 96) 35 = 16133124468"
  "iroot 3 (59 * 2 ^ 96) 35 = 16720292289"
  "iroot 3 (61 * 2 ^ 96) 35 = 16907126662"
  "iroot 3 (67 * 2 ^ 96) 35 = 17444216262"
  "iroot 3 (71 * 2 ^ 96) 35 = 17784676812"
  "iroot 3 (73 * 2 ^ 96) 35 = 17950125167"
  "iroot 3 (79 * 2 ^ 96) 35 = 18429019306"
  "iroot 3 (83 * 2 ^ 96) 35 = 18734950876"
  "iroot 3 (89 * 2 ^ 96) 35 = 19175934170"
  "iroot 3 (97 * 2 ^ 96) 35 = 19734090066"
  "iroot 3 (101 * 2 ^ 96) 35 = 20001703533"
  "iroot 3 (103 * 2 ^ 96) 35 = 20132865992"
  "iroot 3 (107 * 2 ^ 96) 35 = 20390182855"
  "iroot 3 (109 * 2 ^ 96) 35 = 20516441075"
  "iroot 3 (113 * 2 ^ 96) 35 = 20764397895"
  "iroot 3 (127 * 2 ^ 96) 35 = 21588763473"
  "iroot 3 (131 * 2 ^ 96) 35 = 21813078375"
  "iroot 3 (137 * 2 ^ 96) 35 = 22141143685"
  "iroot 3 (139 * 2 ^ 96) 35 = 22248366392"
  "iroot 3 (149 * 2 ^ 96) 35 = 22769593852"
  "iroot 3 (151 * 2 ^ 96) 35 = 22871018771"
  "iroot 3 (157 * 2 ^ 96) 35 = 23170020180"
  "iroot 3 (163 * 2 ^ 96) 35 = 23461497531"
  "iroot 3 (167 * 2 ^ 96) 35 = 23651862830"
  "iroot 3 (173 * 2 ^ 96) 35 = 23931792517"
  "iroot 3 (179 * 2 ^ 96) 35 = 24205322401"
  "iroot 3 (181 * 2 ^ 96) 35 = 24295138891"
  "iroot 3 (191 * 2 ^ 96) 35 = 24734567280"
  "iroot 3 (193 * 2 ^ 96) 35 = 24820601251"
  "iroot 3 (197 * 2 ^ 96) 35 = 24990902297"
  "iroot 3 (199 * 2 ^ 96) 35 = 25075189284"
  "iroot 3 (211 * 2 ^ 96) 35 = 25569408389"
  "iroot 3 (223 * 2 ^ 96) 35 = 26045227120"
  "iroot 3 (227 * 2 ^ 96) 35 = 26200031510"
  "iroot 3 (229 * 2 ^ 96) 35 = 26276752392"
  "iroot 3 (233 * 2 ^ 96) 35 = 26428864332"
  "iroot 3 (239 * 2 ^ 96) 35 = 26653801653"
  "iroot 3 (241 * 2 ^ 96) 35 = 26727943347"
  "iroot 3 (251 * 2 ^ 96) 35 = 27092625994"
  "iroot 3 (257 * 2 ^ 96) 35 = 27306805839"
  "iroot 3 (263 * 2 ^ 96) 35 = 27517677555"
  "iroot 3 (269 * 2 ^ 96) 35 = 27725365998"
  "iroot 3 (271 * 2 ^ 96) 35 = 27793908591"
  "iroot 3 (277 * 2 ^ 96) 35 = 27997534228"
  "iroot 3 (281 * 2 ^ 96) 35 = 28131656200"
  "iroot 3 (283 * 2 ^ 96) 35 = 28198240250"
  "iroot 3 (293 * 2 ^ 96) 35 = 28526537963"
  "iroot 3 (307 * 2 ^ 96) 35 = 28973835255"
  "iroot 3 (311 * 2 ^ 96) 35 = 29099129074"
  by (rule iroot_eq; simp)+

lemma square_roots:
  "iroot 2 (2 * 2 ^ 64) 35 = 6074000999"
  "iroot 2 (3 * 2 ^ 64) 35 = 7439101573"
  "iroot 2 (5 * 2 ^ 64) 35 = 9603838834"
  "iroot 2 (7 * 2 ^ 64) 35 = 11363415354"
  "iroot 2 (11 * 2 ^ 64) 35 = 14244795007"
  "iroot 2 (13 * 2 ^ 64) 35 = 15485724812"
  "iroot 2 (17 * 2 ^ 64) 35 = 17708603819"
  "iroot 2 (19 * 2 ^ 64) 35 = 18721328409"
  by (rule iroot_eq; simp)+

lemma sha_rounds_eq: "sha_rounds =
    [1116352408, 1899447441, 3049323471, 3921009573, 961987163, 1508970993, 2453635748, 2870763221,
     3624381080, 310598401, 607225278, 1426881987, 1925078388, 2162078206, 2614888103, 3248222580,
     3835390401, 4022224774, 264347078, 604807628, 770255983, 1249150122, 1555081692, 1996064986,
     2554220882, 2821834349, 2952996808, 3210313671, 3336571891, 3584528711, 113926993, 338241895,
     666307205, 773529912, 1294757372, 1396182291, 1695183700, 1986661051, 2177026350, 2456956037,
     2730485921, 2820302411, 3259730800, 3345764771, 3516065817, 3600352804, 4094571909, 275423344,
     430227734, 506948616, 659060556, 883997877, 958139571, 1322822218, 1537002063, 1747873779,
     1955562222, 2024104815, 2227730452, 2361852424, 2428436474, 2756734187, 3204031479, 3329325298]"
  unfolding sha_rounds_def sha_primes_eq list.map cube_roots by simp

lemma sha_init_eq: "sha_init =
    [1779033703, 3144134277, 1013904242, 2773480762, 1359893119, 2600822924, 528734635, 1541459225]"
proof -
  have "take 8 sha_primes = [2, 3, 5, 7, 11, 13, 17, 19]" by (simp add: sha_primes_eq)
  then show ?thesis unfolding sha_init_def by (simp only: list.map square_roots) simp
qed

section \<open>Evaluation\<close>

text \<open>The schedule and the rounds on literals.\<close>

lemma sha_schedule_numeral:
  "sha_schedule (numeral n) w =
     sha_schedule (pred_numeral n)
       ((w ! 15 + (rotr 7 (w ! 14) XOR rotr 18 (w ! 14) XOR drop_bit 3 (w ! 14)) + w ! 6 +
         (rotr 17 (w ! 1) XOR rotr 19 (w ! 1) XOR drop_bit 10 (w ! 1))) # w)"
  by (simp add: numeral_eq_Suc Let_def)

lemma rotr_arith:
  assumes "n < 32"
  shows "rotr n w = w * 2 ^ (32 - n) + w div 2 ^ n"
proof -
  have "\<not> bit (push_bit (32 - n) w) i \<or> \<not> bit (drop_bit n w) i" for i
    using assms bit_imp_le_length [of w "n + i"] by (auto simp: bit_push_bit_iff bit_drop_bit_eq)
  then have "push_bit (32 - n) w + drop_bit n w = push_bit (32 - n) w OR drop_bit n w" by (rule disjunctive_add)
  then show ?thesis by (simp add: rotr_def push_bit_eq_mult drop_bit_eq_div or.commute)
qed

lemma drop_bit_div: "drop_bit n (w :: word32) = w div 2 ^ n"
  by (rule drop_bit_eq_div)

lemmas sha_eval = sha_schedule_numeral rotr_arith drop_bit_div Let_def

lemma hash_a0_words: "be_words (sha_pad (string_bytes ''a.fcef.0'')) =
    [1630430819, 1701195312, 2147483648, 0, 0, 0, 0, 0,
     0, 0, 0, 0, 0, 0, 0, 64]"
  by code_simp

lemma hash_a0_schedule: "sha_schedule 48 (rev (be_words (sha_pad (string_bytes ''a.fcef.0'')))) =
    [1630430819, 1701195312, 2147483648, 0, 0, 0, 0, 0,
     0, 0, 0, 0, 0, 0, 0, 64,
     1226340134, 1989037616, 3043339186, 4005795333, 1619154292, 3120167516, 1611439364, 191114467,
     1405685072, 1230301575, 2514118627, 1248030254, 958581035, 986517930, 3375554546, 3610288983,
     3293813422, 1804101345, 2978043521, 3643355136, 3991394436, 1692642020, 451502640, 1501164762,
     2592345944, 203331387, 2209927285, 3034708442, 660720211, 1694119033, 2629076186, 1913174162,
     2036443593, 2071752926, 2663276155, 2570795000, 1722010445, 983710061, 3967036773, 3492077698,
     2071659459, 1722760228, 3690882671, 1699417210, 3575240882, 3232951660, 1221949078, 274479483]"
  unfolding hash_a0_words by (simp add: sha_eval)

lemma hash_a0_rounds:
  "fold sha_step [(1116352408, 1630430819), (1899447441, 1701195312), (3049323471, 2147483648), (3921009573, 0), (961987163, 0), (1508970993, 0), (2453635748, 0), (2870763221, 0)]
     [1779033703, 3144134277, 1013904242, 2773480762, 1359893119, 2600822924, 528734635, 1541459225] =
     [2479589988, 3527592945, 2193800977, 1684077917, 263087837, 4061766984, 548147233, 1397908707]"
  "fold sha_step [(3624381080, 0), (310598401, 0), (607225278, 0), (1426881987, 0), (1925078388, 0), (2162078206, 0), (2614888103, 0), (3248222580, 64)]
     [2479589988, 3527592945, 2193800977, 1684077917, 263087837, 4061766984, 548147233, 1397908707] =
     [3631853956, 2130982960, 1675868964, 3086781082, 4152490845, 3014128465, 4037496859, 2145559825]"
  "fold sha_step [(3835390401, 1226340134), (4022224774, 1989037616), (264347078, 3043339186), (604807628, 4005795333), (770255983, 1619154292), (1249150122, 3120167516), (1555081692, 1611439364), (1996064986, 191114467)]
     [3631853956, 2130982960, 1675868964, 3086781082, 4152490845, 3014128465, 4037496859, 2145559825] =
     [688454367, 3823271851, 3047427538, 3722872079, 780904030, 2848049993, 4216233290, 38197666]"
  "fold sha_step [(2554220882, 1405685072), (2821834349, 1230301575), (2952996808, 2514118627), (3210313671, 1248030254), (3336571891, 958581035), (3584528711, 986517930), (113926993, 3375554546), (338241895, 3610288983)]
     [688454367, 3823271851, 3047427538, 3722872079, 780904030, 2848049993, 4216233290, 38197666] =
     [2126350386, 655288923, 2885329480, 3070225982, 3535597435, 906659589, 2958260531, 3949319259]"
  "fold sha_step [(666307205, 3293813422), (773529912, 1804101345), (1294757372, 2978043521), (1396182291, 3643355136), (1695183700, 3991394436), (1986661051, 1692642020), (2177026350, 451502640), (2456956037, 1501164762)]
     [2126350386, 655288923, 2885329480, 3070225982, 3535597435, 906659589, 2958260531, 3949319259] =
     [4193732830, 943743390, 1182791121, 3298952620, 628616202, 1516011039, 420016896, 2401568105]"
  "fold sha_step [(2730485921, 2592345944), (2820302411, 203331387), (3259730800, 2209927285), (3345764771, 3034708442), (3516065817, 660720211), (3600352804, 1694119033), (4094571909, 2629076186), (275423344, 1913174162)]
     [4193732830, 943743390, 1182791121, 3298952620, 628616202, 1516011039, 420016896, 2401568105] =
     [1687327966, 2675960562, 3247267115, 1694953619, 3500833372, 2965659895, 4041597650, 3864963397]"
  "fold sha_step [(430227734, 2036443593), (506948616, 2071752926), (659060556, 2663276155), (883997877, 2570795000), (958139571, 1722010445), (1322822218, 983710061), (1537002063, 3967036773), (1747873779, 3492077698)]
     [1687327966, 2675960562, 3247267115, 1694953619, 3500833372, 2965659895, 4041597650, 3864963397] =
     [1581887154, 247658578, 264386184, 2735726425, 2561212514, 4258810093, 2482421131, 2531520655]"
  "fold sha_step [(1955562222, 2071659459), (2024104815, 1722760228), (2227730452, 3690882671), (2361852424, 1699417210), (2428436474, 3575240882), (2756734187, 3232951660), (3204031479, 1221949078), (3329325298, 274479483)]
     [1581887154, 247658578, 264386184, 2735726425, 2561212514, 4258810093, 2482421131, 2531520655] =
     [397763694, 2994401518, 2744238579, 3845156135, 1681512966, 2087828103, 3400223581, 1425255874]"
  by (simp_all add: sha_eval)

lemma hash_a0_block: "fold sha_step (zip sha_rounds (sha_schedule 48 (rev (be_words (sha_pad (string_bytes ''a.fcef.0'')))))) sha_init =
    [397763694, 2994401518, 2744238579, 3845156135, 1681512966, 2087828103, 3400223581, 1425255874]"
proof -
  have "zip sha_rounds (sha_schedule 48 (rev (be_words (sha_pad (string_bytes ''a.fcef.0''))))) =
    [(1116352408, 1630430819), (1899447441, 1701195312), (3049323471, 2147483648), (3921009573, 0), (961987163, 0), (1508970993, 0), (2453635748, 0), (2870763221, 0)] @
     [(3624381080, 0), (310598401, 0), (607225278, 0), (1426881987, 0), (1925078388, 0), (2162078206, 0), (2614888103, 0), (3248222580, 64)] @
     [(3835390401, 1226340134), (4022224774, 1989037616), (264347078, 3043339186), (604807628, 4005795333), (770255983, 1619154292), (1249150122, 3120167516), (1555081692, 1611439364), (1996064986, 191114467)] @
     [(2554220882, 1405685072), (2821834349, 1230301575), (2952996808, 2514118627), (3210313671, 1248030254), (3336571891, 958581035), (3584528711, 986517930), (113926993, 3375554546), (338241895, 3610288983)] @
     [(666307205, 3293813422), (773529912, 1804101345), (1294757372, 2978043521), (1396182291, 3643355136), (1695183700, 3991394436), (1986661051, 1692642020), (2177026350, 451502640), (2456956037, 1501164762)] @
     [(2730485921, 2592345944), (2820302411, 203331387), (3259730800, 2209927285), (3345764771, 3034708442), (3516065817, 660720211), (3600352804, 1694119033), (4094571909, 2629076186), (275423344, 1913174162)] @
     [(430227734, 2036443593), (506948616, 2071752926), (659060556, 2663276155), (883997877, 2570795000), (958139571, 1722010445), (1322822218, 983710061), (1537002063, 3967036773), (1747873779, 3492077698)] @
     [(1955562222, 2071659459), (2024104815, 1722760228), (2227730452, 3690882671), (2361852424, 1699417210), (2428436474, 3575240882), (2756734187, 3232951660), (3204031479, 1221949078), (3329325298, 274479483)]"
    unfolding hash_a0_schedule sha_rounds_eq by simp
  then show ?thesis unfolding sha_init_eq by (simp only: fold_append comp_apply hash_a0_rounds)
qed

lemma hash_a0: "CalculateHash ''a.fcef.0'' = ''81bf4ad56de29f73e000b5658a806261b5482c8517772313ea2f2508b0d47adb''"
proof -
  have len: "length (sha_pad (string_bytes ''a.fcef.0'')) = 64" by code_simp
  have "map2 (+) sha_init (fold sha_step (zip sha_rounds (sha_schedule 48 (rev (be_words (sha_pad (string_bytes ''a.fcef.0'')))))) sha_init) =
      [2176797397, 1843568499, 3758142821, 2323669601, 3041406085, 393683731, 3928958216, 2966715099]"
    by (simp only: hash_a0_block) (simp add: sha_init_eq)
  then have "sha256 (string_bytes ''a.fcef.0'') = concat (map (\<lambda>w. map (\<lambda>i. ucast (drop_bit (24 - 8 * i) w)) [0..<4])
      ([2176797397, 1843568499, 3758142821, 2323669601, 3041406085, 393683731, 3928958216, 2966715099] :: word32 list))"
    using len by (simp add: sha256_def sha_block_def Let_def del: list.map)
  also have "concat (map (\<lambda>w. map (\<lambda>i. ucast (drop_bit (24 - 8 * i) w)) [0..<4])
      ([2176797397, 1843568499, 3758142821, 2323669601, 3041406085, 393683731, 3928958216, 2966715099] :: word32 list)) =
    ([129, 191, 74, 213, 109, 226, 159, 115, 224, 0, 181, 101, 138, 128, 98, 97,
     181, 72, 44, 133, 23, 119, 35, 19, 234, 47, 37, 8, 176, 212, 122, 219] :: byte list)"
    by (simp add: upt_rec drop_bit_eq_div)
  finally show ?thesis unfolding CalculateHash_def by (simp add: hex_EncodeToString_def hex_digit_def drop_bit_eq_div)
qed

lemma hash_a1_words: "be_words (sha_pad (string_bytes ''a.fcef.1'')) =
    [1630430819, 1701195313, 2147483648, 0, 0, 0, 0, 0,
     0, 0, 0, 0, 0, 0, 0, 64]"
  by code_simp

lemma hash_a1_schedule: "sha_schedule 48 (rev (be_words (sha_pad (string_bytes ''a.fcef.1'')))) =
    [1630430819, 1701195313, 2147483648, 0, 0, 0, 0, 0,
     0, 0, 0, 0, 0, 0, 0, 64,
     1192802086, 1989037617, 3446025538, 4005770757, 3543819924, 4261018228, 2141994403, 157570659,
     268994909, 1868949965, 1145331244, 486484408, 2730276401, 4053299149, 1466605711, 3016777933,
     3128083932, 244122258, 6637788, 1560075998, 1528980369, 2422896125, 2211409174, 3534930207,
     1725963111, 4025418960, 1775255823, 898213401, 4194736944, 428543881, 1577911743, 540138775,
     843697190, 934944669, 2518430060, 1416277048, 2277429289, 3628173658, 3957731286, 3212103537,
     3990589808, 2284772986, 3594810854, 1251046840, 1503819533, 3455923429, 4025930940, 2215556385]"
  unfolding hash_a1_words by (simp add: sha_eval)

lemma hash_a1_rounds:
  "fold sha_step [(1116352408, 1630430819), (1899447441, 1701195313), (3049323471, 2147483648), (3921009573, 0), (961987163, 0), (1508970993, 0), (2453635748, 0), (2870763221, 0)]
     [1779033703, 3144134277, 1013904242, 2773480762, 1359893119, 2600822924, 528734635, 1541459225] =
     [1694433714, 879949033, 3324447303, 545245602, 3478866937, 2304184993, 2783336361, 2740861125]"
  "fold sha_step [(3624381080, 0), (310598401, 0), (607225278, 0), (1426881987, 0), (1925078388, 0), (2162078206, 0), (2614888103, 0), (3248222580, 64)]
     [1694433714, 879949033, 3324447303, 545245602, 3478866937, 2304184993, 2783336361, 2740861125] =
     [546549910, 1976195150, 90013682, 1447991920, 657327809, 2028593319, 4135228230, 4090042626]"
  "fold sha_step [(3835390401, 1192802086), (4022224774, 1989037617), (264347078, 3446025538), (604807628, 4005770757), (770255983, 3543819924), (1249150122, 4261018228), (1555081692, 2141994403), (1996064986, 157570659)]
     [546549910, 1976195150, 90013682, 1447991920, 657327809, 2028593319, 4135228230, 4090042626] =
     [2979037737, 1182210061, 2017683987, 1390778847, 1285371950, 2554186667, 522281978, 819471584]"
  "fold sha_step [(2554220882, 268994909), (2821834349, 1868949965), (2952996808, 1145331244), (3210313671, 486484408), (3336571891, 2730276401), (3584528711, 4053299149), (113926993, 1466605711), (338241895, 3016777933)]
     [2979037737, 1182210061, 2017683987, 1390778847, 1285371950, 2554186667, 522281978, 819471584] =
     [1872057839, 3707558180, 2028912536, 3560106357, 3440221744, 2887267703, 1333293781, 1765072237]"
  "fold sha_step [(666307205, 3128083932), (773529912, 244122258), (1294757372, 6637788), (1396182291, 1560075998), (1695183700, 1528980369), (1986661051, 2422896125), (2177026350, 2211409174), (2456956037, 3534930207)]
     [1872057839, 3707558180, 2028912536, 3560106357, 3440221744, 2887267703, 1333293781, 1765072237] =
     [3934559296, 681039002, 1355698046, 2941887464, 3255923888, 2733657613, 730568125, 3420712596]"
  "fold sha_step [(2730485921, 1725963111), (2820302411, 4025418960), (3259730800, 1775255823), (3345764771, 898213401), (3516065817, 4194736944), (3600352804, 428543881), (4094571909, 1577911743), (275423344, 540138775)]
     [3934559296, 681039002, 1355698046, 2941887464, 3255923888, 2733657613, 730568125, 3420712596] =
     [2741044534, 592454125, 137074160, 191282912, 3198939676, 2401652411, 136758815, 1078742437]"
  "fold sha_step [(430227734, 843697190), (506948616, 934944669), (659060556, 2518430060), (883997877, 1416277048), (958139571, 2277429289), (1322822218, 3628173658), (1537002063, 3957731286), (1747873779, 3212103537)]
     [2741044534, 592454125, 137074160, 191282912, 3198939676, 2401652411, 136758815, 1078742437] =
     [2982853774, 4201798710, 237917980, 472301938, 1874745361, 2688672547, 2654783170, 1104857835]"
  "fold sha_step [(1955562222, 3990589808), (2024104815, 2284772986), (2227730452, 3594810854), (2361852424, 1251046840), (2428436474, 1503819533), (2756734187, 3455923429), (3204031479, 4025930940), (3329325298, 2215556385)]
     [2982853774, 4201798710, 237917980, 472301938, 1874745361, 2688672547, 2654783170, 1104857835] =
     [3391936955, 797961853, 2124786899, 1526263944, 1134387082, 3338724400, 1197026571, 3206599040]"
  by (simp_all add: sha_eval)

lemma hash_a1_block: "fold sha_step (zip sha_rounds (sha_schedule 48 (rev (be_words (sha_pad (string_bytes ''a.fcef.1'')))))) sha_init =
    [3391936955, 797961853, 2124786899, 1526263944, 1134387082, 3338724400, 1197026571, 3206599040]"
proof -
  have "zip sha_rounds (sha_schedule 48 (rev (be_words (sha_pad (string_bytes ''a.fcef.1''))))) =
    [(1116352408, 1630430819), (1899447441, 1701195313), (3049323471, 2147483648), (3921009573, 0), (961987163, 0), (1508970993, 0), (2453635748, 0), (2870763221, 0)] @
     [(3624381080, 0), (310598401, 0), (607225278, 0), (1426881987, 0), (1925078388, 0), (2162078206, 0), (2614888103, 0), (3248222580, 64)] @
     [(3835390401, 1192802086), (4022224774, 1989037617), (264347078, 3446025538), (604807628, 4005770757), (770255983, 3543819924), (1249150122, 4261018228), (1555081692, 2141994403), (1996064986, 157570659)] @
     [(2554220882, 268994909), (2821834349, 1868949965), (2952996808, 1145331244), (3210313671, 486484408), (3336571891, 2730276401), (3584528711, 4053299149), (113926993, 1466605711), (338241895, 3016777933)] @
     [(666307205, 3128083932), (773529912, 244122258), (1294757372, 6637788), (1396182291, 1560075998), (1695183700, 1528980369), (1986661051, 2422896125), (2177026350, 2211409174), (2456956037, 3534930207)] @
     [(2730485921, 1725963111), (2820302411, 4025418960), (3259730800, 1775255823), (3345764771, 898213401), (3516065817, 4194736944), (3600352804, 428543881), (4094571909, 1577911743), (275423344, 540138775)] @
     [(430227734, 843697190), (506948616, 934944669), (659060556, 2518430060), (883997877, 1416277048), (958139571, 2277429289), (1322822218, 3628173658), (1537002063, 3957731286), (1747873779, 3212103537)] @
     [(1955562222, 3990589808), (2024104815, 2284772986), (2227730452, 3594810854), (2361852424, 1251046840), (2428436474, 1503819533), (2756734187, 3455923429), (3204031479, 4025930940), (3329325298, 2215556385)]"
    unfolding hash_a1_schedule sha_rounds_eq by simp
  then show ?thesis unfolding sha_init_eq by (simp only: fold_append comp_apply hash_a1_rounds)
qed

lemma hash_a1: "CalculateHash ''a.fcef.1'' = ''3436c022eaf79d02bb14a0450048e5c294abb20962064cbc66dd06b61b019e99''"
proof -
  have len: "length (sha_pad (string_bytes ''a.fcef.1'')) = 64" by code_simp
  have "map2 (+) sha_init (fold sha_step (zip sha_rounds (sha_schedule 48 (rev (be_words (sha_pad (string_bytes ''a.fcef.1'')))))) sha_init) =
      [876003362, 3942096130, 3138691141, 4777410, 2494280201, 1644580028, 1725761206, 453090969]"
    by (simp only: hash_a1_block) (simp add: sha_init_eq)
  then have "sha256 (string_bytes ''a.fcef.1'') = concat (map (\<lambda>w. map (\<lambda>i. ucast (drop_bit (24 - 8 * i) w)) [0..<4])
      ([876003362, 3942096130, 3138691141, 4777410, 2494280201, 1644580028, 1725761206, 453090969] :: word32 list))"
    using len by (simp add: sha256_def sha_block_def Let_def del: list.map)
  also have "concat (map (\<lambda>w. map (\<lambda>i. ucast (drop_bit (24 - 8 * i) w)) [0..<4])
      ([876003362, 3942096130, 3138691141, 4777410, 2494280201, 1644580028, 1725761206, 453090969] :: word32 list)) =
    ([52, 54, 192, 34, 234, 247, 157, 2, 187, 20, 160, 69, 0, 72, 229, 194,
     148, 171, 178, 9, 98, 6, 76, 188, 102, 221, 6, 182, 27, 1, 158, 153] :: byte list)"
    by (simp add: upt_rec drop_bit_eq_div)
  finally show ?thesis unfolding CalculateHash_def by (simp add: hex_EncodeToString_def hex_digit_def drop_bit_eq_div)
qed

lemma hash_a2_words: "be_words (sha_pad (string_bytes ''a.fcef.2'')) =
    [1630430819, 1701195314, 2147483648, 0, 0, 0, 0, 0,
     0, 0, 0, 0, 0, 0, 0, 64]"
  by code_simp

lemma hash_a2_schedule: "sha_schedule 48 (rev (be_words (sha_pad (string_bytes ''a.fcef.2'')))) =
    [1630430819, 1701195314, 2147483648, 0, 0, 0, 0, 0,
     0, 0, 0, 0, 0, 0, 0, 64,
     1159264038, 1989037618, 3848711186, 4005746181, 2209511348, 838466060, 1963736434, 124049379,
     261653850, 3597854333, 1086879267, 3010938114, 1740633196, 3206156150, 2350328000, 3488846547,
     2258073823, 79284411, 2411211831, 409641503, 3077251093, 2826083059, 742398559, 1086632090,
     2076147298, 2273950244, 1818190000, 2122133244, 3855128081, 2026062299, 2175073365, 2254705965,
     4099004548, 1863428758, 2069861156, 3552335304, 3237553031, 2278063219, 2028397818, 2059721215,
     3510925728, 2957474324, 2960661033, 2899455252, 3853398849, 3369129064, 719759192, 695696841]"
  unfolding hash_a2_words by (simp add: sha_eval)

lemma hash_a2_rounds:
  "fold sha_step [(1116352408, 1630430819), (1899447441, 1701195314), (3049323471, 2147483648), (3921009573, 0), (961987163, 0), (1508970993, 0), (2453635748, 0), (2870763221, 0)]
     [1779033703, 3144134277, 1013904242, 2773480762, 1359893119, 2600822924, 528734635, 1541459225] =
     [2243791394, 3832211868, 2405529853, 776618771, 610383310, 357784585, 3039959931, 2762076255]"
  "fold sha_step [(3624381080, 0), (310598401, 0), (607225278, 0), (1426881987, 0), (1925078388, 0), (2162078206, 0), (2614888103, 0), (3248222580, 64)]
     [2243791394, 3832211868, 2405529853, 776618771, 610383310, 357784585, 3039959931, 2762076255] =
     [1349962062, 299442820, 446584293, 1290648153, 1187763534, 2791699498, 3597943940, 728220513]"
  "fold sha_step [(3835390401, 1159264038), (4022224774, 1989037618), (264347078, 3848711186), (604807628, 4005746181), (770255983, 2209511348), (1249150122, 838466060), (1555081692, 1963736434), (1996064986, 124049379)]
     [1349962062, 299442820, 446584293, 1290648153, 1187763534, 2791699498, 3597943940, 728220513] =
     [3472239869, 2408598702, 422599158, 2859316012, 4048693926, 1564134488, 3518762053, 497519662]"
  "fold sha_step [(2554220882, 261653850), (2821834349, 3597854333), (2952996808, 1086879267), (3210313671, 3010938114), (3336571891, 1740633196), (3584528711, 3206156150), (113926993, 2350328000), (338241895, 3488846547)]
     [3472239869, 2408598702, 422599158, 2859316012, 4048693926, 1564134488, 3518762053, 497519662] =
     [416911162, 906766622, 2857828660, 653424787, 2821747905, 3973032820, 2453889366, 2878215521]"
  "fold sha_step [(666307205, 2258073823), (773529912, 79284411), (1294757372, 2411211831), (1396182291, 409641503), (1695183700, 3077251093), (1986661051, 2826083059), (2177026350, 742398559), (2456956037, 1086632090)]
     [416911162, 906766622, 2857828660, 653424787, 2821747905, 3973032820, 2453889366, 2878215521] =
     [287112471, 4103237595, 2870810074, 3494840773, 3547480158, 3836117711, 2211536655, 259419500]"
  "fold sha_step [(2730485921, 2076147298), (2820302411, 2273950244), (3259730800, 1818190000), (3345764771, 2122133244), (3516065817, 3855128081), (3600352804, 2026062299), (4094571909, 2175073365), (275423344, 2254705965)]
     [287112471, 4103237595, 2870810074, 3494840773, 3547480158, 3836117711, 2211536655, 259419500] =
     [2794240906, 2079530824, 4277511416, 987930130, 2650259757, 2280654102, 2307505641, 518003209]"
  "fold sha_step [(430227734, 4099004548), (506948616, 1863428758), (659060556, 2069861156), (883997877, 3552335304), (958139571, 3237553031), (1322822218, 2278063219), (1537002063, 2028397818), (1747873779, 2059721215)]
     [2794240906, 2079530824, 4277511416, 987930130, 2650259757, 2280654102, 2307505641, 518003209] =
     [2431783468, 202791140, 1837261472, 2507853050, 2693410167, 496080495, 2968637676, 675663678]"
  "fold sha_step [(1955562222, 3510925728), (2024104815, 2957474324), (2227730452, 2960661033), (2361852424, 2899455252), (2428436474, 3853398849), (2756734187, 3369129064), (3204031479, 719759192), (3329325298, 695696841)]
     [2431783468, 202791140, 1837261472, 2507853050, 2693410167, 496080495, 2968637676, 675663678] =
     [951283865, 1318440486, 2511195459, 3513465220, 2834002212, 2603226263, 2595290884, 3652813023]"
  by (simp_all add: sha_eval)

lemma hash_a2_block: "fold sha_step (zip sha_rounds (sha_schedule 48 (rev (be_words (sha_pad (string_bytes ''a.fcef.2'')))))) sha_init =
    [951283865, 1318440486, 2511195459, 3513465220, 2834002212, 2603226263, 2595290884, 3652813023]"
proof -
  have "zip sha_rounds (sha_schedule 48 (rev (be_words (sha_pad (string_bytes ''a.fcef.2''))))) =
    [(1116352408, 1630430819), (1899447441, 1701195314), (3049323471, 2147483648), (3921009573, 0), (961987163, 0), (1508970993, 0), (2453635748, 0), (2870763221, 0)] @
     [(3624381080, 0), (310598401, 0), (607225278, 0), (1426881987, 0), (1925078388, 0), (2162078206, 0), (2614888103, 0), (3248222580, 64)] @
     [(3835390401, 1159264038), (4022224774, 1989037618), (264347078, 3848711186), (604807628, 4005746181), (770255983, 2209511348), (1249150122, 838466060), (1555081692, 1963736434), (1996064986, 124049379)] @
     [(2554220882, 261653850), (2821834349, 3597854333), (2952996808, 1086879267), (3210313671, 3010938114), (3336571891, 1740633196), (3584528711, 3206156150), (113926993, 2350328000), (338241895, 3488846547)] @
     [(666307205, 2258073823), (773529912, 79284411), (1294757372, 2411211831), (1396182291, 409641503), (1695183700, 3077251093), (1986661051, 2826083059), (2177026350, 742398559), (2456956037, 1086632090)] @
     [(2730485921, 2076147298), (2820302411, 2273950244), (3259730800, 1818190000), (3345764771, 2122133244), (3516065817, 3855128081), (3600352804, 2026062299), (4094571909, 2175073365), (275423344, 2254705965)] @
     [(430227734, 4099004548), (506948616, 1863428758), (659060556, 2069861156), (883997877, 3552335304), (958139571, 3237553031), (1322822218, 2278063219), (1537002063, 2028397818), (1747873779, 2059721215)] @
     [(1955562222, 3510925728), (2024104815, 2957474324), (2227730452, 2960661033), (2361852424, 2899455252), (2428436474, 3853398849), (2756734187, 3369129064), (3204031479, 719759192), (3329325298, 695696841)]"
    unfolding hash_a2_schedule sha_rounds_eq by simp
  then show ?thesis unfolding sha_init_eq by (simp only: fold_append comp_apply hash_a2_rounds)
qed

lemma hash_a2: "CalculateHash ''a.fcef.2'' = ''a2bd570009fd7cabd21cc0b576bb2ebef9f9c3a3362f7d23ba34d8af359a4df8''"
proof -
  have len: "length (sha_pad (string_bytes ''a.fcef.2'')) = 64" by code_simp
  have "map2 (+) sha_init (fold sha_step (zip sha_rounds (sha_schedule 48 (rev (be_words (sha_pad (string_bytes ''a.fcef.2'')))))) sha_init) =
      [2730317568, 167607467, 3525099701, 1991978686, 4193895331, 909081891, 3124025519, 899304952]"
    by (simp only: hash_a2_block) (simp add: sha_init_eq)
  then have "sha256 (string_bytes ''a.fcef.2'') = concat (map (\<lambda>w. map (\<lambda>i. ucast (drop_bit (24 - 8 * i) w)) [0..<4])
      ([2730317568, 167607467, 3525099701, 1991978686, 4193895331, 909081891, 3124025519, 899304952] :: word32 list))"
    using len by (simp add: sha256_def sha_block_def Let_def del: list.map)
  also have "concat (map (\<lambda>w. map (\<lambda>i. ucast (drop_bit (24 - 8 * i) w)) [0..<4])
      ([2730317568, 167607467, 3525099701, 1991978686, 4193895331, 909081891, 3124025519, 899304952] :: word32 list)) =
    ([162, 189, 87, 0, 9, 253, 124, 171, 210, 28, 192, 181, 118, 187, 46, 190,
     249, 249, 195, 163, 54, 47, 125, 35, 186, 52, 216, 175, 53, 154, 77, 248] :: byte list)"
    by (simp add: upt_rec drop_bit_eq_div)
  finally show ?thesis unfolding CalculateHash_def by (simp add: hex_EncodeToString_def hex_digit_def drop_bit_eq_div)
qed

lemma hashes_differ: "CalculateHash ''a.fcef.0'' \<noteq> CalculateHash ''a.fcef.1''"
  unfolding hash_a0 hash_a1 by simp

lemma hashes_distinct: "distinct (map CalculateHash [''a.fcef.0'', ''a.fcef.1'', ''a.fcef.2''])"
  by (simp add: hash_a0 hash_a1 hash_a2)

end
