(* ===== verification/Download.thy ===== *)
theory Download
  imports Machine Upload Hash_Vectors
begin

text \<open>
  \<open>fs/dis_operations/dis_download.go\<close>: the download of a file. A pool of workers takes every recorded shard through
  the phases of the source: copy the object from its remote into the shard directory, rename it from its hashed name
  to its own, record it in the data map and the statistics (under the lock). One phase is one step of the pool. The
  errors of the jobs are collected and never looked at. Then the file is decoded from the shards that have arrived.
\<close>

section \<open>State and environment\<close>

record dn_state =
  ds_world :: world
  ds_errs :: nat
  ds_exit :: "nat option"

record dn_out =
  dl_copy :: call_end
  dl_stat :: bool
  dl_speed :: rat
  dl_renamed :: bool
  dl_mark :: "FilesMap write_end"
  dl_created :: lb_end
  dl_stats :: lb_end

datatype dn_phase = DCopy DistributedFile | DRename DistributedFile rat | DRecord DistributedFile rat | DOver DistributedFile

section \<open>Phases\<close>

text \<open>A copy that takes effect brings the object into the shard directory; when there is no such object, the command
  says so and returns nil.\<close>

definition remoteCallCopyforDown :: "call_end \<Rightarrow> string \<times> string \<Rightarrow> world \<Rightarrow> world" where
  "remoteCallCopyforDown ending source w =
     (case w_cloud w source of
        None \<Rightarrow> w
      | Some content \<Rightarrow> if ending = Did then w\<lparr>w_shards := (w_shards w)(snd source \<mapsto> content)\<rparr> else w)"

text \<open>The first part of \<open>downloadFile\<close>. An error is appended there and again by the worker.\<close>

definition dn_copy :: "dn_out \<Rightarrow> DistributedFile \<Rightarrow> dn_state \<Rightarrow> dn_phase \<times> dn_state" where
  "dn_copy out fileInfo st =
     (let hashedFileName = CalculateHash (df_DistributedFile fileInfo);
          st = st\<lparr>ds_world := remoteCallCopyforDown (dl_copy out) (Remote_Name (df_Remote fileInfo), hashedFileName) (ds_world st)\<rparr>
      in case dl_copy out of
           CallError \<Rightarrow> (DOver fileInfo, st\<lparr>ds_errs := ds_errs st + 2\<rparr>)
         | Ended code \<Rightarrow> (DOver fileInfo, st\<lparr>ds_exit := Some code\<rparr>)
         | _ \<Rightarrow>
             if w_shards (ds_world st) hashedFileName = None \<or> \<not> dl_stat out
             then (DOver fileInfo, st\<lparr>ds_errs := ds_errs st + 2\<rparr>)
             else (DRename fileInfo (dl_speed out), st))"

definition dn_rename :: "dn_out \<Rightarrow> DistributedFile \<Rightarrow> rat \<Rightarrow> dn_state \<Rightarrow> dn_phase \<times> dn_state" where
  "dn_rename out fileInfo throughputKbps st =
     (let w = ds_world st; name = df_DistributedFile fileInfo
      in case ConvertFileNameForDo (dl_renamed out) (CalculateHash name) name (w_shards w) of
           (Inl _, _) \<Rightarrow> (DOver fileInfo, st\<lparr>ds_errs := ds_errs st + 1\<rparr>)
         | (Inr _, dir) \<Rightarrow> (DRecord fileInfo throughputKbps, st\<lparr>ds_world := w\<lparr>w_shards := dir\<rparr>\<rparr>))"

definition updateRemoteInfo_Down ::
  "dn_out \<Rightarrow> string \<Rightarrow> DistributedFile \<Rightarrow> rat \<Rightarrow> world \<Rightarrow> unit dis_result \<times> world" where
  "updateRemoteInfo_Down out originalFileName shardInfo throughputKbps w =
     (case UpdateDistributedFile_CheckFlag (dl_mark out) originalFileName (df_DistributedFile shardInfo) True (w_datamap w) of
        (Inl e, dm) \<Rightarrow> (Inl e, w\<lparr>w_datamap := dm\<rparr>)
      | (Inr _, dm) \<Rightarrow>
          (case UpdateRemoteInfo (dl_created out) (dl_stats out) (df_Remote shardInfo) (UpdateThroughput throughputKbps Download)
                  (lb_json (w_lb w)) of
             (res, lb) \<Rightarrow> (res, w\<lparr>w_datamap := dm, w_lb := (w_lb w)\<lparr>lb_json := lb\<rparr>\<rparr>)))"

definition dn_record :: "string \<Rightarrow> dn_out \<Rightarrow> DistributedFile \<Rightarrow> rat \<Rightarrow> dn_state \<Rightarrow> dn_phase \<times> dn_state" where
  "dn_record originalFileName out fileInfo throughputKbps st =
     (case updateRemoteInfo_Down out originalFileName fileInfo throughputKbps (ds_world st) of
        (Inl _, w) \<Rightarrow> (DOver fileInfo, st\<lparr>ds_world := w, ds_errs := ds_errs st + 1\<rparr>)
      | (Inr _, w) \<Rightarrow> (DOver fileInfo, st\<lparr>ds_world := w\<rparr>))"

fun dn_do :: "string \<Rightarrow> dn_out \<Rightarrow> dn_phase \<Rightarrow> dn_state \<Rightarrow> dn_phase \<times> dn_state" where
  "dn_do f out (DCopy df) st = dn_copy out df st"
| "dn_do f out (DRename df speed) st = dn_rename out df speed st"
| "dn_do f out (DRecord df speed) st = dn_record f out df speed st"
| "dn_do f out (DOver df) st = (DOver df, st)"

definition downloadFile :: "string \<Rightarrow> dn_out \<Rightarrow> DistributedFile \<Rightarrow> dn_state \<Rightarrow> dn_phase \<times> dn_state" where
  "downloadFile f out fileInfo st =
     (let (p, st) = dn_copy out fileInfo st; (p, st) = dn_do f out p st in dn_do f out p st)"

section \<open>The pool\<close>

fun dn_over :: "dn_phase \<Rightarrow> bool option" where
  "dn_over (DOver _) = Some True"
| "dn_over _ = None"

definition dn_dead :: "dn_state \<Rightarrow> bool" where
  "dn_dead st \<longleftrightarrow> ds_exit st \<noteq> None"

fun dn_df :: "dn_phase \<Rightarrow> DistributedFile" where
  "dn_df (DCopy df) = df"
| "dn_df (DRename df _) = df"
| "dn_df (DRecord df _) = df"
| "dn_df (DOver df) = df"

text \<open>What is assumed of the environment of a run, if anything: a write of the data map that fails leaves the file as it
  was, no call ends the process, and the calls for the shards in \<open>good\<close> succeed.\<close>

definition dn_env_ok :: "string set option \<Rightarrow> string \<Rightarrow> dn_out \<Rightarrow> bool" where
  "dn_env_ok good name out \<longleftrightarrow>
     (case good of
        None \<Rightarrow> True
      | Some good \<Rightarrow> dl_mark out \<in> {Wrote, MkdirFailed} \<and> (\<forall>code. dl_copy out \<noteq> Ended code) \<and> (name \<in> good \<longrightarrow> dl_copy out = Did \<and> dl_stat out \<and> dl_renamed out))"

definition dn_work :: "string set option \<Rightarrow> string \<Rightarrow> dn_phase \<Rightarrow> dn_state \<Rightarrow> dn_phase \<Rightarrow> dn_state \<Rightarrow> bool" where
  "dn_work good f p st p' st' \<longleftrightarrow> dn_over p = None
     \<and> (\<exists>out. dn_env_ok good (df_DistributedFile (dn_df p)) out \<and> dn_do f out p st = (p', st'))"

definition startDownloadFileGoroutine_Worker ::
  "string set option \<Rightarrow> string \<Rightarrow> DistributedFile list \<Rightarrow> nat \<Rightarrow> dn_state \<Rightarrow> (DistributedFile, dn_phase, dn_state) pool \<Rightarrow> bool" where
  "startDownloadFileGoroutine_Worker good f distributedFileInfos workerCount st c \<longleftrightarrow>
     pool_reach DCopy (dn_work good f) dn_over dn_dead workerCount distributedFileInfos st c"

section \<open>What every phase keeps\<close>

fun dn_rank :: "dn_phase \<Rightarrow> nat" where
  "dn_rank (DCopy _) = 3"
| "dn_rank (DRename _ _) = 2"
| "dn_rank (DRecord _ _) = 1"
| "dn_rank (DOver _) = 0"

definition shard_names :: "DistributedFile set \<Rightarrow> string set" where
  "shard_names D = df_DistributedFile ` D"

text \<open>The shards \<open>D\<close> of the file \<open>f\<close> have hashed names of their own, under which there is no file yet.\<close>

definition dn_ready :: "DistributedFile set \<Rightarrow> string \<Rightarrow> world \<Rightarrow> bool" where
  "dn_ready D f w \<longleftrightarrow> inj_on CalculateHash (shard_names D) \<and> shard_names D \<inter> CalculateHash ` shard_names D = {}
     \<and> (\<forall>h \<in> CalculateHash ` shard_names D. w_shards w h = None) \<and> datamap_wf (w_datamap w)
     \<and> files (w_datamap w) f \<noteq> None \<and> (\<forall>d \<in> shard_names D. shard_at (w_datamap w) (f, d) \<noteq> None)"

definition dn_common :: "string set option \<Rightarrow> DistributedFile set \<Rightarrow> string \<Rightarrow> world \<Rightarrow> world \<Rightarrow> bool" where
  "dn_common good D f w0 w \<longleftrightarrow> dn_ready D f w0 \<and> w_cloud w = w_cloud w0
     \<and> (\<forall>k. k \<notin> shard_names D \<union> CalculateHash ` shard_names D \<longrightarrow> w_shards w k = w_shards w0 k)
     \<and> (good \<noteq> None \<longrightarrow> (\<exists>ds \<subseteq> shard_names D. marked f ds (w_datamap w0) (w_datamap w)))"

definition cloud_object :: "world \<Rightarrow> DistributedFile \<Rightarrow> bytes option" where
  "cloud_object w df = w_cloud w (object_key df)"

definition is_good :: "string set option \<Rightarrow> string \<Rightarrow> bool" where
  "is_good good name \<longleftrightarrow> (\<exists>g. good = Some g \<and> name \<in> g)"

fun dn_place :: "string set option \<Rightarrow> world \<Rightarrow> dn_phase \<Rightarrow> shard_dir \<Rightarrow> bool" where
  "dn_place good w0 (DCopy df) dir =
     (dir (df_DistributedFile df) = w_shards w0 (df_DistributedFile df) \<and> dir (CalculateHash (df_DistributedFile df)) = None)"
| "dn_place good w0 (DRename df _) dir =
     (dir (df_DistributedFile df) = w_shards w0 (df_DistributedFile df) \<and>
      dir (CalculateHash (df_DistributedFile df)) = cloud_object w0 df \<and> cloud_object w0 df \<noteq> None)"
| "dn_place good w0 (DRecord df _) dir = (dir (df_DistributedFile df) = cloud_object w0 df \<and> cloud_object w0 df \<noteq> None)"
| "dn_place good w0 (DOver df) dir =
     (dir (df_DistributedFile df) \<in> {w_shards w0 (df_DistributedFile df), cloud_object w0 df} \<and>
      (is_good good (df_DistributedFile df) \<and> cloud_object w0 df \<noteq> None \<longrightarrow> dir (df_DistributedFile df) = cloud_object w0 df))"

definition dn_fine :: "string set option \<Rightarrow> DistributedFile set \<Rightarrow> string \<Rightarrow> world \<Rightarrow> dn_phase \<Rightarrow> dn_state \<Rightarrow> bool" where
  "dn_fine good D f w0 p st \<longleftrightarrow> dn_df p \<in> D \<and> dn_common good D f w0 (ds_world st) \<and> dn_place good w0 p (w_shards (ds_world st))"

lemma dn_names:
  assumes "dn_common good D f w0 w" "df \<in> D" "dg \<in> D"
  shows "CalculateHash (df_DistributedFile df) \<noteq> df_DistributedFile dg"
    and "df_DistributedFile df \<noteq> df_DistributedFile dg \<Longrightarrow> CalculateHash (df_DistributedFile df) \<noteq> CalculateHash (df_DistributedFile dg)"
proof -
  have inj: "inj_on CalculateHash (shard_names D)" and disj: "shard_names D \<inter> CalculateHash ` shard_names D = {}"
    using assms(1) by (simp_all add: dn_common_def dn_ready_def)
  have n: "df_DistributedFile df \<in> shard_names D" "df_DistributedFile dg \<in> shard_names D"
    using assms(2,3) by (simp_all add: shard_names_def)
  show "CalculateHash (df_DistributedFile df) \<noteq> df_DistributedFile dg"
    using disj n imageI [OF n(1), of CalculateHash] by (metis IntI empty_iff)
  show "CalculateHash (df_DistributedFile df) \<noteq> CalculateHash (df_DistributedFile dg)"
    if "df_DistributedFile df \<noteq> df_DistributedFile dg"
    using inj_on_eq_iff [OF inj n] that by simp
qed

lemma updateRemoteInfo_Down_effect:
  assumes "updateRemoteInfo_Down out f df speed w = (res, w')"
  shows "w_cloud w' = w_cloud w \<and> w_shards w' = w_shards w
     \<and> w_datamap w' = snd (UpdateDistributedFile_CheckFlag (dl_mark out) f (df_DistributedFile df) True (w_datamap w))"
proof -
  obtain r dm where "UpdateDistributedFile_CheckFlag (dl_mark out) f (df_DistributedFile df) True (w_datamap w) = (r, dm)" by fastforce
  then show ?thesis using assms unfolding updateRemoteInfo_Down_def by (cases r) (auto split: prod.splits)
qed

lemma mark_kept:
  assumes "marked f ds dm dm'" "shard_at dm (f, d) \<noteq> None" "we \<in> {Wrote, MkdirFailed}"
  shows "\<exists>ds'. ds' \<subseteq> insert d ds \<and> marked f ds' dm (snd (UpdateDistributedFile_CheckFlag we f d True dm'))"
proof (cases "we = Wrote")
  case True
  obtain dm'' where "UpdateDistributedFile_CheckFlag Wrote f d True dm' = (Inr (), dm'')" "marked f (insert d ds) dm dm''"
    using marked_step [OF assms(1,2)] by blast
  then show ?thesis using True by (intro exI [of _ "insert d ds"]) simp
next
  case False
  then have "snd (UpdateDistributedFile_CheckFlag we f d True dm') = dm'"
    using assms(3) by (simp add: UpdateDistributedFile_CheckFlag_def updateDistributedFile_def writeJsonFile_def
        split: sum.split option.split)
  then show ?thesis using assms(1) by (intro exI [of _ ds]) auto
qed

text \<open>A step of a job keeps its condition, and touches no shard file but the two of its shard.\<close>

text \<open>The effect of a phase of the job for \<open>df\<close>: its condition holds again, and only its two shard files may have changed.\<close>

definition dn_effect :: "string set option \<Rightarrow> DistributedFile set \<Rightarrow> string \<Rightarrow> world \<Rightarrow> DistributedFile \<Rightarrow> dn_state \<Rightarrow> dn_phase \<Rightarrow> dn_state \<Rightarrow> bool" where
  "dn_effect good D f w0 df st p' st' \<longleftrightarrow> dn_df p' = df \<and> dn_fine good D f w0 p' st' \<and>
     (\<forall>k. k \<noteq> df_DistributedFile df \<and> k \<noteq> CalculateHash (df_DistributedFile df) \<longrightarrow>
        w_shards (ds_world st') k = w_shards (ds_world st) k)"

lemma dn_common_same:
  assumes "dn_common good D f w0 w" "df \<in> D" "w_cloud w' = w_cloud w" "w_datamap w' = w_datamap w"
    and "\<And>k. k \<noteq> df_DistributedFile df \<Longrightarrow> k \<noteq> CalculateHash (df_DistributedFile df) \<Longrightarrow> w_shards w' k = w_shards w k"
  shows "dn_common good D f w0 w'"
proof -
  have "df_DistributedFile df \<in> shard_names D" "CalculateHash (df_DistributedFile df) \<in> CalculateHash ` shard_names D"
    using assms(2) by (simp_all add: shard_names_def)
  then have "w_shards w' k = w_shards w k" if "k \<notin> shard_names D \<union> CalculateHash ` shard_names D" for k
    using that assms(5) by (metis UnCI)
  then show ?thesis using assms(1,3,4) by (simp add: dn_common_def)
qed

lemma dn_copy_effect:
  assumes "dn_copy out df st = (p', st')" "dn_env_ok good (df_DistributedFile df) out" "dn_fine good D f w0 (DCopy df) st"
  shows "dn_rank p' < 3 \<and> dn_effect good D f w0 df st p' st'"
proof -
  have df: "df \<in> D" and common: "dn_common good D f w0 (ds_world st)"
    and place: "dn_place good w0 (DCopy df) (w_shards (ds_world st))"
    using assms(3) by (simp_all add: dn_fine_def)
  let ?h = "CalculateHash (df_DistributedFile df)"
  define w where "w = remoteCallCopyforDown (dl_copy out) (Remote_Name (df_Remote df), ?h) (ds_world st)"
  have cloud: "w_cloud (ds_world st) (Remote_Name (df_Remote df), ?h) = cloud_object w0 df"
    using common by (simp add: dn_common_def cloud_object_def object_key_def)
  have w: "w_cloud w = w_cloud (ds_world st)" "w_datamap w = w_datamap (ds_world st)"
    "\<And>k. k \<noteq> ?h \<Longrightarrow> w_shards w k = w_shards (ds_world st) k"
    "w_shards w ?h = (if dl_copy out = Did then cloud_object w0 df else None)"
    using place cloud by (simp_all add: w_def remoteCallCopyforDown_def split: option.split)
  have common': "dn_common good D f w0 w" using common df w(1,2) by (rule dn_common_same) (simp add: w(3))
  have n: "w_shards w (df_DistributedFile df) = w_shards w0 (df_DistributedFile df)"
    using place w(3) dn_names(1) [OF common df df] by simp
  note run = assms(1) [unfolded dn_copy_def Let_def, folded w_def]
  show ?thesis
  proof (cases "dl_copy out = Did \<and> dl_stat out \<and> cloud_object w0 df \<noteq> None")
    case True
    then have "p' = DRename df (dl_speed out) \<and> st' = st\<lparr>ds_world := w\<rparr>"
      using run w(4) by auto
    then show ?thesis using True w(3,4) n common' df by (simp add: dn_fine_def dn_effect_def)
  next
    case False
    then have over: "p' = DOver df \<and> ds_world st' = w"
      using run w(4) by (cases "dl_copy out") auto
    have "\<not> (is_good good (df_DistributedFile df) \<and> cloud_object w0 df \<noteq> None)"
      using False assms(2) by (auto simp: dn_env_ok_def is_good_def)
    then show ?thesis using over w(3) n common' df by (auto simp: dn_fine_def dn_effect_def)
  qed
qed

lemma dn_rename_effect:
  assumes "dn_rename out df speed st = (p', st')" "dn_env_ok good (df_DistributedFile df) out" "dn_fine good D f w0 (DRename df speed) st"
  shows "dn_rank p' < 2 \<and> dn_effect good D f w0 df st p' st'"
proof -
  have df: "df \<in> D" and common: "dn_common good D f w0 (ds_world st)"
    and place: "dn_place good w0 (DRename df speed) (w_shards (ds_world st))"
    using assms(3) by (simp_all add: dn_fine_def)
  let ?n = "df_DistributedFile df" let ?h = "CalculateHash (df_DistributedFile df)" let ?dir = "w_shards (ds_world st)"
  obtain content where content: "?dir ?h = Some content" "cloud_object w0 df = Some content" "?dir ?n = w_shards w0 ?n"
    using place by auto
  show ?thesis
  proof (cases "dl_renamed out")
    case True
    define w where "w = (ds_world st)\<lparr>w_shards := (?dir(?h := None))(?n \<mapsto> content)\<rparr>"
    have "dn_common good D f w0 w" using common df by (rule dn_common_same) (simp_all add: w_def)
    moreover have "p' = DRecord df speed \<and> st' = st\<lparr>ds_world := w\<rparr>"
      using assms(1) True content by (simp add: dn_rename_def ConvertFileNameForDo_def os_Rename_def Let_def w_def)
    ultimately show ?thesis using content df by (simp add: dn_fine_def dn_effect_def) (simp add: w_def)
  next
    case False
    then have "\<not> is_good good ?n" using assms(2) by (auto simp: dn_env_ok_def is_good_def)
    moreover have "p' = DOver df \<and> ds_world st' = ds_world st"
      using assms(1) False content by (auto simp: dn_rename_def ConvertFileNameForDo_def os_Rename_def Let_def)
    ultimately show ?thesis using content df common by (simp add: dn_fine_def dn_effect_def)
  qed
qed

lemma dn_record_effect:
  assumes "dn_record f out df speed st = (p', st')" "dn_env_ok good (df_DistributedFile df) out" "dn_fine good D f w0 (DRecord df speed) st"
  shows "dn_rank p' < 1 \<and> dn_effect good D f w0 df st p' st'"
proof -
  have df: "df \<in> D" and common: "dn_common good D f w0 (ds_world st)"
    and place: "dn_place good w0 (DRecord df speed) (w_shards (ds_world st))"
    using assms(3) by (simp_all add: dn_fine_def)
  have in_names: "df_DistributedFile df \<in> shard_names D" using df by (simp add: shard_names_def)
  obtain res w where run: "updateRemoteInfo_Down out f df speed (ds_world st) = (res, w)" by fastforce
  have same: "w_cloud w = w_cloud (ds_world st)" "w_shards w = w_shards (ds_world st)"
    and dm: "w_datamap w = snd (UpdateDistributedFile_CheckFlag (dl_mark out) f (df_DistributedFile df) True (w_datamap (ds_world st)))"
    using updateRemoteInfo_Down_effect [OF run] by blast+
  have "\<exists>ds \<subseteq> shard_names D. marked f ds (w_datamap w0) (w_datamap w)" if "good \<noteq> None"
  proof -
    have "\<exists>ds \<subseteq> shard_names D. marked f ds (w_datamap w0) (w_datamap (ds_world st))" using common that by (simp add: dn_common_def)
    then obtain ds where ds: "ds \<subseteq> shard_names D" "marked f ds (w_datamap w0) (w_datamap (ds_world st))" by blast
    have "dn_ready D f w0" using common by (simp add: dn_common_def)
    then have at: "shard_at (w_datamap w0) (f, df_DistributedFile df) \<noteq> None" using in_names by (simp add: dn_ready_def)
    have "dl_mark out \<in> {Wrote, MkdirFailed}" using assms(2) that by (auto simp: dn_env_ok_def)
    from mark_kept [OF ds(2) at this] obtain ds' where "ds' \<subseteq> insert (df_DistributedFile df) ds" "marked f ds' (w_datamap w0) (w_datamap w)"
      unfolding dm by blast
    moreover have "ds' \<subseteq> shard_names D" using calculation(1) ds(1) in_names by (metis insert_subset subset_trans)
    ultimately show ?thesis by blast
  qed
  then have "dn_common good D f w0 w" using common same unfolding dn_common_def by simp
  moreover have "p' = DOver df \<and> ds_world st' = w" using assms(1) run by (cases res) (auto simp: dn_record_def)
  ultimately show ?thesis using same place df by (simp add: dn_fine_def dn_effect_def)
qed

lemma dn_step:
  assumes "dn_do f out p st = (p', st')" "dn_over p = None" "dn_env_ok good (df_DistributedFile (dn_df p)) out" "dn_fine good D f w0 p st"
  shows "dn_rank p' < dn_rank p \<and> dn_effect good D f w0 (dn_df p) st p' st'"
proof (cases p)
  case (DCopy df)
  then show ?thesis using assms dn_copy_effect [of out df st p' st'] by simp
next
  case (DRename df speed)
  then show ?thesis using assms dn_rename_effect [of out df speed st p' st'] by simp
next
  case (DRecord df speed)
  then show ?thesis using assms dn_record_effect [of f out df speed st p' st'] by simp
qed (use assms(2) in simp)

lemma dn_rank_step: "dn_do f out p st = (p', st') \<Longrightarrow> dn_over p = None \<Longrightarrow> dn_rank p' < dn_rank p \<and> dn_df p' = dn_df p"
  by (cases p) (auto simp: dn_copy_def dn_rename_def dn_record_def Let_def split: call_end.splits if_splits prod.splits sum.splits)

lemma dn_workE:
  assumes "dn_work good f p st p' st'"
  obtains out where "dn_do f out p st = (p', st')" "dn_over p = None" "dn_env_ok good (df_DistributedFile (dn_df p)) out"
  using assms by (auto simp: dn_work_def)

lemma dn_work_frame:
  assumes "dn_work good f p st p' st'" "dn_fine good D f w0 p st" "df_DistributedFile (dn_df p) \<noteq> df_DistributedFile (dn_df q)"
    and "dn_fine good D f w0 q st"
  shows "dn_fine good D f w0 q st'"
proof -
  obtain out where out: "dn_do f out p st = (p', st')" "dn_over p = None" "dn_env_ok good (df_DistributedFile (dn_df p)) out"
    using assms(1) by (rule dn_workE)
  note step = dn_step [OF out assms(2), unfolded dn_effect_def]
  have c: "dn_common good D f w0 (ds_world st)" "dn_df p \<in> D" "dn_df q \<in> D" using assms(2,4) by (simp_all add: dn_fine_def)
  note pq = dn_names [OF c] and qp = dn_names [OF c(1,3,2)]
  have "w_shards (ds_world st') k = w_shards (ds_world st) k"
    if "k = df_DistributedFile (dn_df q) \<or> k = CalculateHash (df_DistributedFile (dn_df q))" for k
    using step that assms(3) pq qp by metis
  then have "dn_place good w0 q (w_shards (ds_world st'))" using assms(4) unfolding dn_fine_def by (cases q) auto
  then show ?thesis using step assms(4) by (auto simp: dn_fine_def)
qed

lemma dn_work_own:
  assumes "dn_work good f p st p' st'"
  shows "df_DistributedFile (dn_df p') = df_DistributedFile (dn_df p)" "dn_rank p' < dn_rank p"
    and "dn_fine good D f w0 p st \<Longrightarrow> dn_fine good D f w0 p' st'"
proof -
  obtain out where out: "dn_do f out p st = (p', st')" "dn_over p = None" "dn_env_ok good (df_DistributedFile (dn_df p)) out"
    using assms by (rule dn_workE)
  show "df_DistributedFile (dn_df p') = df_DistributedFile (dn_df p)" "dn_rank p' < dn_rank p"
    using dn_rank_step [OF out(1,2)] by simp_all
  show "dn_fine good D f w0 p' st'" if "dn_fine good D f w0 p st"
    using dn_step [OF out that] by (simp add: dn_effect_def)
qed

definition smooth_down :: dn_out where
  "smooth_down = \<lparr>dl_copy = Did, dl_stat = True, dl_speed = 1, dl_renamed = True, dl_mark = Wrote, dl_created = Wrote, dl_stats = Wrote\<rparr>"

lemma dn_progress: "dn_over p = None \<Longrightarrow> \<exists>p' st'. dn_work good f p st p' st'"
proof -
  assume p: "dn_over p = None"
  have "dn_env_ok good (df_DistributedFile (dn_df p)) smooth_down" by (simp add: dn_env_ok_def smooth_down_def split: option.split)
  then have "dn_work good f p st (fst (dn_do f smooth_down p st)) (snd (dn_do f smooth_down p st))"
    using p unfolding dn_work_def by (metis prod.collapse)
  then show ?thesis by blast
qed

interpretation dn: pool_client DCopy "dn_work good f" dn_over dn_dead df_DistributedFile "\<lambda>p. df_DistributedFile (dn_df p)" dn_rank
  "\<lambda>df. dn_fine good D f w0 (DCopy df)" "dn_fine good D f w0" for good D f w0
  apply unfold_locales
  subgoal by simp
  subgoal by (rule dn_work_own(1))
  subgoal by simp
  subgoal by (rule dn_work_own(3))
  subgoal for p s p' s' j using dn_work_frame [of good f p s p' s' D w0 "DCopy j"] by simp
  subgoal by (rule dn_work_frame)
  subgoal by (rule dn_work_own(2))
  subgoal by (rule dn_progress)
  done

section \<open>What the pool brings\<close>

lemma dn_fresh:
  assumes "dn_ready D f w0" "df \<in> D" "ds_world st = w0"
  shows "dn_fine good D f w0 (DCopy df) st"
proof -
  obtain info where "files (w_datamap w0) f = Some info" using assms(1) by (auto simp: dn_ready_def)
  then have "marked f {} (w_datamap w0) (w_datamap w0)" using assms(1) by (intro marked_refl) (simp_all add: dn_ready_def)
  then have "dn_common good D f w0 w0" using assms(1) unfolding dn_common_def by blast
  moreover have "w_shards w0 (CalculateHash (df_DistributedFile df)) = None"
    using assms(1,2) by (simp add: dn_ready_def shard_names_def)
  ultimately show ?thesis using assms(2,3) by (simp add: dn_fine_def)
qed

text \<open>After the pool: every shard file is as before or the object of its shard, and it is the object where the
  environment was good; no other file is touched, nor the objects of the remotes; the data map differs in marks only.\<close>

lemma download_pool:
  assumes "startDownloadFileGoroutine_Worker good f dfs workerCount st c" "p_main c = Returned"
    and "dn_ready (set dfs) f (ds_world st)" "distinct (map df_DistributedFile dfs)" "dfs \<noteq> []"
  shows "dn_common good (set dfs) f (ds_world st) (ds_world (p_state c))"
    "\<forall>df \<in> set dfs. dn_place good (ds_world st) (DOver df) (w_shards (ds_world (p_state c)))"
proof -
  note reach = assms(1) [unfolded startDownloadFileGoroutine_Worker_def]
  have fresh: "\<forall>df \<in> set dfs. dn_fine good (set dfs) f (ds_world st) (DCopy df) st"
    using dn_fresh [OF assms(3)] by simp
  note over = dn.returned_jobs [OF reach fresh assms(4,2)]
  have place: "\<exists>p \<in> set (p_over c). dn_df p = df \<and> dn_over p \<noteq> None" if "df \<in> set dfs" for df
  proof -
    have "set (map (\<lambda>p. df_DistributedFile (dn_df p)) (p_over c)) = set (map df_DistributedFile dfs)"
      using over(1) by (rule mset_eq_setD)
    moreover have "df_DistributedFile df \<in> set (map df_DistributedFile dfs)" using that by simp
    ultimately have "df_DistributedFile df \<in> (\<lambda>p. df_DistributedFile (dn_df p)) ` set (p_over c)" by simp
    then obtain p where p: "p \<in> set (p_over c)" "df_DistributedFile (dn_df p) = df_DistributedFile df" by (elim imageE) simp
    have "dn_df p \<in> set dfs" using over(2) p(1) by (simp add: dn_fine_def)
    then have "dn_df p = df" using inj_onD [of df_DistributedFile "set dfs" "dn_df p" df] assms(4) that p(2) by (simp add: distinct_map)
    then show ?thesis using p(1) over_reach [OF reach] by blast
  qed
  show "dn_common good (set dfs) f (ds_world st) (ds_world (p_state c))"
  proof -
    have "hd dfs \<in> set dfs" using assms(5) by simp
    from place [OF this] obtain p where "p \<in> set (p_over c)" by blast
    then show ?thesis using over(2) by (simp add: dn_fine_def)
  qed
  show "\<forall>df \<in> set dfs. dn_place good (ds_world st) (DOver df) (w_shards (ds_world (p_state c)))"
  proof
    fix df assume "df \<in> set dfs"
    from place [OF this] obtain p where p: "p \<in> set (p_over c)" "dn_df p = df" "dn_over p \<noteq> None" by blast
    have "p = DOver df" using p(2,3) by (cases p) simp_all
    then show "dn_place good (ds_world st) (DOver df) (w_shards (ds_world (p_state c)))"
      using over(2) p(1) unfolding dn_fine_def by blast
  qed
qed

text \<open>Every job tells the wait group that it is over, so a download pool never hangs: a run that can go no further has returned,
  unless the process has ended.\<close>

lemma download_pool_returns:
  assumes "startDownloadFileGoroutine_Worker good f dfs workerCount st c" "0 < workerCount"
    and "\<nexists>c'. pool_step DCopy (dn_work good f) dn_over dn_dead c c'" "ds_exit (p_state c) = None"
  shows "p_main c = Returned \<and> length (p_over c) = length dfs"
proof -
  note reach = assms(1) [unfolded startDownloadFileGoroutine_Worker_def]
  have "dn_over p \<noteq> Some False" for p by (cases p) simp_all
  then have "leaked dn_over c = 0" by (simp add: leaked_def)
  then show ?thesis
    using dn.final_state [OF reach assms(3)] jobs_conserved [OF reach] assms(2,4) by (simp add: dn_dead_def)
qed

section \<open>The download of a file\<close>

text \<open>What the environment decides in one download: the orders of the maps, how the writes of the data map end, the
  directory of the process, the calls of the decoder, the password file, and what the user answers.\<close>

record dn_env =
  de_order :: shard_order
  de_flag :: "FilesMap write_end"
  de_cwd :: "string option"
  de_shard :: shard_env
  de_password :: password_env
  de_input :: "string list"
  de_rm :: rm_env
  de_reset :: "FilesMap write_end"
  de_removed :: "string \<Rightarrow> bool"

text \<open>\<open>Dis_Download\<close> up to the start of the goroutines: the name of the file and its shards.\<close>

definition dn_begin ::
  "dn_env \<Rightarrow> string list \<Rightarrow> bool \<Rightarrow> machine \<Rightarrow> (string \<times> DistributedFile list) dis_result \<times> machine" where
  "dn_begin env args reSignal mc =
     (case argument args 0 of
        Inl e \<Rightarrow> (Inl e, mc)
      | Inr arg \<Rightarrow>
          let originalFileName = path_Base arg; w = mc_world mc
          in case GetFileInfoStruct originalFileName (w_datamap w) of
               Inl e \<Rightarrow> (Inl e, mc)
             | Inr _ \<Rightarrow>
                 let (picked, w) =
                   (if reSignal then (GetUncompletedFileInfo (de_order env) originalFileName (w_datamap w), w)
                    else case on_datamap (UpdateFileFlag (de_flag env) originalFileName ''download'') w of
                           (Inl e, w) \<Rightarrow> (Inl e, w)
                         | (Inr _, w) \<Rightarrow> (GetDistributedFileStruct (de_order env) originalFileName (w_datamap w), w))
                 in (case picked of Inl e \<Rightarrow> Inl e | Inr dfs \<Rightarrow> Inr (originalFileName, dfs), mc\<lparr>mc_world := w\<rparr>))"

text \<open>When decoding fails the user is asked whether to remove the file; the answer is all the caller gets to know of
  the failure. A failed read of the answer ends the process (\<open>fs.Fatalf\<close>).\<close>

definition dn_failed :: "dn_env \<Rightarrow> string \<Rightarrow> machine \<Rightarrow> unit run_end \<times> machine" where
  "dn_failed env originalFileName mc =
     (case ShowDescription_RemoveFile (de_input env) of
        None \<Rightarrow> (Exited 1, mc)
      | Some (result, _) \<Rightarrow>
          if result
          then (case Dis_rm (de_rm env) [originalFileName] False (mc_world mc) of (ended, w) \<Rightarrow> (ended, mc\<lparr>mc_world := w\<rparr>))
          else (Finished (Inr ()), mc))"

definition shard_checksum_map :: "DistributedFile list \<Rightarrow> (string \<times> string) list" where
  "shard_checksum_map dfs = fold (\<lambda>each. AList.update (df_DistributedFile each) (df_Checksum each)) dfs []"

text \<open>\<open>Dis_Download\<close> after the goroutines.\<close>

definition dn_end :: "dn_env \<Rightarrow> string list \<Rightarrow> string \<Rightarrow> DistributedFile list \<Rightarrow> machine \<Rightarrow> unit run_end \<times> machine" where
  "dn_end env args originalFileName distributedFileInfos mc =
     (case argument args 1 of
        Inl e \<Rightarrow> (Finished (Inl e), mc)
      | Inr dest \<Rightarrow>
     (case getAbsolutePath (de_cwd env) dest of
        Inl e \<Rightarrow> (Finished (Inl e), mc)
      | Inr absolutePath \<Rightarrow>
     (case GetFileInfoStruct originalFileName (w_datamap (mc_world mc)) of
        Inl e \<Rightarrow> (Finished (Inl e), mc)
      | Inr fileInfo \<Rightarrow>
          let checksums = shard_checksum_map distributedFileInfos;
              (password, mc) = tryGetPassword (de_password env) mc
          in case run_local (DoDecode (de_shard env) originalFileName absolutePath (nat (fi_Padding fileInfo)) checksums
                   (nat (fi_Shard fileInfo)) (nat (fi_Parity fileInfo)) password) mc of
               (NoReturn, mc) \<Rightarrow> (Hangs, mc)
             | (ProcessExit code, mc) \<Rightarrow> (Exited code, mc)
             | (shard_end.Returned (Inl _), mc) \<Rightarrow> dn_failed env originalFileName mc
             | (shard_end.Returned (Inr _), mc) \<Rightarrow>
                 (case on_datamap (ResetCheckFlag (de_reset env) (args ! 0)) (mc_world mc) of
                    (Inl e, w) \<Rightarrow> (Finished (Inl e), mc\<lparr>mc_world := w\<rparr>)
                  | (Inr _, w) \<Rightarrow>
                      (Finished (Inr ()),
                       mc\<lparr>mc_world := w\<lparr>w_shards :=
                         DeleteShardWithFileNames (de_removed env) (map df_DistributedFile distributedFileInfos) (w_shards w)\<rparr>\<rparr>)))))"

inductive Dis_Download ::
  "string set option \<Rightarrow> dn_env \<Rightarrow> string list \<Rightarrow> bool \<Rightarrow> machine \<Rightarrow> unit run_end \<Rightarrow> machine \<Rightarrow> bool"
  for good env args reSignal mc where
  refused: "dn_begin env args reSignal mc = (Inl e, mc') \<Longrightarrow> Dis_Download good env args reSignal mc (Finished (Inl e)) mc'"
| returned: "dn_begin env args reSignal mc = (Inr (f, dfs), mc1) \<Longrightarrow>
    startDownloadFileGoroutine_Worker good f dfs 32 \<lparr>ds_world = mc_world mc1, ds_errs = 0, ds_exit = None\<rparr> c \<Longrightarrow>
    p_main c = Returned \<Longrightarrow> ds_exit (p_state c) = None \<Longrightarrow>
    dn_end env args f dfs (mc1\<lparr>mc_world := ds_world (p_state c)\<rparr>) = (ended, mc') \<Longrightarrow>
    Dis_Download good env args reSignal mc ended mc'"
| died: "dn_begin env args reSignal mc = (Inr (f, dfs), mc1) \<Longrightarrow>
    startDownloadFileGoroutine_Worker good f dfs 32 \<lparr>ds_world = mc_world mc1, ds_errs = 0, ds_exit = None\<rparr> c \<Longrightarrow>
    ds_exit (p_state c) = Some code \<Longrightarrow>
    Dis_Download good env args reSignal mc (Exited code) (mc1\<lparr>mc_world := ds_world (p_state c)\<rparr>)"
| hangs: "dn_begin env args reSignal mc = (Inr (f, dfs), mc1) \<Longrightarrow>
    startDownloadFileGoroutine_Worker good f dfs 32 \<lparr>ds_world = mc_world mc1, ds_errs = 0, ds_exit = None\<rparr> c \<Longrightarrow>
    p_main c \<noteq> Returned \<Longrightarrow> ds_exit (p_state c) = None \<Longrightarrow>
    \<nexists>c'. pool_step DCopy (dn_work good f) dn_over dn_dead c c' \<Longrightarrow>
    Dis_Download good env args reSignal mc Hangs (mc1\<lparr>mc_world := ds_world (p_state c)\<rparr>)"

inductive_cases Dis_DownloadE: "Dis_Download good env args reSignal mc ended mc'"

section \<open>What a download restores\<close>

text \<open>The file \<open>f\<close> with this content is recorded, and \<open>cw\<close> are its shards: the codeword of its encryption, with the
  numbers of shards and the padding that the record has.\<close>

definition recorded_file :: "shard_env \<Rightarrow> string \<Rightarrow> string \<Rightarrow> bytes \<Rightarrow> nat \<Rightarrow> nat \<Rightarrow> bytes list \<Rightarrow> world \<Rightarrow> bool" where
  "recorded_file env pw f content d p cw w \<longleftrightarrow> datamap_wf (w_datamap w)
     \<and> (\<exists>enc cipher info. stream_env env enc d p \<and> cipher \<noteq> [] \<and> coded enc cipher (per_shard d (length cipher)) cw
          \<and> se_decrypt env pw cipher = Inr content \<and> files (w_datamap w) f = Some info
          \<and> fi_Shard info = int d \<and> fi_Parity info = int p
          \<and> fi_Padding info = int (d * per_shard d (length cipher) - length cipher)
          \<and> fst ` set (fi_DistributedFileInfos info) = shard_name (f @ fileCryptExtension) ` {..<d + p})"

text \<open>The object that holds the \<open>i\<close>-th shard of \<open>f\<close> on the remote recorded for it.\<close>

definition object_of :: "world \<Rightarrow> string \<Rightarrow> nat \<Rightarrow> bytes option" where
  "object_of w f i = Option.bind (shard_at (w_datamap w) (f, shard_name (f @ fileCryptExtension) i)) (cloud_object w)"

text \<open>No two shards have the same hashed name.\<close>

definition no_collision :: "string \<Rightarrow> nat \<Rightarrow> bool" where
  "no_collision f n \<longleftrightarrow> inj_on CalculateHash (shard_name f ` {..<n})"

lemma hash_no_shard_name: "CalculateHash x \<noteq> shard_name f i"
proof
  assume "CalculateHash x = shard_name f i"
  then have "CHR ''.'' \<in> set (CalculateHash x)" by (simp add: shard_name_def)
  then have "CHR ''.'' \<in> set ''0123456789abcdef''" using CalculateHash_form(2) by blast
  then show False by simp
qed

lemma info_wf_shards:
  assumes "info_wf f info" "range_order ro"
  defines "dfs \<equiv> map snd (ro (fi_DistributedFileInfos info))"
  shows "distinct (map df_DistributedFile dfs)" "map df_DistributedFile dfs = map fst (ro (fi_DistributedFileInfos info))"
    "set dfs = snd ` set (fi_DistributedFileInfos info)"
    "df \<in> set dfs \<Longrightarrow> map_of (fi_DistributedFileInfos info) (df_DistributedFile df) = Some df"
proof -
  let ?infos = "fi_DistributedFileInfos info"
  note ro = range_orderD [OF assms(2), of ?infos]
  have key: "df_DistributedFile (snd x) = fst x" if "x \<in> set ?infos" for x
    using assms(1) that by (auto simp: info_wf_def list_all_iff)
  show names: "map df_DistributedFile dfs = map fst (ro ?infos)" using key ro(1) by (simp add: dfs_def)
  have dist: "distinct (map fst ?infos)" using assms(1) by (simp add: info_wf_def)
  have "mset (map fst (ro ?infos)) = mset (map fst ?infos)" using ro(3) by simp
  then show "distinct (map df_DistributedFile dfs)" using dist names by (metis mset_eq_imp_distinct_iff)
  show "set dfs = snd ` set ?infos" using ro(1) by (simp add: dfs_def)
  then show "map_of ?infos (df_DistributedFile df) = Some df" if "df \<in> set dfs"
    using that dist key by (auto simp: map_of_eq_Some_iff)
qed

lemma shard_checksum_map_names:
  "fst ` set (shard_checksum_map dfs) = df_DistributedFile ` set dfs" "length (shard_checksum_map dfs) \<le> length dfs"
proof -
  have "fst ` set (fold (\<lambda>each. AList.update (df_DistributedFile each) (df_Checksum each)) dfs al) = df_DistributedFile ` set dfs \<union> fst ` set al
    \<and> length (fold (\<lambda>each. AList.update (df_DistributedFile each) (df_Checksum each)) dfs al) \<le> length dfs + length al" for al
  proof (induction dfs arbitrary: al)
    case (Cons df dfs)
    have "length (AList.update k v al) \<le> Suc (length al)" for k :: string and v :: string and al
      by (induction al) auto
    then show ?case using Cons.IH [of "AList.update (df_DistributedFile df) (df_Checksum df) al"]
      by (auto simp: dom_update order_trans)
  qed simp
  from this [of "[]"] show "fst ` set (shard_checksum_map dfs) = df_DistributedFile ` set dfs"
    "length (shard_checksum_map dfs) \<le> length dfs" by (simp_all add: shard_checksum_map_def)
qed

lemma no_exit:
  assumes "startDownloadFileGoroutine_Worker (Some good) f dfs n st c" "ds_exit st = None"
  shows "ds_exit (p_state c) = None"
proof -
  have step: "ds_exit s' = None" if work: "dn_work (Some good) f p s p' s'" and s: "ds_exit s = None" for p s p' s'
  proof -
    obtain out where "dn_do f out p s = (p', s')" "\<forall>code. dl_copy out \<noteq> Ended code"
      using work by (auto simp: dn_work_def dn_env_ok_def)
    then show ?thesis using s
      by (cases p) (auto simp: dn_copy_def dn_rename_def dn_record_def Let_def split: call_end.splits if_splits prod.splits sum.splits)
  qed
  show ?thesis
    using all_jobs [OF assms(1) [unfolded startDownloadFileGoroutine_Worker_def], of "\<lambda>_. True" "\<lambda>s. ds_exit s = None"] assms(2) step
    by blast
qed

lemma delete_files: "DeleteShardWithFileNames (\<lambda>_. True) names dir = (\<lambda>n. if n \<in> set names then None else dir n)"
proof -
  have "(\<lambda>fileName dir. if dir fileName \<noteq> None \<and> True then dir(fileName := None) else dir) =
    (\<lambda>fileName (dir :: shard_dir). dir(fileName := None))"
    by (auto simp: fun_eq_iff)
  moreover have "fold (\<lambda>fileName (dir :: shard_dir). dir(fileName := None)) names dir = (\<lambda>n. if n \<in> set names then None else dir n)"
    by (induction names arbitrary: dir) (auto simp: fun_eq_iff)
  ultimately show ?thesis by (simp add: DeleteShardWithFileNames_def)
qed

lemma dn_begin_ok:
  assumes "datamap_wf (w_datamap (mc_world mc))" "files (w_datamap (mc_world mc)) f = Some info" "path_Base arg = f" "de_flag env = Wrote"
  obtains dm where "dn_begin env (arg # rest) False mc =
      (Inr (f, map snd (de_order env (fi_DistributedFileInfos info))), mc\<lparr>mc_world := (mc_world mc)\<lparr>w_datamap := dm\<rparr>\<rparr>)"
    "datamap_wf dm" "files dm = (files (w_datamap (mc_world mc)))(f \<mapsto> info\<lparr>fi_Flag := True, fi_State := ''download''\<rparr>)"
proof -
  obtain dm where dm: "UpdateFileFlag Wrote f ''download'' (w_datamap (mc_world mc)) = (Inr (), dm)" "datamap_wf dm"
      "files dm = (files (w_datamap (mc_world mc)))(f \<mapsto> info\<lparr>fi_Flag := True, fi_State := ''download''\<rparr>)"
    using flag_file [OF assms(1,2)] by blast
  have "GetFileInfoStruct f (w_datamap (mc_world mc)) = Inr info" using assms(2) by (simp add: GetFileInfoStruct_iff)
  moreover have "GetDistributedFileStruct (de_order env) f dm = Inr (map snd (de_order env (fi_DistributedFileInfos info)))"
    using GetDistributedFileStruct_files [of dm f "info\<lparr>fi_Flag := True, fi_State := ''download''\<rparr>" "de_order env"] dm(3) by simp
  ultimately show ?thesis
    using dm assms(3,4) by (intro that [of dm]) (simp_all add: dn_begin_def argument_def on_datamap_def)
qed

lemma dn_end_ok:
  assumes "getAbsolutePath (de_cwd env) out = Inr dest" "files (w_datamap (mc_world mc)) f = Some info"
    and "pe_stat (de_password env)" "pe_read (de_password env)" "mc_password mc = Some pw" "de_reset env = Wrote"
    and "DoDecode (de_shard env) f dest (nat (fi_Padding info)) (shard_checksum_map dfs) (nat (fi_Shard info)) (nat (fi_Parity info)) pw
        ((mc_local mc)\<lparr>lf_shards := w_shards (mc_world mc)\<rparr>) = (shard_end.Returned (Inr ()), fs)"
  shows "\<exists>mc'. dn_end env [f, out] f dfs mc = (Finished (Inr ()), mc') \<and> mc_local mc' = fs \<and> mc_password mc' = Some pw
    \<and> files (w_datamap (mc_world mc')) = (files (w_datamap (mc_world mc)))(f \<mapsto> reset_info info)
    \<and> w_cloud (mc_world mc') = w_cloud (mc_world mc)
    \<and> w_shards (mc_world mc') = DeleteShardWithFileNames (de_removed env) (map df_DistributedFile dfs) (lf_shards fs)"
proof -
  obtain dm where dm: "ResetCheckFlag Wrote f (w_datamap (mc_world mc)) = (Inr (), dm)"
      "files dm = (files (w_datamap (mc_world mc)))(f \<mapsto> reset_info info)"
    using ResetCheckFlag_files [OF assms(2)] by (metis prod.collapse)
  have "GetFileInfoStruct f (w_datamap (mc_world mc)) = Inr info" using assms(2) by (simp add: GetFileInfoStruct_iff)
  moreover have "tryGetPassword (de_password env) mc = (pw, mc)" using assms(3-5) by (simp add: tryGetPassword_def)
  ultimately show ?thesis
    using dm assms(1,5,6,7) by (simp add: dn_end_def argument_def run_local_def on_datamap_def Let_def)
qed

text \<open>The shard files after the pool are those of the codeword, with as many as good objects.\<close>

lemma shards_arrived:
  fixes f n cw w
  defines "name \<equiv> shard_name (f @ fileCryptExtension)"
  assumes "set dfs = snd ` set (fi_DistributedFileInfos info)" "files (w_datamap w) f = Some info"
    and "\<And>df. df \<in> set dfs \<Longrightarrow> map_of (fi_DistributedFileInfos info) (df_DistributedFile df) = Some df"
    and "df_DistributedFile ` set dfs = name ` {..<n}"
    and "\<forall>i < n. object_of w f i \<in> {None, Some (cw ! i)}" "\<forall>i < n. w_shards w (name i) \<in> {None, Some [], Some (cw ! i)}"
    and "\<forall>df \<in> set dfs. dn_place (Some good) w (DOver df) dir"
  shows "shards_left (f @ fileCryptExtension) n cw dir"
    "card {i. i < n \<and> object_of w f i \<noteq> None \<and> name i \<in> good} \<le> length (filter (\<lambda>i. dir (name i) = Some (cw ! i)) [0..<n])"
proof -
  have at: "\<exists>df \<in> set dfs. df_DistributedFile df = name i \<and> object_of w f i = cloud_object w df" if i: "i < n" for i
  proof -
    have "name i \<in> df_DistributedFile ` set dfs" using assms(5) i by simp
    then obtain df where df: "df \<in> set dfs" "df_DistributedFile df = name i" by (metis imageE)
    then have "shard_at (w_datamap w) (f, name i) = Some df" using assms(3) assms(4) [OF df(1)] by (simp add: shard_at_Some)
    then show ?thesis using df by (intro bexI [of _ df]) (simp_all add: object_of_def name_def)
  qed
  have left: "dir (name i) \<in> {None, Some [], Some (cw ! i)} \<and>
      (object_of w f i \<noteq> None \<and> name i \<in> good \<longrightarrow> dir (name i) = Some (cw ! i))" if i: "i < n" for i
  proof -
    obtain df where df: "df \<in> set dfs" "df_DistributedFile df = name i" "object_of w f i = cloud_object w df" using at [OF i] by blast
    then have "dn_place (Some good) w (DOver df) dir" using assms(8) by blast
    then have "dir (name i) \<in> {w_shards w (name i), object_of w f i}"
      "name i \<in> good \<and> object_of w f i \<noteq> None \<longrightarrow> dir (name i) = object_of w f i"
      unfolding dn_place.simps df(2,3) is_good_def by simp_all
    moreover have "object_of w f i \<in> {None, Some (cw ! i)}" "w_shards w (name i) \<in> {None, Some [], Some (cw ! i)}"
      using assms(6,7) i by simp_all
    ultimately show ?thesis by auto
  qed
  then show "shards_left (f @ fileCryptExtension) n cw dir" by (simp add: shards_left_def name_def)
  have "{i. i < n \<and> object_of w f i \<noteq> None \<and> name i \<in> good} \<subseteq> {i. i < n \<and> dir (name i) = Some (cw ! i)}" using left by blast
  then have "card {i. i < n \<and> object_of w f i \<noteq> None \<and> name i \<in> good} \<le> card {i. i < n \<and> dir (name i) = Some (cw ! i)}"
    by (intro card_mono) simp_all
  also have "{i. i < n \<and> dir (name i) = Some (cw ! i)} = set (filter (\<lambda>i. dir (name i) = Some (cw ! i)) [0..<n])" by auto
  also have "card (set (filter (\<lambda>i. dir (name i) = Some (cw ! i)) [0..<n])) = length (filter (\<lambda>i. dir (name i) = Some (cw ! i)) [0..<n])"
    by (rule distinct_card) simp
  finally show "card {i. i < n \<and> object_of w f i \<noteq> None \<and> name i \<in> good} \<le> length (filter (\<lambda>i. dir (name i) = Some (cw ! i)) [0..<n])" .
qed

text \<open>A recorded file is ready for its download when its hashed names are its own and not taken.\<close>

lemma recorded_ready:
  fixes f w n ro info
  defines "name \<equiv> shard_name (f @ fileCryptExtension)" and "dfs \<equiv> map snd (ro (fi_DistributedFileInfos info))"
  assumes "datamap_wf (w_datamap w)" "files (w_datamap w) f = Some info" "range_order ro"
    and "fst ` set (fi_DistributedFileInfos info) = name ` {..<n}" "0 < n" "no_collision (f @ fileCryptExtension) n"
    and "\<forall>i < n. w_shards w (CalculateHash (name i)) = None"
  shows "dn_ready (set dfs) f w" "dfs \<noteq> []" "df_DistributedFile ` set dfs = name ` {..<n}" "info_wf f info"
proof -
  obtain m where "readJsonFile (w_datamap w) = Inr m" "map_of m f = Some info" using files_SomeD [OF assms(4)] by auto
  then show wf: "info_wf f info" using datamap_wf_read [OF assms(3)] map_wf_info by blast
  note dfs = info_wf_shards [OF wf assms(5), folded dfs_def]
  have "df_DistributedFile ` set dfs = set (map fst (ro (fi_DistributedFileInfos info)))" using dfs(2) by (metis set_map)
  then show keys: "df_DistributedFile ` set dfs = name ` {..<n}" using assms(6) range_orderD(1) [OF assms(5)] by simp
  have "name 0 \<in> df_DistributedFile ` set dfs" unfolding keys using assms(7) by simp
  then show "dfs \<noteq> []" by auto
  have at: "shard_at (w_datamap w) (f, k) \<noteq> None" if "k \<in> name ` {..<n}" for k
  proof -
    have "k \<in> df_DistributedFile ` set dfs" using that keys by simp
    then obtain df where "df \<in> set dfs" "df_DistributedFile df = k" by (elim imageE) simp
    then have "shard_at (w_datamap w) (f, k) = Some df" using assms(4) dfs(4) by (auto simp: shard_at_Some)
    then show ?thesis by simp
  qed
  have disj: "name ` {..<n} \<inter> CalculateHash ` name ` {..<n} = {}"
    using hash_no_shard_name unfolding name_def by (metis (no_types, lifting) disjoint_iff imageE)
  have "inj_on CalculateHash (name ` {..<n})" using assms(8) by (simp add: no_collision_def name_def)
  then show "dn_ready (set dfs) f w"
    using assms(3,4,9) at disj unfolding dn_ready_def shard_names_def keys by simp
qed

text \<open>After the pool the file is decoded from the shard files that have arrived.\<close>

lemma pool_decodes:
  fixes f w1 ro info
  defines "dfs \<equiv> map snd (ro (fi_DistributedFileInfos info))"
  assumes code: "stream_env senv enc d p" "coded enc cipher (per_shard d (length cipher)) cw" "cipher \<noteq> []"
      "se_decrypt senv pw cipher = Inr content"
    and info: "files (w_datamap w1) f = Some info" "info_wf f info" "range_order ro" "fi_Shard info = int d" "fi_Parity info = int p"
      "fi_Padding info = int (d * per_shard d (length cipher) - length cipher)"
    and keys: "df_DistributedFile ` set dfs = shard_name (f @ fileCryptExtension) ` {..<d + p}" "d + p \<le> 256"
    and pool: "dn_common (Some good) (set dfs) f w1 w2" "\<forall>df \<in> set dfs. dn_place (Some good) w1 (DOver df) (w_shards w2)"
    and objects: "\<forall>i < d + p. object_of w1 f i \<in> {None, Some (cw ! i)}"
      "\<forall>i < d + p. w_shards w1 (shard_name (f @ fileCryptExtension) i) \<in> {None, Some [], Some (cw ! i)}"
      "d \<le> card {i. i < d + p \<and> object_of w1 f i \<noteq> None \<and> shard_name (f @ fileCryptExtension) i \<in> good}"
    and dest: "dest \<in> lf_dirs fs0"
  obtains info' fs where "files (w_datamap w2) f = Some info'" "fi_Flag info' = fi_Flag info" "fi_State info' = fi_State info"
    "w_cloud w2 = w_cloud w1" "\<forall>g. g \<noteq> f \<longrightarrow> files (w_datamap w2) g = files (w_datamap w1) g"
    "DoDecode senv f dest (nat (fi_Padding info')) (shard_checksum_map dfs) (nat (fi_Shard info')) (nat (fi_Parity info')) pw
       (fs0\<lparr>lf_shards := w_shards w2\<rparr>) = (shard_end.Returned (Inr ()), fs)"
    "lf_file fs (in_dir dest f) = Some content" "\<forall>i < d + p. lf_shards fs (shard_name (f @ fileCryptExtension) i) = Some (cw ! i)"
proof -
  let ?f = "f @ fileCryptExtension" and ?fs = "fs0\<lparr>lf_shards := w_shards w2\<rparr>"
  note dfs = info_wf_shards [OF info(2,3), folded dfs_def]
  obtain ds where m: "marked f ds (w_datamap w1) (w_datamap w2)" and cloud: "w_cloud w2 = w_cloud w1" using pool(1) by (auto simp: dn_common_def)
  then obtain info' where info': "files (w_datamap w2) f = Some info'"
      "info'\<lparr>fi_DistributedFileInfos := fi_DistributedFileInfos info\<rparr> = info"
    using info(1) by (auto simp: marked_def)
  have fields: "nat (fi_Shard info') = d" "nat (fi_Parity info') = p"
    "nat (fi_Padding info') = d * per_shard d (length cipher) - length cipher"
    using arg_cong [OF info'(2), of fi_Shard] arg_cong [OF info'(2), of fi_Parity] arg_cong [OF info'(2), of fi_Padding] info(4-6) by simp_all
  have flags: "fi_Flag info' = fi_Flag info" "fi_State info' = fi_State info"
    using arg_cong [OF info'(2), of fi_Flag] arg_cong [OF info'(2), of fi_State] by simp_all
  have left: "shards_left ?f (d + p) cw (lf_shards ?fs)"
    and many: "d \<le> length (filter (\<lambda>i. lf_shards ?fs (shard_name ?f i) = Some (cw ! i)) [0..<d + p])"
    using shards_arrived [OF _ info(1), of dfs "d + p" cw good "w_shards w2"] dfs(3,4) keys(1) pool(2) objects by simp_all
  have few: "length (shard_checksum_map dfs) \<le> 1000"
  proof -
    have "length dfs = card (df_DistributedFile ` set dfs)" using dfs(1) by (metis distinct_card length_map set_map)
    also have "\<dots> \<le> d + p" unfolding keys(1) using card_image_le [of "{..<d + p}" "shard_name ?f"] by simp
    finally show ?thesis using shard_checksum_map_names(2) [of dfs] keys(2) by simp
  qed
  have "\<exists>i < 1000. k = shard_name ?f i" if "k \<in> shard_name ?f ` {..<d + p}" for k
    using that keys(2) by (auto intro: order_less_le_trans)
  then have conf: "shard_checksums ?f (shard_checksum_map dfs)"
    unfolding shard_checksums_def shard_checksum_map_names(1) keys(1) by blast
  have out: "dest \<in> lf_dirs ?fs" using dest by simp
  obtain fs where fs: "DoDecode senv f dest (d * per_shard d (length cipher) - length cipher) (shard_checksum_map dfs) d p pw ?fs =
        (shard_end.Returned (Inr ()), fs)"
      "lf_file fs = (lf_file ?fs)(in_dir dest f \<mapsto> content, in_dir dest (f @ fileCryptExtension) := None)"
      "\<forall>i < d + p. lf_shards fs (shard_name ?f i) = Some (cw ! i)"
    using DoDecode_ok [OF code(1-3) left many out code(4) conf few] by blast
  show ?thesis
    by (rule that [of info' fs]) (use fs fields info'(1) flags cloud m in \<open>simp_all add: marked_def\<close>)
qed

text \<open>What a download of a recorded file does, up to what follows the decoding: every run decodes the content of the file.\<close>

lemma download_ends:
  assumes rec: "recorded_file (de_shard env) pw f content d p cw (mc_world mc)" "path_Base arg = f" "d + p \<le> 256"
    and objects: "\<forall>i < d + p. object_of (mc_world mc) f i \<in> {None, Some (cw ! i)}"
      "d \<le> card {i. i < d + p \<and> object_of (mc_world mc) f i \<noteq> None \<and> shard_name (f @ fileCryptExtension) i \<in> good}"
    and names: "no_collision (f @ fileCryptExtension) (d + p)"
    and shards: "\<forall>i < d + p. w_shards (mc_world mc) (shard_name (f @ fileCryptExtension) i) \<in> {None, Some [], Some (cw ! i)}"
      "\<forall>i < d + p. w_shards (mc_world mc) (CalculateHash (shard_name (f @ fileCryptExtension) i)) = None"
    and env: "range_order (de_order env)" "de_flag env = Wrote"
    and dest: "dest \<in> lf_dirs (mc_local mc)"
    and final: "\<And>dfs w2 info fs. files (w_datamap w2) f = Some info \<Longrightarrow> fi_Flag info \<Longrightarrow> fi_State info = ''download'' \<Longrightarrow>
        w_cloud w2 = w_cloud (mc_world mc) \<Longrightarrow> \<forall>g. g \<noteq> f \<longrightarrow> files (w_datamap w2) g = files (w_datamap (mc_world mc)) g \<Longrightarrow>
        df_DistributedFile ` set dfs = shard_name (f @ fileCryptExtension) ` {..<d + p} \<Longrightarrow>
        DoDecode (de_shard env) f dest (nat (fi_Padding info)) (shard_checksum_map dfs) (nat (fi_Shard info)) (nat (fi_Parity info)) pw
          ((mc_local mc)\<lparr>lf_shards := w_shards w2\<rparr>) = (shard_end.Returned (Inr ()), fs) \<Longrightarrow>
        lf_file fs (in_dir dest f) = Some content \<Longrightarrow>
        \<forall>i < d + p. lf_shards fs (shard_name (f @ fileCryptExtension) i) = Some (cw ! i) \<Longrightarrow>
        \<exists>mc'. dn_end env [arg, out] f dfs (mc\<lparr>mc_world := w2\<rparr>) = (res, mc') \<and> good_end mc'"
  shows "(\<exists>ended mc'. Dis_Download (Some good) env [arg, out] False mc ended mc') \<and>
    (\<forall>ended mc'. Dis_Download (Some good) env [arg, out] False mc ended mc' \<longrightarrow> ended = res \<and> good_end mc')"
proof -
  let ?w = "mc_world mc"
  obtain enc cipher info where r: "datamap_wf (w_datamap ?w)" "stream_env (de_shard env) enc d p" "cipher \<noteq> []"
      "coded enc cipher (per_shard d (length cipher)) cw" "se_decrypt (de_shard env) pw cipher = Inr content"
      "files (w_datamap ?w) f = Some info" "fi_Shard info = int d" "fi_Parity info = int p"
      "fi_Padding info = int (d * per_shard d (length cipher) - length cipher)"
      "fst ` set (fi_DistributedFileInfos info) = shard_name (f @ fileCryptExtension) ` {..<d + p}"
    using rec(1) unfolding recorded_file_def by (elim conjE exE)
  let ?info = "info\<lparr>fi_Flag := True, fi_State := ''download''\<rparr>"
  define dfs where "dfs = map snd (de_order env (fi_DistributedFileInfos ?info))"
  obtain dm where dm: "dn_begin env (arg # [out]) False mc = (Inr (f, dfs), mc\<lparr>mc_world := ?w\<lparr>w_datamap := dm\<rparr>\<rparr>)" "datamap_wf dm"
      "files dm = (files (w_datamap ?w))(f \<mapsto> ?info)"
    using dn_begin_ok [where rest = "[out]", OF r(1,6) rec(2) env(2)] unfolding dfs_def by auto
  define w1 where "w1 = ?w\<lparr>w_datamap := dm\<rparr>"
  have w1: "files (w_datamap w1) f = Some ?info" "w_shards w1 = w_shards ?w" "w_cloud w1 = w_cloud ?w" "datamap_wf (w_datamap w1)"
    "\<forall>g. g \<noteq> f \<longrightarrow> files (w_datamap w1) g = files (w_datamap ?w) g"
    using dm(2,3) by (simp_all add: w1_def)
  have "shard_at (w_datamap w1) (f, k) = shard_at (w_datamap ?w) (f, k)" for k by (simp add: shard_at_def w1(1) r(6))
  then have obj: "object_of w1 f i = object_of ?w f i" for i by (simp add: object_of_def cloud_object_def [abs_def] w1(3))
  have pos: "0 < d + p" using stream_env_pos [OF r(2)] by simp
  have ready: "dn_ready (set dfs) f w1" "dfs \<noteq> []" "df_DistributedFile ` set dfs = shard_name (f @ fileCryptExtension) ` {..<d + p}"
      "info_wf f ?info"
    using recorded_ready [OF w1(4,1) env(1) _ pos names, folded dfs_def] r(10) shards(2) w1(2) by simp_all
  have numbers: "fi_Shard ?info = int d" "fi_Parity ?info = int p" "fi_Padding ?info = int (d * per_shard d (length cipher) - length cipher)"
    using r(7-9) by simp_all
  have before: "\<forall>i < d + p. object_of w1 f i \<in> {None, Some (cw ! i)}"
    "\<forall>i < d + p. w_shards w1 (shard_name (f @ fileCryptExtension) i) \<in> {None, Some [], Some (cw ! i)}"
    "d \<le> card {i. i < d + p \<and> object_of w1 f i \<noteq> None \<and> shard_name (f @ fileCryptExtension) i \<in> good}"
    using objects shards(1) unfolding obj w1(2) by blast+
  let ?st = "\<lparr>ds_world = w1, ds_errs = 0, ds_exit = None\<rparr>"
  have run: "\<exists>mc'. dn_end env [arg, out] f dfs (mc\<lparr>mc_world := ds_world (p_state c)\<rparr>) = (res, mc') \<and> good_end mc'"
    if c: "startDownloadFileGoroutine_Worker (Some good) f dfs 32 ?st c" "p_main c = Returned" for c
  proof -
    have st: "ds_world ?st = w1" by simp
    note pool = download_pool [OF c, unfolded st, OF ready(1) info_wf_shards(1) [OF ready(4) env(1), folded dfs_def] ready(2)]
    obtain info' fs where end_state: "files (w_datamap (ds_world (p_state c))) f = Some info'" "fi_Flag info' = fi_Flag ?info"
      "fi_State info' = fi_State ?info" "w_cloud (ds_world (p_state c)) = w_cloud w1"
      "\<forall>g. g \<noteq> f \<longrightarrow> files (w_datamap (ds_world (p_state c))) g = files (w_datamap w1) g"
      "DoDecode (de_shard env) f dest (nat (fi_Padding info')) (shard_checksum_map dfs) (nat (fi_Shard info')) (nat (fi_Parity info')) pw
         ((mc_local mc)\<lparr>lf_shards := w_shards (ds_world (p_state c))\<rparr>) = (shard_end.Returned (Inr ()), fs)"
      "lf_file fs (in_dir dest f) = Some content" "\<forall>i < d + p. lf_shards fs (shard_name (f @ fileCryptExtension) i) = Some (cw ! i)"
      by (rule pool_decodes [OF r(2,4,3,5) w1(1) ready(4) env(1), folded dfs_def, OF numbers ready(3) rec(3) pool before dest])
    show ?thesis by (rule final [OF end_state(1) _ _ _ _ ready(3) end_state(6-8)]) (use end_state(2-5) w1(3,5) in simp_all)
  qed
  have start: "dn_begin env [arg, out] False mc = (Inr (f, dfs), mc\<lparr>mc_world := w1\<rparr>)" using dm(1) by (simp add: w1_def)
  obtain c where c: "startDownloadFileGoroutine_Worker (Some good) f dfs 32 ?st c"
      "\<nexists>c'. pool_step DCopy (dn_work (Some good) f) dn_over dn_dead c c'"
    using dn.final_exists unfolding startDownloadFileGoroutine_Worker_def by blast
  have alive: "ds_exit (p_state c) = None" if "startDownloadFileGoroutine_Worker (Some good) f dfs 32 ?st c" for c
    using no_exit [OF that] by simp
  have returns: "p_main c = Returned" if "startDownloadFileGoroutine_Worker (Some good) f dfs 32 ?st c"
      "\<nexists>c'. pool_step DCopy (dn_work (Some good) f) dn_over dn_dead c c'" for c
    using download_pool_returns [OF that(1) _ that(2) alive [OF that(1)]] by simp
  have "\<exists>ended mc'. Dis_Download (Some good) env [arg, out] False mc ended mc'"
    using Dis_Download.returned [OF start, of "Some good" c] c(1) alive [OF c(1)] returns [OF c] run [OF c(1)] by auto
  moreover have "ended = res \<and> good_end mc'" if "Dis_Download (Some good) env [arg, out] False mc ended mc'" for ended mc'
    using that
  proof cases
    case (returned f' dfs' mc1 c)
    then show ?thesis using start run [of c] by auto
  next
    case (died f' dfs' mc1 c code)
    then show ?thesis using start alive [of c] by auto
  next
    case (hangs f' dfs' mc1 c)
    then show ?thesis using start returns [of c] by auto
  qed (use start in auto)
  ultimately show ?thesis by blast
qed

lemma download_restores:
  assumes "recorded_file (de_shard env) pw f content d p cw (mc_world mc)" "path_Base f = f" "d + p \<le> 256"
    and "\<forall>i < d + p. object_of (mc_world mc) f i \<in> {None, Some (cw ! i)}"
    and "d \<le> card {i. i < d + p \<and> object_of (mc_world mc) f i \<noteq> None \<and> shard_name (f @ fileCryptExtension) i \<in> good}"
    and "no_collision (f @ fileCryptExtension) (d + p)"
    and "\<forall>i < d + p. w_shards (mc_world mc) (shard_name (f @ fileCryptExtension) i) \<in> {None, Some [], Some (cw ! i)}"
    and "\<forall>i < d + p. w_shards (mc_world mc) (CalculateHash (shard_name (f @ fileCryptExtension) i)) = None"
    and "range_order (de_order env)" "de_flag env = Wrote" "de_reset env = Wrote"
    and "pe_stat (de_password env)" "pe_read (de_password env)" "mc_password mc = Some pw"
    and "getAbsolutePath (de_cwd env) out = Inr dest" "dest \<in> lf_dirs (mc_local mc)"
  shows "(\<exists>ended mc'. Dis_Download (Some good) env [f, out] False mc ended mc') \<and>
    (\<forall>ended mc'. Dis_Download (Some good) env [f, out] False mc ended mc' \<longrightarrow>
       ended = Finished (Inr ()) \<and> lf_file (mc_local mc') (in_dir dest f) = Some content \<and>
       w_cloud (mc_world mc') = w_cloud (mc_world mc) \<and> (\<exists>info. files (w_datamap (mc_world mc')) f = Some info \<and> \<not> fi_Flag info) \<and>
       ((\<forall>name. de_removed env name) \<longrightarrow> (\<forall>i < d + p. w_shards (mc_world mc') (shard_name (f @ fileCryptExtension) i) = None)))"
proof (rule download_ends [OF assms(1-10,16)])
  fix dfs info fs and w2 :: world
  assume state: "files (w_datamap w2) f = Some info" "w_cloud w2 = w_cloud (mc_world mc)"
    and keys: "df_DistributedFile ` set dfs = shard_name (f @ fileCryptExtension) ` {..<d + p}"
    and run: "DoDecode (de_shard env) f dest (nat (fi_Padding info)) (shard_checksum_map dfs) (nat (fi_Shard info)) (nat (fi_Parity info)) pw
          ((mc_local mc)\<lparr>lf_shards := w_shards w2\<rparr>) = (shard_end.Returned (Inr ()), fs)"
    and content: "lf_file fs (in_dir dest f) = Some content"
  obtain mc' where mc': "dn_end env [f, out] f dfs (mc\<lparr>mc_world := w2\<rparr>) = (Finished (Inr ()), mc')" "mc_local mc' = fs"
      "files (w_datamap (mc_world mc')) = (files (w_datamap w2))(f \<mapsto> reset_info info)" "w_cloud (mc_world mc') = w_cloud w2"
      "w_shards (mc_world mc') = DeleteShardWithFileNames (de_removed env) (map df_DistributedFile dfs) (lf_shards fs)"
    using dn_end_ok [of env out dest "mc\<lparr>mc_world := w2\<rparr>" f info pw dfs fs] assms(11-15) state(1) run by auto
  have "w_shards (mc_world mc') (shard_name (f @ fileCryptExtension) i) = None" if "\<forall>name. de_removed env name" "i < d + p" for i
  proof -
    have "de_removed env = (\<lambda>_. True)" using that(1) by auto
    moreover have "shard_name (f @ fileCryptExtension) i \<in> set (map df_DistributedFile dfs)" using that(2) keys by simp
    ultimately show ?thesis by (simp add: mc'(5) delete_files)
  qed
  then show "\<exists>mc'. dn_end env [f, out] f dfs (mc\<lparr>mc_world := w2\<rparr>) = (Finished (Inr ()), mc') \<and>
      lf_file (mc_local mc') (in_dir dest f) = Some content \<and>
      w_cloud (mc_world mc') = w_cloud (mc_world mc) \<and> (\<exists>info. files (w_datamap (mc_world mc')) f = Some info \<and> \<not> fi_Flag info) \<and>
      ((\<forall>name. de_removed env name) \<longrightarrow> (\<forall>i < d + p. w_shards (mc_world mc') (shard_name (f @ fileCryptExtension) i) = None))"
    using mc' content state(2) by (intro exI [of _ mc']) (simp add: reset_info_def)
qed

text \<open>C4. A download restores the file. Take a recorded file whose shards are the codeword of its encryption, with remotes
  that still hold at least as many of its objects, unchanged, as there are data shards, and an environment in which
  the calls for these shards succeed; the other calls may fail in any way that does not end the process, and no
  hashed name is taken. Then the download comes to its end, and however it is scheduled it succeeds: the decrypted
  content is in the output directory under the name of the file, the file is recorded with its flag reset, the
  objects are untouched, and the temporary shard files are gone when they can be removed.\<close>

theorem Dis_Download_restores:
  assumes "recorded_file (de_shard env) pw f content d p cw (mc_world mc)" "path_Base f = f" "d + p \<le> 256"
    and "\<forall>i < d + p. object_of (mc_world mc) f i \<in> {None, Some (cw ! i)}"
    and "d \<le> card {i. i < d + p \<and> object_of (mc_world mc) f i \<noteq> None \<and> shard_name (f @ fileCryptExtension) i \<in> good}"
    and "no_collision (f @ fileCryptExtension) (d + p)"
    and "\<forall>i < d + p. w_shards (mc_world mc) (shard_name (f @ fileCryptExtension) i) \<in> {None, Some [], Some (cw ! i)}"
    and "\<forall>i < d + p. w_shards (mc_world mc) (CalculateHash (shard_name (f @ fileCryptExtension) i)) = None"
    and "range_order (de_order env)" "de_flag env = Wrote" "de_reset env = Wrote"
    and "pe_stat (de_password env)" "pe_read (de_password env)" "mc_password mc = Some pw"
    and "getAbsolutePath (de_cwd env) out = Inr dest" "dest \<in> lf_dirs (mc_local mc)"
  shows "(\<exists>ended mc'. Dis_Download (Some good) env [f, out] False mc ended mc') \<and>
    (\<forall>ended mc'. Dis_Download (Some good) env [f, out] False mc ended mc' \<longrightarrow>
       ended = Finished (Inr ()) \<and> lf_file (mc_local mc') (in_dir dest f) = Some content \<and>
       w_cloud (mc_world mc') = w_cloud (mc_world mc) \<and> (\<exists>info. files (w_datamap (mc_world mc')) f = Some info \<and> \<not> fi_Flag info) \<and>
       ((\<forall>name. de_removed env name) \<longrightarrow> (\<forall>i < d + p. w_shards (mc_world mc') (shard_name (f @ fileCryptExtension) i) = None)))"
  by (rule download_restores [OF assms])

section \<open>A download\<close>

text \<open>The file \<open>a\<close> with one data shard and one parity shard; only the object of the parity shard is left.\<close>

definition sample_down_shard :: "nat \<Rightarrow> string \<times> DistributedFile" where
  "sample_down_shard i = (shard_name ''a.fcef'' i, (sample_shard (shard_name ''a.fcef'' i))\<lparr>df_Remote := sample_remote\<rparr>)"

definition sample_down_info :: FileInfo where
  "sample_down_info = \<lparr>fi_FileName = ''a'', fi_FileSize = 1, fi_DisFileSize = 2, fi_Shard = 1, fi_Parity = 1, fi_Flag = False, fi_State = ''upload'',
     fi_Checksum = [], fi_Padding = 0, fi_DistributedFileInfos = [sample_down_shard 0, sample_down_shard 1]\<rparr>"

definition sample_down_machine :: "bytes list \<Rightarrow> machine" where
  "sample_down_machine cw = \<lparr>mc_world = (sample_world False)\<lparr>w_datamap := Json [(''a'', sample_down_info)], w_shards := Map.empty,
     w_cloud := [(''r'', CalculateHash (shard_name ''a.fcef'' 1)) \<mapsto> cw ! 1]\<rparr>, mc_local = sample_local, mc_password = Some ''pw''\<rparr>"

definition sample_down_env :: dn_env where
  "sample_down_env = \<lparr>de_order = (\<lambda>xs. xs), de_flag = Wrote, de_cwd = None, de_shard = sample_shard_env 2,
     de_password = \<lparr>pe_stat = True, pe_read = True, pe_mkdir = True, pe_rand = (\<lambda>_. None), pe_write = None\<rparr>, de_input = [],
     de_rm = sample_env (\<lambda>_. Did), de_reset = Wrote, de_removed = (\<lambda>_. True)\<rparr>"

lemma sample_names: "shard_name ''a.fcef'' 0 = ''a.fcef.0''" "shard_name ''a.fcef'' 1 = ''a.fcef.1''"
  by (simp_all add: shard_name_def nat_string.simps digit_def)

lemma less_two: "{..<1 + 1} = {0, 1 :: nat}"
  by auto

lemma sample_down_stream: "\<exists>enc. stream_env (sample_shard_env 2) enc 1 1"
proof -
  obtain enc where "stream_env (sample_shard_env 2) enc 1 1"
    by (rule stream_envE [of "sample_shard_env 2" 1 1]) (simp_all add: plain_cpu_def)
  then show ?thesis by blast
qed

lemma sample_down_objects:
  "object_of (mc_world (sample_down_machine cw)) ''a'' 0 = None"
  "object_of (mc_world (sample_down_machine cw)) ''a'' (Suc 0) = Some (cw ! 1)"
proof -
  have at: "shard_at (w_datamap (mc_world (sample_down_machine cw))) (''a'', shard_name ''a.fcef'' i) = Some (snd (sample_down_shard i))"
    if "i = 0 \<or> i = 1" for i
    using that by (elim disjE) (simp_all add: shard_at_def sample_down_machine_def sample_down_info_def sample_down_shard_def)
  have key: "object_key (snd (sample_down_shard i)) = (''r'', CalculateHash (shard_name ''a.fcef'' i))" for i
    by (simp add: object_key_def sample_down_shard_def sample_remote_def sample_shard_def)
  have cloud: "w_cloud (mc_world (sample_down_machine cw)) = [(''r'', CalculateHash ''a.fcef.1'') \<mapsto> cw ! 1]"
    by (simp add: sample_down_machine_def sample_names(2) [unfolded One_nat_def])
  show "object_of (mc_world (sample_down_machine cw)) ''a'' 0 = None"
    using at [of 0] hashes_differ by (simp add: object_of_def cloud_object_def key cloud sample_names)
  show "object_of (mc_world (sample_down_machine cw)) ''a'' (Suc 0) = Some (cw ! 1)"
    using at [of 1] by (simp add: object_of_def cloud_object_def key cloud sample_names(2) [unfolded One_nat_def])
qed

lemma sample_down_recorded:
  assumes "stream_env (sample_shard_env 2) enc 1 1" "coded enc [7, 1, 2, 3] (per_shard 1 4) cw"
  shows "recorded_file (sample_shard_env 2) ''pw'' ''a'' [1, 2, 3] 1 1 cw (mc_world (sample_down_machine cw))"
  unfolding recorded_file_def
proof (intro conjI exI)
  show "datamap_wf (w_datamap (mc_world (sample_down_machine cw)))"
    by (simp add: datamap_wf_def sample_down_machine_def readJsonFile_def map_wf_def info_wf_def sample_down_info_def
        sample_down_shard_def sample_shard_def)
  show "coded enc [7, 1, 2, 3] (per_shard 1 (length [7, 1, 2, 3 :: byte])) cw" using assms(2) by (simp add: numeral_eq_Suc)
  show "fst ` set (fi_DistributedFileInfos sample_down_info) = shard_name (''a'' @ fileCryptExtension) ` {..<1 + 1}"
    unfolding less_two by (simp add: sample_down_info_def sample_down_shard_def)
  show "stream_env (sample_shard_env 2) enc 1 1" by (rule assms(1))
  show "files (w_datamap (mc_world (sample_down_machine cw))) ''a'' = Some sample_down_info" by (simp add: sample_down_machine_def)
qed (simp_all add: sample_down_info_def per_shard_def)

lemma sample_down_setting:
  "de_shard sample_down_env = sample_shard_env 2" "range_order (de_order sample_down_env)" "de_flag sample_down_env = Wrote"
  "de_reset sample_down_env = Wrote" "pe_stat (de_password sample_down_env)" "pe_read (de_password sample_down_env)"
  "de_cwd sample_down_env = None" "mc_password (sample_down_machine cw) = Some ''pw''"
  "''/out'' \<in> lf_dirs (mc_local (sample_down_machine cw))" "no_collision (''a'' @ fileCryptExtension) (1 + 1)"
  "\<forall>i < 1 + 1. object_of (mc_world (sample_down_machine cw)) ''a'' i \<in> {None, Some (cw ! i)}"
  "1 \<le> card {i. i < 1 + 1 \<and> object_of (mc_world (sample_down_machine cw)) ''a'' i \<noteq> None \<and> shard_name (''a'' @ fileCryptExtension) i \<in> {''a.fcef.1''}}"
  "\<forall>i < 1 + 1. w_shards (mc_world (sample_down_machine cw)) (shard_name (''a'' @ fileCryptExtension) i) \<in> {None, Some [], Some (cw ! i)}"
  "\<forall>i < 1 + 1. w_shards (mc_world (sample_down_machine cw)) (CalculateHash (shard_name (''a'' @ fileCryptExtension) i)) = None"
proof -
  show "no_collision (''a'' @ fileCryptExtension) (1 + 1)"
    unfolding no_collision_def less_two using hashes_differ sample_names by simp
  have count: "{i. i < 1 + 1 \<and> object_of (mc_world (sample_down_machine cw)) ''a'' i \<noteq> None \<and> shard_name (''a'' @ fileCryptExtension) i \<in> {''a.fcef.1''}} = {1}"
    using sample_down_objects sample_names by (auto simp: less_Suc_eq)
  show "1 \<le> card {i. i < 1 + 1 \<and> object_of (mc_world (sample_down_machine cw)) ''a'' i \<noteq> None \<and> shard_name (''a'' @ fileCryptExtension) i \<in> {''a.fcef.1''}}"
    unfolding count by simp
  show "\<forall>i < 1 + 1. object_of (mc_world (sample_down_machine cw)) ''a'' i \<in> {None, Some (cw ! i)}"
    using sample_down_objects by (simp add: less_Suc_eq)
qed (simp_all add: sample_down_env_def sample_down_machine_def sample_local_def range_order_id)

theorem Dis_Download_restores_witness:
  "\<exists>cw mc'. Dis_Download (Some {''a.fcef.1''}) sample_down_env [''a'', ''/out''] False (sample_down_machine cw) (Finished (Inr ())) mc'
     \<and> lf_file (mc_local mc') ''/out/a'' = Some [1, 2, 3]"
proof -
  obtain enc where enc: "stream_env (sample_shard_env 2) enc 1 1" using sample_down_stream by blast
  obtain cw where "coded enc [7, 1, 2, 3] (per_shard 1 4) cw" by (rule coded_exists [OF enc, of "[7, 1, 2, 3]"]) (simp_all add: numeral_eq_Suc)
  note rec = sample_down_recorded [OF enc this]
  have path: "getAbsolutePath None ''/out'' = Inr ''/out''" "path_Base ''a'' = ''a''" by code_simp+
  note run = Dis_Download_restores [of sample_down_env, unfolded sample_down_setting(1,7),
      OF rec path(2) _ sample_down_setting(11,12,10,13,14,2-6,8) path(1) sample_down_setting(9)]
  show ?thesis using run by (auto simp: in_dir_def)
qed

section \<open>What a download reports\<close>

lemma ResetCheckFlag_unknown:
  assumes "readable dm" "files dm f = None"
  shows "ResetCheckFlag we f dm = (Inl (FileNotFound f), dm)"
  using assms by (cases dm rule: readable_cases) (simp_all add: ResetCheckFlag_def)

text \<open>A failure of the decoder does not reach the caller when the user keeps the file.\<close>

lemma decode_failure_swallowed:
  assumes "getAbsolutePath (de_cwd env) out = Inr dest" "files (w_datamap (mc_world mc)) f = Some info"
    and "tryGetPassword (de_password env) mc = (pw, mc1)"
    and "run_local (DoDecode (de_shard env) f dest (nat (fi_Padding info)) (shard_checksum_map dfs) (nat (fi_Shard info))
          (nat (fi_Parity info)) pw) mc1 = (shard_end.Returned (Inl e), mc2)"
    and "DoRemove (de_input env) = Some (False, rest)"
  shows "dn_end env [arg, out] f dfs mc = (Finished (Inr ()), mc2)"
  using assms
  by (simp add: dn_end_def argument_def dn_failed_def ShowDescription_RemoveFile_def GetFileInfoStruct_iff [THEN iffD2])

text \<open>C37. A download that is asked for by a path restores the file and reports a failure. Take a recorded file, remotes and an
  environment as in C4, and an argument whose last element is the name of the file but under which nothing is recorded, such as
  a path. Then the download comes to its end, and however it is scheduled the decrypted content is in the output directory; yet it
  ends with the error that there is no file of that name, because the flag is reset under the whole argument: the flag of
  the file stays set with the state \<open>download\<close>, and all its shard files stay in the shard directory.\<close>

theorem download_by_path_misreports:
  assumes "recorded_file (de_shard env) pw f content d p cw (mc_world mc)" "path_Base arg = f" "d + p \<le> 256"
    and "\<forall>i < d + p. object_of (mc_world mc) f i \<in> {None, Some (cw ! i)}"
    and "d \<le> card {i. i < d + p \<and> object_of (mc_world mc) f i \<noteq> None \<and> shard_name (f @ fileCryptExtension) i \<in> good}"
    and "no_collision (f @ fileCryptExtension) (d + p)"
    and "\<forall>i < d + p. w_shards (mc_world mc) (shard_name (f @ fileCryptExtension) i) \<in> {None, Some [], Some (cw ! i)}"
    and "\<forall>i < d + p. w_shards (mc_world mc) (CalculateHash (shard_name (f @ fileCryptExtension) i)) = None"
    and "range_order (de_order env)" "de_flag env = Wrote" "files (w_datamap (mc_world mc)) arg = None"
    and "pe_stat (de_password env)" "pe_read (de_password env)" "mc_password mc = Some pw"
    and "getAbsolutePath (de_cwd env) out = Inr dest" "dest \<in> lf_dirs (mc_local mc)"
  shows "(\<exists>ended mc'. Dis_Download (Some good) env [arg, out] False mc ended mc') \<and>
    (\<forall>ended mc'. Dis_Download (Some good) env [arg, out] False mc ended mc' \<longrightarrow>
       ended = Finished (Inl (FileNotFound arg)) \<and> lf_file (mc_local mc') (in_dir dest f) = Some content \<and>
       (\<exists>info. files (w_datamap (mc_world mc')) f = Some info \<and> fi_Flag info \<and> fi_State info = ''download'') \<and>
       (\<forall>i < d + p. w_shards (mc_world mc') (shard_name (f @ fileCryptExtension) i) = Some (cw ! i)))"
proof (rule download_ends [OF assms(1-10,16)])
  fix dfs info fs and w2 :: world
  assume state: "files (w_datamap w2) f = Some info" "fi_Flag info" "fi_State info = ''download''"
      "\<forall>g. g \<noteq> f \<longrightarrow> files (w_datamap w2) g = files (w_datamap (mc_world mc)) g"
    and run: "DoDecode (de_shard env) f dest (nat (fi_Padding info)) (shard_checksum_map dfs) (nat (fi_Shard info)) (nat (fi_Parity info)) pw
          ((mc_local mc)\<lparr>lf_shards := w_shards w2\<rparr>) = (shard_end.Returned (Inr ()), fs)"
    and content: "lf_file fs (in_dir dest f) = Some content" "\<forall>i < d + p. lf_shards fs (shard_name (f @ fileCryptExtension) i) = Some (cw ! i)"
  let ?mc = "mc\<lparr>mc_world := w2\<rparr>" and ?mc' = "mc\<lparr>mc_world := w2\<lparr>w_shards := lf_shards fs\<rparr>, mc_local := fs\<rparr>"
  have "arg \<noteq> f" using assms(1,11) by (auto simp: recorded_file_def)
  then have "files (w_datamap w2) arg = None" using state(4) assms(11) by simp
  then have reset: "ResetCheckFlag (de_reset env) arg (w_datamap w2) = (Inl (FileNotFound arg), w_datamap w2)"
    using files_SomeD [OF state(1)] by (intro ResetCheckFlag_unknown) blast+
  have "tryGetPassword (de_password env) ?mc = (pw, ?mc)" using assms(12-14) by (simp add: tryGetPassword_def)
  moreover have "GetFileInfoStruct f (w_datamap w2) = Inr info" using state(1) by (simp add: GetFileInfoStruct_iff)
  ultimately have "dn_end env [arg, out] f dfs ?mc = (Finished (Inl (FileNotFound arg)), ?mc')"
    using assms(15) run reset by (simp add: dn_end_def argument_def run_local_def on_datamap_def)
  then show "\<exists>mc'. dn_end env [arg, out] f dfs ?mc = (Finished (Inl (FileNotFound arg)), mc') \<and>
      lf_file (mc_local mc') (in_dir dest f) = Some content \<and>
      (\<exists>info. files (w_datamap (mc_world mc')) f = Some info \<and> fi_Flag info \<and> fi_State info = ''download'') \<and>
      (\<forall>i < d + p. w_shards (mc_world mc') (shard_name (f @ fileCryptExtension) i) = Some (cw ! i))"
    using state content by (intro exI [of _ ?mc']) simp
qed

theorem download_by_path_misreports_witness:
  "\<exists>cw mc'. Dis_Download (Some {''a.fcef.1''}) sample_down_env [''./a'', ''/out''] False (sample_down_machine cw) (Finished (Inl (FileNotFound ''./a''))) mc'
     \<and> lf_file (mc_local mc') ''/out/a'' = Some [1, 2, 3]"
proof -
  obtain enc where enc: "stream_env (sample_shard_env 2) enc 1 1" using sample_down_stream by blast
  obtain cw where "coded enc [7, 1, 2, 3] (per_shard 1 4) cw" by (rule coded_exists [OF enc, of "[7, 1, 2, 3]"]) (simp_all add: numeral_eq_Suc)
  note rec = sample_down_recorded [OF enc this]
  let ?mc = "sample_down_machine cw"
  have path: "getAbsolutePath None ''/out'' = Inr ''/out''" "path_Base ''./a'' = ''a''" by code_simp+
  have dm: "files (w_datamap (mc_world ?mc)) ''./a'' = None" by (simp add: sample_down_machine_def)
  note run = download_by_path_misreports [of sample_down_env, unfolded sample_down_setting(1,7),
      OF rec path(2) _ sample_down_setting(11,12,10,13,14,2,3) dm sample_down_setting(5,6,8) path(1) sample_down_setting(9)]
  show ?thesis using run by (auto simp: in_dir_def)
qed

end
