(* ===== verification/Upload_Command.thy ===== *)
theory Upload_Command
  imports Download
begin

text \<open>
  The command around the upload pool (\<open>Dis_Upload\<close> and \<open>prepareUpload\<close> in \<open>fs/dis_operations/dis_upload.go\<close>): an
  earlier file of the same name is removed, the file is encoded, its shard files get their hashed names, the file is
  recorded, and the shards are uploaded by the pool of \<open>Upload\<close>.
\<close>

section \<open>Environment\<close>

record ul_env =
  ul_shard :: shard_env
  ul_cwd :: "string option"
  ul_password :: password_env
  ul_remotes :: "Remote list"
  ul_mkdir :: "Remote \<Rightarrow> call_end"
  ul_renamed :: "string \<Rightarrow> bool"
  ul_read :: bool
  ul_record :: "FilesMap write_end"
  ul_order :: shard_order
  ul_rm :: rm_env
  ul_stat :: bool
  ul_reset :: "FilesMap write_end"

section \<open>Preparation\<close>

text \<open>\<open>createHashNames\<close>: the map of the names, the errors and the shard directory.\<close>

fun createHashNames ::
  "(string \<Rightarrow> bool) \<Rightarrow> DistributedFile list \<Rightarrow> shard_dir \<Rightarrow> (string \<times> string) list \<times> dis_error list \<times> shard_dir" where
  "createHashNames renamed [] dir = ([], [], dir)"
| "createHashNames renamed (DFile # rest) dir =
     (let name = df_DistributedFile DFile;
          (res, dir) = ConvertFileNameForUP (renamed name) name dir;
          (hashNameMap, errs, dir) = createHashNames renamed rest dir
      in case res of
           Inl e \<Rightarrow> (hashNameMap, e # errs, dir)
         | Inr hashedFileName \<Rightarrow> (if map_of hashNameMap name = None then (name, hashedFileName) # hashNameMap else hashNameMap, errs, dir))"

text \<open>\<open>MakeDistributionDir\<close>: one call for every remote, concurrently. The calls do not touch what is modelled; the process
  ends when one of them ends it. (The goroutines append to the list of errors without a lock, so some may be lost.)\<close>

definition MakeDistributionDir :: "(Remote \<Rightarrow> call_end) \<Rightarrow> Remote list \<Rightarrow> unit run_end" where
  "MakeDistributionDir mkdir remotes =
     (case List.map_filter (\<lambda>r. case mkdir r of Ended code \<Rightarrow> Some code | _ \<Rightarrow> None) remotes of
        code # _ \<Rightarrow> Exited code
      | [] \<Rightarrow>
          (case filter (\<lambda>r. mkdir r = CallError) remotes of
             [] \<Rightarrow> Finished (Inr ())
           | errs \<Rightarrow> Finished (Inl (Errors (map (\<lambda>_. DirFailed) errs)))))"

fun distributed_infos :: "string list \<Rightarrow> string list \<Rightarrow> DistributedFile list dis_result" where
  "distributed_infos [] checksums = Inr []"
| "distributed_infos (source # dis_names) [] = Inl IndexPanic"
| "distributed_infos (source # dis_names) (checksum # checksums) =
     (case GetDistributedInfo (path_Base source) no_remote checksum of
        Inl e \<Rightarrow> Inl e
      | Inr distributionFile \<Rightarrow>
          (case distributed_infos dis_names checksums of
             Inl e \<Rightarrow> Inl e
           | Inr infos \<Rightarrow> Inr (distributionFile # infos)))"

text \<open>\<open>DoEncode\<close> has no error result: it panics instead.\<close>

definition prepareUpload ::
  "ul_env \<Rightarrow> string \<Rightarrow> machine \<Rightarrow> ((string \<times> string) list \<times> DistributedFile list) run_end \<times> machine" where
  "prepareUpload env absolutePath mc =
     (let (password, mc) = tryGetPassword (ul_password env) mc
      in case run_local (DoEncode (ul_shard env) absolutePath password) mc of
           (NoReturn, mc) \<Rightarrow> (Hangs, mc)
         | (ProcessExit code, mc) \<Rightarrow> (Exited code, mc)
         | (shard_end.Returned (Inl _), mc) \<Rightarrow> (Exited 2, mc)
         | (shard_end.Returned (Inr e), mc) \<Rightarrow>
     (case MakeDistributionDir (ul_mkdir env) (ul_remotes env) of
        Exited code \<Rightarrow> (Exited code, mc)
      | Hangs \<Rightarrow> (Hangs, mc)
      | Finished (Inl err) \<Rightarrow> (Finished (Inl err), mc)
      | Finished (Inr _) \<Rightarrow>
     (case distributed_infos (en_paths e) (en_checksums e) of
        Inl err \<Rightarrow> (Finished (Inl err), mc)
      | Inr distributedFileInfos \<Rightarrow>
          let (hashNameMap, errs, dir) = createHashNames (ul_renamed env) distributedFileInfos (w_shards (mc_world mc));
              mc = mc\<lparr>mc_world := (mc_world mc)\<lparr>w_shards := dir\<rparr>\<rparr>;
              content = lf_file (mc_local mc) absolutePath
          in if errs \<noteq> [] then (Finished (Inl (Errors errs)), mc)
             else case on_datamap (MakeDataMap (ul_record env)
                      (if se_fails (ul_shard env) (OsStat absolutePath) then None else map_option (int \<circ> length) content)
                      (if ul_read env then content else None)
                      absolutePath distributedFileInfos (int (en_size e)) (int (en_padding e)) (int (en_shard e)) (int (en_parity e)))
                      (mc_world mc) of
                 (Inl err, w) \<Rightarrow> (Finished (Inl err), mc\<lparr>mc_world := w\<rparr>)
               | (Inr _, w) \<Rightarrow> (Finished (Inr (hashNameMap, distributedFileInfos)), mc\<lparr>mc_world := w\<rparr>))))"

section \<open>The upload of a file\<close>

text \<open>The shards of an upload that is resumed: those that are not marked, with their hashed names.\<close>

definition resume_upload :: "ul_env \<Rightarrow> string \<Rightarrow> machine \<Rightarrow> ((string \<times> string) list \<times> DistributedFile list) dis_result" where
  "resume_upload env originalFileName mc =
     (case GetDistributedFileStruct (ul_order env) originalFileName (w_datamap (mc_world mc)) of
        Inl e \<Rightarrow> Inl e
      | Inr all \<Rightarrow>
          let dfs = filter (\<lambda>dFile. \<not> df_Check dFile) all
          in Inr (fold (\<lambda>dFile. AList.update (df_DistributedFile dFile) (CalculateHash (df_DistributedFile dFile))) dfs [], dfs))"

text \<open>A file of the same name is removed first. The removal gets the arguments of the upload, so it looks for the
  whole path.\<close>

definition remove_duplicate :: "ul_env \<Rightarrow> string list \<Rightarrow> string \<Rightarrow> machine \<Rightarrow> unit run_end \<times> machine" where
  "remove_duplicate env args originalFileName mc =
     (case DoesFileStructExist originalFileName (w_datamap (mc_world mc)) of
        Inl e \<Rightarrow> (Finished (Inl e), mc)
      | Inr isDuplicate \<Rightarrow>
          if isDuplicate
          then (case Dis_rm (ul_rm env) args False (mc_world mc) of (ended, w) \<Rightarrow> (ended, mc\<lparr>mc_world := w\<rparr>))
          else (Finished (Inr ()), mc))"

text \<open>\<open>Dis_Upload\<close> up to the start of the pool.\<close>

definition ul_begin ::
  "ul_env \<Rightarrow> string list \<Rightarrow> bool \<Rightarrow> machine \<Rightarrow> (string \<times> (string \<times> string) list \<times> DistributedFile list) run_end \<times> machine" where
  "ul_begin env args reSignal mc =
     (case argument args 0 of
        Inl e \<Rightarrow> (Finished (Inl e), mc)
      | Inr arg \<Rightarrow>
     (case dis_init (ul_shard env) (ul_cwd env) arg mc of
        Inl e \<Rightarrow> (Finished (Inl e), mc)
      | Inr absolutePath \<Rightarrow>
          let originalFileName = path_Base arg
          in if reSignal
             then (case resume_upload env originalFileName mc of
                     Inl e \<Rightarrow> (Finished (Inl e), mc)
                   | Inr (hashes, dfs) \<Rightarrow> (Finished (Inr (originalFileName, hashes, dfs)), mc))
             else (case remove_duplicate env args originalFileName mc of
                     (Finished (Inl e), mc) \<Rightarrow> (Finished (Inl e), mc)
                   | (Exited code, mc) \<Rightarrow> (Exited code, mc)
                   | (Hangs, mc) \<Rightarrow> (Hangs, mc)
                   | (Finished (Inr _), mc) \<Rightarrow>
                       (case prepareUpload env absolutePath mc of
                          (Finished (Inl e), mc) \<Rightarrow> (Finished (Inl e), mc)
                        | (Exited code, mc) \<Rightarrow> (Exited code, mc)
                        | (Hangs, mc) \<Rightarrow> (Hangs, mc)
                        | (Finished (Inr (hashes, dfs)), mc) \<Rightarrow> (Finished (Inr (originalFileName, hashes, dfs)), mc)))))"

text \<open>\<open>Dis_Upload\<close> after the pool, whose result is \<open>res\<close>.\<close>

definition ul_end :: "ul_env \<Rightarrow> string \<Rightarrow> string \<Rightarrow> unit dis_result \<Rightarrow> machine \<Rightarrow> unit dis_result \<times> machine" where
  "ul_end env arg originalFileName res mc =
     (case res of
        Inl e \<Rightarrow> (Inl e, mc)
      | Inr _ \<Rightarrow>
          if \<not> ul_stat env then (Inl (StatFailed arg), mc)
          else case on_datamap (ResetCheckFlag (ul_reset env) originalFileName) (mc_world mc) of
                 (res, w) \<Rightarrow> (res, mc\<lparr>mc_world := w\<rparr>))"

definition ul_conf :: "ul_env \<Rightarrow> LoadBalancerType \<Rightarrow> string \<Rightarrow> (string \<times> string) list \<Rightarrow> up_conf" where
  "ul_conf env lb f hashes = \<lparr>uc_file = f, uc_hashes = hashes, uc_lb = lb, uc_remotes = ul_remotes env\<rparr>"

definition ul_state :: "machine \<Rightarrow> up_state" where
  "ul_state mc = \<lparr>us_world = mc_world mc, us_errs = 0, us_total = 0, us_count = 0, us_exit = None\<rparr>"

inductive Dis_Upload ::
  "upload_calls \<Rightarrow> ul_env \<Rightarrow> string list \<Rightarrow> bool \<Rightarrow> LoadBalancerType \<Rightarrow> machine \<Rightarrow> unit run_end \<Rightarrow> machine \<Rightarrow> bool"
  for calls env args reSignal lb mc where
  refused: "ul_begin env args reSignal mc = (Finished (Inl e), mc') \<Longrightarrow> Dis_Upload calls env args reSignal lb mc (Finished (Inl e)) mc'"
| exited: "ul_begin env args reSignal mc = (Exited code, mc') \<Longrightarrow> Dis_Upload calls env args reSignal lb mc (Exited code) mc'"
| stuck: "ul_begin env args reSignal mc = (Hangs, mc') \<Longrightarrow> Dis_Upload calls env args reSignal lb mc Hangs mc'"
| returned: "ul_begin env args reSignal mc = (Finished (Inr (f, hashes, dfs)), mc1) \<Longrightarrow>
    startUploadFileGoroutine_Worker calls (ul_conf env lb f hashes) dfs 32 (ul_state mc1) c \<Longrightarrow>
    p_main c = Returned \<Longrightarrow> us_exit (p_state c) = None \<Longrightarrow>
    ul_end env (args ! 0) f (up_result c) (mc1\<lparr>mc_world := us_world (p_state c)\<rparr>) = (res, mc') \<Longrightarrow>
    Dis_Upload calls env args reSignal lb mc (Finished res) mc'"
| died: "ul_begin env args reSignal mc = (Finished (Inr (f, hashes, dfs)), mc1) \<Longrightarrow>
    startUploadFileGoroutine_Worker calls (ul_conf env lb f hashes) dfs 32 (ul_state mc1) c \<Longrightarrow>
    us_exit (p_state c) = Some code \<Longrightarrow>
    Dis_Upload calls env args reSignal lb mc (Exited code) (mc1\<lparr>mc_world := us_world (p_state c)\<rparr>)"
| hangs: "ul_begin env args reSignal mc = (Finished (Inr (f, hashes, dfs)), mc1) \<Longrightarrow>
    startUploadFileGoroutine_Worker calls (ul_conf env lb f hashes) dfs 32 (ul_state mc1) c \<Longrightarrow>
    p_main c \<noteq> Returned \<Longrightarrow> us_exit (p_state c) = None \<Longrightarrow>
    \<nexists>c'. pool_step UAlloc (up_work calls (ul_conf env lb f hashes)) up_over up_dead c c' \<Longrightarrow>
    Dis_Upload calls env args reSignal lb mc Hangs (mc1\<lparr>mc_world := us_world (p_state c)\<rparr>)"

section \<open>What the preparation leaves\<close>

lemma distributed_infos_ok:
  assumes "length paths = length checksums" "\<forall>path \<in> set paths. path_Base path \<noteq> []"
  shows "\<exists>dfs. distributed_infos paths checksums = Inr dfs \<and> map df_DistributedFile dfs = map path_Base paths \<and> (\<forall>df \<in> set dfs. \<not> df_Check df)"
  using assms
proof (induction paths checksums rule: distributed_infos.induct)
  case (3 path paths checksum checksums)
  then obtain dfs where "distributed_infos paths checksums = Inr dfs" "map df_DistributedFile dfs = map path_Base paths"
      "\<forall>df \<in> set dfs. \<not> df_Check df"
    by (auto simp: GetDistributedInfo_def)
  then show ?case using "3.prems" by (simp add: GetDistributedInfo_def)
qed simp_all

lemma path_Base_nonempty: "path_Base path \<noteq> []"
  by (simp add: path_Base_def Let_def)

lemma createHashNames_hashes:
  "createHashNames renamed dfs dir = (m, errs, dir') \<Longrightarrow> map_of m k = Some h \<Longrightarrow> h = CalculateHash k"
proof (induction dfs arbitrary: dir m errs dir')
  case (Cons df dfs)
  let ?n = "df_DistributedFile df"
  obtain res dir1 where up: "ConvertFileNameForUP (renamed ?n) ?n dir = (res, dir1)" by fastforce
  obtain m2 errs2 dir2 where rest: "createHashNames renamed dfs dir1 = (m2, errs2, dir2)" by (metis prod_cases3)
  have "res = Inr h' \<Longrightarrow> h' = CalculateHash ?n" for h'
    using up by (auto simp: ConvertFileNameForUP_def Let_def split: prod.splits sum.splits)
  then show ?case using Cons.prems Cons.IH [OF rest] up rest by (cases res) (auto simp: Let_def split: if_splits)
qed simp

text \<open>When the hashed names are their own, every shard file is renamed and nothing else changes.\<close>

lemma createHashNames_ok:
  assumes "createHashNames renamed dfs dir = (m, [], dir')"
    and "distinct (map df_DistributedFile dfs)" "inj_on CalculateHash (shard_names (set dfs))"
    and "shard_names (set dfs) \<inter> CalculateHash ` shard_names (set dfs) = {}"
  shows "(\<forall>df \<in> set dfs. map_of m (df_DistributedFile df) = Some (CalculateHash (df_DistributedFile df))
            \<and> dir (df_DistributedFile df) \<noteq> None \<and> dir' (df_DistributedFile df) = None
            \<and> dir' (CalculateHash (df_DistributedFile df)) = dir (df_DistributedFile df))
     \<and> (\<forall>k. k \<notin> shard_names (set dfs) \<union> CalculateHash ` shard_names (set dfs) \<longrightarrow> dir' k = dir k)"
  using assms
proof (induction dfs arbitrary: dir m)
  case (Cons df dfs)
  let ?n = "df_DistributedFile df" let ?h = "CalculateHash ?n"
  obtain m2 errs dir2 where rest: "createHashNames renamed dfs (snd (ConvertFileNameForUP (renamed ?n) ?n dir)) = (m2, errs, dir2)"
    by (metis prod_cases3)
  obtain content where c: "dir ?n = Some content" "renamed ?n" "errs = []" "dir2 = dir'"
      "m = (if map_of m2 ?n = None then (?n, ?h) # m2 else m2)"
    using Cons.prems(1) rest
    by (cases "dir ?n") (auto simp: ConvertFileNameForUP_def os_Rename_def Let_def split: if_splits)
  let ?dir = "(dir(?n := None))(?h \<mapsto> content)"
  have run: "createHashNames renamed dfs ?dir = (m2, [], dir')"
    using rest c by (simp add: ConvertFileNameForUP_def os_Rename_def Let_def)
  have names: "shard_names (set (df # dfs)) = insert ?n (shard_names (set dfs))" by (simp add: shard_names_def)
  have n: "?n \<notin> shard_names (set dfs)" using Cons.prems(2) by (auto simp: shard_names_def)
  have h: "?h \<notin> CalculateHash ` shard_names (set dfs)" using Cons.prems(3) n unfolding names by (simp add: inj_on_insert)
  have apart: "?n \<noteq> ?h" "?h \<notin> shard_names (set dfs)" "?n \<notin> CalculateHash ` shard_names (set dfs)"
    using Cons.prems(4) unfolding names by auto
  have inj: "inj_on CalculateHash (shard_names (set dfs))" using Cons.prems(3) unfolding names by simp
  have dj: "shard_names (set dfs) \<inter> CalculateHash ` shard_names (set dfs) = {}"
    using Cons.prems(4) unfolding names by auto
  have d2: "distinct (map df_DistributedFile dfs)" using Cons.prems(2) by simp
  note IH = Cons.IH [OF run d2 inj dj]
  have others: "df_DistributedFile dg \<noteq> ?n \<and> df_DistributedFile dg \<noteq> ?h \<and> CalculateHash (df_DistributedFile dg) \<noteq> ?h" if "dg \<in> set dfs" for dg
  proof -
    have "df_DistributedFile dg \<in> shard_names (set dfs)" using that by (simp add: shard_names_def)
    then show ?thesis using n h apart(2) imageI [of _ "shard_names (set dfs)" CalculateHash] by metis
  qed
  have m: "map_of m k = (if k = ?n \<and> map_of m2 ?n = None then Some ?h else map_of m2 k)" for k by (simp add: c(5))
  have old: "map_of m2 ?n = None \<or> map_of m2 ?n = Some ?h"
    by (cases "map_of m2 ?n") (simp_all add: createHashNames_hashes [OF run])
  show ?case
  proof (intro conjI ballI allI impI)
    fix dg assume dg: "dg \<in> set (df # dfs)"
    show "map_of m (df_DistributedFile dg) = Some (CalculateHash (df_DistributedFile dg))"
      using dg IH old others m by auto
    show "dir (df_DistributedFile dg) \<noteq> None" using dg IH others c(1) by auto
    show "dir' (df_DistributedFile dg) = None" using dg IH n apart by auto
    show "dir' (CalculateHash (df_DistributedFile dg)) = dir (df_DistributedFile dg)"
      using dg IH others h apart c(1) by auto
  next
    fix k assume "k \<notin> shard_names (set (df # dfs)) \<union> CalculateHash ` shard_names (set (df # dfs))"
    then show "dir' k = dir k" using IH unfolding names by simp
  qed
qed (simp add: shard_names_def)

lemma dFileMap_keys: "fst ` set (dFileMap dfs) = df_DistributedFile ` set dfs"
proof -
  have "fst ` set (fold (\<lambda>df. AList.update (df_DistributedFile df) df) dfs al) = df_DistributedFile ` set dfs \<union> fst ` set al" for al
    by (induction dfs arbitrary: al) (auto simp: dom_update)
  then show ?thesis by (simp add: dFileMap_def)
qed

lemma update_entries: "x \<in> set (AList.update k v al) \<Longrightarrow> snd x = v \<or> x \<in> set al"
  by (induction al) (auto split: if_splits)

lemma dFileMap_entries:
  assumes "x \<in> set (dFileMap dfs)"
  shows "snd x \<in> set dfs"
proof -
  have "x \<in> set (fold (\<lambda>df. AList.update (df_DistributedFile df) df) dfs al) \<Longrightarrow> snd x \<in> set dfs \<or> x \<in> set al" for al
  proof (induction dfs arbitrary: al)
    case (Cons df dfs)
    then show ?case using update_entries [of x "df_DistributedFile df" df al] by auto
  qed simp
  from this [of "[]"] show ?thesis using assms by (simp add: dFileMap_def)
qed

lemma path_Base_slash: "CHR ''/'' \<in> set (path_Base path) \<Longrightarrow> path_Base path = ''/''"
proof -
  let ?s = "dropWhile (\<lambda>c. c = CHR ''/'') (rev path)"
  have "CHR ''/'' \<notin> set (takeWhile (\<lambda>c. c \<noteq> CHR ''/'') ?s)" using set_takeWhileD by fastforce
  then show "CHR ''/'' \<in> set (path_Base path) \<Longrightarrow> path_Base path = ''/''"
    by (auto simp: path_Base_def Let_def split: if_splits)
qed

lemma nat_string_no_slash: "CHR ''/'' \<notin> set (nat_string n)"
proof (induction n rule: nat_string.induct)
  case (1 n)
  have "CHR ''/'' \<noteq> digit k" if "k < 10" for k
  proof -
    have "\<forall>k \<in> set [0..<10]. CHR ''/'' \<noteq> digit k" by code_simp
    then show ?thesis using that by simp
  qed
  then show ?case using 1 by (subst nat_string.simps) simp
qed

text \<open>The encoded file as the machine sees it.\<close>

lemma encode_on_machine:
  assumes "stream_env env enc d p" "1 < d" "d + p \<le> 256" "lf_file (mc_local mc) path = Some content"
    and "shards_num (length content) (lf_data (mc_local mc)) = Some (d, p)" "se_encrypt env pw content = Inr cipher" "cipher \<noteq> []"
    and "path_Base (path @ fileCryptExtension) = f @ fileCryptExtension"
  obtains cw mc1 e where "coded enc cipher (per_shard d (length cipher)) cw"
    "run_local (DoEncode env path pw) mc = (shard_end.Returned (Inr e), mc1)"
    "map path_Base (en_paths e) = map (shard_name (f @ fileCryptExtension)) [0..<d + p]" "length (en_checksums e) = d + p"
    "en_padding e = d * per_shard d (length cipher) - length cipher" "en_shard e = d" "en_parity e = p"
    "\<forall>i < d + p. w_shards (mc_world mc1) (shard_name (f @ fileCryptExtension) i) = Some (cw ! i)"
    "\<forall>n. n \<notin> range (shard_name (f @ fileCryptExtension)) \<longrightarrow> w_shards (mc_world mc1) n = w_shards (mc_world mc) n"
    "lf_file (mc_local mc1) = (lf_file (mc_local mc))(path @ fileCryptExtension := None)" "mc_password mc1 = mc_password mc"
    "w_datamap (mc_world mc1) = w_datamap (mc_world mc)" "w_lb (mc_world mc1) = w_lb (mc_world mc)" "w_cloud (mc_world mc1) = w_cloud (mc_world mc)"
    "lf_dirs (mc_local mc1) = insert (se_dir env) (lf_dirs (mc_local mc))"
proof -
  let ?f = "f @ fileCryptExtension" and ?N = "per_shard d (length cipher)"
  let ?fs = "(mc_local mc)\<lparr>lf_shards := w_shards (mc_world mc)\<rparr>"
  have fs: "lf_file ?fs path = Some content" "shards_num (length content) (lf_data ?fs) = Some (d, p)" using assms(4,5) by simp_all
  obtain cw fs' where cw: "coded enc cipher ?N cw"
    and run: "DoEncode env path pw ?fs = (shard_end.Returned (Inr \<lparr>en_paths = map (\<lambda>i. se_dir env @ ''/'' @ shard_name ?f i) [0..<d + p],
        en_checksums = map calculateChecksum cw, en_size = ?N, en_padding = d * ?N - length cipher, en_shard = d, en_parity = p\<rparr>), fs')"
    and fs': "\<forall>i < d + p. lf_shards fs' (shard_name ?f i) = Some (cw ! i)" "\<forall>n. n \<notin> range (shard_name ?f) \<longrightarrow> lf_shards fs' n = lf_shards ?fs n"
      "lf_file fs' = (lf_file ?fs)(path @ fileCryptExtension := None)" "lf_dirs fs' = insert (se_dir env) (lf_dirs ?fs)"
    using DoEncode_ok [OF assms(1-3) fs assms(6,7)] unfolding assms(8) by metis
  have base: "path_Base (se_dir env @ ''/'' @ shard_name ?f i) = shard_name ?f i" if "CHR ''/'' \<notin> set f" for i
    by (rule path_Base_join) (use that nat_string_no_slash in \<open>simp_all add: shard_name_def\<close>)
  have slash: "CHR ''/'' \<notin> set f" using path_Base_slash [of "path @ fileCryptExtension"] assms(8) by auto
  have len: "length cw = d + p"
    using cw codeword_lens(1) [of "st_r enc"] stream_env_pos [OF assms(1)] assms(1) unfolding coded_def stream_env_def by metis
  show ?thesis
    by (rule that [of cw "\<lparr>en_paths = map (\<lambda>i. se_dir env @ ''/'' @ shard_name ?f i) [0..<d + p],
        en_checksums = map calculateChecksum cw, en_size = ?N, en_padding = d * ?N - length cipher, en_shard = d, en_parity = p\<rparr>"
        "mc\<lparr>mc_local := fs', mc_world := (mc_world mc)\<lparr>w_shards := lf_shards fs'\<rparr>\<rparr>"])
      (use cw run fs' base [OF slash] len in \<open>simp_all add: run_local_def\<close>)
qed

text \<open>What the preparation of an upload leaves: the file is recorded, with the shards of its encryption waiting under their
  hashed names.\<close>

definition upload_prepared :: "shard_env \<Rightarrow> string \<Rightarrow> string \<Rightarrow> bytes \<Rightarrow> nat \<Rightarrow> nat \<Rightarrow> bytes list \<Rightarrow> world \<Rightarrow> bool" where
  "upload_prepared env pw f content d p cw w \<longleftrightarrow> recorded_file env pw f content d p cw w
     \<and> (\<exists>info. files (w_datamap w) f = Some info \<and> fi_Flag info \<and> fi_State info = ''upload'' \<and> fi_FileName info = f
          \<and> (\<forall>(k, df) \<in> set (fi_DistributedFileInfos info). \<not> df_Check df))
     \<and> (\<forall>i < d + p. w_shards w (shard_name (f @ fileCryptExtension) i) = None
          \<and> w_shards w (CalculateHash (shard_name (f @ fileCryptExtension) i)) = Some (cw ! i))"

lemma prepareUpload_ok:
  assumes run: "prepareUpload env path mc = (Finished (Inr (hashes, dfs)), mc2)"
    and env: "stream_env (ul_shard env) enc d p" "1 < d" "d + p \<le> 256"
    and input: "lf_file (mc_local mc) path = Some content" "shards_num (length content) (lf_data (mc_local mc)) = Some (d, p)"
      "se_encrypt (ul_shard env) pw content = Inr cipher" "cipher \<noteq> []" "se_decrypt (ul_shard env) pw cipher = Inr content"
    and names: "path_Base (path @ fileCryptExtension) = f @ fileCryptExtension" "path_Base path = f" "no_collision (f @ fileCryptExtension) (d + p)"
    and mc: "tryGetPassword (ul_password env) mc = (pw, mc)" "datamap_wf (w_datamap (mc_world mc))"
  obtains cw where "upload_prepared (ul_shard env) pw f content d p cw (mc_world mc2)"
    "map df_DistributedFile dfs = map (shard_name (f @ fileCryptExtension)) [0..<d + p]"
    "\<forall>df \<in> set dfs. map_of hashes (df_DistributedFile df) = Some (CalculateHash (df_DistributedFile df))"
    "lf_file (mc_local mc2) = (lf_file (mc_local mc))(path @ fileCryptExtension := None)" "mc_password mc2 = mc_password mc"
    "w_lb (mc_world mc2) = w_lb (mc_world mc)" "lf_dirs (mc_local mc2) = insert (se_dir (ul_shard env)) (lf_dirs (mc_local mc))"
    "w_cloud (mc_world mc2) = w_cloud (mc_world mc)" "\<forall>g. g \<noteq> f \<longrightarrow> files (w_datamap (mc_world mc2)) g = files (w_datamap (mc_world mc)) g"
proof -
  let ?f = "f @ fileCryptExtension" and ?N = "per_shard d (length cipher)"
  obtain cw mc1 e where enc: "coded enc cipher ?N cw"
    "run_local (DoEncode (ul_shard env) path pw) mc = (shard_end.Returned (Inr e), mc1)"
    "map path_Base (en_paths e) = map (shard_name ?f) [0..<d + p]" "length (en_checksums e) = d + p"
    "en_padding e = d * ?N - length cipher" "en_shard e = d" "en_parity e = p"
    "\<forall>i < d + p. w_shards (mc_world mc1) (shard_name ?f i) = Some (cw ! i)"
    and mc1: "lf_file (mc_local mc1) = (lf_file (mc_local mc))(path @ fileCryptExtension := None)" "mc_password mc1 = mc_password mc"
    "w_datamap (mc_world mc1) = w_datamap (mc_world mc)" "w_lb (mc_world mc1) = w_lb (mc_world mc)"
    "lf_dirs (mc_local mc1) = insert (se_dir (ul_shard env)) (lf_dirs (mc_local mc))" "w_cloud (mc_world mc1) = w_cloud (mc_world mc)"
    using encode_on_machine [OF env input(1-4) names(1)] by metis
  obtain infos where infos: "distributed_infos (en_paths e) (en_checksums e) = Inr infos"
      "map df_DistributedFile infos = map (shard_name ?f) [0..<d + p]" "\<forall>df \<in> set infos. \<not> df_Check df"
    using distributed_infos_ok [of "en_paths e" "en_checksums e"] enc(3,4) path_Base_nonempty by (metis length_map length_upt minus_nat.diff_0)
  obtain m errs dir where hs: "createHashNames (ul_renamed env) infos (w_shards (mc_world mc1)) = (m, errs, dir)" by (metis prod_cases3)
  define mc1' where "mc1' = mc1\<lparr>mc_world := (mc_world mc1)\<lparr>w_shards := dir\<rparr>\<rparr>"
  define rec_op where "rec_op = MakeDataMap (ul_record env)
    (if se_fails (ul_shard env) (OsStat path) then None else map_option (int \<circ> length) (lf_file (mc_local mc1') path))
    (if ul_read env then lf_file (mc_local mc1') path else None)
    path infos (int (en_size e)) (int (en_padding e)) (int (en_shard e)) (int (en_parity e))"
  have out: "MakeDistributionDir (ul_mkdir env) (ul_remotes env) = Finished (Inr ())" "errs = []" "hashes = m" "dfs = infos"
    "\<exists>dm. rec_op (w_datamap (mc_world mc1)) = (Inr (), dm) \<and> mc2 = mc1\<lparr>mc_world := (mc_world mc1)\<lparr>w_shards := dir, w_datamap := dm\<rparr>\<rparr>"
    using run unfolding prepareUpload_def mc(1) Let_def split_conv enc(2) shard_end.case sum.case infos(1) hs mc1'_def [symmetric] rec_op_def [symmetric] on_datamap_def
    by (auto simp: mc1'_def split: run_end.splits sum.splits if_splits prod.splits)
  obtain dm where dm: "rec_op (w_datamap (mc_world mc)) = (Inr (), dm)" "mc2 = mc1\<lparr>mc_world := (mc_world mc1)\<lparr>w_shards := dir, w_datamap := dm\<rparr>\<rparr>"
    using out(5) mc1(3) by auto
  obtain fsize bs al where al: "readJsonFile (w_datamap (mc_world mc)) = Inr al"
    and dm': "dm = Json (AList.update f \<lparr> fi_FileName = f, fi_FileSize = fsize, fi_DisFileSize = int (en_size e), fi_Shard = int d,
      fi_Parity = int p, fi_Flag = True, fi_State = ''upload'', fi_Checksum = calculateChecksum bs, fi_Padding = int (en_padding e),
      fi_DistributedFileInfos = dFileMap infos \<rparr> al)" (is "_ = Json (AList.update f ?info al)")
    using MakeDataMap_result [OF dm(1) [unfolded rec_op_def]] unfolding names(2) enc(6,7) by metis
  have keys: "df_DistributedFile ` set infos = shard_name ?f ` {..<d + p}"
    using arg_cong [OF infos(2), of set] by (simp add: lessThan_atLeast0)
  have "info_wf f ?info" using dFileMap_wf by (simp add: info_wf_def)
  then have wf: "datamap_wf dm"
    using mc(2) al unfolding dm' by (simp add: datamap_wf_def map_wf_update)
  have rec: "recorded_file (ul_shard env) pw f content d p cw (mc_world mc2)"
    unfolding recorded_file_def
  proof (intro conjI exI)
    show "datamap_wf (w_datamap (mc_world mc2))" using wf by (simp add: dm(2))
    show "files (w_datamap (mc_world mc2)) f = Some ?info" by (simp add: dm(2) dm' update_conv)
    show "fst ` set (fi_DistributedFileInfos ?info) = shard_name ?f ` {..<d + p}" by (simp add: dFileMap_keys keys)
  qed (use env(1) input(4,5) enc(1,5) in simp_all)
  have waiting: "\<exists>info. files (w_datamap (mc_world mc2)) f = Some info \<and> fi_Flag info \<and> fi_State info = ''upload'' \<and> fi_FileName info = f
      \<and> (\<forall>(k, df) \<in> set (fi_DistributedFileInfos info). \<not> df_Check df)"
    using infos(3) dFileMap_entries [of _ infos] by (fastforce simp: dm(2) dm' update_conv)
  have others: "\<forall>g. g \<noteq> f \<longrightarrow> files (w_datamap (mc_world mc2)) g = files (w_datamap (mc_world mc)) g"
    using al by (auto simp: dm(2) dm' update_conv files_def)
  have inj: "inj_on CalculateHash (shard_names (set infos))" using names(3) by (simp add: no_collision_def shard_names_def keys)
  have disj: "shard_names (set infos) \<inter> CalculateHash ` shard_names (set infos) = {}"
    unfolding shard_names_def keys using hash_no_shard_name by (metis (no_types, lifting) disjoint_iff imageE)
  have dist: "distinct (map df_DistributedFile infos)" unfolding infos(2) by simp
  note named = createHashNames_ok [OF hs [unfolded out(2)] dist inj disj]
  have files: "w_shards (mc_world mc2) (shard_name ?f i) = None \<and> w_shards (mc_world mc2) (CalculateHash (shard_name ?f i)) = Some (cw ! i)"
    if i: "i < d + p" for i
  proof -
    have "shard_name ?f i \<in> df_DistributedFile ` set infos" unfolding keys using i by simp
    then obtain df where "df \<in> set infos" "df_DistributedFile df = shard_name ?f i" by (elim imageE) simp
    then show ?thesis using named enc(8) i by (auto simp: dm(2))
  qed
  show ?thesis
    by (rule that [of cw])
      (use rec waiting others files infos(2) named out mc1 in \<open>simp_all add: upload_prepared_def dm(2)\<close>)
qed

end
