(* ===== verification/Upload_Outcome.thy ===== *)
theory Upload_Outcome
  imports Upload_Command
begin

text \<open>
  What an upload leaves: when \<open>Dis_Upload\<close> reports success every shard of the file is stored on the remote that the data
  map records for it, and when no call fails the upload succeeds, however its jobs are scheduled.
\<close>

section \<open>What the jobs keep\<close>

text \<open>What is recorded of a file, up to the marks and remotes of its shards and the flag.\<close>

definition kept_record :: "string \<Rightarrow> FileInfo \<Rightarrow> datamap \<Rightarrow> bool" where
  "kept_record f info dm \<longleftrightarrow> datamap_wf dm
     \<and> (\<exists>info'. files dm f = Some info' \<and> map fst (fi_DistributedFileInfos info') = map fst (fi_DistributedFileInfos info)
          \<and> info'\<lparr>fi_Flag := fi_Flag info, fi_DistributedFileInfos := fi_DistributedFileInfos info\<rparr> = info)"

lemma kept_record_refl: "datamap_wf dm \<Longrightarrow> files dm f = Some info \<Longrightarrow> kept_record f info dm"
  by (simp add: kept_record_def)

lemma recorded_file_kept:
  assumes "recorded_file env pw f content d p cw w" "files (w_datamap w) f = Some info" "kept_record f info (w_datamap w')"
  shows "recorded_file env pw f content d p cw w'"
proof -
  obtain info' where info': "files (w_datamap w') f = Some info'" "map fst (fi_DistributedFileInfos info') = map fst (fi_DistributedFileInfos info)"
      "info'\<lparr>fi_Flag := fi_Flag info, fi_DistributedFileInfos := fi_DistributedFileInfos info\<rparr> = info" "datamap_wf (w_datamap w')"
    using assms(3) by (auto simp: kept_record_def)
  have "fi_Shard info' = fi_Shard info" "fi_Parity info' = fi_Parity info" "fi_Padding info' = fi_Padding info"
    using arg_cong [OF info'(3), of fi_Shard] arg_cong [OF info'(3), of fi_Parity] arg_cong [OF info'(3), of fi_Padding] by simp_all
  moreover have "fst ` set (fi_DistributedFileInfos info') = fst ` set (fi_DistributedFileInfos info)"
    using arg_cong [OF info'(2), of set] by simp
  ultimately show ?thesis using assms(1,2) info'(1,4) unfolding recorded_file_def by auto
qed

text \<open>The data map differs in the marks and remotes of the shards of one file only.\<close>

definition only_shards :: "string \<Rightarrow> datamap \<Rightarrow> datamap \<Rightarrow> bool" where
  "only_shards f dm0 dm \<longleftrightarrow> datamap_wf dm \<and> (\<forall>g. g \<noteq> f \<longrightarrow> files dm g = files dm0 g)
     \<and> (\<exists>info info'. files dm0 f = Some info \<and> files dm f = Some info'
          \<and> map fst (fi_DistributedFileInfos info') = map fst (fi_DistributedFileInfos info)
          \<and> info'\<lparr>fi_DistributedFileInfos := fi_DistributedFileInfos info\<rparr> = info)"

lemma only_shards_refl: "datamap_wf dm \<Longrightarrow> files dm f = Some info \<Longrightarrow> only_shards f dm dm"
  by (simp add: only_shards_def)

lemma only_shards_kept: "only_shards f dm0 dm \<Longrightarrow> files dm0 f = Some info \<Longrightarrow> kept_record f info dm"
proof -
  assume "only_shards f dm0 dm" "files dm0 f = Some info"
  then obtain info' where info': "files dm f = Some info'" "map fst (fi_DistributedFileInfos info') = map fst (fi_DistributedFileInfos info)"
      "info'\<lparr>fi_DistributedFileInfos := fi_DistributedFileInfos info\<rparr> = info" "datamap_wf dm"
    by (auto simp: only_shards_def)
  have "info'\<lparr>fi_Flag := fi_Flag info, fi_DistributedFileInfos := fi_DistributedFileInfos info\<rparr> = info"
    using info'(3) by (cases info', cases info) simp
  then show "kept_record f info dm" using info' by (simp add: kept_record_def)
qed

lemma only_shards_mark:
  assumes "only_shards f dm0 dm" "updateDistributedFile Wrote f name (\<lambda>e. Inr (e\<lparr>df_Check := c, df_Remote := r\<rparr>)) dm = (Inr (), dm')"
    and "shard_at dm (f, name) = Some e"
  shows "only_shards f dm0 dm'"
proof -
  let ?upd = "\<lambda>e. Inr (e\<lparr>df_Check := c, df_Remote := r\<rparr>)"
  obtain info info' where info': "files dm0 f = Some info" "files dm f = Some info'"
      "map fst (fi_DistributedFileInfos info') = map fst (fi_DistributedFileInfos info)"
      "info'\<lparr>fi_DistributedFileInfos := fi_DistributedFileInfos info\<rparr> = info" "datamap_wf dm" "\<forall>g. g \<noteq> f \<longrightarrow> files dm g = files dm0 g"
    using assms(1) by (auto simp: only_shards_def)
  have at: "map_of (fi_DistributedFileInfos info') name = Some e" using assms(3) info'(2) by (simp add: shard_at_Some)
  have "datamap_wf (snd (updateDistributedFile Wrote f name ?upd dm))"
    using info'(5) by (rule updateDistributedFile_wf) (auto simp: possible_end_def)
  moreover have "files dm' = (files dm)(f \<mapsto> info'\<lparr>fi_DistributedFileInfos := AList.update name (e\<lparr>df_Check := c, df_Remote := r\<rparr>) (fi_DistributedFileInfos info')\<rparr>)"
    using updateDistributedFile_files [OF info'(2) at, of ?upd] assms(2) by simp
  ultimately show ?thesis
    using assms(2) at info' by (simp add: only_shards_def update_keys_same)
qed

lemma kept_record_reset:
  assumes "kept_record f info dm" "ResetCheckFlag Wrote f dm = (Inr (), dm')"
  shows "kept_record f info dm'"
    "\<exists>info'. files dm' f = Some info' \<and> \<not> fi_Flag info'"
    "shard_at dm' (f, name) = map_option (\<lambda>df. df\<lparr>df_Check := False\<rparr>) (shard_at dm (f, name))"
proof -
  obtain info' where info': "files dm f = Some info'" "map fst (fi_DistributedFileInfos info') = map fst (fi_DistributedFileInfos info)"
      "info'\<lparr>fi_Flag := fi_Flag info, fi_DistributedFileInfos := fi_DistributedFileInfos info\<rparr> = info" "datamap_wf dm"
    using assms(1) by (auto simp: kept_record_def)
  have dm': "files dm' f = Some (reset_info info')" using ResetCheckFlag_files [OF info'(1)] assms(2) by simp
  have "datamap_wf dm'"
    using datamap_step_wf [OF datamap_step.reset info'(4), of Wrote f] assms(2) by (simp add: possible_end_def)
  then show "kept_record f info dm'"
    using dm' info'(2,3) by (simp add: kept_record_def reset_info_def comp_def case_prod_beta)
  show "\<exists>info'. files dm' f = Some info' \<and> \<not> fi_Flag info'" using dm' by (simp add: reset_info_def)
  show "shard_at dm' (f, name) = map_option (\<lambda>df. df\<lparr>df_Check := False\<rparr>) (shard_at dm (f, name))"
    using dm' info'(1) by (simp add: shard_at_def reset_info_def map_of_map)
qed

text \<open>A phase of a job keeps the record of the file unless it ends in an error, and brings no shard file.\<close>

lemma up_work_keeps:
  assumes "up_work calls conf p st p' st'"
    and "0 < us_errs st \<or> us_exit st \<noteq> None \<or> only_shards (uc_file conf) dm0 (w_datamap (us_world st))"
  shows "0 < us_errs st' \<or> us_exit st' \<noteq> None \<or> only_shards (uc_file conf) dm0 (w_datamap (us_world st'))"
    and "w_shards (us_world st) k = None \<Longrightarrow> w_shards (us_world st') k = None"
proof -
  obtain out where out: "up_do conf out p st = (p', st')" "up_over p = None" using assms(1) by (auto simp: up_work_def)
  have mono: "us_errs st \<le> us_errs st' \<and> (us_exit st \<noteq> None \<longrightarrow> us_exit st' \<noteq> None)"
    using up_do_effect [OF out] by (elim conjE) (intro conjI)
  have "(0 < us_errs st' \<or> us_exit st' \<noteq> None \<or>
      (only_shards (uc_file conf) dm0 (w_datamap (us_world st)) \<longrightarrow> only_shards (uc_file conf) dm0 (w_datamap (us_world st'))))
    \<and> (w_shards (us_world st) k = None \<longrightarrow> w_shards (us_world st') k = None)"
  proof (cases p)
    case (UAlloc df)
    then show ?thesis using out(1) by (auto simp: up_allocate_def Let_def split: prod.splits sum.splits if_splits)
  next
    case (UCopy df)
    then show ?thesis using out(1)
      by (auto simp: up_copy_def remoteCallCopy_def Let_def split: option.splits call_end.splits if_splits)
  next
    case (URecord df speed)
    obtain res w where u: "updateRemoteInfo_Up out (uc_file conf) df speed (us_world st) = (res, w)" by fastforce
    have same: "w_shards w = w_shards (us_world st)"
      using u by (auto simp: updateRemoteInfo_Up_def split: prod.splits sum.splits)
    show ?thesis
    proof (cases res)
      case (Inl e)
      then show ?thesis using out(1) u same by (auto simp: URecord up_record_def)
    next
      case (Inr x)
      with u have run: "updateRemoteInfo_Up out (uc_file conf) df speed (us_world st) = (Inr (), w)" by simp
      then obtain e where "shard_at (w_datamap (us_world st)) (uc_file conf, df_DistributedFile df) = Some e"
          "updateDistributedFile Wrote (uc_file conf) (df_DistributedFile df) (\<lambda>e. Inr (e\<lparr>df_Check := True, df_Remote := df_Remote df\<rparr>))
             (w_datamap (us_world st)) = (Inr (), w_datamap w)"
        by (rule updateRemoteInfo_Up_marks)
      then have "only_shards (uc_file conf) dm0 (w_datamap (us_world st)) \<longrightarrow> only_shards (uc_file conf) dm0 (w_datamap w)"
        using only_shards_mark by blast
      then show ?thesis using out(1) run same by (auto simp: URecord up_record_def)
    qed
  next
    case (UErase df)
    then show ?thesis using out(1) by (auto simp: up_erase_def Let_def delete_one)
  qed (use out(2) in simp)
  then show "0 < us_errs st' \<or> us_exit st' \<noteq> None \<or> only_shards (uc_file conf) dm0 (w_datamap (us_world st'))"
    and "w_shards (us_world st) k = None \<Longrightarrow> w_shards (us_world st') k = None"
    using assms(2) mono by auto
qed

lemma upload_pool_keeps:
  assumes "startUploadFileGoroutine_Worker calls conf dfs n st c" "up_result c = Inr ()" "us_exit (p_state c) = None"
    and "only_shards (uc_file conf) dm0 (w_datamap (us_world st))"
  shows "only_shards (uc_file conf) dm0 (w_datamap (us_world (p_state c)))"
    "w_shards (us_world st) k = None \<Longrightarrow> w_shards (us_world (p_state c)) k = None"
proof -
  let ?Q = "\<lambda>s. (0 < us_errs s \<or> us_exit s \<noteq> None \<or> only_shards (uc_file conf) dm0 (w_datamap (us_world s)))
    \<and> (\<forall>k. w_shards (us_world st) k = None \<longrightarrow> w_shards (us_world s) k = None)"
  have "?Q s'" if "up_work calls conf p s p' s'" "?Q s" for p s p' s'
    using up_work_keeps [OF that(1)] that(2) by blast
  then have "?Q (p_state c)"
    using all_jobs [OF assms(1) [unfolded startUploadFileGoroutine_Worker_def], of "\<lambda>_. True" ?Q] assms(4) by blast
  moreover have "us_errs (p_state c) = 0" using assms(2) by (auto simp: up_result_def split: if_splits)
  ultimately show "only_shards (uc_file conf) dm0 (w_datamap (us_world (p_state c)))"
    "w_shards (us_world st) k = None \<Longrightarrow> w_shards (us_world (p_state c)) k = None" using assms(3) by auto
qed

section \<open>What a successful upload leaves\<close>

text \<open>The shards of the file are objects of their remotes, under their hashed names, and no shard file of it is left.\<close>

definition upload_stored :: "shard_env \<Rightarrow> string \<Rightarrow> string \<Rightarrow> bytes \<Rightarrow> nat \<Rightarrow> nat \<Rightarrow> bytes list \<Rightarrow> world \<Rightarrow> bool" where
  "upload_stored env pw f content d p cw w \<longleftrightarrow> recorded_file env pw f content d p cw w
     \<and> (\<exists>info. files (w_datamap w) f = Some info \<and> \<not> fi_Flag info)
     \<and> (\<forall>i < d + p. object_of w f i = Some (cw ! i) \<and> w_shards w (shard_name (f @ fileCryptExtension) i) = None
          \<and> w_shards w (CalculateHash (shard_name (f @ fileCryptExtension) i)) = None)"

text \<open>The same with every copy and removal ending as a script says: the object of a shard is on the remote of its entry exactly when the
  copy took effect, and its shard file is left exactly when it could not be removed. \<open>old\<close> are the objects before the upload.\<close>

definition shard_hash :: "string \<Rightarrow> nat \<Rightarrow> string" where
  "shard_hash f i = CalculateHash (shard_name (f @ fileCryptExtension) i)"

definition shard_outcome :: "up_script \<Rightarrow> cloud \<Rightarrow> string \<Rightarrow> nat \<Rightarrow> bytes \<Rightarrow> world \<Rightarrow> bool" where
  "shard_outcome s old f i shard w \<longleftrightarrow> cs_copy s (shard_hash f i) \<in> {Did, Silent}
     \<and> (\<exists>e. shard_at (w_datamap w) (f, shard_name (f @ fileCryptExtension) i) = Some e \<and> df_DistributedFile e = shard_name (f @ fileCryptExtension) i
          \<and> (\<forall>r. w_cloud w (r, shard_hash f i) =
               (if cs_copy s (shard_hash f i) = Did \<and> r = Remote_Name (df_Remote e) then Some shard else old (r, shard_hash f i))))
     \<and> w_shards w (shard_name (f @ fileCryptExtension) i) = None
     \<and> w_shards w (shard_hash f i) = (if cs_removed s (shard_hash f i) then None else Some shard)"

definition upload_outcome ::
  "up_script \<Rightarrow> cloud \<Rightarrow> shard_env \<Rightarrow> string \<Rightarrow> string \<Rightarrow> bytes \<Rightarrow> nat \<Rightarrow> nat \<Rightarrow> bytes list \<Rightarrow> world \<Rightarrow> bool" where
  "upload_outcome s old env pw f content d p cw w \<longleftrightarrow> recorded_file env pw f content d p cw w
     \<and> (\<exists>info. files (w_datamap w) f = Some info \<and> \<not> fi_Flag info) \<and> (\<forall>i < d + p. shard_outcome s old f i (cw ! i) w)"

lemma shard_outcome_object:
  assumes "shard_outcome s old f i shard w"
  shows "cs_copy s (shard_hash f i) = Did \<Longrightarrow> object_of w f i = Some shard"
    "cs_copy s (shard_hash f i) \<noteq> Did \<Longrightarrow> \<forall>r. old (r, shard_hash f i) = None \<Longrightarrow> object_of w f i = None"
  using assms by (auto simp: shard_outcome_def shard_hash_def object_of_def cloud_object_def object_key_def)

lemma outcome_stored:
  assumes "upload_outcome s old env pw f content d p cw w"
    and "\<forall>i < d + p. cs_copy s (shard_hash f i) = Did \<and> cs_removed s (shard_hash f i)"
  shows "upload_stored env pw f content d p cw w"
proof -
  have out: "shard_outcome s old f i (cw ! i) w" if "i < d + p" for i using assms(1) that by (simp add: upload_outcome_def)
  have "object_of w f i = Some (cw ! i) \<and> w_shards w (shard_name (f @ fileCryptExtension) i) = None
      \<and> w_shards w (CalculateHash (shard_name (f @ fileCryptExtension) i)) = None" if i: "i < d + p" for i
    using shard_outcome_object(1) [OF out [OF i]] out [OF i] assms(2) i by (simp add: shard_outcome_def) (simp add: shard_hash_def)
  then show ?thesis using assms(1) by (simp add: upload_stored_def upload_outcome_def)
qed

text \<open>The file \<open>path\<close> that the argument of an upload names: it is encrypted and decrypted as expected, has the numbers of shards
  \<open>d\<close> and \<open>p\<close>, and no file is recorded under its name yet.\<close>

definition upload_input :: "ul_env \<Rightarrow> string \<Rightarrow> string \<Rightarrow> string \<Rightarrow> string \<Rightarrow> bytes \<Rightarrow> nat \<Rightarrow> nat \<Rightarrow> machine \<Rightarrow> bool" where
  "upload_input env pw arg path f content d p mc \<longleftrightarrow>
     (\<exists>enc cipher. stream_env (ul_shard env) enc d p \<and> 1 < d \<and> d + p \<le> 256
        \<and> lf_file (mc_local mc) path = Some content \<and> shards_num (length content) (lf_data (mc_local mc)) = Some (d, p)
        \<and> se_encrypt (ul_shard env) pw content = Inr cipher \<and> cipher \<noteq> [] \<and> se_decrypt (ul_shard env) pw cipher = Inr content)
     \<and> getAbsolutePath (ul_cwd env) arg = Inr path \<and> path_Base arg = f \<and> path_Base path = f
     \<and> path_Base (path @ fileCryptExtension) = f @ fileCryptExtension \<and> no_collision (f @ fileCryptExtension) (d + p)
     \<and> pe_stat (ul_password env) \<and> pe_read (ul_password env) \<and> mc_password mc = Some pw
     \<and> datamap_wf (w_datamap (mc_world mc)) \<and> readable (w_datamap (mc_world mc)) \<and> files (w_datamap (mc_world mc)) f = None"

lemma ul_begin_prepares:
  assumes "upload_input env pw arg path f content d p mc"
  shows "ul_begin env [arg] False mc =
    (case prepareUpload env path mc of
       (Finished (Inl e), mc) \<Rightarrow> (Finished (Inl e), mc)
     | (Exited code, mc) \<Rightarrow> (Exited code, mc)
     | (Hangs, mc) \<Rightarrow> (Hangs, mc)
     | (Finished (Inr (hashes, dfs)), mc) \<Rightarrow> (Finished (Inr (f, hashes, dfs)), mc))"
proof -
  obtain enc where "stream_env (ul_shard env) enc d p" using assms by (auto simp: upload_input_def)
  then have calm: "calm (ul_shard env)" by (simp add: stream_env_def)
  have ready: "lf_file (mc_local mc) path = Some content" "getAbsolutePath (ul_cwd env) arg = Inr path" "path_Base arg = f"
    "readable (w_datamap (mc_world mc))" "files (w_datamap (mc_world mc)) f = None"
    using assms unfolding upload_input_def by blast+
  have "dis_init (ul_shard env) (ul_cwd env) arg mc = Inr path"
    using ready calm by (simp add: dis_init_def)
  moreover have "remove_duplicate env [arg] f mc = (Finished (Inr ()), mc)"
    using DoesFileStructExist_iff [OF ready(4)] ready(5) by (simp add: remove_duplicate_def)
  ultimately show ?thesis using ready(3) by (simp add: ul_begin_def argument_def)
qed

lemma ul_begin_OK:
  assumes "upload_input env pw arg path f content d p mc" "ul_begin env [arg] False mc = (Finished (Inr (f', hashes, dfs)), mc1)"
  shows "prepareUpload env path mc = (Finished (Inr (hashes, dfs)), mc1)" "f' = f"
proof -
  obtain res mc2 where run: "prepareUpload env path mc = (res, mc2)" by fastforce
  have "res = Finished (Inr (hashes, dfs)) \<and> mc2 = mc1 \<and> f' = f"
    using assms(2) unfolding ul_begin_prepares [OF assms(1)] run split_conv
    by (cases res rule: run_end.exhaust) (simp_all split: sum.splits prod.splits)
  then show "prepareUpload env path mc = (Finished (Inr (hashes, dfs)), mc1)" "f' = f" using run by simp_all
qed

lemma upload_input_prepared:
  assumes "upload_input env pw arg path f content d p mc" "prepareUpload env path mc = (Finished (Inr (hashes, dfs)), mc1)"
  obtains cw where "upload_prepared (ul_shard env) pw f content d p cw (mc_world mc1)"
    "map df_DistributedFile dfs = map (shard_name (f @ fileCryptExtension)) [0..<d + p]"
    "\<forall>df \<in> set dfs. map_of hashes (df_DistributedFile df) = Some (CalculateHash (df_DistributedFile df))"
    "lf_file (mc_local mc1) = (lf_file (mc_local mc))(path @ fileCryptExtension := None)" "mc_password mc1 = mc_password mc"
    "w_lb (mc_world mc1) = w_lb (mc_world mc)" "lf_dirs (mc_local mc1) = insert (se_dir (ul_shard env)) (lf_dirs (mc_local mc))"
    "w_cloud (mc_world mc1) = w_cloud (mc_world mc)" "\<forall>g. g \<noteq> f \<longrightarrow> files (w_datamap (mc_world mc1)) g = files (w_datamap (mc_world mc)) g"
proof -
  obtain enc cipher where input: "stream_env (ul_shard env) enc d p" "1 < d" "d + p \<le> 256" "lf_file (mc_local mc) path = Some content"
      "shards_num (length content) (lf_data (mc_local mc)) = Some (d, p)" "se_encrypt (ul_shard env) pw content = Inr cipher"
      "cipher \<noteq> []" "se_decrypt (ul_shard env) pw cipher = Inr content" "path_Base (path @ fileCryptExtension) = f @ fileCryptExtension"
      "path_Base path = f" "no_collision (f @ fileCryptExtension) (d + p)" "datamap_wf (w_datamap (mc_world mc))"
    using assms(1) unfolding upload_input_def by blast
  have "tryGetPassword (ul_password env) mc = (pw, mc)" using assms(1) by (simp add: upload_input_def tryGetPassword_def)
  from prepareUpload_ok [OF assms(2) input(1-11) this input(12)] show ?thesis using that by blast
qed

text \<open>The jobs of the pool: the shard files under their hashed names.\<close>

lemma prepared_staged:
  assumes "upload_prepared env pw f content d p cw w" "map df_DistributedFile dfs = map (shard_name (f @ fileCryptExtension)) [0..<d + p]"
    and "\<forall>df \<in> set dfs. map_of (uc_hashes conf) (df_DistributedFile df) = Some (CalculateHash (df_DistributedFile df))"
    and "no_collision (f @ fileCryptExtension) (d + p)" "uc_file conf = f"
  shows "distinct (map (hashed conf) dfs)" "\<forall>df \<in> set dfs. staged (\<lambda>h. the (w_shards w h)) conf df w"
proof -
  let ?name = "shard_name (f @ fileCryptExtension)"
  have hashed: "hashed conf df = CalculateHash (df_DistributedFile df)" if "df \<in> set dfs" for df
    using assms(3) that by (simp add: hashed_def)
  then have keys: "map (hashed conf) dfs = map CalculateHash (map ?name [0..<d + p])"
    using assms(2) by (metis (no_types, lifting) map_eq_conv map_map comp_apply)
  have "inj_on CalculateHash (set (map ?name [0..<d + p]))"
    using assms(4) by (simp add: no_collision_def lessThan_atLeast0)
  moreover have "distinct (map ?name [0..<d + p])" by simp
  ultimately show "distinct (map (hashed conf) dfs)" unfolding keys distinct_map [of CalculateHash] by blast
  obtain info where info: "files (w_datamap w) f = Some info" "fst ` set (fi_DistributedFileInfos info) = ?name ` {..<d + p}"
    using assms(1) by (auto simp: upload_prepared_def recorded_file_def)
  show "\<forall>df \<in> set dfs. staged (\<lambda>h. the (w_shards w h)) conf df w"
  proof
    fix df assume df: "df \<in> set dfs"
    then have "df_DistributedFile df \<in> set (map df_DistributedFile dfs)" by simp
    then obtain i where i: "i < d + p" "df_DistributedFile df = ?name i" unfolding assms(2) by auto
    then have "?name i \<in> fst ` set (fi_DistributedFileInfos info)" unfolding info(2) by simp
    then have "shard_at (w_datamap w) (f, ?name i) \<noteq> None"
      using info(1) by (auto simp: shard_at_def map_of_eq_None_iff)
    moreover have "w_shards w (CalculateHash (?name i)) = Some (cw ! i)" using assms(1) i(1) by (simp add: upload_prepared_def)
    ultimately show "staged (\<lambda>h. the (w_shards w h)) conf df w" using hashed [OF df] i(2) assms(5) by (simp add: staged_def)
  qed
qed

lemma shard_at_own_name:
  assumes "datamap_wf dm" "shard_at dm (f, name) = Some e"
  shows "df_DistributedFile e = name"
proof -
  obtain info where info: "files dm f = Some info" "map_of (fi_DistributedFileInfos info) name = Some e"
    using assms(2) by (auto simp: shard_at_Some)
  then obtain m where "readJsonFile dm = Inr m" "map_of m f = Some info" using files_SomeD by blast
  then have "info_wf f info" using datamap_wf_read [OF assms(1)] map_wf_info by blast
  then show ?thesis using info(2) by (auto simp: info_wf_def dest: list_all_map_of)
qed

lemma ul_end_resets:
  assumes "ul_end env arg f res mc = (Inr (), mc')" "kept_record f info (w_datamap (mc_world mc))"
  obtains dm where "res = Inr ()" "ResetCheckFlag Wrote f (w_datamap (mc_world mc)) = (Inr (), dm)"
    "mc' = mc\<lparr>mc_world := (mc_world mc)\<lparr>w_datamap := dm\<rparr>\<rparr>"
proof -
  obtain dm where dm: "ResetCheckFlag (ul_reset env) f (w_datamap (mc_world mc)) = (Inr (), dm)"
      "mc' = mc\<lparr>mc_world := (mc_world mc)\<lparr>w_datamap := dm\<rparr>\<rparr>" "res = Inr ()"
    using assms(1) by (auto simp: ul_end_def on_datamap_def split: sum.splits if_splits prod.splits)
  have "ul_reset env = Wrote"
    using dm(1) by (auto simp: ResetCheckFlag_def writeJsonFile_def Let_def split: sum.splits option.splits write_end.splits)
  then show ?thesis using dm that by simp
qed

lemma upload_finish:
  assumes prepared: "upload_prepared env pw f content d p cw (mc_world mc1)"
      "map df_DistributedFile dfs = map (shard_name (f @ fileCryptExtension)) [0..<d + p]"
      "\<forall>df \<in> set dfs. map_of hashes (df_DistributedFile df) = Some (CalculateHash (df_DistributedFile df))"
    and own: "no_collision (f @ fileCryptExtension) (d + p)"
    and pool: "startUploadFileGoroutine_Worker (Scripted s) (ul_conf uenv lb f hashes) dfs 32 (ul_state mc1) c"
      "p_main c = Returned" "us_exit (p_state c) = None"
    and fin: "ul_end uenv arg f (up_result c) (mc1\<lparr>mc_world := us_world (p_state c)\<rparr>) = (Inr (), mc')"
  shows "upload_outcome s (w_cloud (mc_world mc1)) env pw f content d p cw (mc_world mc') \<and> mc_local mc' = mc_local mc1 \<and> mc_password mc' = mc_password mc1"
proof -
  let ?name = "shard_name (f @ fileCryptExtension)" and ?conf = "ul_conf uenv lb f hashes"
  define w1 w2 where "w1 = mc_world mc1" and "w2 = us_world (p_state c)"
  have conf: "uc_hashes ?conf = hashes" "uc_file ?conf = f" and st: "us_world (ul_state mc1) = w1"
    by (simp_all add: ul_conf_def ul_state_def w1_def)
  have res: "up_result c = Inr ()" using fin by (auto simp: ul_end_def split: sum.splits)
  have rec: "recorded_file env pw f content d p cw w1" using prepared(1) by (simp add: upload_prepared_def w1_def)
  then obtain info where info: "files (w_datamap w1) f = Some info" "datamap_wf (w_datamap w1)"
    unfolding recorded_file_def by blast
  note keeps = upload_pool_keeps [OF pool(1) res pool(3), unfolded conf st, OF only_shards_refl [OF info(2,1)], folded w2_def]
  have kept: "kept_record f info (w_datamap w2)" using only_shards_kept [OF keeps(1) info(1)] .
  then have kept': "kept_record f info (w_datamap (mc_world (mc1\<lparr>mc_world := us_world (p_state c)\<rparr>)))" by (simp add: w2_def)
  obtain dm where dm: "ResetCheckFlag Wrote f (w_datamap w2) = (Inr (), dm)" "mc' = mc1\<lparr>mc_world := w2\<lparr>w_datamap := dm\<rparr>\<rparr>"
    by (rule ul_end_resets [OF fin kept']) (simp add: w2_def)
  note reset = kept_record_reset [OF kept dm(1)]
  note stage = prepared_staged [OF prepared(1,2), of ?conf, unfolded conf, OF prepared(3) own refl, folded w1_def]
  have staged: "\<forall>df \<in> set dfs. staged (\<lambda>h. the (w_shards w1 h)) ?conf df (us_world (ul_state mc1))" using stage(2) unfolding st .
  have none: "w_shards w2 (?name i) = None" if "i < d + p" for i
    using keeps(2) [of "?name i"] prepared(1) that by (simp add: upload_prepared_def w1_def)
  have shard: "shard_outcome s (w_cloud w1) f i (cw ! i) (w2\<lparr>w_datamap := dm\<rparr>)" if i: "i < d + p" for i
  proof -
    have "?name i \<in> set (map df_DistributedFile dfs)" unfolding prepared(2) using i by simp
    then obtain df where df: "df \<in> set dfs" "df_DistributedFile df = ?name i" by auto
    from upload_job_done [OF pool(1) stage(1) staged pool(2) res pool(3) df(1), folded w2_def, unfolded st] obtain df'
      where df': "df_DistributedFile df' = df_DistributedFile df"
        "up_good (Some s) (\<lambda>h. the (w_shards w1 h)) (w_cloud w1) ?conf (UOver df' True) w2" by auto
    have h: "hashed ?conf df' = shard_hash f i"
      using bspec [OF prepared(3) df(1)] df(2) df'(1) by (simp add: hashed_def conf shard_hash_def)
    have name: "df_DistributedFile df' = ?name i" using df(2) df'(1) by simp
    have cw: "w_shards w1 (shard_hash f i) = Some (cw ! i)"
      using prepared(1) i by (simp add: upload_prepared_def w1_def shard_hash_def)
    obtain e where e: "shard_at (w_datamap w2) (f, ?name i) = Some e" "df_Remote e = df_Remote df'"
      using df'(2) by (simp add: recorded_def conf name) blast
    have "df_DistributedFile e = ?name i"
      using kept e(1) by (intro shard_at_own_name) (simp_all add: kept_record_def)
    moreover have "shard_at dm (f, ?name i) = Some (e\<lparr>df_Check := False\<rparr>)" using reset(3) e(1) by simp
    ultimately show ?thesis using df'(2) h cw e(2) none [OF i] by (simp add: shard_outcome_def placed_def file_erased_def)
  qed
  have "recorded_file env pw f content d p cw (w2\<lparr>w_datamap := dm\<rparr>)"
    using recorded_file_kept [OF rec info(1), of "w2\<lparr>w_datamap := dm\<rparr>"] reset(1) by simp
  then show ?thesis using shard reset(2) dm(2) by (simp add: upload_outcome_def w1_def)
qed

section \<open>An upload in which no call fails\<close>

lemma createHashNames_no_error:
  assumes "\<And>name. renamed name" "distinct (map df_DistributedFile dfs)"
    and "shard_names (set dfs) \<inter> CalculateHash ` shard_names (set dfs) = {}" "\<forall>df \<in> set dfs. dir (df_DistributedFile df) \<noteq> None"
  shows "fst (snd (createHashNames renamed dfs dir)) = []"
  using assms(2-)
proof (induction dfs arbitrary: dir)
  case (Cons df dfs)
  let ?n = "df_DistributedFile df" let ?h = "CalculateHash ?n"
  obtain content where "dir ?n = Some content" using Cons.prems(3) by auto
  then have up: "ConvertFileNameForUP (renamed ?n) ?n dir = (Inr ?h, (dir(?n := None))(?h \<mapsto> content))"
    using assms(1) by (simp add: ConvertFileNameForUP_def os_Rename_def Let_def)
  have "((dir(?n := None))(?h \<mapsto> content)) (df_DistributedFile dg) \<noteq> None" if "dg \<in> set dfs" for dg
  proof -
    have "?n \<notin> df_DistributedFile ` set dfs" using Cons.prems(1) by simp
    then have "df_DistributedFile dg \<noteq> ?n" using that by (metis image_eqI)
    then show ?thesis using Cons.prems(3) that by simp
  qed
  moreover have "distinct (map df_DistributedFile dfs)" using Cons.prems(1) by simp
  moreover have "shard_names (set dfs) \<inter> CalculateHash ` shard_names (set dfs) = {}" using Cons.prems(2) by (auto simp: shard_names_def)
  ultimately have "fst (snd (createHashNames renamed dfs ((dir(?n := None))(?h \<mapsto> content)))) = []"
    by (intro Cons.IH ballI)
  then show ?case using up by (auto simp: Let_def split: prod.splits)
qed simp

text \<open>The environment of an upload in which every call succeeds.\<close>

definition smooth_env :: "ul_env \<Rightarrow> bool" where
  "smooth_env env \<longleftrightarrow> (\<forall>r \<in> set (ul_remotes env). ul_mkdir env r = Did) \<and> ul_remotes env \<noteq> [] \<and> (\<forall>name. ul_renamed env name)
     \<and> ul_read env \<and> ul_record env = Wrote \<and> ul_stat env \<and> ul_reset env = Wrote"

lemma MakeDistributionDir_ok:
  assumes "\<forall>r \<in> set remotes. mkdir r = Did"
  shows "MakeDistributionDir mkdir remotes = Finished (Inr ())"
proof -
  have "List.map_filter (\<lambda>r. case mkdir r of Ended code \<Rightarrow> Some code | _ \<Rightarrow> None) remotes = []"
    using assms by (induction remotes) (simp_all add: List.map_filter_simps)
  moreover have "filter (\<lambda>r. mkdir r = CallError) remotes = []" using assms by (simp add: filter_empty_conv)
  ultimately show ?thesis by (simp add: MakeDistributionDir_def)
qed

lemma MakeDataMap_ok:
  assumes "readable dm" "path \<noteq> []"
  shows "\<exists>dm'. MakeDataMap Wrote (Some fsize) (Some bs) path dfs dsize pad shard parity dm = (Inr (), dm')"
  using assms by (cases dm rule: readable_cases) (auto simp: MakeDataMap_def Let_def)

lemma prepareUpload_succeeds:
  assumes "upload_input env pw arg path f content d p mc" "smooth_env env"
  obtains hashes dfs mc1 where "prepareUpload env path mc = (Finished (Inr (hashes, dfs)), mc1)" "length dfs = d + p"
proof -
  let ?f = "f @ fileCryptExtension"
  obtain enc cipher where input: "stream_env (ul_shard env) enc d p" "1 < d" "d + p \<le> 256" "lf_file (mc_local mc) path = Some content"
      "shards_num (length content) (lf_data (mc_local mc)) = Some (d, p)" "se_encrypt (ul_shard env) pw content = Inr cipher" "cipher \<noteq> []"
      "path_Base (path @ fileCryptExtension) = ?f" "readable (w_datamap (mc_world mc))"
    using assms(1) unfolding upload_input_def by blast
  have pw: "tryGetPassword (ul_password env) mc = (pw, mc)" using assms(1) by (simp add: upload_input_def tryGetPassword_def)
  have path: "path \<noteq> []"
  proof
    assume "path = []"
    moreover have "path_Base fileCryptExtension = fileCryptExtension" "path_Base [] = ''.''" by code_simp+
    moreover have "f = path_Base path" using assms(1) by (simp add: upload_input_def)
    ultimately show False using input(8) by simp
  qed
  obtain cw mc1 e where enc: "run_local (DoEncode (ul_shard env) path pw) mc = (shard_end.Returned (Inr e), mc1)"
    "map path_Base (en_paths e) = map (shard_name ?f) [0..<d + p]" "length (en_checksums e) = d + p"
    "\<forall>i < d + p. w_shards (mc_world mc1) (shard_name ?f i) = Some (cw ! i)"
    and mc1: "lf_file (mc_local mc1) = (lf_file (mc_local mc))(path @ fileCryptExtension := None)"
    "w_datamap (mc_world mc1) = w_datamap (mc_world mc)"
    using encode_on_machine [OF input(1-8)] by metis
  obtain infos where infos: "distributed_infos (en_paths e) (en_checksums e) = Inr infos"
      "map df_DistributedFile infos = map (shard_name ?f) [0..<d + p]"
    using distributed_infos_ok [of "en_paths e" "en_checksums e"] enc(2,3) path_Base_nonempty by (metis length_map length_upt minus_nat.diff_0)
  have keys: "shard_names (set infos) = shard_name ?f ` {..<d + p}"
    using arg_cong [OF infos(2), of set] by (simp add: shard_names_def lessThan_atLeast0)
  obtain m errs dir where hs: "createHashNames (ul_renamed env) infos (w_shards (mc_world mc1)) = (m, errs, dir)" by (metis prod_cases3)
  have "errs = []"
  proof -
    have "shard_names (set infos) \<inter> CalculateHash ` shard_names (set infos) = {}"
      unfolding keys using hash_no_shard_name by (metis (no_types, lifting) disjoint_iff imageE)
    moreover have "distinct (map df_DistributedFile infos)" unfolding infos(2) by simp
    moreover have "w_shards (mc_world mc1) (df_DistributedFile df) \<noteq> None" if "df \<in> set infos" for df
    proof -
      have "df_DistributedFile df \<in> shard_name ?f ` {..<d + p}" using that unfolding keys [symmetric] by (simp add: shard_names_def)
      then show ?thesis using enc(4) by auto
    qed
    ultimately have "fst (snd (createHashNames (ul_renamed env) infos (w_shards (mc_world mc1)))) = []"
      using assms(2) by (intro createHashNames_no_error) (auto simp: smooth_env_def)
    then show ?thesis by (simp add: hs)
  qed
  moreover have "MakeDistributionDir (ul_mkdir env) (ul_remotes env) = Finished (Inr ())"
    using assms(2) by (intro MakeDistributionDir_ok) (simp add: smooth_env_def)
  moreover obtain dm where "MakeDataMap Wrote (Some (int (length content))) (Some content) path infos (int (en_size e)) (int (en_padding e))
      (int (en_shard e)) (int (en_parity e)) (w_datamap (mc_world mc)) = (Inr (), dm)"
    using MakeDataMap_ok [OF input(9) path] by blast
  moreover have "\<not> se_fails (ul_shard env) (OsStat path)" using input(1) by (simp add: stream_env_def)
  moreover have "lf_file (mc_local mc1) path = Some content" using mc1(1) input(4) by simp
  ultimately have "\<exists>mc2. prepareUpload env path mc = (Finished (Inr (m, infos)), mc2)"
    using assms(2) mc1(2) unfolding prepareUpload_def pw Let_def split_conv enc(1) shard_end.case sum.case infos(1) hs
    by (simp add: smooth_env_def on_datamap_def)
  then show ?thesis using that arg_cong [OF infos(2), of length] by auto
qed

text \<open>The pool after the preparation: every run returns without an error, and what follows it succeeds as well.\<close>

lemma smooth_pool:
  assumes input: "upload_input env pw arg path f content d p mc" "smooth_env env"
    and counter: "lb_info (lb_json (w_lb (mc_world mc))) = Some i" "0 \<le> RoundRobinCounter i" "RoundRobinCounter i + int (d + p) < 2 ^ 63"
    and prep: "prepareUpload env path mc = (Finished (Inr (hashes, dfs)), mc1)" "quiet s"
    and run: "startUploadFileGoroutine_Worker (QuietCalls s) (ul_conf env RoundRobin f hashes) dfs 32 (ul_state mc1) c"
  shows "us_exit (p_state c) = None"
    "\<nexists>c'. pool_step UAlloc (up_work (QuietCalls s) (ul_conf env RoundRobin f hashes)) up_over up_dead c c' \<Longrightarrow> p_main c = Returned"
    "\<exists>mc'. ul_end env arg f (up_result c) (mc1\<lparr>mc_world := us_world (p_state c)\<rparr>) = (Inr (), mc')"
proof -
  let ?conf = "ul_conf env RoundRobin f hashes"
  obtain cw where cw: "upload_prepared (ul_shard env) pw f content d p cw (mc_world mc1)"
    "map df_DistributedFile dfs = map (shard_name (f @ fileCryptExtension)) [0..<d + p]"
    "\<forall>df \<in> set dfs. map_of hashes (df_DistributedFile df) = Some (CalculateHash (df_DistributedFile df))"
    "lf_file (mc_local mc1) = (lf_file (mc_local mc))(path @ fileCryptExtension := None)" "mc_password mc1 = mc_password mc"
    "w_lb (mc_world mc1) = w_lb (mc_world mc)" "lf_dirs (mc_local mc1) = insert (se_dir (ul_shard env)) (lf_dirs (mc_local mc))"
    "w_cloud (mc_world mc1) = w_cloud (mc_world mc)" "\<forall>g. g \<noteq> f \<longrightarrow> files (w_datamap (mc_world mc1)) g = files (w_datamap (mc_world mc)) g"
    by (rule upload_input_prepared [OF input(1) prep(1)])
  have own: "no_collision (f @ fileCryptExtension) (d + p)" using input(1) by (simp add: upload_input_def)
  have conf: "uc_hashes ?conf = hashes" "uc_file ?conf = f" "uc_lb ?conf = RoundRobin" "uc_remotes ?conf \<noteq> []"
    and st: "us_world (ul_state mc1) = mc_world mc1" "no_failure (ul_state mc1)" "rr_counter (ul_state mc1) = Some (RoundRobinCounter i)"
    using input(2) counter(1) cw(6) by (simp_all add: ul_conf_def smooth_env_def ul_state_def no_failure_def rr_counter_def)
  note stage = prepared_staged [OF cw(1,2), of ?conf, unfolded conf, OF cw(3) own refl]
  have staged: "\<forall>df \<in> set dfs. staged (\<lambda>h. the (w_shards (mc_world mc1) h)) ?conf df (us_world (ul_state mc1))" using stage(2) unfolding st .
  have len: "RoundRobinCounter i + int (length dfs) < 2 ^ 63" using arg_cong [OF cw(2), of length] counter(3) by simp
  note good = smooth_upload [OF run prep(2) conf(3,4) stage(1) staged st(2,3) counter(2) len]
  show "us_exit (p_state c) = None" by (rule good(2))
  show "p_main c = Returned" if "\<nexists>c'. pool_step UAlloc (up_work (QuietCalls s) ?conf) up_over up_dead c c'"
    using good(3) that by simp
  obtain info where info: "files (w_datamap (mc_world mc1)) f = Some info" "datamap_wf (w_datamap (mc_world mc1))"
    using cw(1) unfolding upload_prepared_def recorded_file_def by blast
  note keeps = upload_pool_keeps [OF run good(1,2), unfolded conf st, OF only_shards_refl [OF info(2,1)]]
  then obtain info' where "files (w_datamap (us_world (p_state c))) f = Some info'" by (auto simp: only_shards_def)
  from ResetCheckFlag_files [OF this] obtain dm where "ResetCheckFlag Wrote f (w_datamap (us_world (p_state c))) = (Inr (), dm)"
    by (metis prod.collapse)
  then show "\<exists>mc'. ul_end env arg f (up_result c) (mc1\<lparr>mc_world := us_world (p_state c)\<rparr>) = (Inr (), mc')"
    using good(1) input(2) by (simp add: ul_end_def on_datamap_def smooth_env_def)
qed

lemma upload_returned:
  assumes "upload_input env pw arg path f content d p mc" "prepareUpload env path mc = (Finished (Inr (hashes, dfs)), mc1)"
    and pool: "startUploadFileGoroutine_Worker (Scripted s) (ul_conf env lb f hashes) dfs 32 (ul_state mc1) c"
      "p_main c = Returned" "us_exit (p_state c) = None"
    and fin: "ul_end env arg f (up_result c) (mc1\<lparr>mc_world := us_world (p_state c)\<rparr>) = (Inr (), mc')"
  shows "\<exists>cw. upload_outcome s (w_cloud (mc_world mc)) (ul_shard env) pw f content d p cw (mc_world mc') \<and> mc_password mc' = Some pw \<and>
    lf_file (mc_local mc') = (lf_file (mc_local mc))(path @ fileCryptExtension := None) \<and> lf_dirs (mc_local mc) \<subseteq> lf_dirs (mc_local mc')"
proof -
  have own: "no_collision (f @ fileCryptExtension) (d + p)" "mc_password mc = Some pw" using assms(1) by (simp_all add: upload_input_def)
  obtain cw where cw: "upload_prepared (ul_shard env) pw f content d p cw (mc_world mc1)"
    "map df_DistributedFile dfs = map (shard_name (f @ fileCryptExtension)) [0..<d + p]"
    "\<forall>df \<in> set dfs. map_of hashes (df_DistributedFile df) = Some (CalculateHash (df_DistributedFile df))"
    "lf_file (mc_local mc1) = (lf_file (mc_local mc))(path @ fileCryptExtension := None)" "mc_password mc1 = mc_password mc"
    "w_lb (mc_world mc1) = w_lb (mc_world mc)" "lf_dirs (mc_local mc1) = insert (se_dir (ul_shard env)) (lf_dirs (mc_local mc))"
    "w_cloud (mc_world mc1) = w_cloud (mc_world mc)" "\<forall>g. g \<noteq> f \<longrightarrow> files (w_datamap (mc_world mc1)) g = files (w_datamap (mc_world mc)) g"
    by (rule upload_input_prepared [OF assms(1,2)])
  have "upload_outcome s (w_cloud (mc_world mc1)) (ul_shard env) pw f content d p cw (mc_world mc') \<and> mc_local mc' = mc_local mc1 \<and> mc_password mc' = mc_password mc1"
    by (rule upload_finish [OF cw(1-3) own(1) pool fin])
  then show ?thesis using cw(4,5,7,8) own(2) by auto
qed

lemma upload_success:
  assumes "upload_input env pw arg path f content d p mc"
    and "Dis_Upload (Scripted s) env [arg] False lb mc (Finished (Inr ())) mc'"
  shows "\<exists>cw. upload_outcome s (w_cloud (mc_world mc)) (ul_shard env) pw f content d p cw (mc_world mc') \<and> mc_password mc' = Some pw \<and>
    lf_file (mc_local mc') = (lf_file (mc_local mc))(path @ fileCryptExtension := None) \<and> lf_dirs (mc_local mc) \<subseteq> lf_dirs (mc_local mc')"
  using assms(2)
proof cases
  case (returned f' hashes dfs mc1 c)
  have prep: "prepareUpload env path mc = (Finished (Inr (hashes, dfs)), mc1)" "f' = f"
    using ul_begin_OK [OF assms(1) returned(1)] .
  have fin: "ul_end env arg f (up_result c) (mc1\<lparr>mc_world := us_world (p_state c)\<rparr>) = (Inr (), mc')"
    using returned(5) unfolding prep(2) by simp
  show ?thesis by (rule upload_returned [OF assms(1) prep(1) returned(2-4) [unfolded prep(2)] fin])
qed

lemma quiet_run:
  assumes "upload_input env pw arg path f content d p mc" "smooth_env env"
    and "lb_info (lb_json (w_lb (mc_world mc))) = Some i" "0 \<le> RoundRobinCounter i" "RoundRobinCounter i + int (d + p) < 2 ^ 63" "quiet s"
  shows "\<exists>mc'. Dis_Upload (QuietCalls s) env [arg] False RoundRobin mc (Finished (Inr ())) mc' \<and>
    Dis_Upload (Scripted s) env [arg] False RoundRobin mc (Finished (Inr ())) mc'"
proof -
  obtain hashes dfs mc1 where prep: "prepareUpload env path mc = (Finished (Inr (hashes, dfs)), mc1)"
    by (rule prepareUpload_succeeds [OF assms(1,2)])
  then have start: "ul_begin env [arg] False mc = (Finished (Inr (f, hashes, dfs)), mc1)"
    unfolding ul_begin_prepares [OF assms(1)] by simp
  note pool = smooth_pool [OF assms(1-5) prep assms(6)]
  obtain c where c: "startUploadFileGoroutine_Worker (QuietCalls s) (ul_conf env RoundRobin f hashes) dfs 32 (ul_state mc1) c"
      "\<nexists>c'. pool_step UAlloc (up_work (QuietCalls s) (ul_conf env RoundRobin f hashes)) up_over up_dead c c'"
    unfolding startUploadFileGoroutine_Worker_def using up.final_exists by blast
  obtain mc' where "ul_end env arg f (up_result c) (mc1\<lparr>mc_world := us_world (p_state c)\<rparr>) = (Inr (), mc')" using pool(3) [OF c(1)] by blast
  then show ?thesis
    using Dis_Upload.returned [OF start c(1) pool(2) [OF c] pool(1) [OF c(1)]]
      Dis_Upload.returned [OF start quiet_is_scripted [OF c(1)] pool(2) [OF c] pool(1) [OF c(1)]] by auto
qed

text \<open>C3. What an upload that reports success has done. Take a file with at least two data shards that has not been
  recorded under its name, no two of its shards having the same hashed name, and a script that says for every shard how its copy to
  a remote ends and whether its temporary file can be removed; all other calls may fail, end the process or be scheduled in any way.
  If the upload returns without an error, the file is recorded with the numbers of shards, the padding and the names of the shards of its
  encryption, its flag is reset, and the file itself is untouched. Every copy has taken effect or failed silently (C34): the
  object of a shard is under its hashed name on the remote recorded for it exactly when its copy took effect, and on no other remote; a
  temporary shard file is left exactly when it could not be removed. So everything is stored when no copy failed silently
  and the temporary files could be removed.\<close>

theorem Dis_Upload_complete:
  assumes "upload_input env pw arg path f content d p mc"
    and "Dis_Upload (Scripted s) env [arg] False lb mc (Finished (Inr ())) mc'"
  shows "\<exists>cw. upload_outcome s (w_cloud (mc_world mc)) (ul_shard env) pw f content d p cw (mc_world mc')
    \<and> ((\<forall>i < d + p. cs_copy s (shard_hash f i) = Did \<and> cs_removed s (shard_hash f i)) \<longrightarrow>
         upload_stored (ul_shard env) pw f content d p cw (mc_world mc'))
    \<and> mc_password mc' = Some pw \<and> lf_file (mc_local mc') = (lf_file (mc_local mc))(path @ fileCryptExtension := None)
    \<and> lf_dirs (mc_local mc) \<subseteq> lf_dirs (mc_local mc')"
  using upload_success [OF assms] outcome_stored by blast

text \<open>C5. An upload in which no call fails succeeds. For a file as in the theorem before, at least one configured remote, and a
  round-robin counter that does not overflow during the upload, the upload comes to its end, and however its jobs are scheduled
  it returns without an error, with everything stored.\<close>

theorem Dis_Upload_succeeds:
  assumes "upload_input env pw arg path f content d p mc" "smooth_env env"
    and "lb_info (lb_json (w_lb (mc_world mc))) = Some i" "0 \<le> RoundRobinCounter i" "RoundRobinCounter i + int (d + p) < 2 ^ 63"
  shows "(\<exists>ended mc'. Dis_Upload SmoothCalls env [arg] False RoundRobin mc ended mc') \<and>
    (\<forall>ended mc'. Dis_Upload SmoothCalls env [arg] False RoundRobin mc ended mc' \<longrightarrow>
       ended = Finished (Inr ()) \<and> (\<exists>cw. upload_stored (ul_shard env) pw f content d p cw (mc_world mc')))"
proof -
  obtain hashes dfs mc1 where prep: "prepareUpload env path mc = (Finished (Inr (hashes, dfs)), mc1)"
    by (rule prepareUpload_succeeds [OF assms(1,2)])
  then have start: "ul_begin env [arg] False mc = (Finished (Inr (f, hashes, dfs)), mc1)"
    unfolding ul_begin_prepares [OF assms(1)] by simp
  let ?run = "startUploadFileGoroutine_Worker SmoothCalls (ul_conf env RoundRobin f hashes) dfs 32 (ul_state mc1)"
  note pool = smooth_pool [OF assms prep smooth_is_quiet]
  have fin: "res = Inr () \<and> (\<exists>cw. upload_stored (ul_shard env) pw f content d p cw (mc_world mc'))"
    if c: "?run c" "p_main c = Returned" "ul_end env arg f (up_result c) (mc1\<lparr>mc_world := us_world (p_state c)\<rparr>) = (res, mc')" for c res mc'
  proof -
    have "ul_end env arg f (up_result c) (mc1\<lparr>mc_world := us_world (p_state c)\<rparr>) = (Inr (), mc') \<and> res = Inr ()"
      using pool(3) [OF c(1)] c(3) by simp
    moreover have "\<exists>cw. upload_stored (ul_shard env) pw f content d p cw (mc_world mc')"
      using upload_returned [OF assms(1) prep quiet_is_scripted [OF c(1)] c(2) pool(1) [OF c(1)]] outcome_stored calculation
      by (fastforce simp: smooth_script_def)
    ultimately show ?thesis by blast
  qed
  have "ended = Finished (Inr ()) \<and> (\<exists>cw. upload_stored (ul_shard env) pw f content d p cw (mc_world mc'))"
    if "Dis_Upload SmoothCalls env [arg] False RoundRobin mc ended mc'" for ended mc'
    using that
  proof cases
    case (returned f' hashes' dfs' mc1' c)
    then show ?thesis using start fin [of c] by auto
  next
    case (died f' hashes' dfs' mc1' c code)
    then show ?thesis using start pool(1) [of c] by auto
  next
    case (hangs f' hashes' dfs' mc1' c)
    then show ?thesis using start pool(2) [of c] by auto
  qed (use start in auto)
  then show ?thesis using quiet_run [OF assms smooth_is_quiet] by blast
qed

section \<open>An upload\<close>

text \<open>A file of 10 MiB with two data shards and one parity shard.\<close>

definition sample_content :: bytes where
  "sample_content = replicate (10 * 1024 * 1024) 5"

definition sample_up_machine :: machine where
  "sample_up_machine = \<lparr>mc_world = (sample_world False)\<lparr>w_datamap := NoFile, w_cloud := Map.empty\<rparr>,
     mc_local = sample_local\<lparr>lf_file := [''/home/a'' \<mapsto> sample_content], lf_data := 2, lf_par := 1\<rparr>, mc_password = Some ''pw''\<rparr>"

definition sample_up_env :: ul_env where
  "sample_up_env = \<lparr>ul_shard = sample_shard_env 3, ul_cwd = None,
     ul_password = \<lparr>pe_stat = True, pe_read = True, pe_mkdir = True, pe_rand = (\<lambda>_. None), pe_write = None\<rparr>,
     ul_remotes = [sample_remote], ul_mkdir = (\<lambda>_. Did), ul_renamed = (\<lambda>_. True), ul_read = True, ul_record = Wrote, ul_order = (\<lambda>xs. xs),
     ul_rm = Removal.sample_env (\<lambda>_. Did), ul_stat = True, ul_reset = Wrote\<rparr>"

lemma sample_up_input: "upload_input sample_up_env ''pw'' ''/home/a'' ''/home/a'' ''a'' sample_content 2 1 sample_up_machine"
proof -
  have path: "getAbsolutePath None ''/home/a'' = Inr ''/home/a''" "path_Base ''/home/a'' = ''a''"
    "path_Base (''/home/a'' @ fileCryptExtension) = ''a'' @ fileCryptExtension"
    by code_simp+
  obtain enc where enc: "stream_env (sample_shard_env 3) enc 2 1"
    by (rule stream_envE [of "sample_shard_env 3" 2 1]) (simp_all add: plain_cpu_def)
  have "{..<2 + 1} = {0, 1, 2 :: nat}" by auto
  moreover have "shard_name ''a.fcef'' 2 = ''a.fcef.2''" by (simp add: shard_name_def nat_string.simps digit_def)
  ultimately have col: "no_collision (''a'' @ fileCryptExtension) (2 + 1)"
    using hashes_distinct sample_names by (simp add: no_collision_def)
  have num: "shards_num (length sample_content) 2 = Some (2, 1)"
    by (simp add: shards_num_def sample_content_def minSize_def shards_loop.simps)
  show ?thesis
    unfolding upload_input_def
  proof (intro conjI exI)
    show "stream_env (ul_shard sample_up_env) enc 2 1" using enc by (simp add: sample_up_env_def)
    show "se_encrypt (ul_shard sample_up_env) ''pw'' sample_content = Inr (7 # sample_content)" by (simp add: sample_up_env_def)
    show "datamap_wf (w_datamap (mc_world sample_up_machine))" "readable (w_datamap (mc_world sample_up_machine))"
      "files (w_datamap (mc_world sample_up_machine)) ''a'' = None"
      by (simp_all add: sample_up_machine_def datamap_wf_def readJsonFile_def map_wf_def readable_def files_def)
  qed (use path col num in \<open>simp_all add: sample_up_env_def sample_up_machine_def\<close>)
qed

lemma sample_up_smooth:
  "smooth_env sample_up_env" "lb_info (lb_json (w_lb (mc_world sample_up_machine))) = Some no_lb_info"
  "RoundRobinCounter no_lb_info = 0"
  by (simp_all add: smooth_env_def sample_up_env_def sample_up_machine_def sample_world_def lb_info_def no_lb_info_def)

theorem Dis_Upload_succeeds_witness:
  "\<exists>mc' cw. Dis_Upload SmoothCalls sample_up_env [''/home/a''] False RoundRobin sample_up_machine (Finished (Inr ())) mc'
     \<and> object_of (mc_world mc') ''a'' 2 = Some (cw ! 2)"
proof -
  note run = Dis_Upload_succeeds [OF sample_up_input sample_up_smooth(1,2), unfolded sample_up_smooth(3)]
  obtain ended mc' where "Dis_Upload SmoothCalls sample_up_env [''/home/a''] False RoundRobin sample_up_machine ended mc'"
    using run by auto
  then show ?thesis using run by (fastforce simp: upload_stored_def)
qed

text \<open>The copy of the first shard fails silently.\<close>

definition first_lost :: up_script where
  "first_lost = \<lparr>cs_copy = (\<lambda>h. if h = shard_hash ''a'' 0 then Silent else Did), cs_removed = (\<lambda>_. True)\<rparr>"

lemma first_lost_quiet: "quiet first_lost"
  by (simp add: quiet_def first_lost_def)

lemma sample_hashes: "shard_hash ''a'' i = shard_hash ''a'' 0 \<longleftrightarrow> i = 0" if "i < 3" for i
proof -
  have "shard_name ''a.fcef'' 2 = ''a.fcef.2''" by (simp add: shard_name_def nat_string.simps digit_def)
  then show ?thesis using that hashes_distinct sample_names
    by (auto simp: shard_hash_def numeral_3_eq_3 numeral_2_eq_2 less_Suc_eq)
qed

theorem Dis_Upload_complete_witness:
  "\<exists>mc' cw. Dis_Upload (Scripted first_lost) sample_up_env [''/home/a''] False RoundRobin sample_up_machine (Finished (Inr ())) mc'
     \<and> object_of (mc_world mc') ''a'' 0 = None \<and> object_of (mc_world mc') ''a'' 2 = Some (cw ! 2)"
proof -
  obtain mc' where run: "Dis_Upload (Scripted first_lost) sample_up_env [''/home/a''] False RoundRobin sample_up_machine (Finished (Inr ())) mc'"
    using quiet_run [OF sample_up_input sample_up_smooth(1,2) _ _ first_lost_quiet] sample_up_smooth(3) by auto
  obtain cw where "upload_outcome first_lost (w_cloud (mc_world sample_up_machine)) (ul_shard sample_up_env) ''pw'' ''a'' sample_content 2 1 cw (mc_world mc')"
    using Dis_Upload_complete [OF sample_up_input run] by blast
  then have out: "shard_outcome first_lost (w_cloud (mc_world sample_up_machine)) ''a'' i (cw ! i) (mc_world mc')" if "i < 3" for i
    using that by (simp add: upload_outcome_def)
  have "object_of (mc_world mc') ''a'' 0 = None"
    using shard_outcome_object(2) [OF out [of 0]] by (simp add: first_lost_def sample_up_machine_def)
  moreover have "object_of (mc_world mc') ''a'' 2 = Some (cw ! 2)"
    using shard_outcome_object(1) [OF out [of 2]] sample_hashes [of 2] by (simp add: first_lost_def)
  ultimately show ?thesis using run by blast
qed

end
