(* ===== verification/End_To_End.thy ===== *)
theory End_To_End
  imports Upload_Outcome
begin

text \<open>
  From the command that stores a file to the command that brings it back.
\<close>

section \<open>From upload to download\<close>

text \<open>The objects of a recorded shard, after some objects have been lost.\<close>

lemma object_of_lost:
  assumes "cloud \<subseteq>\<^sub>m w_cloud w" "object_of w f i = Some content"
  shows "object_of (w\<lparr>w_cloud := cloud\<rparr>) f i \<in> {None, Some content}"
proof -
  obtain e where e: "shard_at (w_datamap w) (f, shard_name (f @ fileCryptExtension) i) = Some e" "w_cloud w (object_key e) = Some content"
    using assms(2) by (auto simp: object_of_def cloud_object_def bind_eq_Some_conv)
  have "cloud (object_key e) = None \<or> cloud (object_key e) = w_cloud w (object_key e)"
    using assms(1) unfolding map_le_def by (metis domIff)
  then show ?thesis using e by (auto simp: object_of_def cloud_object_def)
qed

lemma object_of_never:
  assumes "cloud \<subseteq>\<^sub>m w_cloud w" "object_of w f i = None"
  shows "object_of (w\<lparr>w_cloud := cloud\<rparr>) f i = None"
proof -
  have "cloud k = None" if "w_cloud w k = None" for k using assms(1) that unfolding map_le_def by (metis domIff not_None_eq)
  then show ?thesis
    using assms(2) by (cases "shard_at (w_datamap w) (f, shard_name (f @ fileCryptExtension) i)") (simp_all add: object_of_def cloud_object_def)
qed

text \<open>C1. The promise of the layer, from the command that stores a file to the command that brings it back. Take a file that an
  upload has reported as stored, in any schedule and with any strategy, with temporary files that can be removed; copies may have failed
  silently, if no object has the name of their shard. Then let any objects be lost. As long as the remotes keep as many objects of the file as it has data shards, and the calls for these do not fail, a
  download comes to its end, and however it is scheduled it succeeds and leaves the content of the file in the output directory;
  the original file is still where it was.\<close>

theorem uploaded_file_comes_back:
  assumes "upload_input uenv pw arg path f content d p mc"
    and "Dis_Upload (Scripted s) uenv [arg] False lb mc (Finished (Inr ())) mc1"
    and "\<forall>i < d + p. cs_removed s (shard_hash f i) \<and> (cs_copy s (shard_hash f i) = Silent \<longrightarrow> (\<forall>r. w_cloud (mc_world mc) (r, shard_hash f i) = None))"
    and "cloud \<subseteq>\<^sub>m w_cloud (mc_world mc1)" "mc2 = mc1\<lparr>mc_world := (mc_world mc1)\<lparr>w_cloud := cloud\<rparr>\<rparr>"
    and "d \<le> card {i. i < d + p \<and> object_of (mc_world mc2) f i \<noteq> None \<and> shard_name (f @ fileCryptExtension) i \<in> good}"
    and "de_shard denv = ul_shard uenv" "range_order (de_order denv)" "de_flag denv = Wrote" "de_reset denv = Wrote"
    and "pe_stat (de_password denv)" "pe_read (de_password denv)"
    and "getAbsolutePath (de_cwd denv) out = Inr dest" "dest \<in> lf_dirs (mc_local mc)"
  shows "lf_file (mc_local mc2) path = Some content \<and>
    (\<exists>ended mc3. Dis_Download (Some good) denv [f, out] False mc2 ended mc3) \<and>
    (\<forall>ended mc3. Dis_Download (Some good) denv [f, out] False mc2 ended mc3 \<longrightarrow>
       ended = Finished (Inr ()) \<and> lf_file (mc_local mc3) (in_dir dest f) = Some content)"
proof -
  obtain cw where out: "upload_outcome s (w_cloud (mc_world mc)) (ul_shard uenv) pw f content d p cw (mc_world mc1)"
    and cw: "mc_password mc1 = Some pw"
    "lf_file (mc_local mc1) = (lf_file (mc_local mc))(path @ fileCryptExtension := None)" "lf_dirs (mc_local mc) \<subseteq> lf_dirs (mc_local mc1)"
    using upload_success [OF assms(1,2)] by blast
  have f: "path_Base f = f" "d + p \<le> 256" "lf_file (mc_local mc) path = Some content" "no_collision (f @ fileCryptExtension) (d + p)"
    using assms(1) path_Base_idem [of arg] unfolding upload_input_def by auto
  have w2: "mc_world mc2 = (mc_world mc1)\<lparr>w_cloud := cloud\<rparr>" "mc_local mc2 = mc_local mc1" "mc_password mc2 = mc_password mc1"
    using assms(5) by simp_all
  have rec: "recorded_file (de_shard denv) pw f content d p cw (mc_world mc2)"
    using out assms(7) by (simp add: upload_outcome_def recorded_file_def w2(1))
  have shard: "shard_outcome s (w_cloud (mc_world mc)) f i (cw ! i) (mc_world mc1)" if "i < d + p" for i
    using out that by (simp add: upload_outcome_def)
  have lost: "object_of ((mc_world mc1)\<lparr>w_cloud := cloud\<rparr>) f i \<in> {None, Some (cw ! i)}" if i: "i < d + p" for i
  proof (cases "object_of (mc_world mc1) f i")
    case None
    then show ?thesis using object_of_never [OF assms(4)] by blast
  next
    case (Some content)
    have "cs_copy s (shard_hash f i) \<in> {Did, Silent}" using shard [OF i] by (simp add: shard_outcome_def)
    then have "content = cw ! i" using Some shard_outcome_object [OF shard [OF i]] assms(3) i by auto
    then show ?thesis using object_of_lost [OF assms(4) Some] by simp
  qed
  have objects: "\<forall>i < d + p. object_of (mc_world mc2) f i \<in> {None, Some (cw ! i)}"
    using lost unfolding w2(1) by blast
  have shards: "\<forall>i < d + p. w_shards (mc_world mc2) (shard_name (f @ fileCryptExtension) i) \<in> {None, Some [], Some (cw ! i)}"
    "\<forall>i < d + p. w_shards (mc_world mc2) (CalculateHash (shard_name (f @ fileCryptExtension) i)) = None"
    using shard assms(3) by (simp_all add: w2(1) shard_outcome_def) (simp add: shard_hash_def)
  have mc: "mc_password mc2 = Some pw" "dest \<in> lf_dirs (mc_local mc2)" using cw(1,3) assms(14) w2(2,3) by auto
  note down = download_restores [OF rec f(1,2) objects assms(6) f(4) shards assms(8-12) mc(1) assms(13) mc(2)]
  have "lf_file (mc_local mc2) path = Some content" using cw(2) w2(2) f(3) by simp
  then show ?thesis using down by blast
qed

text \<open>The copy of the first of the three shards has failed silently.\<close>

theorem uploaded_file_comes_back_witness:
  "\<exists>mc1 mc3. Dis_Upload (Scripted first_lost) sample_up_env [''/home/a''] False RoundRobin sample_up_machine (Finished (Inr ())) mc1
     \<and> object_of (mc_world mc1) ''a'' 0 = None
     \<and> Dis_Download (Some UNIV) (sample_down_env\<lparr>de_shard := sample_shard_env 3\<rparr>) [''a'', ''/out''] False mc1 (Finished (Inr ())) mc3
     \<and> lf_file (mc_local mc3) ''/out/a'' = Some sample_content"
proof -
  obtain mc1 where run: "Dis_Upload (Scripted first_lost) sample_up_env [''/home/a''] False RoundRobin sample_up_machine (Finished (Inr ())) mc1"
    using quiet_run [OF sample_up_input sample_up_smooth(1,2) _ _ first_lost_quiet] sample_up_smooth(3) by auto
  obtain cw where "upload_outcome first_lost (w_cloud (mc_world sample_up_machine)) (ul_shard sample_up_env) ''pw'' ''a'' sample_content 2 1 cw (mc_world mc1)"
    using upload_success [OF sample_up_input run] by blast
  then have out: "shard_outcome first_lost (w_cloud (mc_world sample_up_machine)) ''a'' i (cw ! i) (mc_world mc1)" if "i < 3" for i
    using that by (simp add: upload_outcome_def)
  let ?denv = "sample_down_env\<lparr>de_shard := sample_shard_env 3\<rparr>"
  have obj: "object_of (mc_world mc1) ''a'' i = (if i = 0 then None else Some (cw ! i))" if "i < 3" for i
    using shard_outcome_object [OF out [OF that]] sample_hashes [OF that] by (cases "i = 0") (simp_all add: first_lost_def sample_up_machine_def)
  have script: "\<forall>i < 2 + 1. cs_removed first_lost (shard_hash ''a'' i) \<and>
      (cs_copy first_lost (shard_hash ''a'' i) = Silent \<longrightarrow> (\<forall>r. w_cloud (mc_world sample_up_machine) (r, shard_hash ''a'' i) = None))"
    by (simp add: first_lost_def sample_up_machine_def)
  have "{i. i < 2 + 1 \<and> object_of (mc_world mc1) ''a'' i \<noteq> None \<and> shard_name (''a'' @ fileCryptExtension) i \<in> UNIV} = {1, 2}"
    using obj by (auto simp: numeral_3_eq_3 numeral_2_eq_2 less_Suc_eq)
  then have many: "2 \<le> card {i. i < 2 + 1 \<and> object_of (mc_world mc1) ''a'' i \<noteq> None \<and> shard_name (''a'' @ fileCryptExtension) i \<in> UNIV}"
    by simp
  have env: "de_shard ?denv = ul_shard sample_up_env" "range_order (de_order ?denv)" "de_flag ?denv = Wrote" "de_reset ?denv = Wrote"
    "pe_stat (de_password ?denv)" "pe_read (de_password ?denv)" "de_cwd ?denv = None" "''/out'' \<in> lf_dirs (mc_local sample_up_machine)"
    by (simp_all add: sample_down_env_def sample_up_env_def range_order_id sample_up_machine_def sample_local_def)
  have path: "getAbsolutePath (de_cwd ?denv) ''/out'' = Inr ''/out''" unfolding env(7) by code_simp
  have same: "mc1 = mc1\<lparr>mc_world := (mc_world mc1)\<lparr>w_cloud := w_cloud (mc_world mc1)\<rparr>\<rparr>" by simp
  note comes = uploaded_file_comes_back [OF sample_up_input run script map_le_refl same many env(1-6) path env(8)]
  obtain ended mc3 where down: "Dis_Download (Some UNIV) ?denv [''a'', ''/out''] False mc1 ended mc3" using comes by blast
  moreover have "ended = Finished (Inr ())" "lf_file (mc_local mc3) (in_dir ''/out'' ''a'') = Some sample_content" using comes down by blast+
  ultimately have "Dis_Download (Some UNIV) ?denv [''a'', ''/out''] False mc1 (Finished (Inr ())) mc3" "lf_file (mc_local mc3) ''/out/a'' = Some sample_content"
    by (simp_all add: in_dir_def)
  moreover have "object_of (mc_world mc1) ''a'' 0 = None" using obj [of 0] by simp
  ultimately show ?thesis using run by blast
qed

end
