(* ===== verification/Status.thy ===== *)
theory Status
  imports End_To_End
begin

text \<open>
  Unfinished work (\<open>fs/dis_operations/dis_status.go\<close>) and the commands that look for it before they start
  (\<open>cmd/dis_upload\<close>, \<open>cmd/dis_download\<close>, \<open>cmd/dis_rm\<close>). A file whose flag is set is unfinished: an earlier process has
  been interrupted. The source sets the answer of the user to \<open>no\<close>, so an interrupted upload or download is dumped.
\<close>

section \<open>Dumping what is unfinished\<close>

record st_env =
  ce_files :: "FilesMap \<Rightarrow> FilesMap"
  ce_order :: shard_order
  ce_removed :: "string \<Rightarrow> bool"
  ce_reset :: "FilesMap write_end"
  ce_rm :: rm_env

definition DumpRmState :: "st_env \<Rightarrow> string list \<Rightarrow> world \<Rightarrow> unit run_end \<times> world" where
  "DumpRmState env args w = Dis_rm (ce_rm env) args True w"

definition DumpUploadShards :: "st_env \<Rightarrow> string list \<Rightarrow> world \<Rightarrow> unit dis_result \<times> world" where
  "DumpUploadShards env args w =
     (case argument args 0 of
        Inl e \<Rightarrow> (Inl e, w)
      | Inr name \<Rightarrow>
     (case GetDistributedFileStruct (ce_order env) name (w_datamap w) of
        Inl e \<Rightarrow> (Inl e, w)
      | Inr distributedFiles \<Rightarrow>
          let shardsToDump = map (\<lambda>df. CalculateHash (df_DistributedFile df)) (filter (\<lambda>df. \<not> df_Check df) distributedFiles)
          in (Inr (), w\<lparr>w_shards := DeleteShardWithFileNames (ce_removed env) shardsToDump (w_shards w)\<rparr>)))"

definition DumpDownloadShards :: "st_env \<Rightarrow> string list \<Rightarrow> world \<Rightarrow> unit dis_result \<times> world" where
  "DumpDownloadShards env args w =
     (case argument args 0 of
        Inl e \<Rightarrow> (Inl e, w)
      | Inr name \<Rightarrow>
     (case GetDistributedFileStruct (ce_order env) name (w_datamap w) of
        Inl e \<Rightarrow> (Inl e, w)
      | Inr distributedFiles \<Rightarrow>
          let shardsToDump = map df_DistributedFile (filter (\<lambda>df. \<not> df_Check df) distributedFiles)
          in (Inr (), w\<lparr>w_shards := DeleteShardWithFileNames (ce_removed env) shardsToDump (w_shards w)\<rparr>)))"

definition DumpDownloadState :: "st_env \<Rightarrow> string list \<Rightarrow> world \<Rightarrow> unit run_end \<times> world" where
  "DumpDownloadState env args w =
     (case DumpDownloadShards env args w of
        (Inl e, w) \<Rightarrow> (Finished (Inl e), w)
      | (Inr _, w) \<Rightarrow> (case on_datamap (ResetCheckFlag (ce_reset env) (args ! 0)) w of (res, w) \<Rightarrow> (Finished res, w)))"

definition DumpUploadState :: "st_env \<Rightarrow> string list \<Rightarrow> world \<Rightarrow> unit run_end \<times> world" where
  "DumpUploadState env args w =
     (case DumpUploadShards env args w of
        (Inl e, w) \<Rightarrow> (Finished (Inl e), w)
      | (Inr _, w) \<Rightarrow> Dis_rm (ce_rm env) args False w)"

definition checkSameCommand :: "string \<Rightarrow> string \<Rightarrow> string list \<Rightarrow> string list \<Rightarrow> bool" where
  "checkSameCommand action reaction args1 args2 =
     (if action \<noteq> reaction then False
      else if length args1 \<noteq> length args2 then False
      else list_all (\<lambda>i. args1 ! i = args2 ! i) [0..<length args1])"

text \<open>The result of \<open>CheckState\<close>: whether the command has just been done, and the error if there is one.\<close>

definition with_same :: "bool \<Rightarrow> unit run_end \<times> world \<Rightarrow> (bool \<times> dis_error option) run_end \<times> world" where
  "with_same same ended =
     (case ended of
        (Finished (Inl e), w) \<Rightarrow> (Finished (Inr (same, Some e)), w)
      | (Finished (Inr _), w) \<Rightarrow> (Finished (Inr (same, None)), w)
      | (Exited code, w) \<Rightarrow> (Exited code, w)
      | (Hangs, w) \<Rightarrow> (Hangs, w))"

definition CheckState :: "st_env \<Rightarrow> string \<Rightarrow> string list \<Rightarrow> world \<Rightarrow> (bool \<times> dis_error option) run_end \<times> world" where
  "CheckState env action args w =
     (let (flag, state, origin_name) = CheckFlagAndState (ce_files env) (w_datamap w)
      in if \<not> flag then (Finished (Inr (False, None)), w)
         else if state = ''upload'' then with_same False (DumpUploadState env [origin_name] w)
         else if state = ''download'' then with_same False (DumpDownloadState env [origin_name] w)
         else if state = ''rm''
         then with_same (checkSameCommand action ''remove'' args [origin_name]) (DumpRmState env [origin_name] w)
         else (Finished (Inr (False, None)), w))"

section \<open>The commands\<close>

text \<open>The bodies of \<open>dis_rm\<close>, \<open>dis_upload\<close> and \<open>dis_download\<close>, up to what the check of the state returns: the end of the
  body, or the operation to go on with. A removal or download that has just been completed is not started a second time;
  an upload goes on in any case.\<close>

definition after_check :: "(bool \<times> dis_error option) run_end \<times> world \<Rightarrow> (unit run_end + bool) \<times> world" where
  "after_check checked =
     (case checked of
        (Exited code, w) \<Rightarrow> (Inl (Exited code), w)
      | (Hangs, w) \<Rightarrow> (Inl Hangs, w)
      | (Finished (Inl e), w) \<Rightarrow> (Inl (Finished (Inl e)), w)
      | (Finished (Inr (same, Some e)), w) \<Rightarrow> (Inl (Finished (Inl e)), w)
      | (Finished (Inr (same, None)), w) \<Rightarrow> (Inr same, w))"

definition dis_rm_body :: "st_env \<Rightarrow> rm_env \<Rightarrow> string list \<Rightarrow> world \<Rightarrow> unit run_end \<times> world" where
  "dis_rm_body env rm args w =
     (case after_check (CheckState env ''remove'' args w) of
        (Inl ended, w) \<Rightarrow> (ended, w)
      | (Inr sameCommand, w) \<Rightarrow> if \<not> sameCommand then Dis_rm rm args False w else (Finished (Inr ()), w))"

inductive dis_upload_body ::
  "upload_calls \<Rightarrow> st_env \<Rightarrow> ul_env \<Rightarrow> string list \<Rightarrow> LoadBalancerType \<Rightarrow> machine \<Rightarrow> unit run_end \<Rightarrow> machine \<Rightarrow> bool"
  for calls env uenv args lb mc where
  invalid: "\<not> IsValid lb \<Longrightarrow> dis_upload_body calls env uenv args lb mc (Finished (Inl (InvalidLoadBalancer lb))) mc"
| ended: "IsValid lb \<Longrightarrow> after_check (CheckState env ''upload'' args (mc_world mc)) = (Inl ended, w) \<Longrightarrow>
    dis_upload_body calls env uenv args lb mc ended (mc\<lparr>mc_world := w\<rparr>)"
| upload: "IsValid lb \<Longrightarrow> after_check (CheckState env ''upload'' args (mc_world mc)) = (Inr same, w) \<Longrightarrow>
    Dis_Upload calls uenv args False lb (mc\<lparr>mc_world := w\<rparr>) ended mc' \<Longrightarrow>
    dis_upload_body calls env uenv args lb mc ended mc'"

inductive dis_download_body ::
  "string set option \<Rightarrow> st_env \<Rightarrow> dn_env \<Rightarrow> string list \<Rightarrow> machine \<Rightarrow> unit run_end \<Rightarrow> machine \<Rightarrow> bool"
  for good env denv args mc where
  ended: "after_check (CheckState env ''download'' args (mc_world mc)) = (Inl ended, w) \<Longrightarrow>
    dis_download_body good env denv args mc ended (mc\<lparr>mc_world := w\<rparr>)"
| same: "after_check (CheckState env ''download'' args (mc_world mc)) = (Inr True, w) \<Longrightarrow>
    dis_download_body good env denv args mc (Finished (Inr ())) (mc\<lparr>mc_world := w\<rparr>)"
| download: "after_check (CheckState env ''download'' args (mc_world mc)) = (Inr False, w) \<Longrightarrow>
    Dis_Download good denv args False (mc\<lparr>mc_world := w\<rparr>) ended mc' \<Longrightarrow>
    dis_download_body good env denv args mc ended mc'"

section \<open>What the check of the state does\<close>

text \<open>A clean environment: every write succeeds, the calls on the remotes take effect, and files can be removed.\<close>

definition clean_env :: "st_env \<Rightarrow> bool" where
  "clean_env env \<longleftrightarrow> range_order (ce_files env) \<and> range_order (ce_order env) \<and> (\<forall>name. ce_removed env name) \<and> ce_reset env = Wrote
     \<and> scheduler (re_sched (ce_rm env)) \<and> range_order (re_order (ce_rm env)) \<and> re_flag (ce_rm env) = Wrote
     \<and> re_reset (ce_rm env) = Wrote \<and> re_remove (ce_rm env) = Wrote
     \<and> (\<forall>d. re_marks (ce_rm env) d = Wrote \<and> re_ends (ce_rm env) d = Did)"

lemma first_flagged_only:
  assumes "\<forall>(g, i) \<in> set al. fi_Flag i \<longrightarrow> g = f" "(f, info) \<in> set al" "fi_Flag info" "distinct (map fst al)"
  shows "first_flagged al = (True, fi_State info, fi_FileName info)"
  using assms
proof (induction al rule: first_flagged.induct)
  case (2 g i rest)
  show ?case
  proof (cases "fi_Flag i")
    case True
    then have "g = f" using "2.prems"(1) by simp
    moreover from this have "f \<notin> fst ` set rest" using "2.prems"(4) by simp
    then have "(f, info) \<notin> set rest" by (metis fst_conv imageI)
    ultimately have "i = info" using "2.prems"(2) by simp
    then show ?thesis using True by simp
  next
    case False
    then show ?thesis using 2 by (auto simp: False)
  qed
qed simp

lemma CheckFlagAndState_only:
  assumes "datamap_wf dm" "range_order ro" "files dm f = Some info" "fi_Flag info" "\<forall>g i. files dm g = Some i \<and> fi_Flag i \<longrightarrow> g = f"
  shows "CheckFlagAndState ro dm = (True, fi_State info, fi_FileName info)"
proof -
  obtain m where m: "readJsonFile dm = Inr m" "files dm = map_of m" "map_of m f = Some info" using files_SomeD [OF assms(3)] by blast
  have dist: "distinct (map fst m)" using datamap_wf_read [OF assms(1) m(1)] by (simp add: map_wf_def)
  note ro = range_orderD [OF assms(2), of m]
  have "distinct (map fst (ro m))" using dist ro(3) by (metis mset_eq_imp_distinct_iff mset_map)
  moreover have "\<forall>(g, i) \<in> set (ro m). fi_Flag i \<longrightarrow> g = f"
    using assms(5) dist ro(1) unfolding m(2) by (auto simp: map_of_eq_Some_iff)
  moreover have "(f, info) \<in> set (ro m)" using m(3) ro(1) by (auto dest: map_of_SomeD)
  ultimately show ?thesis using first_flagged_only [of "ro m" f info] assms(4) m(1) by (simp add: CheckFlagAndState_def)
qed

text \<open>An interrupted upload is undone: the hashed shard files of the shards that are not marked are removed, then the file.\<close>

lemma dump_upload:
  assumes "clean_env env" "datamap_wf (w_datamap w)" "files (w_datamap w) f = Some info" "fi_Flag info" "fi_State info = ''upload''"
    and "fi_FileName info = f" "\<forall>g i. files (w_datamap w) g = Some i \<and> fi_Flag i \<longrightarrow> g = f"
  shows "\<exists>w'. CheckState env action args w = (Finished (Inr (False, None)), w')
     \<and> files (w_datamap w') = (files (w_datamap w))(f := None)
     \<and> (\<forall>k. w_cloud w' k = (if k \<in> file_objects (\<lambda>_. Did) info then None else w_cloud w k))
     \<and> (\<forall>h. w_shards w' h = (if h \<in> {CalculateHash (df_DistributedFile df) | k df. (k, df) \<in> set (fi_DistributedFileInfos info) \<and> \<not> df_Check df}
                               then None else w_shards w h))"
proof -
  let ?dump = "map (\<lambda>df. CalculateHash (df_DistributedFile df)) (filter (\<lambda>df. \<not> df_Check df) (map snd (ce_order env (fi_DistributedFileInfos info))))"
  let ?w = "w\<lparr>w_shards := DeleteShardWithFileNames (ce_removed env) ?dump (w_shards w)\<rparr>"
  have env: "range_order (ce_files env)" "range_order (ce_order env)" "ce_removed env = (\<lambda>_. True)" "scheduler (re_sched (ce_rm env))"
    "range_order (re_order (ce_rm env))" "re_flag (ce_rm env) = Wrote" "re_reset (ce_rm env) = Wrote" "re_remove (ce_rm env) = Wrote"
    "\<forall>d. re_marks (ce_rm env) d = Wrote \<and> re_ends (ce_rm env) d \<in> {Did, Silent}" "re_ends (ce_rm env) = (\<lambda>_. Did)"
    using assms(1) by (auto simp: clean_env_def)
  have state: "CheckFlagAndState (ce_files env) (w_datamap w) = (True, ''upload'', f)"
    using CheckFlagAndState_only [OF assms(2) env(1) assms(3,4,7)] assms(5,6) by simp
  have dump: "DumpUploadShards env [f] w = (Inr (), ?w)"
    using GetDistributedFileStruct_files [OF assms(3), of "ce_order env"] by (simp add: DumpUploadShards_def argument_def)
  obtain w' where w': "Dis_rm (ce_rm env) [f] False ?w = (Finished (Inr ()), w')" "files (w_datamap w') = (files (w_datamap w))(f := None)"
      "\<forall>k. w_cloud w' k = (if k \<in> file_objects (\<lambda>_. Did) info then None else w_cloud w k)" "w_shards w' = w_shards ?w"
    using rm_outcome [of ?w f info "ce_rm env"] assms(2,3) env(4-9) unfolding env(10) by auto
  have "set ?dump = {CalculateHash (df_DistributedFile df) | k df. (k, df) \<in> set (fi_DistributedFileInfos info) \<and> \<not> df_Check df}"
    using range_orderD(1) [OF env(2), of "fi_DistributedFileInfos info"] by force
  then have "w_shards w' h = (if h \<in> {CalculateHash (df_DistributedFile df) | k df. (k, df) \<in> set (fi_DistributedFileInfos info) \<and> \<not> df_Check df}
      then None else w_shards w h)" for h
    unfolding w'(4) env(3) by (simp add: delete_files)
  moreover have "CheckState env action args w = (Finished (Inr (False, None)), w')"
    using state dump w'(1) by (simp add: CheckState_def DumpUploadState_def with_same_def)
  ultimately show ?thesis using w'(2,3) by blast
qed

lemma no_unfinished_work:
  assumes "datamap_wf (w_datamap w)" "range_order (ce_files env)" "\<forall>g i. files (w_datamap w) g = Some i \<longrightarrow> \<not> fi_Flag i"
  shows "CheckState env action args w = (Finished (Inr (False, None)), w)"
proof -
  have none: "\<forall>(g, i) \<in> set al. \<not> fi_Flag i \<Longrightarrow> \<not> fst (first_flagged al)" for al :: "(string \<times> FileInfo) list"
    by (induction al rule: first_flagged.induct) auto
  have "\<not> fst (CheckFlagAndState (ce_files env) (w_datamap w))"
  proof (cases "w_datamap w" rule: readable_cases)
    case (readable m)
    then have "distinct (map fst m)" using datamap_wf_read [OF assms(1)] by (simp add: map_wf_def)
    then have "\<forall>(g, i) \<in> set (ce_files env m). \<not> fi_Flag i"
      using assms(3) range_orderD(1) [OF assms(2), of m] unfolding readable(3) by (auto simp: map_of_eq_Some_iff)
    then show ?thesis using none readable(2) by (simp add: CheckFlagAndState_def)
  qed (simp add: CheckFlagAndState_def)
  then show ?thesis by (auto simp: CheckState_def split: prod.split)
qed


section \<open>An interrupted download\<close>

lemma dump_download:
  assumes "clean_env env" "datamap_wf (w_datamap w)" "files (w_datamap w) f = Some info" "fi_Flag info" "fi_State info = ''download''"
    and "fi_FileName info = f" "\<forall>g i. files (w_datamap w) g = Some i \<and> fi_Flag i \<longrightarrow> g = f"
  shows "\<exists>w'. CheckState env action args w = (Finished (Inr (False, None)), w')
     \<and> files (w_datamap w') = (files (w_datamap w))(f \<mapsto> reset_info info) \<and> w_cloud w' = w_cloud w
     \<and> (\<forall>h. w_shards w' h = (if h \<in> {df_DistributedFile df | k df. (k, df) \<in> set (fi_DistributedFileInfos info) \<and> \<not> df_Check df}
                               then None else w_shards w h))"
proof -
  let ?dump = "map df_DistributedFile (filter (\<lambda>df. \<not> df_Check df) (map snd (ce_order env (fi_DistributedFileInfos info))))"
  let ?w = "w\<lparr>w_shards := DeleteShardWithFileNames (ce_removed env) ?dump (w_shards w)\<rparr>"
  have env: "range_order (ce_files env)" "range_order (ce_order env)" "ce_removed env = (\<lambda>_. True)" "ce_reset env = Wrote"
    using assms(1) by (auto simp: clean_env_def)
  have state: "CheckFlagAndState (ce_files env) (w_datamap w) = (True, ''download'', f)"
    using CheckFlagAndState_only [OF assms(2) env(1) assms(3,4,7)] assms(5,6) by simp
  have dump: "DumpDownloadShards env [f] w = (Inr (), ?w)"
    using GetDistributedFileStruct_files [OF assms(3), of "ce_order env"] by (simp add: DumpDownloadShards_def argument_def)
  obtain dm where dm: "ResetCheckFlag Wrote f (w_datamap w) = (Inr (), dm)" "files dm = (files (w_datamap w))(f \<mapsto> reset_info info)"
    using ResetCheckFlag_files [OF assms(3)] by (metis prod.collapse)
  have "set ?dump = {df_DistributedFile df | k df. (k, df) \<in> set (fi_DistributedFileInfos info) \<and> \<not> df_Check df}"
    using range_orderD(1) [OF env(2), of "fi_DistributedFileInfos info"] by force
  then have "w_shards ?w h = (if h \<in> {df_DistributedFile df | k df. (k, df) \<in> set (fi_DistributedFileInfos info) \<and> \<not> df_Check df}
      then None else w_shards w h)" for h
    unfolding env(3) by (simp add: delete_files)
  moreover have "CheckState env action args w = (Finished (Inr (False, None)), ?w\<lparr>w_datamap := dm\<rparr>)"
    using state dump dm(1) env(4) by (simp add: CheckState_def DumpDownloadState_def with_same_def on_datamap_def)
  ultimately show ?thesis using dm(2) by (intro exI [of _ "?w\<lparr>w_datamap := dm\<rparr>"]) auto
qed

text \<open>C39. What the next command does about an interrupted download. The marks and the flag of the file are reset, no object is
  touched, and the file of a shard is removed from the shard directory when the shard has \<^emph>\<open>not\<close> been marked as arrived. The
  shards that have arrived, for which there is a file, are the ones that stay (the test in \<open>DumpDownloadShards\<close> is the
  one of the upload, where a marked shard is one that is no longer there).\<close>

theorem dumped_download_keeps_arrived:
  assumes "clean_env env" "datamap_wf (w_datamap w)" "files (w_datamap w) f = Some info" "fi_Flag info" "fi_State info = ''download''"
    and "fi_FileName info = f" "\<forall>g i. files (w_datamap w) g = Some i \<and> fi_Flag i \<longrightarrow> g = f"
  shows "\<exists>w'. CheckState env action args w = (Finished (Inr (False, None)), w')
     \<and> files (w_datamap w') = (files (w_datamap w))(f \<mapsto> reset_info info) \<and> w_cloud w' = w_cloud w
     \<and> (\<forall>name df. map_of (fi_DistributedFileInfos info) name = Some df \<longrightarrow> w_shards w' name = (if df_Check df then w_shards w name else None))"
proof -
  let ?gone = "{df_DistributedFile df | k df. (k, df) \<in> set (fi_DistributedFileInfos info) \<and> \<not> df_Check df}"
  obtain w' where w': "CheckState env action args w = (Finished (Inr (False, None)), w')"
      "files (w_datamap w') = (files (w_datamap w))(f \<mapsto> reset_info info)" "w_cloud w' = w_cloud w"
      "\<forall>h. w_shards w' h = (if h \<in> ?gone then None else w_shards w h)"
    using dump_download [OF assms, of action args] by blast
  obtain m where "readJsonFile (w_datamap w) = Inr m" "map_of m f = Some info" using files_SomeD [OF assms(3)] by blast
  then have wf: "info_wf f info" using datamap_wf_read [OF assms(2)] map_wf_info by blast
  then have key: "df_DistributedFile df = k" "map_of (fi_DistributedFileInfos info) k = Some df"
    if "(k, df) \<in> set (fi_DistributedFileInfos info)" for k df
    using that by (auto simp: info_wf_def list_all_iff)
  have "name \<in> ?gone \<longleftrightarrow> \<not> df_Check df" if "map_of (fi_DistributedFileInfos info) name = Some df" for name df
  proof
    assume "name \<in> ?gone"
    then obtain k df' where "(k, df') \<in> set (fi_DistributedFileInfos info)" "\<not> df_Check df'" "name = df_DistributedFile df'" by blast
    then show "\<not> df_Check df" using key [of k df'] that by simp
  next
    assume "\<not> df_Check df"
    then show "name \<in> ?gone" using key(1) map_of_SomeD [OF that] by blast
  qed
  then have "\<forall>name df. map_of (fi_DistributedFileInfos info) name = Some df \<longrightarrow> w_shards w' name = (if df_Check df then w_shards w name else None)"
    unfolding w'(4) [rule_format] by presburger
  then show ?thesis using w'(1-3) by blast
qed


text \<open>The first of two shards has arrived when the download is interrupted.\<close>

definition sample_status_env :: st_env where
  "sample_status_env = \<lparr>ce_files = (\<lambda>xs. xs), ce_order = (\<lambda>xs. xs), ce_removed = (\<lambda>_. True), ce_reset = Wrote,
     ce_rm = Removal.sample_env (\<lambda>_. Did)\<rparr>"

lemma sample_status_clean: "clean_env sample_status_env"
  by (simp add: clean_env_def sample_status_env_def sample_env_def range_order_id scheduler_concat)

definition sample_unfinished :: FileInfo where
  "sample_unfinished = \<lparr>fi_FileName = ''a'', fi_FileSize = 2, fi_DisFileSize = 1, fi_Shard = 1, fi_Parity = 1, fi_Flag = True,
     fi_State = ''download'', fi_Checksum = ''c'', fi_Padding = 0,
     fi_DistributedFileInfos = [(''a.0'', (sample_shard ''a.0'')\<lparr>df_Check := True\<rparr>), (''a.1'', sample_shard ''a.1'')]\<rparr>"

definition sample_unfinished_world :: world where
  "sample_unfinished_world = (sample_world False)\<lparr>w_datamap := Json [(''a'', sample_unfinished)], w_shards := [''a.0'' \<mapsto> [7]]\<rparr>"

theorem dumped_download_keeps_arrived_witness:
  "\<exists>w'. CheckState sample_status_env ''upload'' [''/b''] sample_unfinished_world = (Finished (Inr (False, None)), w')
     \<and> w_shards w' ''a.0'' = Some [7]"
proof -
  have map: "files (w_datamap sample_unfinished_world) = [''a'' \<mapsto> sample_unfinished]"
    by (simp add: sample_unfinished_world_def files_def readJsonFile_def)
  have wf: "datamap_wf (w_datamap sample_unfinished_world)"
    by (simp add: sample_unfinished_world_def datamap_wf_def readJsonFile_def map_wf_def info_wf_def sample_unfinished_def sample_shard_def)
  have info: "files (w_datamap sample_unfinished_world) ''a'' = Some sample_unfinished" "fi_Flag sample_unfinished"
    "fi_State sample_unfinished = ''download''" "fi_FileName sample_unfinished = ''a''"
    "\<forall>g i. files (w_datamap sample_unfinished_world) g = Some i \<and> fi_Flag i \<longrightarrow> g = ''a''"
    "map_of (fi_DistributedFileInfos sample_unfinished) ''a.0'' = Some ((sample_shard ''a.0'')\<lparr>df_Check := True\<rparr>)"
    by (simp_all add: map sample_unfinished_def)
  obtain w' where "CheckState sample_status_env ''upload'' [''/b''] sample_unfinished_world = (Finished (Inr (False, None)), w')"
      "w_shards w' ''a.0'' = w_shards sample_unfinished_world ''a.0''"
    using dumped_download_keeps_arrived [OF sample_status_clean wf info(1-5), of "''upload''" "[''/b'']"] info(6) by auto
  then show ?thesis by (auto simp: sample_unfinished_world_def)
qed

end
