(* ===== verification/Recovery.thy ===== *)
theory Recovery
  imports Status
begin

text \<open>
  An upload that is cut short, and the next command, whose check of the state dumps it (\<open>CheckState\<close> in
  \<open>fs/dis_operations/dis_status.go\<close>). Once the file is recorded and flagged, everything is undone but what a worker had in hand;
  before that (\<open>prepareUpload\<close> up to its call of \<open>MakeDataMap\<close>) nothing is.
\<close>

section \<open>Where the shard of a job is\<close>















section \<open>An upload cut short\<close>













section \<open>An upload cut short before it is recorded\<close>







end
