(* ===== verification/Fs_Errors.thy ===== *)
theory Fs_Errors
  imports Prelude
begin

text \<open>
  \<open>lib/errors\<close> and \<open>fs/fserrors\<close>: how an error of a command is classified. A Go error is a chain of wrapped
  errors, or a tree where several are joined; \<open>Walk\<close> visits it from the outside and the predicates of
  \<open>fs/fserrors\<close> ask for a method on the way. A leaf carries what the code can see of it: a sentinel value
  by which \<open>errors.Is\<close> knows it, its text, its \<open>Timeout\<close> and \<open>Temporary\<close> methods, and the time of a
  retry-after error (0 is the zero time). \<open>nil\<close> is \<open>None\<close>. Unpacking a struct field named \<open>Err\<close> by
  reflection is the same as a wrapper and is not distinguished from it.
\<close>

section \<open>Errors\<close>

datatype sentinel =
    ErrorDirNotFound | ErrorObjectNotFound | ErrorMaxTransferLimitReached | ErrorMaxDurationReached
  | errorCommandNotFound | errorNotEnoughArguments | errorTooManyArguments
  | io_EOF | io_ErrUnexpectedEOF | SyscallRetriable | OtherSentinel

record leaf =
  leaf_is :: sentinel
  leaf_text :: string
  leaf_timeout :: bool
  leaf_temporary :: bool
  leaf_retry :: bool
  leaf_retryAfter :: nat

datatype layer = Fmt string | RetryLayer | FatalLayer | NoRetryLayer | NoLowLevelRetryLayer | CountableLayer bool

datatype go_error = Leaf leaf | Wrap layer go_error | Joined "go_error list"

definition plain :: "string \<Rightarrow> leaf" where
  "plain txt = \<lparr> leaf_is = OtherSentinel, leaf_text = txt, leaf_timeout = False, leaf_temporary = False,
     leaf_retry = False, leaf_retryAfter = 0 \<rparr>"

section \<open>Walking an error\<close>

text \<open>The callback returns whether to stop; stopping inside one of several joined errors does not stop
  the visit of the others.\<close>

fun Walk :: "(go_error \<Rightarrow> 's \<Rightarrow> bool \<times> 's) \<Rightarrow> go_error \<Rightarrow> 's \<Rightarrow> 's" where
  "Walk f (Leaf l) s = snd (f (Leaf l) s)"
| "Walk f (Wrap w e) s = (case f (Wrap w e) s of (True, s) \<Rightarrow> s | (False, s) \<Rightarrow> Walk f e s)"
| "Walk f (Joined es) s = (case f (Joined es) s of (True, s) \<Rightarrow> s | (False, s) \<Rightarrow> fold (Walk f) es s)"

text \<open>The shape of the four predicates: the first error on the way that has the method decides.\<close>

definition ask :: "(go_error \<Rightarrow> bool option) \<Rightarrow> go_error option \<Rightarrow> bool" where
  "ask method err =
     (case err of
        None \<Rightarrow> False
      | Some e \<Rightarrow> Walk (\<lambda>e s. case method e of Some b \<Rightarrow> (True, b) | None \<Rightarrow> (False, s)) e False)"

fun has_Retry :: "go_error \<Rightarrow> bool option" where
  "has_Retry (Wrap RetryLayer _) = Some True"
| "has_Retry (Leaf l) = (if leaf_retry l then Some True else None)"
| "has_Retry _ = None"

definition IsRetryError :: "go_error option \<Rightarrow> bool" where
  "IsRetryError = ask has_Retry"

fun has_Fatal :: "go_error \<Rightarrow> bool option" where
  "has_Fatal (Wrap FatalLayer _) = Some True"
| "has_Fatal _ = None"

definition IsFatalError :: "go_error option \<Rightarrow> bool" where
  "IsFatalError = ask has_Fatal"

fun has_NoRetry :: "go_error \<Rightarrow> bool option" where
  "has_NoRetry (Wrap NoRetryLayer _) = Some True"
| "has_NoRetry _ = None"

definition IsNoRetryError :: "go_error option \<Rightarrow> bool" where
  "IsNoRetryError = ask has_NoRetry"

fun has_NoLowLevelRetry :: "go_error \<Rightarrow> bool option" where
  "has_NoLowLevelRetry (Wrap NoLowLevelRetryLayer _) = Some True"
| "has_NoLowLevelRetry _ = None"

definition IsNoLowLevelRetryError :: "go_error option \<Rightarrow> bool" where
  "IsNoLowLevelRetryError = ask has_NoLowLevelRetry"

section \<open>Making errors\<close>

definition RetryErrorf :: "string \<Rightarrow> go_error" where
  "RetryErrorf txt = Leaf ((plain txt)\<lparr>leaf_retry := True\<rparr>)"

definition RetryError :: "go_error option \<Rightarrow> go_error" where
  "RetryError err = Wrap RetryLayer (case err of None \<Rightarrow> Leaf (plain ''needs retry'') | Some e \<Rightarrow> e)"

definition FatalError :: "go_error option \<Rightarrow> go_error" where
  "FatalError err = Wrap FatalLayer (case err of None \<Rightarrow> Leaf (plain ''fatal error'') | Some e \<Rightarrow> e)"

definition NoRetryError :: "go_error \<Rightarrow> go_error" where
  "NoRetryError err = Wrap NoRetryLayer err"

definition NoLowLevelRetryError :: "go_error \<Rightarrow> go_error" where
  "NoLowLevelRetryError err = Wrap NoLowLevelRetryLayer err"

definition RetryAfterErrorTime :: "go_error option \<Rightarrow> nat" where
  "RetryAfterErrorTime err =
     (case err of
        None \<Rightarrow> 0
      | Some e \<Rightarrow> Walk (\<lambda>e s. case e of
            Leaf l \<Rightarrow> if leaf_retryAfter l \<noteq> 0 then (True, leaf_retryAfter l) else (False, s)
          | _ \<Rightarrow> (False, s)) e 0)"

definition IsRetryAfterError :: "go_error option \<Rightarrow> bool" where
  "IsRetryAfterError err \<longleftrightarrow> RetryAfterErrorTime err \<noteq> 0"

text \<open>A countable error remembers that it has been counted. The wrapper is a pointer in the source, made
  and counted by the same function, so counting is the wrapper with the flag set.\<close>

definition IsCounted :: "go_error \<Rightarrow> bool" where
  "IsCounted err = (case err of Wrap (CountableLayer counted) _ \<Rightarrow> counted | _ \<Rightarrow> False)"

definition Count :: "go_error \<Rightarrow> go_error" where
  "Count err = (case err of Wrap (CountableLayer _) e \<Rightarrow> Wrap (CountableLayer True) e | _ \<Rightarrow> err)"

definition FsError :: "go_error option \<Rightarrow> go_error" where
  "FsError err = Wrap (CountableLayer False) (case err of None \<Rightarrow> Leaf (plain ''countable error'') | Some e \<Rightarrow> e)"

section \<open>Causes and retries\<close>

definition Cause :: "go_error \<Rightarrow> bool \<times> go_error" where
  "Cause cause =
     Walk (\<lambda>c (retriable, _). (False, (case c of
         Leaf l \<Rightarrow> retriable \<or> leaf_timeout l \<or> leaf_temporary l
       | _ \<Rightarrow> retriable), c)) cause (False, cause)"

definition retriableErrorStrings :: "string list" where
  "retriableErrorStrings =
     [''use of closed network connection'', ''unexpected EOF reading trailer'', ''transport connection broken'',
      ''http: ContentLength='', ''server closed idle connection'', ''bad record MAC'', ''stream error:'',
      ''tls: use of closed connection'']"

definition retriableErrors :: "sentinel list" where
  "retriableErrors = [io_EOF, io_ErrUnexpectedEOF, SyscallRetriable]"

fun contains :: "string \<Rightarrow> string \<Rightarrow> bool" where
  "contains [] phrase = (phrase = [])"
| "contains (c # s) phrase = (take (length phrase) (c # s) = phrase \<or> contains s phrase)"

text \<open>The text of an error: a formatting layer puts its text before that of the error it wraps, the other
  layers show the text of what they wrap, joined errors one line each.\<close>

fun Error_text :: "go_error \<Rightarrow> string" where
  "Error_text (Leaf l) = leaf_text l"
| "Error_text (Wrap (Fmt txt) e) = txt @ Error_text e"
| "Error_text (Wrap _ e) = Error_text e"
| "Error_text (Joined es) = concat (map (\<lambda>e. Error_text e @ [CHR 0x0a]) es)"

definition ShouldRetry :: "go_error option \<Rightarrow> bool" where
  "ShouldRetry err =
     (case err of
        None \<Rightarrow> False
      | Some e \<Rightarrow>
          if IsNoLowLevelRetryError (Some e) then False
          else let (retriable, cause) = Cause e
               in if retriable then True
                  else if (case cause of Leaf l \<Rightarrow> leaf_is l \<in> set retriableErrors | _ \<Rightarrow> False) then True
                  else list_ex (contains (Error_text cause)) retriableErrorStrings)"

text \<open>\<open>errors.Is\<close> for a sentinel value.\<close>

fun errors_Is :: "go_error \<Rightarrow> sentinel \<Rightarrow> bool" where
  "errors_Is (Leaf l) s = (leaf_is l = s)"
| "errors_Is (Wrap _ e) s = errors_Is e s"
| "errors_Is (Joined es) s = list_ex (\<lambda>e. errors_Is e s) es"

definition ShouldRetryHTTP :: "int option \<Rightarrow> int list \<Rightarrow> bool" where
  "ShouldRetryHTTP statusCode retryErrorCodes =
     (case statusCode of None \<Rightarrow> False | Some code \<Rightarrow> list_ex (\<lambda>e. code = e) retryErrorCodes)"

definition ContextError :: "go_error option \<Rightarrow> go_error option \<Rightarrow> bool \<times> go_error option" where
  "ContextError ctxErr perr =
     (case ctxErr of
        None \<Rightarrow> (False, perr)
      | Some e \<Rightarrow> (True, if perr = None then Some e else perr))"

section \<open>Facts\<close>

text \<open>The layers of an error, and what the predicates say of them.\<close>

fun layers :: "go_error \<Rightarrow> layer set" where
  "layers (Leaf _) = {}"
| "layers (Wrap w e) = insert w (layers e)"
| "layers (Joined es) = \<Union> (set (map layers es))"

definition sets_true :: "(go_error \<Rightarrow> bool option) \<Rightarrow> go_error \<Rightarrow> bool \<Rightarrow> bool \<times> bool" where
  "sets_true method e s = (case method e of Some b \<Rightarrow> (True, b) | None \<Rightarrow> (False, s))"

lemma walk_layer:
  assumes "\<And>e. method e = (if \<exists>e'. e = Wrap w e' then Some True else None)"
  shows "Walk (sets_true method) err s \<longleftrightarrow> s \<or> w \<in> layers err"
proof (induction err arbitrary: s)
  case (Leaf l)
  then show ?case by (simp add: sets_true_def assms)
next
  case (Wrap v e)
  then show ?case by (cases "v = w") (simp_all add: sets_true_def assms)
next
  case (Joined es)
  have "fold (Walk (sets_true method)) es s \<longleftrightarrow> s \<or> (\<exists>e \<in> set es. w \<in> layers e)"
    using Joined by (induction es arbitrary: s) auto
  moreover have "sets_true method (Joined es) s = (False, s)" by (simp add: sets_true_def assms)
  ultimately show ?case by simp
qed

lemma ask_layer:
  assumes "\<And>e. method e = (if \<exists>e'. e = Wrap w e' then Some True else None)"
  shows "ask method err \<longleftrightarrow> (\<exists>e. err = Some e \<and> w \<in> layers e)"
  using walk_layer [OF assms, of _ False]
  by (cases err) (simp_all add: ask_def sets_true_def [abs_def])

lemma has_layer:
  "has_Fatal e = (if \<exists>e'. e = Wrap FatalLayer e' then Some True else None)"
  "has_NoRetry e = (if \<exists>e'. e = Wrap NoRetryLayer e' then Some True else None)"
  "has_NoLowLevelRetry e = (if \<exists>e'. e = Wrap NoLowLevelRetryLayer e' then Some True else None)"
  subgoal by (cases e rule: has_Fatal.cases) simp_all
  subgoal by (cases e rule: has_NoRetry.cases) simp_all
  subgoal by (cases e rule: has_NoLowLevelRetry.cases) simp_all
  done

lemmas IsFatalError_layer = ask_layer [OF has_layer(1), folded IsFatalError_def]
lemmas IsNoRetryError_layer = ask_layer [OF has_layer(2), folded IsNoRetryError_def]
lemmas IsNoLowLevelRetryError_layer = ask_layer [OF has_layer(3), folded IsNoLowLevelRetryError_def]

text \<open>However deep an error is wrapped, or joined with others, it is fatal, not to be retried, or not to be
  retried at a low level exactly when one of its layers says so; making an error fatal, adding text
  to it or counting it changes none of the other answers.\<close>

theorem classification_by_layers:
  "(IsFatalError (Some e) \<longleftrightarrow> FatalLayer \<in> layers e)
   \<and> (IsNoRetryError (Some e) \<longleftrightarrow> NoRetryLayer \<in> layers e)
   \<and> (IsNoLowLevelRetryError (Some e) \<longleftrightarrow> NoLowLevelRetryLayer \<in> layers e)
   \<and> IsFatalError (Some (FatalError (Some e))) \<and> IsNoRetryError (Some (NoRetryError e))
   \<and> (IsNoRetryError (Some (FatalError (Some e))) \<longleftrightarrow> IsNoRetryError (Some e))
   \<and> (IsFatalError (Some (Count (FsError (Some e)))) \<longleftrightarrow> IsFatalError (Some e))
   \<and> IsCounted (Count (FsError (Some e)))
   \<and> (\<forall>s. errors_Is (Count (FsError (Some e))) s \<longleftrightarrow> errors_Is e s)"
  by (simp add: IsFatalError_layer IsNoRetryError_layer IsNoLowLevelRetryError_layer FatalError_def NoRetryError_def
      Count_def FsError_def IsCounted_def)

end
