(* ===== verification/Commands.thy ===== *)
theory Commands
  imports Fs_Errors
begin

text \<open>
  How a command runs and ends: \<open>RunWithSustainOS\<close> and \<open>resolveExitCode\<close> of \<open>cmd/cmd.go\<close>, over the error
  statistics of \<open>fs/accounting/stats.go\<close>. The distributed layer runs copies, deletions and directory
  creations on remotes as such commands, inside its own process, with \<open>sustainOS\<close> set.
  A command body takes the statistics and a world and may count errors of its own; the statistics are
  global, so they carry over from command to command. Progress output, logging, sleeping before a
  retry and the dump options are not modelled.
\<close>

section \<open>Error statistics\<close>

record StatsInfo =
  si_errors :: int
  si_lastError :: "go_error option"
  si_fatalError :: bool
  si_retryError :: bool
  si_retryAfter :: nat
  si_transfers :: int

definition stats_Errors :: "int \<Rightarrow> StatsInfo \<Rightarrow> StatsInfo" where
  "stats_Errors n s = s\<lparr>si_errors := si_errors s + n\<rparr>"

definition Errored :: "StatsInfo \<Rightarrow> bool" where
  "Errored s \<longleftrightarrow> si_errors s \<noteq> 0"

definition ResetErrors :: "StatsInfo \<Rightarrow> StatsInfo" where
  "ResetErrors s = s\<lparr>si_errors := 0, si_lastError := None, si_fatalError := False, si_retryError := False, si_retryAfter := 0\<rparr>"

definition stats_Error :: "go_error option \<Rightarrow> StatsInfo \<Rightarrow> go_error option \<times> StatsInfo" where
  "stats_Error err s =
     (case err of
        None \<Rightarrow> (None, s)
      | Some e \<Rightarrow>
          if IsCounted e then (Some e, s)
          else let s = s\<lparr>si_errors := si_errors s + 1, si_lastError := Some e\<rparr>;
                   counted = Count (FsError (Some e));
                   s = (if IsFatalError (Some counted) then s\<lparr>si_fatalError := True\<rparr>
                        else if IsRetryAfterError (Some counted)
                        then (let retryAfter = RetryAfterErrorTime (Some counted);
                                  s = (if si_retryAfter s = 0 \<or> si_retryAfter s < retryAfter
                                       then s\<lparr>si_retryAfter := retryAfter\<rparr> else s)
                              in s\<lparr>si_retryError := True\<rparr>)
                        else if \<not> IsNoRetryError (Some counted) then s\<lparr>si_retryError := True\<rparr>
                        else s)
               in (Some counted, s))"

section \<open>Exit codes\<close>

definition exit_Success :: nat where "exit_Success = 0"
definition exit_UncategorizedError :: nat where "exit_UncategorizedError = 1"
definition exit_UsageError :: nat where "exit_UsageError = 2"
definition exit_DirNotFound :: nat where "exit_DirNotFound = 3"
definition exit_FileNotFound :: nat where "exit_FileNotFound = 4"
definition exit_RetryError :: nat where "exit_RetryError = 5"
definition exit_NoRetryError :: nat where "exit_NoRetryError = 6"
definition exit_FatalError :: nat where "exit_FatalError = 7"
definition exit_TransferExceeded :: nat where "exit_TransferExceeded = 8"
definition exit_NoFilesTransferred :: nat where "exit_NoFilesTransferred = 9"
definition exit_DurationExceeded :: nat where "exit_DurationExceeded = 10"

text \<open>A command hands control back to its caller or ends the process with a code.\<close>

datatype cmd_end = Returns | Exits nat

definition resolveExitCode :: "bool \<Rightarrow> StatsInfo \<Rightarrow> go_error option \<Rightarrow> bool \<Rightarrow> cmd_end" where
  "resolveExitCode errorOnNoTransfer s err sustainIfNilError =
     (if err = None \<and> \<not> sustainIfNilError
      then (if errorOnNoTransfer \<and> si_transfers s = 0 then Exits exit_NoFilesTransferred else Exits exit_Success)
      else let is = (\<lambda>x. case err of None \<Rightarrow> False | Some e \<Rightarrow> errors_Is e x)
      in if is ErrorDirNotFound then Exits exit_DirNotFound
      else if is ErrorObjectNotFound then Exits exit_FileNotFound
      else if is ErrorMaxTransferLimitReached then Exits exit_TransferExceeded
      else if is ErrorMaxDurationReached then Exits exit_DurationExceeded
      else if ShouldRetry err then Exits exit_RetryError
      else if IsNoRetryError err \<or> IsNoLowLevelRetryError err then Exits exit_NoRetryError
      else if IsFatalError err then Exits exit_FatalError
      else if is errorCommandNotFound \<or> is errorNotEnoughArguments \<or> is errorTooManyArguments then Exits exit_UsageError
      else if err = None \<and> \<not> sustainIfNilError then Exits exit_UncategorizedError
      else Returns)"

section \<open>Running a command\<close>

type_synonym 'w command = "StatsInfo \<Rightarrow> 'w \<Rightarrow> go_error option \<times> StatsInfo \<times> 'w"

text \<open>The loop over the tries: \<open>left\<close> tries remain; the error is the one of the last try.\<close>

fun run_tries :: "bool \<Rightarrow> 'w command \<Rightarrow> nat \<Rightarrow> go_error option \<Rightarrow> StatsInfo \<Rightarrow> 'w \<Rightarrow> go_error option \<times> StatsInfo \<times> 'w" where
  "run_tries Retry f 0 cmdErr s w = (cmdErr, s, w)"
| "run_tries Retry f (Suc left) cmdErr s w =
     (let (err, s, w) = f s w;
          (cmdErr, s) = stats_Error err s;
          lastErr = si_lastError s;
          cmdErr = (if cmdErr = None then lastErr else cmdErr)
      in if \<not> Retry \<or> \<not> Errored s then (cmdErr, s, w)
         else if si_fatalError s then (cmdErr, s, w)
         else if Errored s \<and> \<not> si_retryError s then (cmdErr, s, w)
         else run_tries Retry f left cmdErr (if left = 0 then s else ResetErrors s) w)"

text \<open>\<open>retries\<close> is the number of tries the configuration asks for.\<close>

definition RunWithSustainOS ::
  "bool \<Rightarrow> nat \<Rightarrow> bool \<Rightarrow> 'w command \<Rightarrow> bool \<Rightarrow> StatsInfo \<Rightarrow> 'w \<Rightarrow> cmd_end \<times> StatsInfo \<times> 'w" where
  "RunWithSustainOS errorOnNoTransfer retries Retry f sustainOS s w =
     (let (cmdErr, s, w) = run_tries Retry f retries None s w;
          cmdErr = (if cmdErr = None then si_lastError s else cmdErr)
      in (resolveExitCode errorOnNoTransfer s cmdErr sustainOS, s, w))"

definition Run :: "bool \<Rightarrow> nat \<Rightarrow> bool \<Rightarrow> 'w command \<Rightarrow> StatsInfo \<Rightarrow> 'w \<Rightarrow> cmd_end \<times> StatsInfo \<times> 'w" where
  "Run errorOnNoTransfer retries Retry f = RunWithSustainOS errorOnNoTransfer retries Retry f False"

definition CheckArgs :: "nat \<Rightarrow> nat \<Rightarrow> StatsInfo \<Rightarrow> string list \<Rightarrow> cmd_end" where
  "CheckArgs MinArgs MaxArgs s args =
     (let usage = (\<lambda>x. Some (Leaf ((plain '''')\<lparr>leaf_is := x\<rparr>)))
      in if length args < MinArgs then resolveExitCode False s (usage errorNotEnoughArguments) False
         else if MaxArgs < length args then resolveExitCode False s (usage errorTooManyArguments) False
         else Returns)"

section \<open>How commands end\<close>

text \<open>The errors to which \<open>resolveExitCode\<close> gives an exit code.\<close>

definition categorised :: "go_error \<Rightarrow> bool" where
  "categorised e \<longleftrightarrow>
     list_ex (errors_Is e) [ErrorDirNotFound, ErrorObjectNotFound, ErrorMaxTransferLimitReached, ErrorMaxDurationReached,
       errorCommandNotFound, errorNotEnoughArguments, errorTooManyArguments]
     \<or> ShouldRetry (Some e) \<or> IsNoRetryError (Some e) \<or> IsNoLowLevelRetryError (Some e) \<or> IsFatalError (Some e)"

lemma ask_None [simp]: "ask method None = False"
  by (simp add: ask_def)

lemma nil_uncategorised [simp]:
  "\<not> ShouldRetry None" "\<not> IsNoRetryError None" "\<not> IsNoLowLevelRetryError None" "\<not> IsFatalError None"
  by (simp_all add: ShouldRetry_def IsNoRetryError_def IsNoLowLevelRetryError_def IsFatalError_def)

lemma resolveExitCode_sustained:
  "resolveExitCode ent s err True = Returns \<longleftrightarrow> (case err of None \<Rightarrow> True | Some e \<Rightarrow> \<not> categorised e)"
  by (cases err) (auto simp: resolveExitCode_def categorised_def Let_def)

lemma resolveExitCode_uncategorised:
  "\<not> categorised e \<Longrightarrow> resolveExitCode ent s (Some e) sustain = Returns"
  by (auto simp: resolveExitCode_def categorised_def Let_def)

text \<open>A count of the calls of a command body.\<close>

definition counting :: "'w command \<Rightarrow> (nat \<times> 'w) command" where
  "counting f s w = (case f s (snd w) of (err, s, w') \<Rightarrow> (err, s, fst w + 1, w'))"

lemma counting_tries:
  "(case run_tries Retry (counting f) n c s (k, w) of (err, s', k', w') \<Rightarrow> k' \<le> k + n \<and> run_tries Retry f n c s w = (err, s', w'))"
proof (induction n arbitrary: c s k w)
  case (Suc n)
  obtain err s1 w1 where f: "f s w = (err, s1, w1)" by (metis prod_cases3)
  obtain cmdErr s2 where e: "stats_Error err s1 = (cmdErr, s2)" by fastforce
  let ?c = "if cmdErr = None then si_lastError s2 else cmdErr" and ?s = "if n = 0 then s2 else ResetErrors s2"
  show ?case
    using Suc [where c = ?c and s = ?s and k = "k + 1" and w = w1] by (auto simp: counting_def f e Let_def split: prod.splits)
qed simp

lemma counting_clean:
  assumes "f s w = (None, s', w')" "si_errors s' = 0" "0 < n"
  shows "run_tries Retry (counting f) n c s (k, w) = (si_lastError s', s', k + 1, w')"
proof -
  obtain m where "n = Suc m" using assms(3) by (cases n) auto
  then show ?thesis using assms(1,2) by (simp add: counting_def stats_Error_def Errored_def)
qed

text \<open>A command body is called at most as often as the configuration allows tries, and not again after a
  call that leaves no error behind; counting the calls does not change what the command does.\<close>

theorem tries_bounded:
  "(case RunWithSustainOS ent retries Retry (counting f) sustain s (0, w) of
      (ended, s', n, w') \<Rightarrow> n \<le> retries \<and> RunWithSustainOS ent retries Retry f sustain s w = (ended, s', w')
        \<and> (\<forall>s1 w1. f s w = (None, s1, w1) \<and> si_errors s1 = 0 \<and> 0 < retries \<longrightarrow> n = 1 \<and> w' = w1))"
proof -
  obtain err s' n w' where run: "run_tries Retry (counting f) retries None s (0, w) = (err, s', n, w')"
    by (metis prod_cases4)
  then have "n \<le> retries" "run_tries Retry f retries None s w = (err, s', w')"
    using counting_tries [where Retry = Retry and f = f and n = retries and c = None and s = s and k = 0 and w = w] by auto
  moreover have "n = 1 \<and> w' = w1" if "f s w = (None, s1, w1)" "si_errors s1 = 0" "0 < retries" for s1 w1
    using counting_clean [where f = f and s = s and w = w and s' = s1 and w' = w1 and n = retries and Retry = Retry and c = None and k = 0]
      that run by simp
  ultimately show ?thesis using run by (auto simp: RunWithSustainOS_def)
qed

theorem tries_bounded_witness:
  "(case RunWithSustainOS False 3 True (counting (\<lambda>s w. (Some (Leaf (plain ''x'')), s, w))) True
       \<lparr>si_errors = 0, si_lastError = None, si_fatalError = False, si_retryError = False, si_retryAfter = 0, si_transfers = 0\<rparr> (0, ())
     of (ended, s', n, w') \<Rightarrow> n \<le> 3)"
proof -
  let ?s = "\<lparr>si_errors = 0, si_lastError = None, si_fatalError = False, si_retryError = False, si_retryAfter = 0, si_transfers = 0\<rparr>"
  show ?thesis
    using tries_bounded [where ent = False and retries = 3 and Retry = True and sustain = True and w = "()" and s = ?s
        and f = "\<lambda>s w. (Some (Leaf (plain ''x'')), s, w)"]
    by (auto split: prod.splits)
qed

lemma Cause_start: "Cause (Wrap (CountableLayer b) e) = Cause e"
  by (cases e) (simp_all add: Cause_def)

lemma categorised_counted: "categorised (Wrap (CountableLayer b) e) \<longleftrightarrow> categorised e"
  by (simp add: categorised_def ShouldRetry_def Cause_start IsFatalError_layer IsNoRetryError_layer IsNoLowLevelRetryError_layer)

lemma failing_tries:
  assumes "\<not> IsCounted e" "0 < n"
  shows "\<exists>s'. run_tries Retry (\<lambda>s w. (Some e, s, w)) n c s w = (Some (Wrap (CountableLayer True) e), s', w)
           \<and> si_lastError s' = Some e"
  using assms(2)
proof (induction n arbitrary: c s)
  case (Suc n)
  obtain s1 where s1: "stats_Error (Some e) s = (Some (Wrap (CountableLayer True) e), s1)" "si_lastError s1 = Some e"
    using assms(1) by (simp add: stats_Error_def Let_def Count_def FsError_def)
  show ?case
  proof (cases "n = 0")
    case True
    then show ?thesis using s1 by (simp add: Let_def)
  next
    case False
    then show ?thesis using Suc.IH [of "Some (Wrap (CountableLayer True) e)" "ResetErrors s1"] s1 by (cases Retry) (simp_all add: Let_def)
  qed
qed simp

text \<open>C34. A command on a remote whose body fails on every try, with an error that is in none of the categories
  of \<open>resolveExitCode\<close>, hands control back to its caller as if it had succeeded, and outside the
  distributed layer too (where \<open>sustainOS\<close> is not set) the process does not exit with an error code.\<close>

theorem uncategorised_error_swallowed:
  assumes "\<not> categorised e" "\<not> IsCounted e" "0 < retries"
  shows "\<exists>s'. RunWithSustainOS ent retries Retry (\<lambda>s w. (Some e, s, w)) sustain s w = (Returns, s', w)
           \<and> si_lastError s' = Some e"
proof -
  obtain s' where "run_tries Retry (\<lambda>s w. (Some e, s, w)) retries None s w = (Some (Wrap (CountableLayer True) e), s', w)"
      "si_lastError s' = Some e"
    using failing_tries [OF assms(2,3)] by metis
  then show ?thesis
    using assms(1) by (simp add: RunWithSustainOS_def resolveExitCode_uncategorised categorised_counted)
qed

theorem uncategorised_error_swallowed_witness:
  "\<exists>s'. RunWithSustainOS False 3 True (\<lambda>s w. (Some (Leaf (plain ''quota'')), s, w)) True
     \<lparr>si_errors = 0, si_lastError = None, si_fatalError = False, si_retryError = False, si_retryAfter = 0, si_transfers = 0\<rparr> (7 :: nat)
     = (Returns, s', 7)"
proof -
  have "\<not> categorised (Leaf (plain ''quota''))" "\<not> IsCounted (Leaf (plain ''quota''))" by code_simp+
  then show ?thesis
    using uncategorised_error_swallowed [where e = "Leaf (plain ''quota'')" and retries = 3 and w = "7 :: nat"
        and ent = False and Retry = True and sustain = True and s = "\<lparr>si_errors = 0, si_lastError = None, si_fatalError = False,
          si_retryError = False, si_retryAfter = 0, si_transfers = 0\<rparr>"] by auto
qed

text \<open>A command on a remote ends the process exactly when its last error is in one of the categories: it
  returns to the distributed layer when there is no error or none of them applies.\<close>

theorem sustained_command_returns:
  "(case RunWithSustainOS ent retries Retry f True s w of
      (ended, s', w') \<Rightarrow> ended = Returns \<longleftrightarrow>
        (case fst (run_tries Retry f retries None s w) of
           Some e \<Rightarrow> \<not> categorised e
         | None \<Rightarrow> (case si_lastError s' of None \<Rightarrow> True | Some e \<Rightarrow> \<not> categorised e)))"
proof -
  obtain err s' w' where "run_tries Retry f retries None s w = (err, s', w')" by (metis prod_cases3)
  then show ?thesis
    by (cases err) (simp_all add: RunWithSustainOS_def resolveExitCode_sustained)
qed

end
