(* ===== verification/Concurrent_Streams.thy ===== *)
theory Concurrent_Streams
  imports Streaming "HOL-Library.Multiset"
begin

text \<open>
  The concurrent readers and writers of the stream encoder (\<open>cReadShards\<close>, \<open>cWriteShards\<close>) against those that take one
  shard after the other: an operation that succeeds with the one succeeds with the other and leaves the
  same, in whatever order the results of the goroutines arrive.
\<close>

section \<open>Reading\<close>

text \<open>A result that is the end of a stream, after \<open>n\<close> bytes.\<close>

definition ended_after :: "readResult list \<Rightarrow> nat set" where
  "ended_after res = {n. \<exists>i e. (i, n, Some e) \<in> set res}"

text \<open>No stream fails, and those that end have delivered the same number of bytes (\<open>sz\<close>, when that is known).\<close>

definition agreed :: "int \<Rightarrow> readResult list \<Rightarrow> bool" where
  "agreed sz res \<longleftrightarrow> (\<forall>(i, n, err) \<in> set res. err \<in> {None, Some io_EOF, Some io_ErrUnexpectedEOF})
     \<and> (\<forall>n \<in> ended_after res. \<forall>m \<in> ended_after res. n = m) \<and> (0 \<le> sz \<longrightarrow> (\<forall>n \<in> ended_after res. int n = sz))"

definition verdict :: "int \<Rightarrow> readResult list \<Rightarrow> rs_error option" where
  "verdict sz res = (if sz = 0 \<or> 0 \<in> ended_after res then Some io_EOF else None)"

definition cut_to :: "readResult list \<Rightarrow> nat \<Rightarrow> buffer \<Rightarrow> buffer" where
  "cut_to res j b = (case map_of res j of Some (n, Some e) \<Rightarrow> b\<lparr>b_len := n\<rparr> | _ \<Rightarrow> b)"

definition cut_all :: "readResult list \<Rightarrow> nat \<Rightarrow> buffer list \<Rightarrow> buffer list" where
  "cut_all res i bs = map2 (cut_to res) [i..<i + length bs] bs"

lemma ended_after_simps [simp]:
  "ended_after [] = {}" "ended_after ((i, n, None) # res) = ended_after res"
  "ended_after ((i, n, Some e) # res) = insert n (ended_after res)"
  by (auto simp: ended_after_def)

lemma agreed_Cons:
  "agreed sz ((i, n, None) # res) \<longleftrightarrow> agreed sz res"
  "agreed sz ((i, n, Some e) # res) \<longleftrightarrow> (e = io_EOF \<or> e = io_ErrUnexpectedEOF) \<and> (0 \<le> sz \<longrightarrow> int n = sz) \<and> agreed (int n) res"
  by (auto simp: agreed_def)

lemma cut_update:
  assumes "i < length bs" "map_of res i = None"
  shows "cut_all res 0 (bs[i := (bs ! i)\<lparr>b_len := n\<rparr>]) = cut_all ((i, n, Some e) # res) 0 bs"
proof (rule nth_equalityI)
  fix j assume "j < length (cut_all res 0 (bs[i := (bs ! i)\<lparr>b_len := n\<rparr>]))"
  then have "j < length bs" by (simp add: cut_all_def)
  then show "cut_all res 0 (bs[i := (bs ! i)\<lparr>b_len := n\<rparr>]) ! j = cut_all ((i, n, Some e) # res) 0 bs ! j"
    using assms by (cases "j = i") (simp_all add: cut_all_def cut_to_def)
qed (simp add: cut_all_def)

lemma cut_open:
  assumes "map_of res i = None"
  shows "cut_all ((i, n, None) # res) 0 bs = cut_all res 0 bs"
proof (rule nth_equalityI)
  fix j assume "j < length (cut_all ((i, n, None) # res) 0 bs)"
  then have "j < length bs" by (simp add: cut_all_def)
  then show "cut_all ((i, n, None) # res) 0 bs ! j = cut_all res 0 bs ! j"
    using assms by (cases "j = i") (simp_all add: cut_all_def cut_to_def)
qed (simp add: cut_all_def)

lemma collect_sizes_spec:
  "distinct (map fst res) \<Longrightarrow> fst ` set res \<subseteq> {..<length bs} \<Longrightarrow>
     (if agreed sz res then collect_sizes sz res bs = (verdict sz res, cut_all res 0 bs)
      else \<exists>e bs'. collect_sizes sz res bs = (Some e, bs') \<and> e \<noteq> io_EOF)"
proof (induction sz res bs rule: collect_sizes.induct)
  case (1 sz bs)
  have "cut_all [] 0 bs = bs" by (rule nth_equalityI) (simp_all add: cut_all_def cut_to_def)
  then show ?case by (simp add: agreed_def verdict_def)
next
  case (2 sz i n res bs)
  have "cut_all ((i, n, None) # res) 0 bs = cut_all res 0 bs"
    by (rule cut_open) (use "2.prems"(1) in \<open>simp add: map_of_eq_None_iff\<close>)
  moreover have "verdict sz ((i, n, None) # res) = verdict sz res" by (simp add: verdict_def)
  moreover have "distinct (map fst res)" "fst ` set res \<subseteq> {..<length bs}" using "2.prems" by simp_all
  note IH = "2.IH" [OF this]
  ultimately show ?case using IH by (simp only: agreed_Cons collect_sizes.simps)
next
  case (3 sz i n e res bs)
  have i: "i < length bs" "map_of res i = None" "distinct (map fst res)" "fst ` set res \<subseteq> {..<length bs}"
    using "3.prems" by (simp_all add: map_of_eq_None_iff)
  show ?case
  proof (cases "(e = io_ErrUnexpectedEOF \<or> e = io_EOF) \<and> (0 \<le> sz \<longrightarrow> int n = sz)")
    case False
    have "\<not> agreed sz ((i, n, Some e) # res)" unfolding agreed_Cons using False by blast
    moreover have "collect_sizes sz ((i, n, Some e) # res) bs \<in> {(Some ErrShardSize, bs), (Some (StreamReadError e i), bs)}"
      using False by auto
    ultimately show ?thesis by auto
  next
    case True
    let ?bs = "bs[i := (bs ! i)\<lparr>b_len := n\<rparr>]"
    have ok: "e = io_ErrUnexpectedEOF \<or> e = io_EOF" "\<not> (0 \<le> sz \<and> int n \<noteq> sz)" using True by blast+
    have inside: "fst ` set res \<subseteq> {..<length ?bs}" using i(4) by simp
    note IH = "3.IH" [OF ok i(3) inside]
    have v: "verdict sz ((i, n, Some e) # res) = verdict (int n) res" using ok(2) by (auto simp: verdict_def)
    have c: "collect_sizes sz ((i, n, Some e) # res) bs = collect_sizes (int n) res ?bs"
      by (simp only: collect_sizes.simps ok if_True if_False simp_thms)
    have a: "agreed sz ((i, n, Some e) # res) \<longleftrightarrow> agreed (int n) res" unfolding agreed_Cons using True by blast
    show ?thesis using IH unfolding a c v cut_update [OF i(1,2), of n e] .
  qed
qed

lemma read_all_shape:
  "read_all i dst ins = (res, dst', ins') \<Longrightarrow> length ins = length dst \<Longrightarrow>
     length dst' = length dst \<and> distinct (map fst res) \<and> fst ` set res \<subseteq> {i..<i + length dst}"
proof (induction i dst ins arbitrary: res dst' ins' rule: read_all.induct)
  case (1 i b dst ins)
  obtain res1 dst1 ins1 where r: "read_all (i + 1) dst ins = (res1, dst1, ins1)" by (metis prod_cases3)
  show ?case using "1.IH" [OF r] "1.prems" r by (fastforce simp: Let_def)
next
  case (2 i b dst rd ins)
  obtain got err rd' where rd: "ReadFull rd (b_len b) = (got, err, rd')" by (metis prod_cases3)
  obtain res1 dst1 ins1 where r: "read_all (i + 1) dst ins = (res1, dst1, ins1)" by (metis prod_cases3)
  show ?case using "2.IH" [OF rd [symmetric] refl r] "2.prems" r rd by (fastforce simp: Let_def)
qed simp_all


lemma cut_all_Cons: "cut_all res i (b # bs) = cut_to res i b # cut_all res (Suc i) bs"
  by (simp add: cut_all_def upt_conv_Cons del: upt_Suc)

lemma cut_all_skip: "i < j \<Longrightarrow> cut_all ((i, n, err) # res) j bs = cut_all res j bs"
  by (induction bs arbitrary: j) (simp_all add: cut_all_Cons, simp_all add: cut_all_def cut_to_def)

lemma readShards_loop_spec:
  "read_all i dst ins = (res, dst', ins') \<Longrightarrow> length ins = length dst \<Longrightarrow>
     (if agreed sz res then readShards_loop sz i dst ins = (verdict sz res, cut_all res i dst', ins')
      else \<exists>e bs rs. readShards_loop sz i dst ins = (Some e, bs, rs) \<and> e \<noteq> io_EOF)"
proof (induction sz i dst ins arbitrary: res dst' ins' rule: readShards_loop.induct)
  case (1 sz i b dst ins)
  obtain res1 dst1 ins1 where r: "read_all (i + 1) dst ins = (res1, dst1, ins1)" by (metis prod_cases3)
  have out: "res = res1" "dst' = b\<lparr>b_len := 0\<rparr> # dst1" "ins' = None # ins1" using "1.prems"(1) r by simp_all
  have len: "length ins = length dst" using "1.prems"(2) by simp
  have "map_of res1 i = None" using read_all_shape [OF r len] by (auto simp: map_of_eq_None_iff)
  then have cut: "cut_all res i dst' = b\<lparr>b_len := 0\<rparr> # cut_all res1 (i + 1) dst1" by (simp add: out cut_all_Cons cut_to_def)
  show ?case using "1.IH" [OF r len] unfolding out(1,3) cut [unfolded out(1)] by (auto simp: Let_def split: if_splits)
next
  case (2 sz i b dst rd ins)
  obtain got err rd' where rd: "ReadFull rd (b_len b) = (got, err, rd')" by (metis prod_cases3)
  obtain res1 dst1 ins1 where r: "read_all (i + 1) dst ins = (res1, dst1, ins1)" by (metis prod_cases3)
  have out: "res = (i, length got, err) # res1" "dst' = b_put got b # dst1" "ins' = Some rd' # ins1" using "2.prems"(1) rd r by simp_all
  have len: "length ins = length dst" using "2.prems"(2) by simp
  have cut: "cut_all res i dst' = cut_to [(i, length got, err)] i (b_put got b) # cut_all res1 (i + 1) dst1"
    by (simp add: out cut_all_Cons cut_all_skip cut_to_def split: option.split)
  show ?case
  proof (cases err)
    case None
    have IH: "if agreed sz res1 then readShards_loop sz (i + 1) dst ins = (verdict sz res1, cut_all res1 (i + 1) dst1, ins1)
        else \<exists>e bs rs. readShards_loop sz (i + 1) dst ins = (Some e, bs, rs) \<and> e \<noteq> io_EOF"
      by (rule "2.IH"(1) [OF rd [symmetric] refl refl refl None r len])
    have "agreed sz res = agreed sz res1" "verdict sz res = verdict sz res1" by (simp_all add: out None agreed_Cons verdict_def)
    moreover have "cut_to [(i, length got, err)] i (b_put got b) = b_put got b" by (simp add: cut_to_def None)
    ultimately show ?thesis using IH unfolding cut out(3) by (auto simp: rd None Let_def split: if_splits)
  next
    case (Some e)
    show ?thesis
    proof (cases "(e = io_ErrUnexpectedEOF \<or> e = io_EOF) \<and> \<not> (0 \<le> sz \<and> int (length got) \<noteq> sz)")
      case True
      have IH: "if agreed (int (length got)) res1 then readShards_loop (int (length got)) (i + 1) dst ins = (verdict (int (length got)) res1, cut_all res1 (i + 1) dst1, ins1)
          else \<exists>e bs rs. readShards_loop (int (length got)) (i + 1) dst ins = (Some e, bs, rs) \<and> e \<noteq> io_EOF"
        using "2.IH"(2) [OF rd [symmetric] refl refl refl Some _ _ r len] True by blast
      have "agreed sz res = agreed (int (length got)) res1" "verdict sz res = verdict (int (length got)) res1"
        using True by (auto simp: out Some agreed_Cons verdict_def)
      moreover have "cut_to [(i, length got, err)] i (b_put got b) = (b_put got b)\<lparr>b_len := length got\<rparr>" by (simp add: cut_to_def Some)
      ultimately show ?thesis using IH True unfolding cut out(3) by (auto simp: rd Some Let_def split: if_splits)
    next
      case False
      then have "\<not> agreed sz res" by (auto simp: out Some agreed_Cons)
      moreover have "\<exists>e' bs rs. readShards_loop sz i (b # dst) (Some rd # ins) = (Some e', bs, rs) \<and> e' \<noteq> io_EOF"
        using False by (auto simp: rd Some Let_def)
      ultimately show ?thesis by simp
    qed
  qed
qed (auto simp: agreed_def verdict_def cut_all_def)


text \<open>The goroutines see the same results in some order.\<close>

lemma cReadShards_agrees:
  assumes "\<And>res. mset (arrived res) = mset res" "readShards dst ins = (err, dst', ins')"
  shows "if err \<in> {None, Some io_EOF} then cReadShards arrived dst ins = (err, dst', ins')
    else \<exists>e bs rs. cReadShards arrived dst ins = (Some e, bs, rs) \<and> e \<noteq> io_EOF"
proof (cases "length ins = length dst")
  case True
  obtain res bs rs where all: "read_all 0 dst ins = (res, bs, rs)" by (metis prod_cases3)
  note shape = read_all_shape [OF all True]
  have same: "set (arrived res) = set res" "distinct (map fst (arrived res))"
    using assms(1) [of res] shape by (metis set_mset_mset, metis mset_eq_imp_distinct_iff mset_map)
  then have "map_of (arrived res) = map_of res" using shape map_of_inject_set [of "arrived res" res] by blast
  then have cut: "cut_all (arrived res) 0 bs = cut_all res 0 bs" by (simp add: cut_all_def cut_to_def [abs_def])
  have ends: "agreed (- 1) (arrived res) = agreed (- 1) res" "verdict (- 1) (arrived res) = verdict (- 1) res"
    by (simp_all add: agreed_def verdict_def ended_after_def same(1))
  have one: "readShards_loop (- 1) 0 dst ins = (err, dst', ins')" using assms(2) True by (simp add: readShards_def)
  have "fst ` set (arrived res) \<subseteq> {..<length bs}" using shape same(1) by auto
  note spec = collect_sizes_spec [OF same(2) this, of "- 1", unfolded ends cut] readShards_loop_spec [OF all True, of "- 1", unfolded one]
  show ?thesis
  proof (cases "agreed (- 1) res")
    case True
    then have "err = verdict (- 1) res" "dst' = cut_all res 0 bs" "ins' = rs" using spec(2) by simp_all
    moreover have "cReadShards arrived dst ins = (verdict (- 1) res, cut_all res 0 bs, rs)"
      using spec(1) True \<open>length ins = length dst\<close> all by (simp add: cReadShards_def)
    ultimately show ?thesis by (simp add: verdict_def)
  next
    case False
    then have "err \<notin> {None, Some io_EOF}" using spec(2) by auto
    moreover have "\<exists>e bs rs. cReadShards arrived dst ins = (Some e, bs, rs) \<and> e \<noteq> io_EOF"
      using spec(1) False \<open>length ins = length dst\<close> all by (auto simp: cReadShards_def)
    ultimately show ?thesis by (simp only: if_False)
  qed
qed (use assms(2) in \<open>auto simp: readShards_def cReadShards_def\<close>)

section \<open>Writing\<close>

lemma write_all_spec:
  "writeShards_loop wr i outs vs = (outs', err) \<Longrightarrow> write_all wr i outs vs = (outs'', errs) \<Longrightarrow>
     (if err = None then outs'' = outs' \<and> set errs \<subseteq> {None} else \<exists>e. Some e \<in> set errs)"
proof (induction wr i outs vs arbitrary: outs' err outs'' errs rule: writeShards_loop.induct)
  case (1 wr i outs v vs)
  obtain o1 e1 where a: "writeShards_loop wr (i + 1) outs vs = (o1, e1)" by fastforce
  obtain o2 e2 where b: "write_all wr (i + 1) outs vs = (o2, e2)" by fastforce
  show ?case using "1.IH" [OF a b] "1.prems" a b by (auto split: if_splits)
next
  case (2 wr i w outs v vs)
  obtain w' n res where w: "wr w v = (w', n, res)" by (metis prod_cases3)
  obtain o1 e1 where a: "writeShards_loop wr (i + 1) outs vs = (o1, e1)" by fastforce
  obtain o2 e2 where b: "write_all wr (i + 1) outs vs = (o2, e2)" by fastforce
  show ?case
  proof (cases "res = None \<and> n = length v")
    case True
    have "if e1 = None then o2 = o1 \<and> set e2 \<subseteq> {None} else \<exists>e. Some e \<in> set e2"
      using "2.IH" [OF w [symmetric] refl] a b True by simp
    then show ?thesis using "2.prems" a b w True by (auto split: if_splits)
  next
    case False
    then show ?thesis using "2.prems" a b w by (auto split: option.splits if_splits)
  qed
qed auto

lemma cWriteShards_agrees:
  assumes "\<And>errs. mset (arrived errs) = mset errs" "writeShards wr outs vs = (outs', err)"
  shows "if err = None then cWriteShards wr arrived outs vs = (outs', None) else \<exists>o' e. cWriteShards wr arrived outs vs = (o', Some e)"
proof (cases "length outs = length vs")
  case True
  obtain o' errs where all: "write_all wr 0 outs vs = (o', errs)" by fastforce
  have set: "set (arrived errs) = set errs" using assms(1) [of errs] by (metis set_mset_mset)
  have one: "writeShards_loop wr 0 outs vs = (outs', err)" using assms(2) True by (simp add: writeShards_def)
  show ?thesis
  proof (cases err)
    case None
    then have o: "o' = outs'" "set errs \<subseteq> {None}" using write_all_spec [OF one all] by simp_all
    then have "List.find (\<lambda>err. err \<noteq> None) (arrived errs) = None" unfolding find_None_iff set by blast
    then show ?thesis using True all None o(1) by (simp add: cWriteShards_def)
  next
    case (Some e)
    then obtain e' where e': "Some e' \<in> set (arrived errs)" using write_all_spec [OF one all] set by auto
    have "List.find (\<lambda>err. err \<noteq> None) (arrived errs) \<noteq> None" unfolding find_None_iff using e' by blast
    then obtain x where x: "List.find (\<lambda>err. err \<noteq> None) (arrived errs) = Some x" by blast
    then have "x \<noteq> None" unfolding find_Some_iff by blast
    then show ?thesis using True all Some x by (simp add: cWriteShards_def)
  qed
qed (use assms(2) in \<open>auto simp: writeShards_def cWriteShards_def\<close>)


section \<open>Blocks and loops\<close>

text \<open>Two pairs of functions that agree: they succeed on the same arguments, with the same outcome.\<close>

definition io_agrees :: "'w writer_fun \<Rightarrow> 'w stream_io \<Rightarrow> bool" where
  "io_agrees wr io \<longleftrightarrow>
     (\<forall>k dst ins err dst' ins'. readShards dst ins = (err, dst', ins') \<longrightarrow>
        (if err \<in> {None, Some io_EOF} then io_read io k dst ins = (err, dst', ins')
         else \<exists>e bs rs. io_read io k dst ins = (Some e, bs, rs) \<and> e \<noteq> io_EOF))
     \<and> (\<forall>k outs vs outs' err. writeShards wr outs vs = (outs', err) \<longrightarrow>
        (if err = None then io_write io k outs vs = (outs', None) else \<exists>o' e. io_write io k outs vs = (o', Some e)))"

lemma io_readE:
  assumes "io_agrees wr io" "readShards dst ins = (err, dst', ins')"
  obtains (read) "err = None" "io_read io k dst ins = (None, dst', ins')"
    | (over) "err = Some io_EOF" "io_read io k dst ins = (Some io_EOF, dst', ins')"
    | (failed) e e' bs rs where "err = Some e" "e \<noteq> io_EOF" "io_read io k dst ins = (Some e', bs, rs)" "e' \<noteq> io_EOF"
proof -
  have agree: "if err \<in> {None, Some io_EOF} then io_read io k dst ins = (err, dst', ins')
      else \<exists>e bs rs. io_read io k dst ins = (Some e, bs, rs) \<and> e \<noteq> io_EOF"
    using assms(1) [unfolded io_agrees_def, THEN conjunct1] assms(2) by blast
  consider "err = None" | "err = Some io_EOF" | e where "err = Some e" "e \<noteq> io_EOF" by (cases err) auto
  then show ?thesis
  proof cases
    case 3
    then obtain e' bs rs where "io_read io k dst ins = (Some e', bs, rs)" "e' \<noteq> io_EOF" using agree by auto
    then show ?thesis using failed [OF 3] by blast
  qed (use agree read over in simp_all)
qed

lemma io_writeE:
  assumes "io_agrees wr io" "writeShards wr outs vs = (outs', err)"
  obtains (written) "err = None" "io_write io k outs vs = (outs', None)"
    | (failed) e e' outs'' where "err = Some e" "io_write io k outs vs = (outs'', Some e')"
proof -
  have agree: "if err = None then io_write io k outs vs = (outs', None) else \<exists>o' e. io_write io k outs vs = (o', Some e)"
    using assms(1) [unfolded io_agrees_def, THEN conjunct2] assms(2) by blast
  show ?thesis
  proof (cases err)
    case (Some e)
    then obtain o' e' where "io_write io k outs vs = (o', Some e')" using agree by auto
    then show ?thesis using failed [OF Some] by blast
  qed (use agree written in simp)
qed

lemma in_turn_agrees: "io_agrees wr (in_turn wr)"
  by (auto simp: io_agrees_def)

lemma stream_io_of_agrees:
  assumes "\<And>k res. mset (reads k res) = mset res" "\<And>k errs. mset (writes k errs) = mset errs"
  shows "io_agrees wr (stream_io_of s wr reads writes)"
  unfolding io_agrees_def
proof (intro conjI allI impI)
  fix k dst ins err dst' ins'
  assume "readShards dst ins = (err, dst', ins')"
  then show "if err \<in> {None, Some io_EOF} then io_read (stream_io_of s wr reads writes) k dst ins = (err, dst', ins')
      else \<exists>e bs rs. io_read (stream_io_of s wr reads writes) k dst ins = (Some e, bs, rs) \<and> e \<noteq> io_EOF"
    using cReadShards_agrees [where arrived = "reads k" and dst = dst and ins = ins and err = err and dst' = dst' and ins' = ins'] assms(1)
    by (cases "concReads (st_o s)") (simp_all only: stream_io_of_def stream_io.simps if_True if_False, auto)
next
  fix k outs vs outs' err
  assume "writeShards wr outs vs = (outs', err)"
  then show "if err = None then io_write (stream_io_of s wr reads writes) k outs vs = (outs', None)
      else \<exists>o' e. io_write (stream_io_of s wr reads writes) k outs vs = (o', Some e)"
    using cWriteShards_agrees [where arrived = "writes k" and wr = wr and outs = outs and vs = vs and outs' = outs' and err = err] assms(2)
    by (cases "concWrites (st_o s)") (simp_all only: stream_io_of_def stream_io.simps if_True if_False, auto)
qed

text \<open>Two results: the same unless both are errors. Two steps of a loop: both go on from the same state, or both end.\<close>

definition agree_on :: "('a \<Rightarrow> bool) \<Rightarrow> 'a \<Rightarrow> 'a \<Rightarrow> bool" where
  "agree_on good r r' \<longleftrightarrow> (good r \<or> good r' \<longrightarrow> r' = r)"

definition steps_agree :: "('a \<Rightarrow> bool) \<Rightarrow> 'a + 's \<Rightarrow> 'a + 's \<Rightarrow> bool" where
  "steps_agree good step step' \<longleftrightarrow>
     (case step of Inr st \<Rightarrow> step' = Inr st | Inl r \<Rightarrow> \<exists>r'. step' = Inl r' \<and> agree_on good r r')"

lemma steps_agree_simps [simp]:
  "steps_agree good (Inr st) step' \<longleftrightarrow> step' = Inr st"
  "steps_agree good (Inl r) (Inl r') \<longleftrightarrow> agree_on good r r'"
  "steps_agree good step step"
  by (auto simp: steps_agree_def agree_on_def split: sum.split)

lemma loops_agree:
  assumes "\<And>st. steps_agree good (body st) (body' st)" "stream_loop body st = Some r"
  shows "\<exists>r'. stream_loop body' st = Some r' \<and> agree_on good r r'"
proof -
  let ?P = "\<lambda>body st r. (\<forall>st. steps_agree good (body st) (body' st)) \<longrightarrow> (\<exists>r'. stream_loop body' st = Some r' \<and> agree_on good r r')"
  have "?P body st r"
  proof (rule stream_loop.raw_induct [where P = ?P, OF _ assms(2)], intro impI)
    fix loop body st r
    assume IH: "\<And>body st r. loop body st = Some r \<Longrightarrow> ?P body st r"
      and run: "(case body st of Inl res \<Rightarrow> Some res | Inr st \<Rightarrow> loop body st) = Some r"
      and agree: "\<forall>st. steps_agree good (body st) (body' st)"
    note here = agree [THEN spec, of st]
    show "\<exists>r'. stream_loop body' st = Some r' \<and> agree_on good r r'"
    proof (cases "body st")
      case (Inl res)
      then obtain r' where "body' st = Inl r'" "agree_on good r r'" using here run by (auto simp: steps_agree_def)
      then show ?thesis by (simp add: stream_loop.simps)
    next
      case (Inr st')
      then have "body' st = Inr st'" "loop body st' = Some r" using here run by simp_all
      then show ?thesis using IH [of body st' r] agree by (simp add: stream_loop.simps [of body' st])
    qed
  qed
  then show ?thesis using assms(1) by blast
qed

lemma encode_blocks_agree:
  assumes "io_agrees wr io"
  shows "steps_agree (\<lambda>r. fst r = None) (encode_block wr st) (encode_block_by io st)"
proof -
  let ?d = "dataShards (ss_r st)"
  obtain err ins data where read: "readShards (take ?d (ss_all st)) (ss_in st) = (err, ins, data)" by (metis prod_cases3)
  show ?thesis
    using assms read
  proof (cases rule: io_readE [where k = "ss_read st"])
    case over
    then show ?thesis by (simp add: encode_block_eq encode_block_by_def read Let_def agree_on_def)
  next
    case (failed e e' bs rs)
    then show ?thesis by (simp add: encode_block_eq encode_block_by_def read Let_def agree_on_def)
  next
    case read': read
    define all where "all = ins @ drop ?d (ss_all st)"
    obtain cut where cut: "trimShards (drop ?d all) (shardSize (map b_val ins)) = cut" by blast
    show ?thesis
    proof (cases cut)
      case (Inl e)
      then show ?thesis using cut by (simp add: encode_block_eq encode_block_by_def read read' Let_def all_def)
    next
      case (Inr out)
      obtain coded where enc: "Encode (ss_r st) (map b_val (ins @ out)) = coded" by blast
      show ?thesis
      proof (cases coded)
        case (Inl e)
        then show ?thesis using cut Inr enc by (simp add: encode_block_eq encode_block_by_def read read' Let_def all_def)
      next
        case shards: (Inr shards)
        let ?vs = "map b_val (drop ?d (map2 b_set shards (ins @ out)))"
        obtain outs err where wrote: "writeShards wr (ss_out st) ?vs = (outs, err)" by fastforce
        show ?thesis
          using assms wrote
          by (cases rule: io_writeE [where k = "ss_read st + shardSize (map b_val ins)"])
            (use cut Inr enc shards wrote in \<open>simp_all add: encode_block_eq encode_block_by_def read read' Let_def all_def agree_on_def\<close>)
      qed
    qed
  qed
qed


lemma verify_blocks_agree:
  assumes "io_agrees (\<lambda>_ _. ((), 0, None)) io"
  shows "steps_agree (\<lambda>r. snd r = None) (verify_block st) (verify_block_by io st)"
proof -
  obtain err all ins where read: "readShards (ss_all st) (ss_in st) = (err, all, ins)" by (metis prod_cases3)
  show ?thesis
    using assms read
  proof (cases rule: io_readE [where k = "ss_read st"])
    case read': read
    obtain checked where "Verify (ss_r st) (map b_val all) = checked" by blast
    then show ?thesis by (cases checked) (simp_all add: verify_block_eq verify_block_by_def read read' Let_def)
  qed (simp_all add: verify_block_eq verify_block_by_def read Let_def agree_on_def)
qed

lemma reconstruct_blocks_agree:
  assumes "io_agrees wr io"
  shows "steps_agree (\<lambda>r. fst r = None) (reconstruct_block wr only st) (reconstruct_block_by io only st)"
proof -
  obtain err all ins where read: "readShards (ss_all st) (ss_in st) = (err, all, ins)" by (metis prod_cases3)
  show ?thesis
    using assms read
  proof (cases rule: io_readE [where k = "ss_read st"])
    case read': read
    obtain cut where cut: "trimShards all (shardSize (map b_val all)) = cut" by blast
    show ?thesis
    proof (cases cut)
      case (Inl e)
      then show ?thesis using cut by (simp add: reconstruct_block_eq reconstruct_block_by_def read read' Let_def)
    next
      case (Inr out)
      obtain rec where rec: "(if only then ReconstructData else Reconstruct) (ss_r st) (\<lambda>i. b_mem (out ! i)) (map b_val out) = rec" by blast
      show ?thesis
      proof (cases rec)
        case (Inl e)
        then show ?thesis using cut Inr rec by (simp add: reconstruct_block_eq reconstruct_block_by_def read read' Let_def)
      next
        case (Inr x)
        then obtain r' coded where shards: "rec = Inr (r', coded)" by (cases x) simp
        let ?vs = "map b_val (map2 b_set coded out)"
        obtain outs err where wrote: "writeShards wr (ss_out st) ?vs = (outs, err)" by fastforce
        show ?thesis
          using assms wrote
          by (cases rule: io_writeE [where k = "ss_read st + shardSize (map b_val all)"])
            (use cut \<open>cut = Inr out\<close> rec shards wrote in \<open>simp_all add: reconstruct_block_eq reconstruct_block_by_def read read' Let_def agree_on_def\<close>)
      qed
    qed
  qed (simp_all add: reconstruct_block_eq reconstruct_block_by_def read Let_def agree_on_def)
qed

section \<open>Operations\<close>

lemma agree_on_refl: "agree_on good r r"
  by (simp add: agree_on_def)

lemma stream_Encode_agrees:
  assumes "io_agrees wr io" "stream_Encode s wr pool data parity = Some r"
  shows "\<exists>r'. stream_Encode_by s io pool data parity = Some r' \<and> agree_on (\<lambda>r. fst r = None) r r'"
  using assms(2) loops_agree [OF encode_blocks_agree [OF assms(1)]] agree_on_refl
  by (auto simp: stream_Encode_eq Let_def split: if_splits)

lemma stream_Verify_agrees:
  assumes "io_agrees (\<lambda>_ _. ((), 0, None)) io" "stream_Verify s pool shards = Some r"
  shows "\<exists>r'. stream_Verify_by s io pool shards = Some r' \<and> agree_on (\<lambda>r. snd r = None) r r'"
proof (cases "length shards = totalShards (st_r s)")
  case True
  let ?st = "\<lparr>ss_all = createSlice s pool, ss_in = shards, ss_out = [], ss_read = 0, ss_r = st_r s\<rparr>"
  have run: "stream_Verify_by s io pool shards = stream_loop (verify_block_by io) ?st" for io
    using True unfolding stream_Verify_by_def by simp
  have "stream_loop verify_block ?st = Some r" using assms(2) unfolding stream_Verify_def run verify_block_def [symmetric] .
  then show ?thesis unfolding run by (rule loops_agree [OF verify_blocks_agree [OF assms(1)]])
next
  case False
  have run: "stream_Verify_by s io pool shards = Some (False, Some ErrTooFewShards)" for io
    unfolding stream_Verify_by_def if_P [OF False] ..
  have "stream_Verify_by s io pool shards = Some r" using assms(2) unfolding stream_Verify_def run .
  with agree_on_refl show ?thesis by (intro exI conjI)
qed

lemma stream_Reconstruct_agrees:
  assumes "io_agrees wr io" "stream_Reconstruct s wr pool valid fill = Some r"
  shows "\<exists>r'. stream_Reconstruct_by s io pool valid fill = Some r' \<and> agree_on (\<lambda>r. fst r = None) r r'"
  using assms(2) loops_agree [OF reconstruct_blocks_agree [OF assms(1)]] agree_on_refl
  by (auto simp: stream_Reconstruct_eq Let_def split: if_splits)


text \<open>C20. Concurrent reads and writes do not change what a stream operation does. In whatever order the results of the goroutines
  arrive in the channel, block after block, the operations of an encoder with the options for concurrent streams return; and when
  they succeed, or the operation that takes one shard after the other does, both return the same and leave the same readers and writers.\<close>

theorem concurrent_streams_agree:
  assumes "\<forall>k res. mset (reads k res) = mset res" "\<forall>k errs. mset (writes k errs) = mset errs" "0 < dataShards (st_r s)"
  shows "(\<exists>r r'. stream_Encode s wr pool data parity = Some r \<and> stream_Encode_by s (stream_io_of s wr reads writes) pool data parity = Some r'
        \<and> (fst r = None \<or> fst r' = None \<longrightarrow> r' = r))
    \<and> (\<exists>r r'. stream_Verify s pool shards = Some r \<and> stream_Verify_by s (stream_io_of s (\<lambda>_ _. ((), 0, None)) reads writes) pool shards = Some r'
        \<and> (snd r = None \<or> snd r' = None \<longrightarrow> r' = r))
    \<and> (\<exists>r r'. stream_Reconstruct s wr pool valid fill = Some r
        \<and> stream_Reconstruct_by s (stream_io_of s wr reads writes) pool valid fill = Some r' \<and> (fst r = None \<or> fst r' = None \<longrightarrow> r' = r))"
proof (intro conjI)
  have io: "io_agrees wr (stream_io_of s wr reads writes)" "io_agrees (\<lambda>_ _. ((), 0, None)) (stream_io_of s (\<lambda>_ _. ((), 0, None)) reads writes)"
    using assms(1,2) by (simp_all add: stream_io_of_agrees)
  obtain r where r: "stream_Encode s wr pool data parity = Some r" using stream_returns(1) [OF assms(3)] by blast
  from stream_Encode_agrees [OF io(1) r] obtain r' where r': "stream_Encode_by s (stream_io_of s wr reads writes) pool data parity = Some r'"
    "agree_on (\<lambda>r. fst r = None) r r'" by (elim exE conjE)
  show "\<exists>r r'. stream_Encode s wr pool data parity = Some r \<and> stream_Encode_by s (stream_io_of s wr reads writes) pool data parity = Some r'
      \<and> (fst r = None \<or> fst r' = None \<longrightarrow> r' = r)"
    by (rule exI [of _ r], rule exI [of _ r'], intro conjI r r'(1) r'(2) [unfolded agree_on_def])
  obtain r where r: "stream_Verify s pool shards = Some r" using stream_returns(2) by blast
  from stream_Verify_agrees [OF io(2) r] obtain r' where r': "stream_Verify_by s (stream_io_of s (\<lambda>_ _. ((), 0, None)) reads writes) pool shards = Some r'"
    "agree_on (\<lambda>r. snd r = None) r r'" by (elim exE conjE)
  show "\<exists>r r'. stream_Verify s pool shards = Some r \<and> stream_Verify_by s (stream_io_of s (\<lambda>_ _. ((), 0, None)) reads writes) pool shards = Some r'
      \<and> (snd r = None \<or> snd r' = None \<longrightarrow> r' = r)"
    by (rule exI [of _ r], rule exI [of _ r'], intro conjI r r'(1) r'(2) [unfolded agree_on_def])
  obtain r where r: "stream_Reconstruct s wr pool valid fill = Some r" using stream_returns(3) by blast
  from stream_Reconstruct_agrees [OF io(1) r] obtain r' where r': "stream_Reconstruct_by s (stream_io_of s wr reads writes) pool valid fill = Some r'"
    "agree_on (\<lambda>r. fst r = None) r r'" by (elim exE conjE)
  show "\<exists>r r'. stream_Reconstruct s wr pool valid fill = Some r
      \<and> stream_Reconstruct_by s (stream_io_of s wr reads writes) pool valid fill = Some r' \<and> (fst r = None \<or> fst r' = None \<longrightarrow> r' = r)"
    by (rule exI [of _ r], rule exI [of _ r'], intro conjI r r'(1) r'(2) [unfolded agree_on_def])
qed

lemma sample_concurrent:
  obtains s where "NewStreamC (plain_cpu 4) 2 2 True True [] = Inr s" "0 < dataShards (st_r s)" "concReads (st_o s)"
proof -
  define c where "c = plain_cpu 4"
  have cpu: "1 \<le> GOMAXPROCS c" by (simp add: c_def plain_cpu_def)
  let ?opts = "[WithConcurrentStreamReads True, WithConcurrentStreamWrites True, WithAutoGoroutines 4194304]"
  have opt: "apply_options c ?opts = (defaultOptions c)\<lparr>concReads := True, concWrites := True, o_shardSize := 4194304\<rparr>"
    by (simp add: apply_options_def WithAutoGoroutines_def WithConcurrentStreamReads_def WithConcurrentStreamWrites_def)
  have sel: "select_matrix (apply_options c ?opts) (int 2) (int 2) = buildMatrix (int 2) (int (2 + 2))"
    unfolding opt by (simp add: select_matrix_def defaultOptions_def Let_def)
  obtain m where m: "buildMatrix (int 2) (int (2 + 2)) = Inr m" using buildMatrix_ok [of 2 "2 + 2"] by auto
  obtain r where r: "New c (int 2) (int 2) ?opts = Inr (RS r)"
    using m sel cpu unfolding New_def by (auto simp: Let_def opt defaultOptions_def)
  have "set ?opts \<subseteq> package_options" using package_options.intros by auto
  then have "dataShards r = 2" using New_wf [OF r _ _ cpu] by simp
  moreover have "NewStreamC c 2 2 True True [] = Inr \<lparr>st_r = r,
      st_o = (defaultOptions c)\<lparr>concReads := True, concWrites := True, streamBS := 4 * 1024 * 1024\<rparr>\<rparr>"
    using r by (simp add: NewStreamC_def NewStream_def Let_def apply_options_def defaultOptions_def
        WithConcurrentStreamReads_def WithConcurrentStreamWrites_def)
  ultimately show ?thesis by (intro that) (auto simp: c_def)
qed

text \<open>The results arrive in the opposite order.\<close>

theorem concurrent_streams_agree_witness:
  "\<exists>s r'. NewStreamC (plain_cpu 4) 2 2 True True [] = Inr s
     \<and> stream_Verify_by s (stream_io_of s (\<lambda>_ _. ((), 0, None)) (\<lambda>_. rev) (\<lambda>_. rev)) [] [None, Some \<lparr>rd_rest = [1, 2], rd_end = io_EOF\<rparr>] = Some r'
     \<and> concReads (st_o s)"
proof -
  obtain s where s: "NewStreamC (plain_cpu 4) 2 2 True True [] = Inr s" "0 < dataShards (st_r s)" "concReads (st_o s)"
    by (rule sample_concurrent)
  then show ?thesis
    using concurrent_streams_agree [of "\<lambda>_. rev" "\<lambda>_. rev" s buffer_write "[]" "[]" "[]" "[None, Some \<lparr>rd_rest = [1, 2], rd_end = io_EOF\<rparr>]" "[]" "[]"]
    by auto
qed

end
