(* ===== verification/Vault.thy ===== *)
theory Vault
  imports Machine "HOL-Library.AList" "HOL-Library.Sublist" "HOL-Library.List_Lexorder" "HOL-Library.Char_ord"
begin

text \<open>
  The lock of the data directory: the password of the user and the encryption of every file of the directory
  (\<open>GetUserPassword\<close> to \<open>DecryptAllFilesInPath\<close> in \<open>fs/dis_operations/dis_password.go\<close>), and the windows that
  lock and unlock it (\<open>gui/main.go\<close>). The directory holds the data map, the statistics, the configuration and the shard
  directory; its files are named by their paths below it.
\<close>

section \<open>The directory\<close>

type_synonym folder = "(string \<times> bytes) list"

datatype vault_error =
    AccessError string
  | CryptError string
  | RemoveError string
  | PasswordExists
  | CheckError
  | MkdirError
  | PasswordWrite
  | VerificationFailed

text \<open>What the operating system and the package \<open>filecrypt\<close> do: which entries of the directory can be visited (the directory
  itself is the empty path), for which files the encryption or decryption fails and what it leaves in its output file
  then (nothing is written if it is \<open>None\<close>), what it makes of a content, and the name of the output of a decryption.\<close>

record vault_env =
  ve_walk :: "string \<Rightarrow> bool"
  ve_fails :: "string \<Rightarrow> bytes option option"
  ve_encrypt :: "string \<Rightarrow> bytes \<Rightarrow> bytes result"
  ve_decrypt :: "string \<Rightarrow> bytes \<Rightarrow> bytes result"
  ve_plain :: "string \<Rightarrow> string"
  ve_removed :: "string \<Rightarrow> bool"
  ve_stat :: "string \<Rightarrow> bool"
  ve_read :: bool
  ve_mkdir :: bool
  ve_write :: "bytes option option"

text \<open>\<open>filepath.Walk\<close> visits the entries of a directory in the order of their names, and a directory below in its place. The
  names of a directory are read before its first entry is visited, so the files that the visits
  themselves create beside it are not visited: the list of the paths is fixed at the start.\<close>

definition walk_order :: "folder \<Rightarrow> string list" where
  "walk_order fs = sort_key (go_split (CHR ''/'')) (map fst fs)"

section \<open>The password of the user\<close>

definition user_file :: string where
  "user_file = ''user_password.txt''"

definition bytes_string :: "bytes \<Rightarrow> string" where
  "bytes_string bs = map (\<lambda>b. char_of (unat b)) bs"

definition GetUserPassword :: "vault_env \<Rightarrow> folder \<Rightarrow> string" where
  "GetUserPassword env fs =
     (case (if ve_stat env user_file then map_of fs user_file else None) of
        Some data \<Rightarrow> if ve_read env then bytes_string data else []
      | None \<Rightarrow> [])"

definition DoesUserPasswordExist :: "vault_env \<Rightarrow> folder \<Rightarrow> bool" where
  "DoesUserPasswordExist env fs =
     list_ex (\<lambda>file_path. case (if ve_stat env file_path then map_of fs file_path else None) of
         Some data \<Rightarrow> data \<noteq> []
       | None \<Rightarrow> False) [user_file, user_file @ fileCryptExtension]"

text \<open>A write that fails says what is left of the file.\<close>

definition SaveUserPassword :: "vault_env \<Rightarrow> string \<Rightarrow> folder \<Rightarrow> (vault_error + unit) \<times> folder" where
  "SaveUserPassword env newPassword fs =
     (if \<not> ve_stat env user_file then (Inl CheckError, fs)
      else if (case map_of fs user_file of Some data \<Rightarrow> data \<noteq> [] | None \<Rightarrow> False) then (Inl PasswordExists, fs)
      else if \<not> ve_mkdir env then (Inl MkdirError, fs)
      else case ve_write env of
             None \<Rightarrow> (Inr (), AList.update user_file (string_bytes newPassword) fs)
           | Some None \<Rightarrow> (Inl PasswordWrite, fs)
           | Some (Some left) \<Rightarrow> (Inl PasswordWrite, AList.update user_file left fs))"


section \<open>Locking and unlocking\<close>

text \<open>A call of \<open>filecrypt\<close> on the file \<open>path\<close> with the output file \<open>out\<close>. The files it reads and writes may be there or not; an
  output file that is there is overwritten.\<close>

definition crypt_file ::
  "vault_env \<Rightarrow> (bytes \<Rightarrow> bytes result) \<Rightarrow> string \<Rightarrow> string \<Rightarrow> folder \<Rightarrow> (vault_error + string) \<times> folder" where
  "crypt_file env coder path out fs =
     (case ve_fails env path of
        Some None \<Rightarrow> (Inl (CryptError path), fs)
      | Some (Some left) \<Rightarrow> (Inl (CryptError path), AList.update out left fs)
      | None \<Rightarrow>
          (case map_of fs path of
             None \<Rightarrow> (Inl (CryptError path), fs)
           | Some content \<Rightarrow>
               (case coder content of
                  Inl _ \<Rightarrow> (Inl (CryptError path), fs)
                | Inr result \<Rightarrow> (Inr out, AList.update out result fs))))"

text \<open>The first pass of the encryption; the result are the paths of the originals.\<close>

fun encrypt_walk :: "vault_env \<Rightarrow> string \<Rightarrow> string list \<Rightarrow> folder \<Rightarrow> (vault_error + string list) \<times> folder" where
  "encrypt_walk env pw [] fs = (Inr [], fs)"
| "encrypt_walk env pw (path # paths) fs =
     (if \<not> ve_walk env path then (Inl (AccessError path), fs)
      else case crypt_file env (ve_encrypt env pw) path (path @ fileCryptExtension) fs of
             (Inl e, fs) \<Rightarrow> (Inl e, fs)
           | (Inr _, fs) \<Rightarrow>
               (case encrypt_walk env pw paths fs of
                  (Inl e, fs) \<Rightarrow> (Inl e, fs)
                | (Inr originalFiles, fs) \<Rightarrow> (Inr (path # originalFiles), fs)))"

fun remove_files :: "vault_env \<Rightarrow> string list \<Rightarrow> folder \<Rightarrow> (vault_error + unit) \<times> folder" where
  "remove_files env [] fs = (Inr (), fs)"
| "remove_files env (path # paths) fs =
     (if map_of fs path = None \<or> \<not> ve_removed env path then (Inl (RemoveError path), fs)
      else remove_files env paths (AList.delete path fs))"

definition EncryptAllFilesInPath :: "vault_env \<Rightarrow> string \<Rightarrow> folder \<Rightarrow> (vault_error + unit) \<times> folder" where
  "EncryptAllFilesInPath env user_password fs =
     (if \<not> ve_walk env [] then (Inl (AccessError []), fs)
      else case encrypt_walk env user_password (walk_order fs) fs of
             (Inl e, fs) \<Rightarrow> (Inl e, fs)
           | (Inr originalFiles, fs) \<Rightarrow> remove_files env originalFiles fs)"

text \<open>The first pass of the decryption: the decrypted files, the encrypted ones, and whether the password has been verified.\<close>

fun decrypt_walk ::
  "vault_env \<Rightarrow> string \<Rightarrow> string list \<Rightarrow> bool \<Rightarrow> folder \<Rightarrow> (vault_error + string list \<times> string list \<times> bool) \<times> folder" where
  "decrypt_walk env pw [] verified fs = (Inr ([], [], verified), fs)"
| "decrypt_walk env pw (path # paths) verified fs =
     (if \<not> ve_walk env path then (Inl (AccessError path), fs)
      else if \<not> suffix ''.fcef'' (path_Base path) then decrypt_walk env pw paths verified fs
      else case crypt_file env (ve_decrypt env pw) path (ve_plain env path) fs of
             (Inl e, fs) \<Rightarrow> (Inl e, fs)
           | (Inr decryptedPath, fs) \<Rightarrow>
               let verified = (verified \<or> sublist ''user_password'' (path_Base path) \<and> pw = GetUserPassword env fs)
               in case decrypt_walk env pw paths verified fs of
                    (Inl e, fs) \<Rightarrow> (Inl e, fs)
                  | (Inr (decryptedFiles, encryptedFiles, verified), fs) \<Rightarrow>
                      (Inr (decryptedPath # decryptedFiles, path # encryptedFiles, verified), fs))"

definition DecryptAllFilesInPath :: "vault_env \<Rightarrow> string \<Rightarrow> folder \<Rightarrow> (vault_error + unit) \<times> folder" where
  "DecryptAllFilesInPath env user_password fs =
     (if \<not> ve_walk env [] then (Inl (AccessError []), fs)
      else case decrypt_walk env user_password (walk_order fs) False fs of
             (Inl e, fs) \<Rightarrow> (Inl e, fs)
           | (Inr (decryptedFiles, encryptedFiles, passwordVerified), fs) \<Rightarrow>
               if passwordVerified then remove_files env encryptedFiles fs
               else (case remove_files env decryptedFiles fs of
                       (Inl e, fs) \<Rightarrow> (Inl e, fs)
                     | (Inr _, fs) \<Rightarrow> (Inl VerificationFailed, fs)))"

section \<open>The windows\<close>

text \<open>What the program shows. The window for the password is the first one; its button leads to the main window, whose
  closing locks the directory.\<close>

datatype window = SetupWindow | PromptWindow | MainWindow

definition first_window :: "vault_env \<Rightarrow> folder \<Rightarrow> window" where
  "first_window env fs = (if DoesUserPasswordExist env fs then PromptWindow else SetupWindow)"

text \<open>The button of the two password windows: the next window. The result of \<open>SaveUserPassword\<close> is not looked at.\<close>

definition set_password :: "vault_env \<Rightarrow> string \<Rightarrow> folder \<Rightarrow> window \<times> folder" where
  "set_password env password fs =
     (if password = [] then (SetupWindow, fs)
      else case SaveUserPassword env password fs of (_, fs) \<Rightarrow> (MainWindow, fs))"

definition unlock :: "vault_env \<Rightarrow> string \<Rightarrow> folder \<Rightarrow> window \<times> folder" where
  "unlock env password fs =
     (if password = [] then (PromptWindow, fs)
      else case DecryptAllFilesInPath env password fs of
             (Inl _, fs) \<Rightarrow> (PromptWindow, fs)
           | (Inr _, fs) \<Rightarrow> (MainWindow, fs))"

definition encryptFilesOnExit :: "vault_env \<Rightarrow> folder \<Rightarrow> folder" where
  "encryptFilesOnExit env fs =
     (let userPassword = GetUserPassword env fs
      in if userPassword = [] then fs else snd (EncryptAllFilesInPath env userPassword fs))"

text \<open>The files directly in the shard directory; one that cannot be removed ends the clean-up.\<close>

definition shard_entry :: "string \<Rightarrow> bool" where
  "shard_entry path \<longleftrightarrow> (case go_split (CHR ''/'') path of [dir, name] \<Rightarrow> dir = ''shard'' | _ \<Rightarrow> False)"

definition cleanShardFolderOnExit :: "vault_env \<Rightarrow> folder \<Rightarrow> (vault_error + unit) \<times> folder" where
  "cleanShardFolderOnExit env fs =
     (if \<not> ve_walk env ''shard'' then (Inl (AccessError ''shard''), fs)
      else remove_files env (filter shard_entry (walk_order fs)) fs)"

definition close_window :: "vault_env \<Rightarrow> folder \<Rightarrow> folder" where
  "close_window env fs = snd (cleanShardFolderOnExit env (encryptFilesOnExit env fs))"


section \<open>The passes over the files\<close>

text \<open>A file that is not encrypted, by its name.\<close>

definition plain_name :: "string \<Rightarrow> bool" where
  "plain_name path \<longleftrightarrow> \<not> suffix ''.fcef'' (path_Base path)"

lemma base_encrypted: "suffix ''.fcef'' (path_Base (path @ fileCryptExtension))"
proof -
  let ?rest = "takeWhile (\<lambda>c. c \<noteq> CHR ''/'') (rev path)"
  have "path_Base (path @ fileCryptExtension) = rev ?rest @ ''.fcef''"
    by (simp add: path_Base_def)
  then show ?thesis by (simp add: suffix_def)
qed

lemma encrypted_not_plain [simp]: "\<not> plain_name (path @ fileCryptExtension)"
  using base_encrypted by (simp add: plain_name_def)

lemma set_walk_order: "set (walk_order fs) = dom (map_of fs)"
  by (simp add: walk_order_def dom_map_of_conv_image_fst)

lemma distinct_walk_order: "distinct (map fst fs) \<Longrightarrow> distinct (walk_order fs)"
  by (simp add: walk_order_def)

lemma crypt_file_effect:
  assumes "crypt_file env coder path out fs = (res, fs')"
  shows "q \<noteq> out \<Longrightarrow> map_of fs' q = map_of fs q"
    "distinct (map fst fs) \<Longrightarrow> distinct (map fst fs')"
    "res = Inr p \<Longrightarrow> p = out \<and> (\<exists>content result. map_of fs path = Some content \<and> coder content = Inr result \<and> map_of fs' out = Some result)"
  using assms by (auto simp: crypt_file_def update_conv' split: option.splits sum.splits)

text \<open>The encryption writes the encrypted files only, however it ends.\<close>

lemma encrypt_walk_others:
  "encrypt_walk env pw ps fs = (res, fs') \<Longrightarrow> \<forall>p \<in> set ps. q \<noteq> p @ fileCryptExtension \<Longrightarrow> map_of fs' q = map_of fs q"
proof (induction ps arbitrary: fs res)
  case (Cons p ps)
  obtain res1 fs1 where one: "crypt_file env (ve_encrypt env pw) p (p @ fileCryptExtension) fs = (res1, fs1)" by fastforce
  obtain res2 fs2 where rest: "encrypt_walk env pw ps fs1 = (res2, fs2)" by fastforce
  have "map_of fs1 q = map_of fs q" using crypt_file_effect(1) [OF one] Cons.prems(2) by simp
  moreover have "map_of fs2 q = map_of fs1 q" if "fs2 = fs'" using Cons.IH [of fs1 res2] rest that Cons.prems(2) by simp
  ultimately show ?case
    using Cons.prems(1) one rest by (auto split: if_splits sum.splits)
qed simp

lemma encrypt_walk_distinct:
  "encrypt_walk env pw ps fs = (res, fs') \<Longrightarrow> distinct (map fst fs) \<Longrightarrow> distinct (map fst fs')"
proof (induction ps arbitrary: fs res)
  case (Cons p ps)
  obtain res1 fs1 where one: "crypt_file env (ve_encrypt env pw) p (p @ fileCryptExtension) fs = (res1, fs1)" by fastforce
  obtain res2 fs2 where rest: "encrypt_walk env pw ps fs1 = (res2, fs2)" by fastforce
  have "distinct (map fst fs1)" using crypt_file_effect(2) [OF one] Cons.prems(2) .
  moreover from this have "distinct (map fst fs2)" if "fs2 = fs'" using Cons.IH [of fs1 res2] rest that by simp
  ultimately show ?case
    using Cons.prems one rest by (auto split: if_splits sum.splits)
qed simp

text \<open>A file and its encryption.\<close>

definition encrypted_as :: "vault_env \<Rightarrow> string \<Rightarrow> folder \<Rightarrow> folder \<Rightarrow> string \<Rightarrow> bool" where
  "encrypted_as env pw fs fs' p \<longleftrightarrow> (\<exists>content cipher. map_of fs p = Some content \<and> ve_encrypt env pw content = Inr cipher
     \<and> map_of fs' (p @ fileCryptExtension) = Some cipher)"

lemma encrypt_walk_all:
  "encrypt_walk env pw ps fs = (Inr os, fs') \<Longrightarrow> distinct ps \<Longrightarrow> \<forall>p \<in> set ps. plain_name p \<Longrightarrow>
     os = ps \<and> (\<forall>p \<in> set ps. encrypted_as env pw fs fs' p)"
proof (induction ps arbitrary: fs os)
  case (Cons p ps)
  obtain res1 fs1 where one: "crypt_file env (ve_encrypt env pw) p (p @ fileCryptExtension) fs = (res1, fs1)" by fastforce
  obtain out os' where out: "res1 = Inr out" "encrypt_walk env pw ps fs1 = (Inr os', fs')" "os = p # os'"
    using Cons.prems(1) one by (auto split: if_splits sum.splits prod.splits)
  have plain: "distinct ps" "p \<notin> set ps" "\<forall>p \<in> set ps. plain_name p" using Cons.prems(2,3) by simp_all
  have IH: "os' = ps" "\<forall>q \<in> set ps. encrypted_as env pw fs1 fs' q" using Cons.IH [OF out(2) plain(1,3)] by simp_all
  have keep: "map_of fs' (p @ fileCryptExtension) = map_of fs1 (p @ fileCryptExtension)"
    by (rule encrypt_walk_others [OF out(2)]) (use plain(2) in auto)
  have "encrypted_as env pw fs fs' p"
    using crypt_file_effect(3) [OF one out(1)] keep by (auto simp: encrypted_as_def)
  moreover have "encrypted_as env pw fs fs' q" if q: "q \<in> set ps" for q
  proof -
    have "q \<noteq> p @ fileCryptExtension" using q plain(3) by auto
    then have "map_of fs1 q = map_of fs q" using crypt_file_effect(1) [OF one] by simp
    then show ?thesis using bspec [OF IH(2) q] by (simp add: encrypted_as_def)
  qed
  ultimately show ?case using out(3) IH(1) by simp
qed simp

lemma remove_files_effect:
  assumes "remove_files env ps fs = (res, fs')"
  shows "\<exists>R \<subseteq> set ps. map_of fs' = (\<lambda>q. if q \<in> R then None else map_of fs q) \<and> (res = Inr () \<longrightarrow> R = set ps)"
    "distinct (map fst fs) \<Longrightarrow> distinct (map fst fs')"
proof -
  have "(\<exists>R \<subseteq> set ps. map_of fs' = (\<lambda>q. if q \<in> R then None else map_of fs q) \<and> (res = Inr () \<longrightarrow> R = set ps))
    \<and> (distinct (map fst fs) \<longrightarrow> distinct (map fst fs'))"
    using assms
  proof (induction ps arbitrary: fs)
    case (Cons p ps)
    show ?case
    proof (cases "map_of fs p = None \<or> \<not> ve_removed env p")
      case True
      then show ?thesis using Cons.prems by (auto intro!: exI [of _ "{}"])
    next
      case False
      then have "remove_files env ps (AList.delete p fs) = (res, fs')" using Cons.prems by (simp del: not_None_eq split: if_splits)
      note IH = Cons.IH [OF this]
      then obtain R where R: "R \<subseteq> set ps" "map_of fs' = (\<lambda>q. if q \<in> R then None else map_of (AList.delete p fs) q)" "res = Inr () \<longrightarrow> R = set ps"
        by blast
      then show ?thesis using IH by (auto simp: delete_conv' fun_eq_iff intro!: exI [of _ "insert p R"])
    qed
  qed auto
  then show "\<exists>R \<subseteq> set ps. map_of fs' = (\<lambda>q. if q \<in> R then None else map_of fs q) \<and> (res = Inr () \<longrightarrow> R = set ps)"
    "distinct (map fst fs) \<Longrightarrow> distinct (map fst fs')" by blast+
qed

lemma remove_files_ok:
  assumes "distinct ps" "\<forall>p \<in> set ps. map_of fs p \<noteq> None \<and> ve_removed env p"
  shows "fst (remove_files env ps fs) = Inr ()"
  using assms
proof (induction ps arbitrary: fs)
  case (Cons p ps)
  then have "\<forall>q \<in> set ps. map_of (AList.delete p fs) q \<noteq> None \<and> ve_removed env q" by (auto simp: delete_conv')
  then show ?case using Cons by auto
qed simp


section \<open>Locking\<close>

lemma lock_keeps:
  assumes "EncryptAllFilesInPath env pw fs = (res, fs')" "distinct (map fst fs)" "\<forall>p \<in> dom (map_of fs). plain_name p"
    and "map_of fs p = Some content"
  shows "map_of fs' p = Some content \<or> encrypted_as env pw fs fs' p"
proof -
  note ps = set_walk_order [of fs] distinct_walk_order [OF assms(2)]
  have plain: "\<forall>p \<in> set (walk_order fs). plain_name p" using assms(3) ps(1) by simp
  have p: "plain_name p" "p \<in> set (walk_order fs)" using assms(3,4) ps(1) by auto
  obtain res1 fs1 where walk: "encrypt_walk env pw (walk_order fs) fs = (res1, fs1)" by fastforce
  have kept: "map_of fs1 p = Some content" using encrypt_walk_others [OF walk, of p] p(1) assms(4) by force
  show ?thesis
  proof (cases res1)
    case (Inl e)
    then have "fs' = fs1 \<or> fs' = fs" using assms(1) walk by (auto simp: EncryptAllFilesInPath_def split: if_splits)
    then show ?thesis using kept assms(4) by blast
  next
    case (Inr os)
    with walk have run: "encrypt_walk env pw (walk_order fs) fs = (Inr os, fs1)" by simp
    note all = encrypt_walk_all [OF run ps(2) plain]
    show ?thesis
    proof (cases "ve_walk env []")
      case True
      then have "remove_files env (walk_order fs) fs1 = (res, fs')"
        using assms(1) run all by (simp add: EncryptAllFilesInPath_def)
      from remove_files_effect(1) [OF this] obtain R where R: "R \<subseteq> set (walk_order fs)" "map_of fs' = (\<lambda>q. if q \<in> R then None else map_of fs1 q)"
        by blast
      then have "p @ fileCryptExtension \<notin> R" using plain encrypted_not_plain by blast
      then have "encrypted_as env pw fs fs' p" using all p(2) R(2) by (simp add: encrypted_as_def)
      then show ?thesis ..
    qed (use assms(1,4) in \<open>simp add: EncryptAllFilesInPath_def\<close>)
  qed
qed

text \<open>Everything works: every file can be visited, coded and removed, the encryption can be undone with the password, and the
  decryption of a file takes its extension off.\<close>

definition vault_ok :: "vault_env \<Rightarrow> string \<Rightarrow> bool" where
  "vault_ok env pw \<longleftrightarrow> (\<forall>p. ve_walk env p \<and> ve_fails env p = None \<and> ve_removed env p \<and> ve_stat env p) \<and> ve_read env
     \<and> (\<forall>p. plain_name p \<longrightarrow> ve_plain env (p @ fileCryptExtension) = p)
     \<and> (\<forall>c. \<exists>cipher. ve_encrypt env pw c = Inr cipher \<and> cipher \<noteq> [] \<and> ve_decrypt env pw cipher = Inr c)"

lemma crypt_file_ok:
  assumes "ve_fails env path = None" "map_of fs path = Some content" "coder content = Inr result"
  shows "crypt_file env coder path out fs = (Inr out, AList.update out result fs)"
  using assms by (simp add: crypt_file_def)

lemma encrypt_walk_ok:
  assumes "vault_ok env pw" "\<forall>p \<in> set ps. map_of fs p \<noteq> None"
  shows "\<exists>fs'. encrypt_walk env pw ps fs = (Inr ps, fs')"
  using assms(2)
proof (induction ps arbitrary: fs)
  case (Cons p ps)
  obtain content where "map_of fs p = Some content" using Cons.prems by auto
  moreover obtain cipher where "ve_encrypt env pw content = Inr cipher" using assms(1) unfolding vault_ok_def by blast
  ultimately have one: "crypt_file env (ve_encrypt env pw) p (p @ fileCryptExtension) fs = (Inr (p @ fileCryptExtension), AList.update (p @ fileCryptExtension) cipher fs)"
    using assms(1) by (intro crypt_file_ok) (auto simp: vault_ok_def)
  have "\<forall>q \<in> set ps. map_of (AList.update (p @ fileCryptExtension) cipher fs) q \<noteq> None" using Cons.prems by (simp add: update_conv')
  from Cons.IH [OF this] obtain fs' where "encrypt_walk env pw ps (AList.update (p @ fileCryptExtension) cipher fs) = (Inr ps, fs')" by blast
  then show ?case using one assms(1) by (simp add: vault_ok_def)
qed simp

lemma lock_ok:
  assumes "vault_ok env pw" "distinct (map fst fs)" "\<forall>p \<in> dom (map_of fs). plain_name p"
  obtains fs' where "EncryptAllFilesInPath env pw fs = (Inr (), fs')" "distinct (map fst fs')"
    "\<forall>p \<in> dom (map_of fs). encrypted_as env pw fs fs' p" "dom (map_of fs') = (\<lambda>p. p @ fileCryptExtension) ` dom (map_of fs)"
proof -
  let ?ps = "walk_order fs"
  note ps = set_walk_order [of fs] distinct_walk_order [OF assms(2)]
  have plain: "\<forall>p \<in> set ?ps. plain_name p" using assms(3) ps(1) by simp
  obtain fs1 where walk: "encrypt_walk env pw ?ps fs = (Inr ?ps, fs1)" using encrypt_walk_ok [OF assms(1), of ?ps fs] ps(1) by auto
  have kept: "map_of fs1 q = map_of fs q" if "q \<notin> (\<lambda>p. p @ fileCryptExtension) ` set ?ps" for q
    by (rule encrypt_walk_others [OF walk]) (use that in auto)
  have there: "map_of fs1 p \<noteq> None" if p: "p \<in> set ?ps" for p
  proof -
    have "p \<notin> (\<lambda>p. p @ fileCryptExtension) ` set ?ps" using plain p by auto
    then show ?thesis using kept p ps(1) by auto
  qed
  have "fst (remove_files env ?ps fs1) = Inr ()" using there ps(2) assms(1) by (intro remove_files_ok) (auto simp: vault_ok_def)
  then obtain fs2 where fs2: "remove_files env ?ps fs1 = (Inr (), fs2)" by (metis prod.collapse)
  have after: "map_of fs2 = (\<lambda>q. if q \<in> set ?ps then None else map_of fs1 q)" using remove_files_effect(1) [OF fs2] by blast
  have enc: "\<forall>p \<in> set ?ps. encrypted_as env pw fs fs1 p" using encrypt_walk_all [OF walk ps(2) plain] by blast
  have "p @ fileCryptExtension \<notin> set ?ps" for p using plain encrypted_not_plain by blast
  then have enc2: "\<forall>p \<in> set ?ps. encrypted_as env pw fs fs2 p" using enc by (simp add: encrypted_as_def after)
  have "q \<in> (\<lambda>p. p @ fileCryptExtension) ` dom (map_of fs)" if "map_of fs2 q \<noteq> None" for q
    using that kept [of q] ps(1) by (auto simp: after split: if_splits)
  moreover have "map_of fs2 (p @ fileCryptExtension) \<noteq> None" if "p \<in> dom (map_of fs)" for p
    using bspec [OF enc2, of p] that ps(1) by (auto simp: encrypted_as_def)
  ultimately have "dom (map_of fs2) = (\<lambda>p. p @ fileCryptExtension) ` dom (map_of fs)" by blast
  moreover have "EncryptAllFilesInPath env pw fs = (Inr (), fs2)" using walk fs2 assms(1) by (simp add: EncryptAllFilesInPath_def vault_ok_def)
  moreover have "distinct (map fst fs2)"
    using remove_files_effect(2) [OF fs2] encrypt_walk_distinct [OF walk assms(2)] by blast
  ultimately show ?thesis using that enc2 ps(1) by simp
qed


section \<open>Unlocking\<close>

lemma user_password_bytes: "bytes_string (string_bytes pw) = pw"
proof -
  have "char_of (unat (of_char c :: byte)) = c" for c
  proof -
    have "(of_char c :: byte) = of_nat (of_char c)" by (simp add: of_nat_of_char)
    then have "unat (of_char c :: byte) = of_char c mod 256" by (simp add: unat_of_nat)
    then show ?thesis by simp
  qed
  then show ?thesis by (simp add: bytes_string_def string_bytes_def comp_def)
qed

lemma user_file_base: "sublist ''user_password'' (path_Base (user_file @ fileCryptExtension))" "plain_name user_file"
  by (simp_all add: user_file_def plain_name_def) code_simp+

lemma decrypt_walk_ok:
  assumes "vault_ok env pw" "distinct qs" "\<forall>q \<in> set qs. plain_name q"
    and "\<forall>q \<in> set qs. \<exists>cipher. map_of fs (q @ fileCryptExtension) = Some cipher \<and> ve_decrypt env pw cipher = Inr (D q)"
  shows "\<exists>fs' v'. decrypt_walk env pw (map (\<lambda>q. q @ fileCryptExtension) qs) v fs = (Inr (qs, map (\<lambda>q. q @ fileCryptExtension) qs, v'), fs')
     \<and> map_of fs' = (\<lambda>r. if r \<in> set qs then Some (D r) else map_of fs r) \<and> (distinct (map fst fs) \<longrightarrow> distinct (map fst fs'))
     \<and> (v \<longrightarrow> v') \<and> (user_file \<in> set qs \<and> D user_file = string_bytes pw \<longrightarrow> v')"
  using assms(2-)
proof (induction qs arbitrary: fs v)
  case (Cons q qs)
  let ?p = "q @ fileCryptExtension"
  obtain cipher where cipher: "map_of fs ?p = Some cipher" "ve_decrypt env pw cipher = Inr (D q)" using Cons.prems(3) by auto
  define fs1 where "fs1 = AList.update q (D q) fs"
  have env: "ve_walk env ?p" "ve_fails env ?p = None" "ve_plain env ?p = q" "ve_stat env user_file" "ve_read env"
    using assms(1) Cons.prems(2) unfolding vault_ok_def by auto
  have one: "crypt_file env (ve_decrypt env pw) ?p (ve_plain env ?p) fs = (Inr q, fs1)"
    by (simp add: crypt_file_def env(2,3) cipher fs1_def)
  define v1 where "v1 \<longleftrightarrow> v \<or> sublist ''user_password'' (path_Base ?p) \<and> pw = GetUserPassword env fs1"
  have "\<forall>r \<in> set qs. \<exists>cipher. map_of fs1 (r @ fileCryptExtension) = Some cipher \<and> ve_decrypt env pw cipher = Inr (D r)"
    using Cons.prems(2,3) by (auto simp: fs1_def update_conv')
  from Cons.IH [OF _ _ this, of v1] Cons.prems(1,2) obtain fs' v'
    where rest: "decrypt_walk env pw (map (\<lambda>q. q @ fileCryptExtension) qs) v1 fs1 = (Inr (qs, map (\<lambda>q. q @ fileCryptExtension) qs, v'), fs')"
      "map_of fs' = (\<lambda>r. if r \<in> set qs then Some (D r) else map_of fs1 r)" "distinct (map fst fs1) \<longrightarrow> distinct (map fst fs')"
      "v1 \<longrightarrow> v'" "user_file \<in> set qs \<and> D user_file = string_bytes pw \<longrightarrow> v'" by auto
  have "decrypt_walk env pw (map (\<lambda>q. q @ fileCryptExtension) (q # qs)) v fs
      = (Inr (q # qs, map (\<lambda>q. q @ fileCryptExtension) (q # qs), v'), fs')"
    using env(1) base_encrypted [of q] one rest(1) by (simp add: v1_def)
  moreover have "map_of fs' = (\<lambda>r. if r \<in> set (q # qs) then Some (D r) else map_of fs r)"
    unfolding rest(2) using Cons.prems(1) by (auto simp: fs1_def update_conv')
  moreover have own: "v1" if "q = user_file" "D user_file = string_bytes pw"
    using that env(4,5) user_file_base(1) by (simp add: v1_def fs1_def update_conv' GetUserPassword_def user_password_bytes)
  moreover have "distinct (map fst fs) \<longrightarrow> distinct (map fst fs')" using rest(3) by (simp add: fs1_def)
  moreover have "(v \<longrightarrow> v') \<and> (user_file \<in> set (q # qs) \<and> D user_file = string_bytes pw \<longrightarrow> v')"
    using rest(4,5) own by (auto simp: v1_def)
  ultimately show ?case by blast
qed simp

lemma decrypt_ok:
  assumes "vault_ok env pw" "distinct (map fst fs)" "dom (map_of fs) = (\<lambda>q. q @ fileCryptExtension) ` Q" "\<forall>q \<in> Q. plain_name q"
    and "\<forall>q \<in> Q. \<exists>cipher. map_of fs (q @ fileCryptExtension) = Some cipher \<and> ve_decrypt env pw cipher = Inr (D q)"
    and "user_file \<in> Q" "D user_file = string_bytes pw"
  shows "\<exists>fs'. DecryptAllFilesInPath env pw fs = (Inr (), fs') \<and> map_of fs' = (\<lambda>q. if q \<in> Q then Some (D q) else None)"
proof -
  let ?ext = "\<lambda>q. q @ fileCryptExtension"
  have "\<forall>p \<in> set (walk_order fs). \<exists>q. p = ?ext q" using assms(3) set_walk_order by auto
  then have "\<exists>qs. walk_order fs = map ?ext qs" unfolding ex_map_conv .
  then obtain qs where qs: "walk_order fs = map ?ext qs" ..
  have "?ext ` set qs = ?ext ` Q" using arg_cong [OF qs, of set] assms(3) set_walk_order [of fs] by simp
  moreover have "inj ?ext" by (simp add: inj_def)
  ultimately have Q: "set qs = Q" by (simp only: inj_image_eq_iff)
  have dist: "distinct qs" using distinct_walk_order [OF assms(2)] unfolding qs distinct_map by blast
  from decrypt_walk_ok [OF assms(1) dist, of fs D False, unfolded Q, OF assms(4,5)] obtain fs1 v
    where walk: "decrypt_walk env pw (map ?ext qs) False fs = (Inr (qs, map ?ext qs, v), fs1)"
      "map_of fs1 = (\<lambda>r. if r \<in> Q then Some (D r) else map_of fs r)" "user_file \<in> Q \<and> D user_file = string_bytes pw \<longrightarrow> v"
    by (elim exE conjE)
  have v: "v" using walk(3) assms(6,7) by simp
  have "map_of fs1 p \<noteq> None" if "p \<in> set (map ?ext qs)" for p
  proof -
    have "p \<in> dom (map_of fs)" using that Q unfolding assms(3) by auto
    then show ?thesis by (auto simp: walk(2))
  qed
  then have "\<forall>p \<in> set (map ?ext qs). map_of fs1 p \<noteq> None \<and> ve_removed env p"
    using assms(1) by (simp add: vault_ok_def)
  moreover have "distinct (map ?ext qs)" using dist by (simp add: distinct_map inj_on_def)
  ultimately have "fst (remove_files env (map ?ext qs) fs1) = Inr ()" by (intro remove_files_ok)
  then obtain fs2 where fs2: "remove_files env (map ?ext qs) fs1 = (Inr (), fs2)" by (metis prod.collapse)
  from remove_files_effect(1) [OF this] obtain R
    where "map_of fs2 = (\<lambda>q. if q \<in> R then None else map_of fs1 q)" "R = set (map ?ext qs)" by blast
  then have after: "map_of fs2 = (\<lambda>q. if q \<in> ?ext ` Q then None else map_of fs1 q)" using Q by simp
  have "map_of fs2 = (\<lambda>q. if q \<in> Q then Some (D q) else None)"
  proof
    fix q
    have "q \<notin> ?ext ` Q" if "q \<in> Q" using that assms(4) encrypted_not_plain by blast
    moreover have "map_of fs q = None" if "q \<notin> ?ext ` Q" using that unfolding assms(3) [symmetric] by (simp add: domIff)
    ultimately show "map_of fs2 q = (if q \<in> Q then Some (D q) else None)" unfolding after walk(2) by simp
  qed
  moreover have "DecryptAllFilesInPath env pw fs = (Inr (), fs2)"
    using walk(1) v fs2 assms(1) unfolding DecryptAllFilesInPath_def qs by (simp add: vault_ok_def)
  ultimately show ?thesis by blast
qed

text \<open>When every encrypted file is refused, nothing is written.\<close>

lemma decrypt_walk_refused:
  assumes "\<forall>p \<in> set ps. \<not> plain_name p \<longrightarrow> ve_fails env p = None \<and> (\<exists>content e. map_of fs p = Some content \<and> ve_decrypt env pw content = Inl e)"
  shows "snd (decrypt_walk env pw ps v fs) = fs \<and> fst (decrypt_walk env pw ps v fs) \<in> range Inl \<union> {Inr ([], [], v)}"
  using assms by (induction ps) (auto simp: crypt_file_def plain_name_def)

lemma unlock_refused:
  assumes "\<forall>p \<in> dom (map_of fs). \<not> plain_name p \<longrightarrow> ve_fails env p = None \<and> (\<exists>e. ve_decrypt env pw (the (map_of fs p)) = Inl e)"
  shows "unlock env pw fs = (PromptWindow, fs)"
proof -
  have "\<forall>p \<in> set (walk_order fs). \<not> plain_name p \<longrightarrow> ve_fails env p = None \<and> (\<exists>content e. map_of fs p = Some content \<and> ve_decrypt env pw content = Inl e)"
    using assms unfolding set_walk_order by fastforce
  from decrypt_walk_refused [OF this, of False] obtain e where
    "decrypt_walk env pw (walk_order fs) False fs = (Inl e, fs) \<or> decrypt_walk env pw (walk_order fs) False fs = (Inr ([], [], False), fs)"
    by (metis UnE prod.collapse rangeE singletonD)
  then show ?thesis by (auto simp: unlock_def DecryptAllFilesInPath_def)
qed


section \<open>Sessions\<close>

lemma go_split_extend:
  "sep \<notin> set r \<Longrightarrow> go_split sep s \<noteq> [] \<and> go_split sep (s @ r) = butlast (go_split sep s) @ [last (go_split sep s) @ r]"
proof (induction s)
  case (Cons c s)
  then show ?case by (cases "go_split sep s") auto
qed (simp add: go_split_no_sep)

lemma shard_entry_encrypted: "shard_entry (p @ fileCryptExtension) \<longleftrightarrow> shard_entry p"
proof -
  have "go_split (CHR ''/'') p \<noteq> []" "go_split (CHR ''/'') (p @ fileCryptExtension)
      = butlast (go_split (CHR ''/'') p) @ [last (go_split (CHR ''/'') p) @ fileCryptExtension]"
    using go_split_extend [of "CHR ''/''" fileCryptExtension p] by auto
  then show ?thesis
    by (cases "go_split (CHR ''/'') p" rule: remdups_adj.cases) (auto simp: shard_entry_def split: list.splits)
qed

lemma clean_ok:
  assumes "vault_ok env pw" "distinct (map fst fs)" "cleanShardFolderOnExit env fs = (res, fs')"
  shows "map_of fs' = (\<lambda>q. if shard_entry q then None else map_of fs q)" "distinct (map fst fs')"
proof -
  let ?ps = "filter shard_entry (walk_order fs)"
  have run: "remove_files env ?ps fs = (res, fs')"
    using assms(1,3) by (simp add: cleanShardFolderOnExit_def vault_ok_def)
  have "fst (remove_files env ?ps fs) = Inr ()"
  proof (rule remove_files_ok)
    show "distinct ?ps" using distinct_walk_order [OF assms(2)] by simp
    show "\<forall>p \<in> set ?ps. map_of fs p \<noteq> None \<and> ve_removed env p"
      using assms(1) by (auto simp: set_walk_order vault_ok_def)
  qed
  then have "res = Inr ()" using run by simp
  then obtain R where R: "map_of fs' = (\<lambda>q. if q \<in> R then None else map_of fs q)" "R = set ?ps"
    using remove_files_effect(1) [OF run] by blast
  show "map_of fs' = (\<lambda>q. if shard_entry q then None else map_of fs q)"
    by (rule ext) (auto simp: R set_walk_order)
  show "distinct (map fst fs')" using remove_files_effect(2) [OF run assms(2)] .
qed

text \<open>What closing the main window leaves.\<close>

lemma closed_folder:
  assumes "vault_ok env pw" "pw \<noteq> []" "distinct (map fst fs)" "\<forall>p \<in> dom (map_of fs). plain_name p"
    and "map_of fs user_file = Some (string_bytes pw)"
  shows "distinct (map fst (close_window env fs))"
    "dom (map_of (close_window env fs)) = (\<lambda>p. p @ fileCryptExtension) ` {p \<in> dom (map_of fs). \<not> shard_entry p}"
    "p \<in> dom (map_of fs) \<Longrightarrow> \<not> shard_entry p \<Longrightarrow> encrypted_as env pw fs (close_window env fs) p"
proof -
  obtain fs1 where lock: "EncryptAllFilesInPath env pw fs = (Inr (), fs1)" "distinct (map fst fs1)"
    "\<forall>p \<in> dom (map_of fs). encrypted_as env pw fs fs1 p" "dom (map_of fs1) = (\<lambda>p. p @ fileCryptExtension) ` dom (map_of fs)"
    using lock_ok [OF assms(1,3,4)] .
  have "GetUserPassword env fs = pw"
    using assms(1,5) by (simp add: GetUserPassword_def user_password_bytes vault_ok_def)
  then have fs1: "encryptFilesOnExit env fs = fs1" using assms(2) lock(1) by (simp add: encryptFilesOnExit_def)
  obtain res fs2 where fs2: "cleanShardFolderOnExit env fs1 = (res, fs2)" by fastforce
  then have close: "close_window env fs = fs2" by (simp add: close_window_def fs1)
  note clean = clean_ok [OF assms(1) lock(2) fs2]
  show "distinct (map fst (close_window env fs))" unfolding close by (rule clean(2))
  have "dom (map_of fs2) = {q \<in> dom (map_of fs1). \<not> shard_entry q}" by (auto simp: clean(1) split: if_splits)
  also have "\<dots> = (\<lambda>p. p @ fileCryptExtension) ` {p \<in> dom (map_of fs). \<not> shard_entry p}"
    unfolding lock(4) using shard_entry_encrypted by blast
  finally show "dom (map_of (close_window env fs)) = (\<lambda>p. p @ fileCryptExtension) ` {p \<in> dom (map_of fs). \<not> shard_entry p}"
    unfolding close .
  show "encrypted_as env pw fs (close_window env fs) p" if "p \<in> dom (map_of fs)" "\<not> shard_entry p"
    using bspec [OF lock(3) that(1)] that(2) unfolding close by (simp add: encrypted_as_def clean(1) shard_entry_encrypted)
qed

lemma user_stays:
  assumes "map_of fs user_file = Some data"
  shows "user_file \<in> {p \<in> dom (map_of fs). \<not> shard_entry p}"
proof -
  have "\<not> shard_entry user_file" by code_simp
  then show ?thesis using assms by auto
qed

lemma closed_asks:
  assumes "vault_ok env pw" "pw \<noteq> []" "distinct (map fst fs)" "\<forall>p \<in> dom (map_of fs). plain_name p"
    and "map_of fs user_file = Some (string_bytes pw)"
  shows "first_window env (close_window env fs) = PromptWindow"
proof -
  obtain content cipher where c: "ve_encrypt env pw content = Inr cipher" "map_of (close_window env fs) (user_file @ fileCryptExtension) = Some cipher"
    using closed_folder(3) [OF assms, of user_file] user_stays [OF assms(5)] by (auto simp: encrypted_as_def)
  then have "cipher \<noteq> []" using assms(1) unfolding vault_ok_def by (metis Inr_inject)
  moreover have "ve_stat env (user_file @ fileCryptExtension)" using assms(1) by (simp add: vault_ok_def)
  ultimately show ?thesis using c(2) by (simp add: first_window_def DoesUserPasswordExist_def)
qed

lemma closed_unlocks:
  assumes "vault_ok env pw" "pw \<noteq> []" "distinct (map fst fs)" "\<forall>p \<in> dom (map_of fs). plain_name p"
    and "map_of fs user_file = Some (string_bytes pw)"
  shows "\<exists>fs'. unlock env pw (close_window env fs) = (MainWindow, fs') \<and> map_of fs' = (\<lambda>p. if shard_entry p then None else map_of fs p)"
proof -
  let ?locked = "close_window env fs" and ?Q = "{p \<in> dom (map_of fs). \<not> shard_entry p}"
  note closed = closed_folder [OF assms]
  have dec: "\<forall>q \<in> ?Q. \<exists>cipher. map_of ?locked (q @ fileCryptExtension) = Some cipher \<and> ve_decrypt env pw cipher = Inr (the (map_of fs q))"
  proof
    fix q assume "q \<in> ?Q"
    then obtain content cipher where "map_of fs q = Some content" "ve_encrypt env pw content = Inr cipher"
        "map_of ?locked (q @ fileCryptExtension) = Some cipher" using closed(3) [of q] by (auto simp: encrypted_as_def)
    then show "\<exists>cipher. map_of ?locked (q @ fileCryptExtension) = Some cipher \<and> ve_decrypt env pw cipher = Inr (the (map_of fs q))"
      using assms(1) unfolding vault_ok_def by (metis Inr_inject option.sel)
  qed
  have plain: "\<forall>q \<in> ?Q. plain_name q" using assms(4) by simp
  obtain fs' where "DecryptAllFilesInPath env pw ?locked = (Inr (), fs')" "map_of fs' = (\<lambda>q. if q \<in> ?Q then Some (the (map_of fs q)) else None)"
    using decrypt_ok [OF assms(1) closed(1,2) plain dec user_stays [OF assms(5)]] assms(5) by auto
  moreover have "(\<lambda>q. if q \<in> ?Q then Some (the (map_of fs q)) else None) = (\<lambda>p. if shard_entry p then None else map_of fs p)"
    by (auto simp: fun_eq_iff)
  ultimately show ?thesis using assms(2) by (simp add: unlock_def)
qed

text \<open>C19. Closing the window and opening it again. When no call fails and the stored password of the user is not empty, closing the main
  window leaves no file in the clear. The next start asks for the password; the right one gives back every file, except the
  files of the shard directory, which are cleaned up. A password whose decryption is refused for what the right one has
  encrypted changes nothing.\<close>

theorem closed_session_reopens:
  assumes "vault_ok env pw" "pw \<noteq> []" "distinct (map fst fs)" "\<forall>p \<in> dom (map_of fs). plain_name p"
    and "map_of fs user_file = Some (string_bytes pw)"
  shows "let locked = close_window env fs in
     (\<forall>p. plain_name p \<longrightarrow> map_of locked p = None) \<and> first_window env locked = PromptWindow
     \<and> (\<exists>fs'. unlock env pw locked = (MainWindow, fs') \<and> map_of fs' = (\<lambda>p. if shard_entry p then None else map_of fs p))
     \<and> (\<forall>wrong. (\<forall>c cipher. ve_encrypt env pw c = Inr cipher \<longrightarrow> (\<exists>e. ve_decrypt env wrong cipher = Inl e)) \<longrightarrow>
          unlock env wrong locked = (PromptWindow, locked))"
proof -
  let ?locked = "close_window env fs" and ?Q = "{p \<in> dom (map_of fs). \<not> shard_entry p}"
  note closed = closed_folder [OF assms]
  have "map_of ?locked p = None" if "plain_name p" for p
  proof -
    have "p \<notin> (\<lambda>p. p @ fileCryptExtension) ` ?Q" using that by auto
    then show ?thesis unfolding closed(2) [symmetric] by (simp add: domIff)
  qed
  moreover have "unlock env wrong ?locked = (PromptWindow, ?locked)"
    if wrong: "\<forall>c cipher. ve_encrypt env pw c = Inr cipher \<longrightarrow> (\<exists>e. ve_decrypt env wrong cipher = Inl e)" for wrong
  proof (rule unlock_refused, intro ballI impI conjI)
    fix p assume p: "p \<in> dom (map_of ?locked)"
    then obtain q where "q \<in> ?Q" "p = q @ fileCryptExtension" unfolding closed(2) by auto
    then obtain content cipher where "ve_encrypt env pw content = Inr cipher" "map_of ?locked p = Some cipher"
      using closed(3) [of q] by (auto simp: encrypted_as_def)
    then show "\<exists>e. ve_decrypt env wrong (the (map_of ?locked p)) = Inl e" using wrong by simp
    show "ve_fails env p = None" using assms(1) by (simp add: vault_ok_def)
  qed
  ultimately show ?thesis using closed_asks [OF assms] closed_unlocks [OF assms] by (simp add: Let_def)
qed

text \<open>C21. An encryption of the directory loses nothing, whichever calls fail and wherever it stops: every file that it found is either still there as
  it was, or there is its encryption under the password.\<close>

theorem lock_loses_nothing:
  assumes "EncryptAllFilesInPath env pw fs = (res, fs')" "distinct (map fst fs)" "\<forall>p \<in> dom (map_of fs). plain_name p"
    and "map_of fs p = Some content"
  shows "map_of fs' p = Some content \<or> (\<exists>cipher. ve_encrypt env pw content = Inr cipher \<and> map_of fs' (p @ fileCryptExtension) = Some cipher)"
  using lock_keeps [OF assms] assms(4) by (auto simp: encrypted_as_def)

text \<open>C40. After a crash nobody is let in. The directory is locked when the main window is closed; when the program has ended
  otherwise, its files are in the clear. The next start then asks for the password, finds nothing to decrypt, and so
  has nothing to compare the password with: every password is refused, the right one included, and nothing changes.\<close>

theorem locked_out_after_crash:
  assumes "\<forall>p \<in> dom (map_of fs). plain_name p" "map_of fs user_file = Some data" "data \<noteq> []" "ve_stat env user_file"
  shows "first_window env fs = PromptWindow \<and> (\<forall>pw. unlock env pw fs = (PromptWindow, fs))"
proof -
  have "unlock env pw fs = (PromptWindow, fs)" for pw by (rule unlock_refused) (use assms(1) in blast)
  then show ?thesis using assms(2-4) by (simp add: first_window_def DoesUserPasswordExist_def)
qed

text \<open>A cipher that puts the length of the password before the content.\<close>

definition sample_vault :: vault_env where
  "sample_vault = \<lparr>ve_walk = (\<lambda>_. True), ve_fails = (\<lambda>_. None), ve_encrypt = (\<lambda>pw c. Inr (of_nat (length pw) # c)),
     ve_decrypt = (\<lambda>pw c. if c \<noteq> [] \<and> hd c = of_nat (length pw) then Inr (tl c) else Inl ErrShardSize),
     ve_plain = (\<lambda>p. take (length p - 5) p), ve_removed = (\<lambda>_. True), ve_stat = (\<lambda>_. True), ve_read = True, ve_mkdir = True,
     ve_write = None\<rparr>"

definition sample_folder :: folder where
  "sample_folder = [(''rclone.conf'', [3, 4]), (''data/datamap.json'', [1]), (user_file, string_bytes ''pw''), (''shard/a.fcef.0'', [2])]"

lemma sample_vault_ok: "vault_ok sample_vault pw"
  by (simp add: vault_ok_def sample_vault_def)

lemma sample_folder_plain:
  "distinct (map fst sample_folder)" "\<forall>p \<in> dom (map_of sample_folder). plain_name p" "map_of sample_folder user_file = Some (string_bytes ''pw'')"
  "map_of sample_folder ''rclone.conf'' = Some [3, 4]"
proof -
  have "list_all plain_name (map fst sample_folder)" by code_simp
  then show "\<forall>p \<in> dom (map_of sample_folder). plain_name p" by (simp add: list_all_iff dom_map_of_conv_image_fst)
qed code_simp+

theorem closed_session_reopens_witness:
  "let locked = close_window sample_vault sample_folder in
     map_of locked ''rclone.conf'' = None \<and> first_window sample_vault locked = PromptWindow
     \<and> unlock sample_vault ''other'' locked = (PromptWindow, locked)
     \<and> (\<exists>fs'. unlock sample_vault ''pw'' locked = (MainWindow, fs') \<and> map_of fs' ''rclone.conf'' = Some [3, 4])"
proof -
  note session = closed_session_reopens [OF sample_vault_ok _ sample_folder_plain(1-3), unfolded Let_def]
  have "plain_name ''rclone.conf''" "\<not> shard_entry ''rclone.conf''" by code_simp+
  moreover have "\<forall>c cipher. ve_encrypt sample_vault ''pw'' c = Inr cipher \<longrightarrow> (\<exists>e. ve_decrypt sample_vault ''other'' cipher = Inl e)"
    by (auto simp: sample_vault_def)
  ultimately show ?thesis using session sample_folder_plain(4) by (auto simp: Let_def)
qed

theorem lock_loses_nothing_witness:
  "let (res, fs') = EncryptAllFilesInPath (sample_vault\<lparr>ve_removed := (\<lambda>_. False)\<rparr>) ''pw'' sample_folder
   in map_of fs' ''rclone.conf'' = Some [3, 4] \<or> map_of fs' ''rclone.conf.fcef'' = Some [2, 3, 4]"
proof -
  obtain res fs' where run: "EncryptAllFilesInPath (sample_vault\<lparr>ve_removed := (\<lambda>_. False)\<rparr>) ''pw'' sample_folder = (res, fs')" by fastforce
  have "map_of fs' ''rclone.conf'' = Some [3, 4] \<or> map_of fs' ''rclone.conf.fcef'' = Some [2, 3, 4]"
    using lock_loses_nothing [OF run sample_folder_plain(1,2,4)] by (simp add: sample_vault_def)
  then show ?thesis unfolding run by simp
qed

theorem locked_out_after_crash_witness:
  "first_window sample_vault sample_folder = PromptWindow \<and> unlock sample_vault ''pw'' sample_folder = (PromptWindow, sample_folder)"
  using locked_out_after_crash [OF sample_folder_plain(2,3)] by (simp add: sample_vault_def string_bytes_def)

end
