(* ===== verification/Spec2Isabelle.thy ===== *)
theory Spec2Isabelle
  imports Splitting Updates Recovery Commands Shard_Files Concurrent_Streams Vault
begin

text \<open>
  A verification library for \<open>cloud_storage\<close>, a fork of rclone with a distributed storage layer of its own. An upload encrypts a file,
  cuts it into data shards, adds parity shards (Reed-Solomon over GF(256)), gives every shard a hashed name and copies the shards to the configured
  remotes; a download fetches them, repairs what is missing and restores the file; a removal deletes them. What is
  stored where is recorded in a JSON file, the data map.

  \<^bold>\<open>The program and the theories.\<close> The theories follow the layers of the program; each imports the ones it calls.

  \<^item> \<open>Prelude\<close>: bytes, results (\<open>rs_error + 'a\<close>; a Go panic is an error of the sum), slices of lists, the interleavings of goroutines,
    collections of facts.
  \<^item> \<open>Galois\<close> (\<open>reedsolomon/galois.go\<close>, \<open>gentables.go\<close>): the logarithm, exponent and inverse tables, the product tables as the generators of
    \<open>gentables.go\<close> compute them (that the 65536 literals of \<open>galois.go\<close> are their output is not proved), and the arithmetic on them. \<open>Matrix\<close> (\<open>matrix.go\<close>): matrices as lists of rows, Gauss-Jordan elimination in the order of the code, the Vandermonde
    matrix. \<open>Inversion_Tree\<close> (\<open>inversion_tree.go\<close>): the cache of inverted matrices.
  \<^item> \<open>Options\<close> (\<open>options.go\<close>), \<open>Coding\<close> (the loops over byte ranges and goroutines of \<open>reedsolomon.go\<close>), \<open>Reed_Solomon\<close> (its data, the constructors and every
    operation), \<open>Encoders\<close> (what \<open>New\<close> builds), \<open>Codewords\<close> (\<open>Encode\<close>, \<open>Verify\<close>, the reconstructions), \<open>Incremental\<close> (\<open>EncodeIdx\<close>),
    \<open>Updates\<close> (\<open>Update\<close>), \<open>Splitting\<close> (\<open>Split\<close>, \<open>Join\<close>).
  \<^item> \<open>Streaming\<close> and \<open>Concurrent_Streams\<close> (\<open>streaming.go\<close>): the encoder of streams. The functions that read and write the shards of a block are a
    record, as they are fields of the encoder in the code; they take one shard after the other or all at once.
  \<^item> \<open>Hashing\<close>, \<open>Hash_Vectors\<close> (\<open>fs/dis_operations/hash.go\<close>): SHA-256 written out, the hashed names, and the hashes of the names of the examples.
  \<^item> \<open>Shard_Files\<close> (the layer's part of \<open>streaming.go\<close>: \<open>DoEncode\<close>, \<open>DoDecode\<close>): a file becomes shard files and comes back. Its state \<open>local\<close> is the
    file system and the two package variables with the numbers of shards.
  \<^item> \<open>Metadata\<close> (\<open>dis_metadata.go\<close>), \<open>Keyed_Store\<close> (the contract of a store with keys), \<open>Datamap\<close> (\<open>datamap.go\<close>, \<open>dis_ls.go\<close>), \<open>Load_Balancer\<close>
    (\<open>dis_loadbalance.go\<close>): records, the data map, and the choice of a remote.
  \<^item> \<open>Removal\<close> (\<open>dis_rm.go\<close>): the state \<open>world\<close> of the layer (data map, statistics, shard directory, objects of the remotes), and one goroutine per
    shard under a scheduler.
  \<^item> \<open>Worker_Pool\<close>: the pool of workers with its channel and its wait group, which uploads and downloads have in common, as a step relation; the
    locale \<open>pool_client\<close> is the contract of its jobs. \<open>Upload\<close> and \<open>Download\<close> (\<open>dis_upload.go\<close>, \<open>dis_download.go\<close>) give the
    phases of a job and interpret it. \<open>Machine\<close>: the state of a command (\<open>world\<close>, \<open>local\<close> and the password file), paths, passwords, questions.
    \<open>Upload_Command\<close>: the preparation of an upload and \<open>Dis_Upload\<close>. \<open>Upload_Outcome\<close>, \<open>End_To_End\<close>: what an upload leaves, and from an
    upload to a download.
  \<^item> \<open>Status\<close> (\<open>dis_status.go\<close> and the bodies of the commands in \<open>cmd/dis_upload\<close>, \<open>cmd/dis_download\<close>, \<open>cmd/dis_rm\<close>): unfinished work. \<open>Recovery\<close>: an upload
    that is killed, and the command after it.
  \<^item> \<open>Vault\<close> (\<open>dis_password.go\<close>, \<open>gui/main.go\<close>): the lock of the data directory.
  \<^item> \<open>Fs_Errors\<close> (\<open>fs/fserrors\<close>, \<open>lib/errors\<close>), \<open>Commands\<close> (\<open>cmd/cmd.go\<close>): the classes of errors, the retries and the exit codes.

  \<^bold>\<open>How code becomes definitions.\<close> Definitions carry the names of the code. Errors are values of a sum; a panic that nothing recovers, \<open>os.Exit\<close> and a
  call that never returns are outcomes of their own (\<open>shard_end\<close>, \<open>run_end\<close>). Goroutines that share nothing but counters and files are interleaved
  step by step: lists of atomic steps merged in any order (\<open>Coding\<close>, \<open>Removal\<close>), or the step relation of the pool. The order in which
  Go ranges over a map is an argument, a permutation. Integers that can overflow are words or have the wrap-around written out (the round-robin
  counter). Calls on remotes are arguments that say how the call ends: it takes effect, fails, reports success without an effect (which the
  command runner does for errors of no category, see \<open>Commands\<close>), or ends the process. \<open>upload_calls\<close> and the set of good shards of a
  download say which of these a theorem admits: a script gives for every shard how its copy ends and whether its temporary file can be removed, and a theorem about
  \<open>Scripted s\<close> states the exact outcome for every script, silent failures included. The slice expressions of the coding loops are checked
  where they are evaluated (\<open>in_range\<close>, \<open>run_steps\<close>), and one out of range is a panic. Failing reads and writes of files are arguments as well; a failed write says what it left.
  The encryption is a package of its own and an argument; its hypothesis is that decryption undoes encryption.

  \<^bold>\<open>What the theorems show.\<close>
  The field and the matrices: the tables implement the field, elimination inverts exactly the invertible matrices, every square choice of rows of
  the coding matrix is invertible. The encoder: the tuned, concurrent coding loops compute the matrix product under every schedule; what is lost is repaired, or an error
  says why not; incremental encoding and updates equal a fresh encoding; streams, block by block and shards read in any order, equal memory. Files: a file comes
  back from any shards as many as it has data shards. The data map: every operation keeps it well formed, whichever writes fail.
  The layer: an upload that reports success has recorded every shard and stored those whose copy did not fail silently; an upload in which no call fails ends and
  succeeds under every schedule; from what the remotes keep of it, the file is downloaded again; a removal deletes what the calls delete, and is completed
  when it was killed among its deletions, but not when it was killed between its last two writes (\<open>rm_moment\<close>); an upload that is killed is undone by
  the next command once its file is recorded, but for what its workers had in hand, and is not undone when it was killed before (\<open>prepare_killed\<close>). The lock: no file is lost, and the right
  password gives all of them back. Several theorems state what the code does where it does not do what it means to; they say so in their text.

  \<^bold>\<open>Bounds and fuel.\<close> No fuel is used: recursion is structural or has a measure; the loops over streams are partial functions, proved to return
  for all readers. The pool relation has runs of any length, and each ends (\<open>up.runs_end\<close>, a measure on jobs and phases). The round robin is
  stated for counters that stay below \<open>2 ^ 63\<close>. The layer starts 32 workers, which bounds what a killed upload leaves.

  \<^bold>\<open>Not modelled.\<close> The Leopard encoders beyond their constructors (the layer never takes them) and the assembler kernels
  (the portable loops are). The functions \<open>startUploadFileGoroutine\<close> and \<open>startDownloadFileGoroutine\<close>, which nothing calls, printing and time
  measurement (a throughput is an argument), and the branches of \<open>CheckState\<close> behind a constant answer. \<open>dis_config\<close> copies directories only. Upstream
  rclone, from the backends to the virtual file system, appears as the outcome of the calls that the layer makes. Data races on the list of errors of
  \<open>MakeDistributionDir\<close> and on Go maps are not represented; the data map is read and written under the lock that the code takes.
\<close>

section \<open>Storing and repairing data\<close>

lemma New_default:
  assumes "0 < d" "0 < p" "d + p \<le> 256" "1 \<le> GOMAXPROCS c"
  obtains r where "New c (int d) (int p) [] = Inr (RS r)" "rs_wf r" "dataShards r = d" "totalShards r = d + p"
    "buildMatrix (int d) (int (d + p)) = Inr (rs_m r)"
proof -
  have dm: "select_matrix (apply_options c []) (int d) (int p) = buildMatrix (int d) (int (d + p))"
    by (simp add: select_matrix_def apply_options_def defaultOptions_def Let_def)
  obtain m where m: "buildMatrix (int d) (int (d + p)) = Inr m"
    using buildMatrix_ok [of d "d + p"] assms by (metis le_add1)
  obtain r where r: "New c (int d) (int p) [] = Inr (RS r)"
    using assms m dm unfolding New_def
    by (auto simp: Let_def apply_options_def defaultOptions_def)
  note wf = New_wf [OF r assms(2) _ assms(4)]
  then have "totalShards r = d + p" by (auto simp: rs_wf_def)
  with r wf dm show ?thesis by (intro that [of r]) auto
qed

text \<open>C7. The storage promise of the library, end to end. Any data of at least one byte, split with
  whatever spare capacity its slice has and encoded with the default options, is read back
  exactly from any shards that are left, as long as there are as many as data shards:
  \<open>Split\<close>, \<open>Encode\<close>, loss, \<open>Reconstruct\<close>, \<open>Join\<close>, with no step failing.\<close>

theorem stored_data_survives:
  assumes "0 < d" "0 < p" "d + p \<le> 256" "1 \<le> GOMAXPROCS c" "data \<noteq> []"
  shows "\<exists>r shards cw. New c (int d) (int p) [] = Inr (RS r) \<and> Split r data capacity = Inr shards \<and> Encode r shards = Inr cw \<and>
    (\<forall>s spare. erased cw s \<and> d \<le> present_count s \<longrightarrow>
       (\<exists>r'. Reconstruct r spare s = Inr (r', cw) \<and>
          Join r' buffer_write [] (map Some cw) (int (length data)) = (data, None)))"
proof -
  obtain r where r: "New c (int d) (int p) [] = Inr (RS r)" "rs_wf r" "dataShards r = d" "totalShards r = d + p"
    "buildMatrix (int d) (int (d + p)) = Inr (rs_m r)"
    using New_default [OF assms(1-4)] .
  obtain shards n where sp: "Split r data capacity = Inr shards" "length shards = totalShards r" "0 < n"
    "\<forall>x \<in> set shards. length x = n" "take (length data) (concat (take (dataShards r) shards)) = data"
    "length data \<le> dataShards r * n"
    using Split_spec [of data r capacity] assms(1,2,5) r by auto
  then obtain cw where cw: "Encode r shards = Inr cw" "codeword r n cw" "take (dataShards r) cw = take (dataShards r) shards"
    using Encode_codeword [OF r(2) sp(2)] by (auto simp: lens_eq_def)
  have join: "Join r' buffer_write [] (map Some cw) (int (length data)) = (data, None)"
    if "dataShards r' = dataShards r" for r'
  proof -
    have "length (concat (take (dataShards r) shards)) = dataShards r * n"
      using sp(2,4) r by (subst length_concat_const [of _ n]) (auto dest: in_set_takeD)
    then show ?thesis
      using buffer.Join_ok [of r' cw "length data" "[]"] that sp cw(3) r codeword_lens [OF r(2) cw(2)] by auto
  qed
  have "\<exists>r'. Reconstruct r spare s = Inr (r', cw) \<and> Join r' buffer_write [] (map Some cw) (int (length data)) = (data, None)"
    if s: "erased cw s" "d \<le> present_count s" for s spare
  proof -
    have "length s = totalShards r" using s(1) codeword_lens [OF r(2) cw(2)] by (simp add: erased_def)
    then have "\<exists>v. Invert (map ((!) (rs_m r)) (rows_used s (dataShards r))) = Inr v"
      using default_rows_invertible [OF r(2)] r assms(3) s(2) by simp
    then obtain tree where "Reconstruct r spare s = Inr (r\<lparr>rs_tree := tree\<rparr>, cw)"
      using reconstruct_cases [OF r(2) cw(2) s(1), of spare False] s(2) r(3)
      by (auto simp: Reconstruct_def restored_def map_nth)
    then show ?thesis using join by simp
  qed
  then show ?thesis using r(1) sp(1) cw(1) by blast
qed

theorem stored_data_survives_witness:
  "\<exists>r shards cw. New (plain_cpu 4) 5 3 [] = Inr (RS r) \<and> Split r [1, 2, 3, 4, 5, 6, 7] 9 = Inr shards \<and> Encode r shards = Inr cw \<and>
    (\<forall>s spare. erased cw s \<and> 5 \<le> present_count s \<longrightarrow>
       (\<exists>r'. Reconstruct r spare s = Inr (r', cw) \<and> Join r' buffer_write [] (map Some cw) 7 = ([1, 2, 3, 4, 5, 6, 7], None)))"
  using stored_data_survives [of 5 3 "plain_cpu 4" "[1, 2, 3, 4, 5, 6, 7]" 9] by (simp add: plain_cpu_def)

end
